(* ===== verification/Prelude.thy ===== *)
theory Prelude
  imports Main "HOL-Library.Word" "HOL-Library.Monad_Syntax"
begin

unbundle bit_operations_syntax

text \<open>
  What every component shares: the machine integers of the C code, its characters and strings,
  the outcome of code that may not return, the polling loop of the drivers, and the reasoning
  rules that go with them.

  Code that can wait for hardware, or that can leave the defined behaviour of C (a read behind
  the end of an array), returns an \<open>option\<close>: \<open>None\<close> says that no result is
  ever delivered. \<open>returns x Q\<close> says that \<open>x\<close> does deliver a result and that the
  result satisfies \<open>Q\<close>, so every theorem stated with it includes termination.
\<close>

section \<open>Types and collections\<close>

type_synonym u8 = "8 word"
type_synonym u16 = "16 word"
type_synonym u32 = "32 word"
type_synonym u64 = "64 word"

named_theorems wp \<open>introduction rules that run a piece of code under a postcondition\<close>
named_theorems addr_defs \<open>addresses and bit masks of the hardware headers\<close>

section \<open>Characters and strings\<close>

text \<open>A C character is a byte; \<open>str\<close> turns a literal into its bytes, without the
  terminating null character. A \<^verbatim>\<open>char *\<close> is \<open>None\<close> for \<^verbatim>\<open>NULL\<close> or the bytes of the array it points
  into, so \<open>cstr\<close> is the pointer to a constant string.\<close>

definition ch :: "char \<Rightarrow> u8" where
  "ch c = of_char c"

definition str :: "string \<Rightarrow> u8 list" where
  "str s = map ch s"

definition cstr :: "u8 list \<Rightarrow> u8 list option" where
  "cstr cs = Some (cs @ [0])"

abbreviation crlf :: "u8 list" where
  "crlf \<equiv> [13, 10]"

text \<open>A store into an array: outside its bounds the code has no defined result.\<close>

definition setb :: "'a list \<Rightarrow> nat \<Rightarrow> 'a \<Rightarrow> 'a list option" where
  "setb buf i v = (if i < length buf then Some (buf[i := v]) else None)"

section \<open>Outcomes\<close>

definition returns :: "'a option \<Rightarrow> ('a \<Rightarrow> bool) \<Rightarrow> bool" where
  "returns x Q = (case x of None \<Rightarrow> False | Some r \<Rightarrow> Q r)"

lemma returns_Some [simp, wp]: "Q r \<Longrightarrow> returns (Some r) Q"
  by (simp add: returns_def)

lemma returns_Some_iff [simp]: "returns (Some r) Q = Q r"
  by (simp add: returns_def)

lemma returns_None [simp]: "\<not> returns None Q"
  by (simp add: returns_def)

lemma returns_bind [wp]: "returns x (\<lambda>r. returns (f r) Q) \<Longrightarrow> returns (x \<bind> f) Q"
  by (cases x) (simp_all add: returns_def)

lemma returns_bind_iff: "returns (x \<bind> f) Q = returns x (\<lambda>r. returns (f r) Q)"
  by (cases x) (simp_all add: returns_def)

lemma returns_bind_pair:
  "returns x (\<lambda>(a, b). P a b) \<Longrightarrow> (\<And>a b. P a b \<Longrightarrow> returns (f a b) Q) \<Longrightarrow>
    returns (x \<bind> (\<lambda>(a, b). f a b)) Q"
  by (cases x) auto

lemma returns_mono: "returns x P \<Longrightarrow> (\<And>r. P r \<Longrightarrow> Q r) \<Longrightarrow> returns x Q"
  by (cases x) (simp_all add: returns_def)

lemma returns_ex: "returns x Q \<longleftrightarrow> (\<exists>r. x = Some r \<and> Q r)"
  by (cases x) (simp_all add: returns_def)

lemma returns_case_prod [wp]:
  "(\<And>a b. p = (a, b) \<Longrightarrow> returns (f a b) Q) \<Longrightarrow> returns (case p of (a, b) \<Rightarrow> f a b) Q"
  by (cases p) simp

lemma returns_if [wp]:
  "(c \<Longrightarrow> returns x Q) \<Longrightarrow> (\<not> c \<Longrightarrow> returns y Q) \<Longrightarrow> returns (if c then x else y) Q"
  by simp

lemma returns_setb [wp]: "i < length buf \<Longrightarrow> Q (buf[i := v]) \<Longrightarrow> returns (setb buf i v) Q"
  by (simp add: setb_def)

section \<open>Polling\<close>

text \<open>
  \<^verbatim>\<open>while ((REG & MASK) == 0);\<close> and its variants: read until the condition holds. Nothing
  bounds such a loop in the code, so it is a partial function; \<open>None\<close> is a loop that
  never ends.
\<close>

partial_function (option) poll :: "('d \<Rightarrow> u32 \<times> 'd) \<Rightarrow> (u32 \<Rightarrow> bool) \<Rightarrow> 'd \<Rightarrow> 'd option" where
  "poll rd p s = (let (v, s') = rd s in if p v then Some s' else poll rd p s')"

lemma poll_step: "rd s = (v, s') \<Longrightarrow> poll rd p s = (if p v then Some s' else poll rd p s')"
  by (subst poll.simps) simp

text \<open>A polling loop ends when a measure decreases with every unsuccessful read.\<close>

lemma poll_returns:
  assumes "I s"
    and "\<And>s v s'. I s \<Longrightarrow> rd s = (v, s') \<Longrightarrow> \<not> p v \<Longrightarrow> I s' \<and> m s' < (m s :: nat)"
    and "\<And>s v s'. I s \<Longrightarrow> rd s = (v, s') \<Longrightarrow> p v \<Longrightarrow> Q s'"
  shows "returns (poll rd p s) Q"
  using assms(1)
proof (induction "m s" arbitrary: s rule: less_induct)
  case less
  obtain v s' where rd: "rd s = (v, s')" by (cases "rd s")
  show ?case
  proof (cases "p v")
    case True
    with less.prems rd assms(3) show ?thesis by (simp add: poll_step)
  next
    case False
    with less.prems rd assms(2) have "I s'" "m s' < m s" by blast+
    with less.hyps have "returns (poll rd p s') Q" by blast
    with rd False show ?thesis by (simp add: poll_step)
  qed
qed

text \<open>It never ends when the condition cannot come true.\<close>

lemma poll_diverges:
  assumes "I s"
    and "\<And>s v s'. I s \<Longrightarrow> rd s = (v, s') \<Longrightarrow> \<not> p v \<and> I s'"
  shows "poll rd p s = None"
proof (rule ccontr)
  assume "poll rd p s \<noteq> None"
  then obtain t where t: "poll rd p s = Some t" by blast
  have "\<not> (\<exists>I. I s \<and> (\<forall>s v s'. I s \<longrightarrow> rd s = (v, s') \<longrightarrow> \<not> p v \<and> I s'))"
  proof (rule poll.raw_induct [OF _ t, where P = "\<lambda>rd p s t.
      \<not> (\<exists>I. I s \<and> (\<forall>s v s'. I s \<longrightarrow> rd s = (v, s') \<longrightarrow> \<not> p v \<and> I s'))"])
    fix poll :: "('d \<Rightarrow> u32 \<times> 'd) \<Rightarrow> (u32 \<Rightarrow> bool) \<Rightarrow> 'd \<Rightarrow> 'd option"
      and rd :: "'d \<Rightarrow> u32 \<times> 'd" and p s t
    assume IH: "\<And>rd p s t. poll rd p s = Some t \<Longrightarrow>
        \<not> (\<exists>I. I s \<and> (\<forall>s v s'. I s \<longrightarrow> rd s = (v, s') \<longrightarrow> \<not> p v \<and> I s'))"
      and eq: "(let (v, s') = rd s in if p v then Some s' else poll rd p s') = Some t"
    obtain v s' where rd: "rd s = (v, s')" by (cases "rd s")
    show "\<not> (\<exists>I. I s \<and> (\<forall>s v s'. I s \<longrightarrow> rd s = (v, s') \<longrightarrow> \<not> p v \<and> I s'))"
      using eq rd IH [of rd p s' t] by (auto split: if_splits)
  qed
  with assms show False by blast
qed

section \<open>Words\<close>

lemma word_eq_unat_iff: "(a = b) = (unat a = unat b)" for a b :: "'a::len word"
  by (simp add: word_unat_eq_iff)

lemma unat_lt_256 [simp]: "unat (b :: u8) < 256"
  using unsigned_less [of b] by simp

lemma unat_word_of_nat8: "n < 256 \<Longrightarrow> unat (word_of_nat n :: u8) = n"
  by (simp add: unsigned_of_nat take_bit_nat_eq_self_iff)

lemma unat_add_word_of_nat8 [simp]:
  "numeral k + d < 256 \<Longrightarrow> unat (numeral k + word_of_nat d :: u8) = numeral k + d"
  using unat_word_of_nat8 [of "numeral k + d"] by simp

lemma ucast_u8_u32_inverse [simp]: "(ucast (ucast b :: u32) :: u8) = b" for b :: u8
  by (rule bit_word_eqI) (simp add: bit_simps)

lemma unat_ucast_u8_u32 [simp]: "unat (ucast b :: u32) = unat (b :: u8)"
  using order_less_trans [OF unat_lt_256 [of b], of "2 ^ 32"]
  by (simp add: unsigned_ucast_eq take_bit_nat_eq_self_iff)

lemma unat_ucast_u16_u32 [simp]: "unat (ucast b :: u32) = unat (b :: u16)"
proof -
  have "unat b < 2 ^ 16" using unsigned_less [of b] by simp
  then show ?thesis by (simp add: unsigned_ucast_eq take_bit_nat_eq_self_iff)
qed

lemma unat_and_mask: "unat (v AND mask n) = unat v mod 2 ^ n" for v :: "'a::len word"
  by (simp flip: take_bit_eq_mask take_bit_eq_mod) (simp add: unsigned_take_bit_eq)

lemma and_mask_word: "v AND mask n = word_of_nat (unat v mod 2 ^ n)" for v :: "'a::len word"
  by (simp flip: unat_and_mask)

lemma unat_Suc_below: "p < e \<Longrightarrow> unat (p + 1) = Suc (unat p)" for p e :: "'a::len word"
  by unat_arith

lemma less_Suc_word: "p < e \<Longrightarrow> (p + 1 \<le> a) = (p < a)" for p e a :: "'a::len word"
  by (simp add: word_le_nat_alt word_less_nat_alt unat_Suc_below Suc_le_eq)

lemma and_not_mask: "x AND NOT (mask n) = push_bit n (drop_bit n x)" for x :: "'a::len word"
  by (rule bit_word_eqI) (auto simp: bit_simps)

lemma unat_drop_div: "unat (drop_bit k w) = unat w div 2 ^ k" for w :: "'a::len word"
  by (subst unat_drop_bit_eq) (rule drop_bit_eq_div)

lemma those_map: "\<forall>x \<in> set xs. f x = Some (g x) \<Longrightarrow> those (map f xs) = Some (map g xs)"
  by (induction xs) auto

end
