(* ===== verification/Hw.thy ===== *)
theory Hw
  imports Prelude
begin

text \<open>
  The hardware as the C code sees it: loads and stores of bytes, halfwords and words, and the
  control and status registers (\<^verbatim>\<open>sw/include/io.h\<close>, \<^verbatim>\<open>sw/include/csr.h\<close> and the bit masks of the
  device headers). Every access can change the state of the machine, because time passes and
  because reading a data register clears flags, so a load returns a value and a new state.
  The \<open>bus\<close> is a parameter of all the firmware: the theory of the machine instantiates it.
\<close>

section \<open>Accesses\<close>

record 'd bus =
  ld32 :: "u32 \<Rightarrow> 'd \<Rightarrow> u32 \<times> 'd"
  st32 :: "u32 \<Rightarrow> u32 \<Rightarrow> 'd \<Rightarrow> 'd"
  ld16 :: "u32 \<Rightarrow> 'd \<Rightarrow> u16 \<times> 'd"
  st16 :: "u32 \<Rightarrow> u16 \<Rightarrow> 'd \<Rightarrow> 'd"
  ld8 :: "u32 \<Rightarrow> 'd \<Rightarrow> u8 \<times> 'd"
  st8 :: "u32 \<Rightarrow> u8 \<Rightarrow> 'd \<Rightarrow> 'd"
  csrr :: "u32 \<Rightarrow> 'd \<Rightarrow> u32 \<times> 'd"
  csrw :: "u32 \<Rightarrow> u32 \<Rightarrow> 'd \<Rightarrow> 'd"

text \<open>A compound assignment to a volatile register: \<^verbatim>\<open>REG op= val\<close> is a load and a store.\<close>

definition rmw :: "'d bus \<Rightarrow> u32 \<Rightarrow> (u32 \<Rightarrow> u32) \<Rightarrow> 'd \<Rightarrow> 'd" where
  "rmw b a f s = (let (v, s') = ld32 b a s in st32 b a (f v) s')"

text \<open>The access macros of \<^verbatim>\<open>csr.h\<close>. The read-modify-write instructions \<^verbatim>\<open>csrrs\<close>,
  \<^verbatim>\<open>csrrc\<close> and \<^verbatim>\<open>csrrw\<close> return the old value.\<close>

definition csr_read :: "'d bus \<Rightarrow> u32 \<Rightarrow> 'd \<Rightarrow> u32 \<times> 'd" where
  "csr_read b csr s = csrr b csr s"

definition csr_write :: "'d bus \<Rightarrow> u32 \<Rightarrow> u32 \<Rightarrow> 'd \<Rightarrow> 'd" where
  "csr_write b csr val s = csrw b csr val s"

definition csr_read_set :: "'d bus \<Rightarrow> u32 \<Rightarrow> u32 \<Rightarrow> 'd \<Rightarrow> u32 \<times> 'd" where
  "csr_read_set b csr val s = (let (v, s') = csrr b csr s in (v, csrw b csr (v OR val) s'))"

definition csr_set :: "'d bus \<Rightarrow> u32 \<Rightarrow> u32 \<Rightarrow> 'd \<Rightarrow> 'd" where
  "csr_set b csr val s = (let (v, s') = csrr b csr s in csrw b csr (v OR val) s')"

definition csr_read_clear :: "'d bus \<Rightarrow> u32 \<Rightarrow> u32 \<Rightarrow> 'd \<Rightarrow> u32 \<times> 'd" where
  "csr_read_clear b csr val s = (let (v, s') = csrr b csr s in (v, csrw b csr (v AND NOT val) s'))"

definition csr_clear :: "'d bus \<Rightarrow> u32 \<Rightarrow> u32 \<Rightarrow> 'd \<Rightarrow> 'd" where
  "csr_clear b csr val s = (let (v, s') = csrr b csr s in csrw b csr (v AND NOT val) s')"

definition csr_swap :: "'d bus \<Rightarrow> u32 \<Rightarrow> u32 \<Rightarrow> 'd \<Rightarrow> u32 \<times> 'd" where
  "csr_swap b csr val s = (let (v, s') = csrr b csr s in (v, csrw b csr val s'))"

section \<open>Control and status registers\<close>

definition mstatus :: u32 where [addr_defs]: "mstatus = 0x300"
definition mie :: u32 where [addr_defs]: "mie = 0x304"
definition mtvec :: u32 where [addr_defs]: "mtvec = 0x305"
definition mepc :: u32 where [addr_defs]: "mepc = 0x341"
definition mcause :: u32 where [addr_defs]: "mcause = 0x342"
definition mtval :: u32 where [addr_defs]: "mtval = 0x343"
definition mimpid :: u32 where [addr_defs]: "mimpid = 0xf13"
definition rdcycle :: u32 where [addr_defs]: "rdcycle = 0xc00"
definition rdtime :: u32 where [addr_defs]: "rdtime = 0xc01"
definition rdinstret :: u32 where [addr_defs]: "rdinstret = 0xc02"
definition rdcycleh :: u32 where [addr_defs]: "rdcycleh = 0xc80"
definition rdtimeh :: u32 where [addr_defs]: "rdtimeh = 0xc81"
definition rdinstreth :: u32 where [addr_defs]: "rdinstreth = 0xc82"

text \<open>\<^verbatim>\<open>mhpmcounter3\<close> to \<^verbatim>\<open>mhpmcounter9\<close> and their high halves are consecutive.\<close>

definition mhpmcounter :: "nat \<Rightarrow> u32" where [addr_defs]: "mhpmcounter n = 0xb00 + word_of_nat n"
definition mhpmcounterh :: "nat \<Rightarrow> u32" where [addr_defs]: "mhpmcounterh n = 0xb80 + word_of_nat n"

section \<open>Memory-mapped registers\<close>

definition IO_BASE :: u32 where [addr_defs]: "IO_BASE = 0xf0000000"

definition GPIOA_BASE :: u32 where [addr_defs]: "GPIOA_BASE = IO_BASE + 0x00"
definition GPIOA_PIN :: u32 where [addr_defs]: "GPIOA_PIN = GPIOA_BASE + 0x00"
definition GPIOA_POUT :: u32 where [addr_defs]: "GPIOA_POUT = GPIOA_BASE + 0x04"
definition GPIOA_EXTC :: u32 where [addr_defs]: "GPIOA_EXTC = GPIOA_BASE + 0x18"
definition GPIOA_EXTS :: u32 where [addr_defs]: "GPIOA_EXTS = GPIOA_BASE + 0x1c"

definition UART1_BASE :: u32 where [addr_defs]: "UART1_BASE = IO_BASE + 0x100"
definition UART1_CTRL :: u32 where [addr_defs]: "UART1_CTRL = UART1_BASE + 0x00"
definition UART1_STAT :: u32 where [addr_defs]: "UART1_STAT = UART1_BASE + 0x04"
definition UART1_DATA :: u32 where [addr_defs]: "UART1_DATA = UART1_BASE + 0x08"
definition UART1_BAUD :: u32 where [addr_defs]: "UART1_BAUD = UART1_BASE + 0x0c"

text \<open>The two I2C units and the two SPI units are the same hardware at two addresses; each
  register of theirs is an offset (field order of \<^verbatim>\<open>I2C_struct_t\<close>, \<^verbatim>\<open>SPI_struct_t\<close>) from the base.\<close>

definition I2C1_BASE :: u32 where [addr_defs]: "I2C1_BASE = IO_BASE + 0x200"
definition I2C2_BASE :: u32 where [addr_defs]: "I2C2_BASE = IO_BASE + 0x300"
definition SPI1_BASE :: u32 where [addr_defs]: "SPI1_BASE = IO_BASE + 0x400"
definition SPI2_BASE :: u32 where [addr_defs]: "SPI2_BASE = IO_BASE + 0x500"
definition CTRL_offset :: u32 where [addr_defs]: "CTRL_offset = 0"
definition STAT_offset :: u32 where [addr_defs]: "STAT_offset = 4"
definition DATA_offset :: u32 where [addr_defs]: "DATA_offset = 8"

definition TIMER1_BASE :: u32 where [addr_defs]: "TIMER1_BASE = IO_BASE + 0x600"
definition TIMER1_CTRL :: u32 where [addr_defs]: "TIMER1_CTRL = TIMER1_BASE + 0x00"
definition TIMER1_STAT :: u32 where [addr_defs]: "TIMER1_STAT = TIMER1_BASE + 0x04"
definition TIMER1_CNTR :: u32 where [addr_defs]: "TIMER1_CNTR = TIMER1_BASE + 0x08"
definition TIMER1_CMPT :: u32 where [addr_defs]: "TIMER1_CMPT = TIMER1_BASE + 0x0c"

definition TIMER2_BASE :: u32 where [addr_defs]: "TIMER2_BASE = IO_BASE + 0x700"
definition TIMER2_CTRL :: u32 where [addr_defs]: "TIMER2_CTRL = TIMER2_BASE + 0x00"
definition TIMER2_STAT :: u32 where [addr_defs]: "TIMER2_STAT = TIMER2_BASE + 0x04"
definition TIMER2_CMPT :: u32 where [addr_defs]: "TIMER2_CMPT = TIMER2_BASE + 0x0c"
definition TIMER2_PRSC :: u32 where [addr_defs]: "TIMER2_PRSC = TIMER2_BASE + 0x10"

definition WDT_BASE :: u32 where [addr_defs]: "WDT_BASE = IO_BASE + 0x800"
definition WDT_CTRL :: u32 where [addr_defs]: "WDT_CTRL = WDT_BASE + 0x00"
definition WDT_TRIG :: u32 where [addr_defs]: "WDT_TRIG = WDT_BASE + 0x04"

definition MSI_BASE :: u32 where [addr_defs]: "MSI_BASE = IO_BASE + 0x900"
definition MSI_TRIG :: u32 where [addr_defs]: "MSI_TRIG = MSI_BASE + 0x00"

definition MTIME :: u32 where [addr_defs]: "MTIME = IO_BASE + 0xa00"
definition MTIMEH :: u32 where [addr_defs]: "MTIMEH = IO_BASE + 0xa04"
definition MTIMECMP :: u32 where [addr_defs]: "MTIMECMP = IO_BASE + 0xa08"
definition MTIMECMPH :: u32 where [addr_defs]: "MTIMECMPH = IO_BASE + 0xa0c"

definition CRC_BASE :: u32 where [addr_defs]: "CRC_BASE = IO_BASE + 0xc00"
definition CRC_CTRL :: u32 where [addr_defs]: "CRC_CTRL = CRC_BASE + 0x00"
definition CRC_STAT :: u32 where [addr_defs]: "CRC_STAT = CRC_BASE + 0x04"
definition CRC_POLY :: u32 where [addr_defs]: "CRC_POLY = CRC_BASE + 0x08"
definition CRC_SREG :: u32 where [addr_defs]: "CRC_SREG = CRC_BASE + 0x0c"
definition CRC_DATA :: u32 where [addr_defs]: "CRC_DATA = CRC_BASE + 0x10"

section \<open>Bit masks\<close>

definition UART_CTRL_EN :: u32 where [addr_defs]: "UART_CTRL_EN = 1"
definition UART_CTRL_RCIE :: u32 where [addr_defs]: "UART_CTRL_RCIE = push_bit 3 1"
definition UART_STAT_RC :: u32 where [addr_defs]: "UART_STAT_RC = push_bit 3 1"
definition UART_STAT_TC :: u32 where [addr_defs]: "UART_STAT_TC = push_bit 4 1"

definition GPIO_PIN_SET :: u32 where [addr_defs]: "GPIO_PIN_SET = 1"
definition GPIO_PIN_0 :: u32 where "GPIO_PIN_0 = 1"
definition GPIO_PIN_1 :: u32 where "GPIO_PIN_1 = 2"
definition GPIO_PIN_RESET :: u32 where [addr_defs]: "GPIO_PIN_RESET = 0"

definition I2C_FAST_MODE :: u32 where [addr_defs]: "I2C_FAST_MODE = push_bit 2 1"
definition I2C_STANDARD_MODE :: u32 where [addr_defs]: "I2C_STANDARD_MODE = 0"
definition I2C_TCIE :: u32 where [addr_defs]: "I2C_TCIE = push_bit 3 1"
definition I2C_MACK :: u32 where [addr_defs]: "I2C_MACK = push_bit 11 1"
definition I2C_HARDSTOP :: u32 where [addr_defs]: "I2C_HARDSTOP = push_bit 10 1"
definition I2C_START :: u32 where [addr_defs]: "I2C_START = push_bit 9 1"
definition I2C_STOP :: u32 where [addr_defs]: "I2C_STOP = push_bit 8 1"
definition I2C_AF :: u32 where [addr_defs]: "I2C_AF = push_bit 5 1"
definition I2C_TC :: u32 where [addr_defs]: "I2C_TC = push_bit 3 1"

definition SPI_TC :: u32 where [addr_defs]: "SPI_TC = push_bit 3 1"
definition SPI_TCIE :: u32 where [addr_defs]: "SPI_TCIE = push_bit 3 1"
definition SPI_MODE0 :: u32 where [addr_defs]: "SPI_MODE0 = 0"
definition SPI_SIZE8 :: u32 where [addr_defs]: "SPI_SIZE8 = 0"
definition SPI_PRESCALER7 :: u32 where [addr_defs]: "SPI_PRESCALER7 = push_bit 8 7"

definition TIMER1_EN :: u32 where [addr_defs]: "TIMER1_EN = 1"
definition TIMER1_TCIE :: u32 where [addr_defs]: "TIMER1_TCIE = push_bit 4 1"
definition TIMER1_TC :: u32 where [addr_defs]: "TIMER1_TC = push_bit 4 1"

definition WDT_EN :: u32 where [addr_defs]: "WDT_EN = 1"
definition WDT_PASSWORD :: u32 where [addr_defs]: "WDT_PASSWORD = 0x5c93a0f1"

definition CRC_TC :: u32 where [addr_defs]: "CRC_TC = push_bit 3 1"

definition F_CPU :: u32 where [addr_defs]: "F_CPU = 50000000"
definition BAUD_RATE :: u32 where [addr_defs]: "BAUD_RATE = 115200"

text \<open>The prescaler macros divide before they shift.\<close>

definition I2C_PRESCALER_FM :: "u32 \<Rightarrow> u32" where
  "I2C_PRESCALER_FM A = push_bit 16 (A div 3 div 400000 - 1)"

definition I2C_PRESCALER_SM :: "u32 \<Rightarrow> u32" where
  "I2C_PRESCALER_SM A = push_bit 16 (A div 2 div 100000 - 1)"

end
