(* ===== verification/Uart.thy ===== *)
theory Uart
  imports Hw
begin

text \<open>
  The driver of the first serial port, \<^verbatim>\<open>sw/lib/uart\<close>, and the contract of the port
  (\<open>locale uart_port\<close>): the laws of single register accesses, from which the driver's
  functions are shown to terminate, to send exactly their characters in order, and to consume
  exactly the characters they return.
\<close>

section \<open>The driver\<close>

definition uart1_init :: "'d bus \<Rightarrow> u32 \<Rightarrow> u32 \<Rightarrow> 'd \<Rightarrow> 'd" where
  "uart1_init b baudrate ctrl s =
     (let (speed, s) = csr_read b 0xfc1 s;
          speed = (if speed = 0 then F_CPU else speed);
          s = st32 b UART1_BAUD (if baudrate = 0 then 0 else speed div baudrate - 1) s;
          s = st32 b UART1_CTRL ctrl s
      in st32 b UART1_STAT 0 s)"

definition uart1_putc :: "'d bus \<Rightarrow> u32 \<Rightarrow> 'd \<Rightarrow> 'd option" where
  "uart1_putc b c s =
     (let s = st32 b UART1_DATA (ucast (ucast c :: u8)) s
      in poll (ld32 b UART1_STAT) (\<lambda>v. v AND UART_STAT_TC \<noteq> 0) s)"

text \<open>\<^verbatim>\<open>while (*s != '\0') uart1_putc(*s++);\<close> over the bytes of the array that \<^verbatim>\<open>s\<close> points into.\<close>

fun puts_loop :: "'d bus \<Rightarrow> u8 list \<Rightarrow> 'd \<Rightarrow> 'd option" where
  "puts_loop b [] s = None"
| "puts_loop b (c # cs) s =
     (if c = 0 then Some s else do { s \<leftarrow> uart1_putc b (ucast c) s; puts_loop b cs s })"

definition uart1_puts :: "'d bus \<Rightarrow> u8 list option \<Rightarrow> 'd \<Rightarrow> 'd option" where
  "uart1_puts b p s = (case p of None \<Rightarrow> Some s | Some cs \<Rightarrow> puts_loop b cs s)"

definition uart1_getc :: "'d bus \<Rightarrow> 'd \<Rightarrow> (u32 \<times> 'd) option" where
  "uart1_getc b s =
     do { s \<leftarrow> poll (ld32 b UART1_STAT) (\<lambda>v. v AND UART_STAT_RC \<noteq> 0) s;
          let (v, s) = ld32 b UART1_DATA s;
          Some (v AND 0x000000ff, s) }"

definition uart1_hasreceived :: "'d bus \<Rightarrow> 'd \<Rightarrow> u32 \<times> 'd" where
  "uart1_hasreceived b s = (let (v, s) = ld32 b UART1_STAT s in (v AND UART_STAT_RC, s))"

subsection \<open>Line input\<close>

text \<open>The loop of control-U: rub out every character of the line.\<close>

fun rubout :: "'d bus \<Rightarrow> nat \<Rightarrow> 'd \<Rightarrow> 'd option" where
  "rubout b 0 s = Some s"
| "rubout b (Suc index) s = do { s \<leftarrow> uart1_putc b 0x7f s; rubout b index s }"

text \<open>One turn of the switch of \<^verbatim>\<open>uart1_gets\<close> for a character that does not end the line.
  \<^verbatim>\<open>index\<close> counts up from 0 and is only decremented when positive, so it is a natural number;
  a store outside the caller's array has no result.\<close>

definition gets_edit ::
    "'d bus \<Rightarrow> int \<Rightarrow> u8 \<Rightarrow> u8 list \<Rightarrow> nat \<Rightarrow> 'd \<Rightarrow> (u8 list \<times> nat \<times> 'd) option" where
  "gets_edit b sz chr buffer index s =
     (if chr = 0x7f \<or> chr = 8 then
        (if index > 0 then do { s \<leftarrow> uart1_putc b 0x7f s; Some (buffer, index - 1, s) }
         else do { s \<leftarrow> uart1_putc b 7 s; Some (buffer, index, s) })
      else if chr = 21 then do { s \<leftarrow> rubout b index s; Some (buffer, 0, s) }
      else if chr = 0x03 then
        do { s \<leftarrow> uart1_puts b (cstr (str ''<break>'' @ crlf)) s; Some (buffer, 0, s) }
      else if int index < sz - 1 then
        (if chr > 0x1f \<and> chr < 0x7f then
           do { buffer \<leftarrow> setb buffer index chr;
                s \<leftarrow> uart1_putc b (ucast chr) s;
                Some (buffer, index + 1, s) }
         else Some (buffer, index, s))
      else do { s \<leftarrow> uart1_putc b 7 s; Some (buffer, index, s) })"

partial_function (option) gets_loop ::
    "'d bus \<Rightarrow> int \<Rightarrow> u8 list \<Rightarrow> nat \<Rightarrow> 'd \<Rightarrow> (nat \<times> u8 list \<times> 'd) option" where
  "gets_loop b sz buffer index s =
     do { (w, s) \<leftarrow> uart1_getc b s;
          let chr = (ucast w :: u8);
          if chr = 10 \<or> chr = 13 then
            do { buffer \<leftarrow> setb buffer index 0;
                 s \<leftarrow> uart1_puts b (cstr crlf) s;
                 Some (index, buffer, s) }
          else
            do { (buffer, index, s) \<leftarrow> gets_edit b sz chr buffer index s;
                 gets_loop b sz buffer index s } }"

definition uart1_gets :: "'d bus \<Rightarrow> u8 list \<Rightarrow> int \<Rightarrow> 'd \<Rightarrow> (nat \<times> u8 list \<times> 'd) option" where
  "uart1_gets b buffer sz s = gets_loop b sz buffer 0 s"

subsection \<open>What line input computes\<close>

text \<open>
  The specification of \<^verbatim>\<open>uart1_gets\<close>: the text of the line after one more character, and what
  is echoed for it. Backspace removes the last character, control-U and control-C the whole
  line; printable characters are appended while fewer than \<^verbatim>\<open>size - 1\<close> are there.
\<close>

definition printable :: "u8 \<Rightarrow> bool" where
  "printable c \<longleftrightarrow> c > 0x1f \<and> c < 0x7f"

definition gets_text :: "int \<Rightarrow> u8 list \<Rightarrow> u8 \<Rightarrow> u8 list" where
  "gets_text sz t c =
     (if c = 0x7f \<or> c = 8 then butlast t
      else if c = 21 \<or> c = 3 then []
      else if int (length t) < sz - 1 \<and> printable c then t @ [c] else t)"

definition gets_echo :: "int \<Rightarrow> u8 list \<Rightarrow> u8 \<Rightarrow> u8 list" where
  "gets_echo sz t c =
     (if c = 0x7f \<or> c = 8 then (if t = [] then [7] else [0x7f])
      else if c = 21 then replicate (length t) 0x7f
      else if c = 3 then str ''<break>'' @ crlf
      else if int (length t) < sz - 1 then (if printable c then [c] else [])
      else [7])"

fun gets_echoes :: "int \<Rightarrow> u8 list \<Rightarrow> u8 list \<Rightarrow> u8 list" where
  "gets_echoes sz t [] = []"
| "gets_echoes sz t (c # cs) = gets_echo sz t c @ gets_echoes sz (gets_text sz t c) cs"

lemma gets_text_length: "int (length t) < sz \<Longrightarrow> int (length (gets_text sz t c)) < sz"
  by (auto simp: gets_text_def)

lemma gets_text_printable:
  "list_all printable t \<Longrightarrow> list_all printable (gets_text sz t c)"
  by (cases t rule: rev_cases) (auto simp: gets_text_def)

lemma foldl_gets_text_printable:
  "list_all printable t \<Longrightarrow> list_all printable (foldl (gets_text sz) t cs)"
  by (induction cs arbitrary: t) (auto simp: gets_text_printable)

lemma foldl_gets_text_length:
  "int (length t) < sz \<Longrightarrow> int (length (foldl (gets_text sz) t cs)) < sz"
  by (induction cs arbitrary: t) (auto simp: gets_text_length)

section \<open>The contract of the port\<close>

text \<open>
  \<open>ready\<close> says that the port is enabled and its transmitter idle, \<open>outp\<close> is what has
  been sent, \<open>inp\<close> what has been received or is still to come from the other side, and
  \<open>rest\<close> everything else of the machine. \<open>sending c n s t\<close>: at \<open>t\<close>, the character
  \<open>c\<close> written at \<open>s\<close> is in the shift register for \<open>n\<close> more status reads; \<open>rxwait\<close>
  bounds the status reads until the next character has arrived.
\<close>

locale uart_port =
  fixes b :: "'d bus"
    and ready :: "'d \<Rightarrow> bool"
    and outp :: "'d \<Rightarrow> u8 list"
    and inp :: "'d \<Rightarrow> u8 list"
    and rest :: "'d \<Rightarrow> 'r"
    and sending :: "u8 \<Rightarrow> nat \<Rightarrow> 'd \<Rightarrow> 'd \<Rightarrow> bool"
    and arrived :: "'d \<Rightarrow> bool"
    and rxwait :: "'d \<Rightarrow> nat"
  assumes tx_start: "ready s \<Longrightarrow> \<exists>n. sending (ucast v) n s (st32 b UART1_DATA v s)"
    and tx_busy: "sending c (Suc n) s t \<Longrightarrow> ld32 b UART1_STAT t = (v, t') \<Longrightarrow>
      v AND UART_STAT_TC = 0 \<and> sending c n s t'"
    and tx_done: "sending c 0 s t \<Longrightarrow> ld32 b UART1_STAT t = (v, t') \<Longrightarrow>
      v AND UART_STAT_TC \<noteq> 0 \<and> ready t' \<and> outp t' = outp s @ [c] \<and> inp t' = inp s
        \<and> rest t' = rest s"
    and stat_read: "ready s \<Longrightarrow> ld32 b UART1_STAT s = (v, s') \<Longrightarrow>
      ready s' \<and> outp s' = outp s \<and> inp s' = inp s \<and> rest s' = rest s"
    and rx_done: "ready s \<Longrightarrow> ld32 b UART1_STAT s = (v, s') \<Longrightarrow> v AND UART_STAT_RC \<noteq> 0 \<Longrightarrow>
      arrived s' \<and> inp s \<noteq> []"
    and rx_wait: "ready s \<Longrightarrow> ld32 b UART1_STAT s = (v, s') \<Longrightarrow> v AND UART_STAT_RC = 0 \<Longrightarrow>
      inp s \<noteq> [] \<Longrightarrow> rxwait s' < rxwait s"
    and rx_data: "ready s \<Longrightarrow> arrived s \<Longrightarrow> inp s = c # cs \<Longrightarrow> ld32 b UART1_DATA s = (v, s') \<Longrightarrow>
      v AND 0xff = ucast c \<and> ready s' \<and> outp s' = outp s \<and> inp s' = cs \<and> rest s' = rest s"
begin

definition talks :: "u8 list \<Rightarrow> u8 list \<Rightarrow> 'd \<Rightarrow> 'd \<Rightarrow> bool" where
  "talks sent got s s' \<longleftrightarrow>
     ready s' \<and> outp s' = outp s @ sent \<and> inp s = got @ inp s' \<and> rest s' = rest s"

lemma talks_refl [simp]: "ready s \<Longrightarrow> talks [] [] s s"
  by (simp add: talks_def)

lemma talks_ready: "talks xs ys s s' \<Longrightarrow> ready s'"
  by (simp add: talks_def)

lemma talks_inp: "talks xs ys s s' \<Longrightarrow> inp s = ys @ inp s'"
  by (simp add: talks_def)

lemma talks_rest: "talks xs ys s s' \<Longrightarrow> rest s' = rest s"
  by (simp add: talks_def)

lemma talks_trans:
  "talks xs ys s t \<Longrightarrow> talks xs' ys' t u \<Longrightarrow> talks (xs @ xs') (ys @ ys') s u"
  by (auto simp: talks_def)

lemma sending_poll:
  "sending c n s t \<Longrightarrow>
    returns (poll (ld32 b UART1_STAT) (\<lambda>v. v AND UART_STAT_TC \<noteq> 0) t) (talks [c] [] s)"
proof (induction n arbitrary: t)
  case 0
  obtain v t' where "ld32 b UART1_STAT t = (v, t')" by (cases "ld32 b UART1_STAT t")
  with tx_done [OF 0 this] show ?case by (simp add: poll_step talks_def)
next
  case (Suc n)
  obtain v t' where "ld32 b UART1_STAT t = (v, t')" by (cases "ld32 b UART1_STAT t")
  with tx_busy [OF Suc.prems this] Suc.IH show ?case by (simp add: poll_step)
qed

lemma putc_wp [wp]:
  assumes "ready s" and "\<And>s'. talks [ucast c] [] s s' \<Longrightarrow> Q s'"
  shows "returns (uart1_putc b c s) Q"
proof -
  from tx_start [OF assms(1), of "ucast (ucast c :: u8)"]
  obtain n where "sending (ucast c) n s (st32 b UART1_DATA (ucast (ucast c :: u8)) s)" by auto
  from returns_mono [OF sending_poll [OF this] assms(2)] show ?thesis
    by (simp add: uart1_putc_def)
qed

text \<open>A string is sent up to its null character.\<close>

lemma puts_loop_wp:
  assumes "ready s" and "0 \<notin> set cs" and "\<And>s'. talks cs [] s s' \<Longrightarrow> Q s'"
  shows "returns (puts_loop b (cs @ 0 # tail) s) Q"
  using assms
proof (induction cs arbitrary: s Q)
  case Nil
  then show ?case by simp
next
  case (Cons c cs)
  have "returns (puts_loop b (cs @ 0 # tail) t) Q" if "talks [c] [] s t" for t
    using that Cons.prems(2) talks_ready [OF that]
    by (intro Cons.IH Cons.prems(3)) (auto dest: talks_trans)
  with Cons.prems(1,2) show ?case by (auto intro!: wp)
qed

lemma puts_wp [wp]:
  assumes "ready s" and "0 \<notin> set cs" and "\<And>s'. talks cs [] s s' \<Longrightarrow> Q s'"
  shows "returns (uart1_puts b (cstr cs) s) Q"
  using puts_loop_wp [OF assms] by (simp add: uart1_puts_def cstr_def)

lemma getc_wp:
  assumes "ready s" and "inp s = c # cs" and "\<And>s'. talks [] [c] s s' \<Longrightarrow> Q (ucast c, s')"
  shows "returns (uart1_getc b s) Q"
proof -
  have "returns (poll (ld32 b UART1_STAT) (\<lambda>v. v AND UART_STAT_RC \<noteq> 0) s)
    (\<lambda>t. talks [] [] s t \<and> arrived t)"
  proof (rule poll_returns [where I = "talks [] [] s" and m = rxwait])
    show "talks [] [] s s" using assms(1) by simp
  next
    fix t v t'
    assume t: "talks [] [] s t" "ld32 b UART1_STAT t = (v, t')" "\<not> v AND UART_STAT_RC \<noteq> 0"
    from t(1) assms(2) have "inp t \<noteq> []" by (auto simp: talks_def)
    with t stat_read [OF talks_ready [OF t(1)] t(2)] rx_wait [OF talks_ready [OF t(1)] t(2)]
    show "talks [] [] s t' \<and> rxwait t' < rxwait t" by (auto simp: talks_def)
  next
    fix t v t'
    assume t: "talks [] [] s t" "ld32 b UART1_STAT t = (v, t')" "v AND UART_STAT_RC \<noteq> 0"
    with stat_read [OF talks_ready [OF t(1)] t(2)] rx_done [OF talks_ready [OF t(1)] t(2)]
    show "talks [] [] s t' \<and> arrived t'" by (auto simp: talks_def)
  qed
  moreover have "returns (let (v, s) = ld32 b UART1_DATA t in Some (v AND 0x000000ff, s)) Q"
    if "talks [] [] s t \<and> arrived t" for t
  proof -
    obtain v t' where ld: "ld32 b UART1_DATA t = (v, t')" by (cases "ld32 b UART1_DATA t")
    from that assms(2) have "inp t = c # cs" by (simp add: talks_def)
    with that rx_data [OF _ _ this ld] assms(2) have "v AND 0xff = ucast c" "talks [] [c] s t'"
      by (auto simp: talks_def)
    with ld assms(3) show ?thesis by simp
  qed
  ultimately show ?thesis
    unfolding uart1_getc_def by (intro returns_bind) (rule returns_mono)
qed

text \<open>Reading with nothing to come blocks for ever.\<close>

lemma getc_blocks:
  assumes "ready s" and "inp s = []"
  shows "uart1_getc b s = None"
proof -
  have "poll (ld32 b UART1_STAT) (\<lambda>v. v AND UART_STAT_RC \<noteq> 0) s = None"
    using assms by (intro poll_diverges [where I = "\<lambda>t. ready t \<and> inp t = []"])
      (use stat_read rx_done in fastforce)+
  then show ?thesis by (simp add: uart1_getc_def)
qed

subsection \<open>Line input\<close>

lemma rubout_wp [wp]:
  "ready s \<Longrightarrow> (\<And>s'. talks (replicate n 0x7f) [] s s' \<Longrightarrow> Q s') \<Longrightarrow> returns (rubout b n s) Q"
proof (induction n arbitrary: s Q)
  case 0
  then show ?case by simp
next
  case (Suc n)
  have "returns (rubout b n t) Q" if "talks [0x7f] [] s t" for t
    using that talks_ready [OF that]
    by (intro Suc.IH Suc.prems(2)) (auto dest: talks_trans)
  with Suc.prems(1) show ?case by (auto intro!: wp)
qed

lemma gets_edit_wp:
  assumes "ready s" and "take (length t) buf = t"
    and "int (length t) < sz" and "sz \<le> int (length buf)"
  shows "returns (gets_edit b sz c buf (length t) s) (\<lambda>(buf', i', s').
    i' = length (gets_text sz t c) \<and> take i' buf' = gets_text sz t c \<and> length buf' = length buf
      \<and> talks (gets_echo sz t c) [] s s')"
proof -
  have append: "take (Suc (length t)) (buf[length t := c]) = t @ [c]"
    using assms(2-4) by (simp add: take_Suc_conv_app_nth)
  have butlast: "take (length t - Suc 0) buf = butlast t"
    using assms(2) by (metis One_nat_def butlast_take length_take less_imp_le_nat
        linorder_not_le min.absorb_iff2 min_def nat_le_linear take_all_iff)
  have zero: "0 \<notin> set (str ''<break>'' @ crlf)"
    by (simp add: str_def ch_def)
  from assms append butlast zero show ?thesis
    unfolding gets_edit_def
    by (auto intro!: wp simp: gets_text_def gets_echo_def printable_def)
qed

lemma gets_loop_wp:
  assumes "ready s" and "take (length t) buf = t"
    and "int (length t) < sz" and "sz \<le> int (length buf)"
    and "inp s = cs @ nl # later" and "nl = 10 \<or> nl = 13" and "10 \<notin> set cs" "13 \<notin> set cs"
  shows "returns (gets_loop b sz buf (length t) s) (\<lambda>(n, buf', s').
    n = length (foldl (gets_text sz) t cs) \<and> take n buf' = foldl (gets_text sz) t cs
      \<and> buf' ! n = 0 \<and> length buf' = length buf
      \<and> talks (gets_echoes sz t cs @ crlf) (cs @ [nl]) s s')"
  using assms
proof (induction cs arbitrary: t buf s)
  case Nil
  then show ?case
    by (subst gets_loop.simps, intro returns_bind getc_wp)
      (auto intro!: wp dest: talks_ready talks_trans)
next
  case (Cons c cs)
  have step: "returns (gets_loop b sz buf' (length (gets_text sz t c)) u) (\<lambda>(n, buf'', s').
      n = length (foldl (gets_text sz) t (c # cs)) \<and> take n buf'' = foldl (gets_text sz) t (c # cs)
      \<and> buf'' ! n = 0 \<and> length buf'' = length buf
      \<and> talks (gets_echoes sz t (c # cs) @ crlf) ((c # cs) @ [nl]) s s')"
    if "talks [] [c] s r" "talks (gets_echo sz t c) [] r u" "length buf' = length buf"
      "take (length (gets_text sz t c)) buf' = gets_text sz t c" for r u buf'
  proof -
    have su: "talks (gets_echo sz t c) [c] s u"
      using talks_trans [OF that(1,2)] by simp
    have "inp u = cs @ nl # later"
      using Cons.prems(5) talks_inp [OF su] by simp
    with su that Cons.prems have "returns (gets_loop b sz buf' (length (gets_text sz t c)) u)
        (\<lambda>(n, buf'', s'). n = length (foldl (gets_text sz) (gets_text sz t c) cs)
        \<and> take n buf'' = foldl (gets_text sz) (gets_text sz t c) cs
        \<and> buf'' ! n = 0 \<and> length buf'' = length buf'
        \<and> talks (gets_echoes sz (gets_text sz t c) cs @ crlf) (cs @ [nl]) u s')"
      by (intro Cons.IH) (auto simp: gets_text_length talks_ready)
    then show ?thesis
      by (rule returns_mono) (use that(3) talks_trans [OF su] in auto)
  qed
  have "c \<noteq> 10" "c \<noteq> 13" using Cons.prems(7,8) by auto
  with Cons.prems(1-5) show ?case
    by (subst gets_loop.simps, intro returns_bind getc_wp)
      (auto intro!: wp returns_mono [OF gets_edit_wp] step [simplified] simp: talks_ready)
qed

text \<open>\<^verbatim>\<open>uart1_gets\<close> reads up to the end of the line, keeps within the array and returns the
  edited line, terminated by a null character.\<close>

lemma gets_wp:
  assumes "ready s" and "0 < sz" and "sz \<le> int (length buf)"
    and "inp s = cs @ nl # later" and "nl = 10 \<or> nl = 13" and "10 \<notin> set cs" "13 \<notin> set cs"
  shows "returns (uart1_gets b buf sz s) (\<lambda>(n, buf', s').
    n = length (foldl (gets_text sz) [] cs) \<and> take n buf' = foldl (gets_text sz) [] cs
      \<and> buf' ! n = 0 \<and> length buf' = length buf
      \<and> talks (gets_echoes sz [] cs @ crlf) (cs @ [nl]) s s')"
  using gets_loop_wp [of s "[]" buf sz cs nl later] assms by (simp add: uart1_gets_def)

end

end
