(* ===== verification/Clib.thy ===== *)
theory Clib
  imports Prelude
begin

text \<open>
  The character classification of the C standard library (\<^verbatim>\<open>ctype.h\<close>, "C" locale), on the
  bytes the code passes to it, and the numbers that strings of digits denote.
\<close>

section \<open>ctype\<close>

definition isdigit :: "u8 \<Rightarrow> bool" where
  "isdigit c \<longleftrightarrow> 48 \<le> c \<and> c \<le> 57"

definition isxdigit :: "u8 \<Rightarrow> bool" where
  "isxdigit c \<longleftrightarrow> 48 \<le> c \<and> c \<le> 57 \<or> 65 \<le> c \<and> c \<le> 70 \<or> 97 \<le> c \<and> c \<le> 102"

definition isspace :: "u8 \<Rightarrow> bool" where
  "isspace c \<longleftrightarrow> c = 32 \<or> 9 \<le> c \<and> c \<le> 13"

definition tolower :: "u8 \<Rightarrow> u8" where
  "tolower c = (if 65 \<le> c \<and> c \<le> 90 then c + 32 else c)"

definition toupper :: "u8 \<Rightarrow> u8" where
  "toupper c = (if 97 \<le> c \<and> c \<le> 122 then c - 32 else c)"

section \<open>Digits\<close>

text \<open>The value of a hexadecimal digit, and the digit of a value, as the specification of the
  conversion routines uses them.\<close>

definition hexval :: "u8 \<Rightarrow> nat" where
  "hexval c = (if isdigit c then unat c - 48
    else if 65 \<le> c \<and> c \<le> 70 then unat c - 55
    else if 97 \<le> c \<and> c \<le> 102 then unat c - 87 else 0)"

definition hexdigit :: "nat \<Rightarrow> u8" where
  "hexdigit d = (if d < 10 then word_of_nat (48 + d) else word_of_nat (87 + d))"

definition hexnum :: "u8 list \<Rightarrow> nat" where
  "hexnum cs = foldl (\<lambda>v c. 16 * v + hexval c) 0 cs"

text \<open>The \<open>n\<close> low hexadecimal digits of a number, most significant first.\<close>

fun hexstr :: "nat \<Rightarrow> nat \<Rightarrow> u8 list" where
  "hexstr 0 v = []"
| "hexstr (Suc n) v = hexstr n (v div 16) @ [hexdigit (v mod 16)]"

text \<open>Decimal digits without leading zeros; zero has the one digit 0.\<close>

fun decstr :: "nat \<Rightarrow> u8 list" where
  "decstr v = (if v < 10 then [word_of_nat (48 + v)]
    else decstr (v div 10) @ [word_of_nat (48 + v mod 10)])"

declare decstr.simps [simp del]

definition decval :: "u8 list \<Rightarrow> nat" where
  "decval cs = foldl (\<lambda>v c. 10 * v + (unat c - 48)) 0 cs"

section \<open>Facts\<close>

lemma unat_hexdigit: "d < 16 \<Longrightarrow> unat (hexdigit d) = (if d < 10 then 48 + d else 87 + d)"
  by (simp add: hexdigit_def)

lemma hexval_hexdigit [simp]: "d < 16 \<Longrightarrow> hexval (hexdigit d) = d"
  by (auto simp: hexval_def isdigit_def word_le_nat_alt unat_hexdigit)

lemma isxdigit_hexdigit [simp]: "d < 16 \<Longrightarrow> isxdigit (hexdigit d)"
  by (auto simp: isxdigit_def word_le_nat_alt unat_hexdigit)

lemma length_hexstr [simp]: "length (hexstr n v) = n"
  by (induction n arbitrary: v) auto

lemma hexstr_digits:
  "hexstr 2 v = [hexdigit (v div 16 mod 16), hexdigit (v mod 16)]"
  "hexstr 4 v = [hexdigit (v div 16 div 16 div 16 mod 16), hexdigit (v div 16 div 16 mod 16),
    hexdigit (v div 16 mod 16), hexdigit (v mod 16)]"
proof -
  have n: "(2 :: nat) = Suc (Suc 0)" "(4 :: nat) = Suc (Suc (Suc (Suc 0)))" by simp_all
  show "hexstr 2 v = [hexdigit (v div 16 mod 16), hexdigit (v mod 16)]"
    unfolding n(1) by simp
  show "hexstr 4 v = [hexdigit (v div 16 div 16 div 16 mod 16), hexdigit (v div 16 div 16 mod 16),
      hexdigit (v div 16 mod 16), hexdigit (v mod 16)]"
    unfolding n(2) by simp
qed

lemma set_hexstr: "c \<in> set (hexstr n v) \<Longrightarrow> isxdigit c"
  by (induction n arbitrary: v) auto

lemma hexval_lt_16: "hexval c < 16"
  by (auto simp: hexval_def isdigit_def word_le_nat_alt)

lemma hexnum_snoc [simp]: "hexnum (cs @ [c]) = 16 * hexnum cs + hexval c"
  by (simp add: hexnum_def)

lemma hexnum_Nil [simp]: "hexnum [] = 0"
  by (simp add: hexnum_def)

lemma hexnum_hexstr: "hexnum (hexstr n v) = v mod 16 ^ n"
proof (induction n arbitrary: v)
  case 0
  then show ?case by simp
next
  case (Suc n)
  have "hexnum (hexstr (Suc n) v) = 16 * (v div 16 mod 16 ^ n) + v mod 16"
    by (simp add: Suc)
  also have "\<dots> = v mod (16 * 16 ^ n)"
    by (simp add: mod_mult2_eq)
  finally show ?case by simp
qed

lemma hexnum_bound: "hexnum cs < 16 ^ length cs"
proof (induction cs rule: rev_induct)
  case Nil
  then show ?case by simp
next
  case (snoc c cs)
  have "hexval c < 16" by (rule hexval_lt_16)
  with snoc have "16 * hexnum cs + hexval c < 16 * 16 ^ length cs" by linarith
  then show ?case by simp
qed

lemma decval_snoc [simp]: "decval (cs @ [c]) = 10 * decval cs + (unat c - 48)"
  by (simp add: decval_def)

lemma decval_Nil [simp]: "decval [] = 0"
  by (simp add: decval_def)

lemma unat_digit: "d < 10 \<Longrightarrow> unat (word_of_nat (48 + d) :: u8) = 48 + d"
  by simp

lemma decval_decstr [simp]: "decval (decstr v) = v"
proof (induction v rule: decstr.induct)
  case (1 v)
  show ?case
  proof (cases "v < 10")
    case True
    then have "decstr v = [] @ [word_of_nat (48 + v)]" by (simp add: decstr.simps [of v])
    then show ?thesis using True unat_digit [of v] by (simp only: decval_snoc decval_Nil)
  next
    case False
    then show ?thesis
      using 1 unat_digit [of "v mod 10"] by (simp add: decstr.simps [of v])
  qed
qed

lemma decstr_digits: "c \<in> set (decstr v) \<Longrightarrow> isdigit c"
proof (induction v rule: decstr.induct)
  case (1 v)
  have "isdigit (word_of_nat (48 + d))" if "d < 10" for d
    using that by (simp add: isdigit_def word_le_nat_alt unat_digit [OF that])
  then show ?case using 1 by (subst (asm) decstr.simps) (auto split: if_splits)
qed

lemma decstr_nonempty [simp]: "decstr v \<noteq> []"
  by (subst decstr.simps) simp

lemma length_decstr: "v < 10 ^ k \<Longrightarrow> 0 < k \<Longrightarrow> length (decstr v) \<le> k"
proof (induction k arbitrary: v)
  case 0
  then show ?case by simp
next
  case (Suc k)
  show ?case
  proof (cases "v < 10")
    case True
    then show ?thesis by (subst decstr.simps) simp
  next
    case False
    with Suc.prems have "v div 10 < 10 ^ k" by (simp add: less_mult_imp_div_less mult.commute)
    moreover have "0 < k" using False Suc.prems by (cases k) auto
    ultimately have "length (decstr (v div 10)) \<le> k" by (rule Suc.IH)
    with False show ?thesis by (subst decstr.simps) simp
  qed
qed

text \<open>Upper case, and numbers put together from fields.\<close>

lemma toupper_facts [simp]: "toupper (toupper c) = toupper c"
  "hexval (toupper c) = hexval c"
  by (auto simp: toupper_def hexval_def isdigit_def word_le_nat_alt unat_sub_if' word_eq_unat_iff)

lemma isxdigit_toupper [simp]: "isxdigit (toupper c) = isxdigit c"
  by (auto simp: toupper_def isxdigit_def word_le_nat_alt unat_sub_if')

lemma hexnum_Cons: "hexnum (c # cs) = hexval c * 16 ^ length cs + hexnum cs"
  by (induction cs rule: rev_induct) (simp_all add: hexnum_def algebra_simps)

lemma hexnum_append: "hexnum (cs @ ds) = hexnum cs * 16 ^ length ds + hexnum ds"
  by (induction cs) (simp_all add: hexnum_Cons algebra_simps power_add)

lemma hexstr_add: "hexstr (m + n) v = hexstr m (v div 16 ^ n) @ hexstr n v"
  by (induction n arbitrary: v) (simp_all add: div_mult2_eq)

end
