(* ===== verification/Util.thy ===== *)
theory Util
  imports Uart Clib
begin

text \<open>
  The utility functions of \<^verbatim>\<open>sw/lib/util\<close> and the number printing of \<^verbatim>\<open>sw/lib/uart\<close>: hexadecimal
  and decimal output, hexadecimal input, the delay loop, and the fixed messages. A local
  \<^verbatim>\<open>char buf[N]\<close> is a list of length \<open>N\<close>, and storing outside it has no result.
\<close>

section \<open>Hexadecimal output\<close>

text \<open>The loop of \<^verbatim>\<open>printhex\<close> stores digit \<open>i\<close> at \<^verbatim>\<open>n-1-i\<close>; \<open>k\<close> is \<open>n - i\<close>, the digits
  still to do.\<close>

definition hexchar :: "u32 \<Rightarrow> u8" where
  "hexchar v = (let c = (ucast ((v AND 0x0f) + 48) :: u8) in if c > 57 then c + (97 - 48 - 10) else c)"

fun printhex_loop :: "nat \<Rightarrow> u32 \<Rightarrow> u8 list \<Rightarrow> u8 list option" where
  "printhex_loop 0 v buf = Some buf"
| "printhex_loop (Suc k) v buf =
     do { buf \<leftarrow> setb buf k (hexchar v); printhex_loop k (drop_bit 4 v) buf }"

definition printhex :: "'d bus \<Rightarrow> u32 \<Rightarrow> int \<Rightarrow> 'd \<Rightarrow> 'd option" where
  "printhex b v n s =
     (let n = (if n < 1 \<or> n > 8 then 8 else n)
      in do { buf \<leftarrow> printhex_loop (nat n) v (replicate 9 0); uart1_puts b (Some buf) s })"

section \<open>Decimal output\<close>

text \<open>\<^verbatim>\<open>while (uv > 0) { c = uv % 10 + '0'; i--; buf[i] = c; uv /= 10; }\<close>, for 32 and 64 bits.\<close>

fun dec_loop :: "'a::len word \<Rightarrow> nat \<Rightarrow> u8 list \<Rightarrow> (nat \<times> u8 list) option" where
  "dec_loop uv 0 buf = (if uv > 0 then None else Some (0, buf))"
| "dec_loop uv (Suc i) buf =
     (if uv > 0 then
        do { buf \<leftarrow> setb buf i (ucast (uv mod 10) + 48); dec_loop (uv div 10) i buf }
      else Some (Suc i, buf))"

definition printdec :: "'d bus \<Rightarrow> u32 \<Rightarrow> 'd \<Rightarrow> 'd option" where
  "printdec b v s =
     (if v = 0 then uart1_putc b 48 s
      else do {
        (uv, s) \<leftarrow> (if sint v < 0 then do { s \<leftarrow> uart1_putc b 45 s; Some (- v, s) } else Some (v, s));
        (i, buf) \<leftarrow> dec_loop uv 11 (replicate 12 0);
        uart1_puts b (Some (drop i buf)) s })"

definition uart1_printlonglong :: "'d bus \<Rightarrow> u64 \<Rightarrow> 'd \<Rightarrow> 'd option" where
  "uart1_printlonglong b v s =
     (if v = 0 then uart1_putc b 48 s
      else do {
        (uv, s) \<leftarrow> (if sint v < 0 then do { s \<leftarrow> uart1_putc b 45 s; Some (- v, s) } else Some (v, s));
        (i, buf) \<leftarrow> dec_loop uv 20 (replicate 21 0);
        uart1_puts b (Some (drop i buf)) s })"

definition uart1_printulonglong :: "'d bus \<Rightarrow> u64 \<Rightarrow> 'd \<Rightarrow> 'd option" where
  "uart1_printulonglong b uv s =
     (if uv = 0 then uart1_putc b 48 s
      else do {
        (i, buf) \<leftarrow> dec_loop uv 20 (replicate 21 0);
        uart1_puts b (Some (drop i buf)) s })"

section \<open>Hexadecimal input\<close>

text \<open>One digit shifted into the value; a character that is no digit shifts in a zero.\<close>

definition hex_shift :: "u32 \<Rightarrow> u8 \<Rightarrow> u32" where
  "hex_shift v c =
     (let v = push_bit 4 v in
      if isdigit c then v OR (ucast c - 48)
      else if isxdigit c then v OR (ucast (tolower c) - 97 + 10)
      else v)"

fun gethex_loop :: "'d bus \<Rightarrow> nat \<Rightarrow> u32 \<Rightarrow> 'd \<Rightarrow> (u32 \<times> 'd) option" where
  "gethex_loop b 0 v s = Some (v, s)"
| "gethex_loop b (Suc k) v s =
     do { (c, s) \<leftarrow> uart1_getc b s; gethex_loop b k (hex_shift v (ucast c)) s }"

definition gethex :: "'d bus \<Rightarrow> int \<Rightarrow> 'd \<Rightarrow> (u32 \<times> 'd) option" where
  "gethex b n s = gethex_loop b (nat n) 0 s"

text \<open>\<^verbatim>\<open>parsehex\<close> gives the value and the rest of the string (\<^verbatim>\<open>*ppchar\<close>).\<close>

fun skip_space :: "u8 list \<Rightarrow> u8 list option" where
  "skip_space [] = None"
| "skip_space (c # cs) = (if isspace c then skip_space cs else Some (c # cs))"

fun parsehex_loop :: "u32 \<Rightarrow> u8 list \<Rightarrow> (u32 \<times> u8 list) option" where
  "parsehex_loop v [] = None"
| "parsehex_loop v (c # cs) =
     (if isxdigit c then parsehex_loop (hex_shift v c) cs else Some (v, c # cs))"

definition parsehex :: "u8 list \<Rightarrow> (u32 \<times> u8 list) option" where
  "parsehex s = do { s \<leftarrow> skip_space s; parsehex_loop 0 s }"

section \<open>The delay loop\<close>

text \<open>\<^verbatim>\<open>mv t0,ms; 1: addi t0,t0,-1; bne t0,zero,1b\<close>: the number of turns. The loop tests after it
  has decremented.\<close>

function delay_turns :: "u32 \<Rightarrow> nat" where
  "delay_turns t0 = (let t0 = t0 - 1 in if t0 \<noteq> 0 then Suc (delay_turns t0) else 1)"
  by pat_completeness auto
termination
proof (relation "measure (\<lambda>t0. unat (t0 - 1))", goal_cases)
  case 1
  then show ?case by simp
next
  case (2 t0 x)
  then have "x \<noteq> 0" by simp
  then have "unat (x - 1) < unat x" by (rule measure_unat)
  with 2 show ?case by simp
qed

declare delay_turns.simps [simp del]

definition delayms :: "'d bus \<Rightarrow> u32 \<Rightarrow> 'd \<Rightarrow> nat \<times> 'd" where
  "delayms b delay s =
     (let (speed, s) = csr_read b 0xfc1 s;
          speed = (if speed = 0 then F_CPU else speed);
          prems = speed div 4000 + 1;
          ms = delay * prems
      in (delay_turns ms, s))"

section \<open>Fixed messages\<close>

text \<open>A number of two decimal digits in one byte of the version; the tens are left out when 0.\<close>

definition print_bcd :: "'d bus \<Rightarrow> u32 \<Rightarrow> nat \<Rightarrow> 'd \<Rightarrow> 'd option" where
  "print_bcd b version sh s =
     do { let tens = drop_bit (sh + 4) version AND 0xf;
          s \<leftarrow> (if tens \<noteq> 0 then uart1_putc b (tens + 48) s else Some s);
          uart1_putc b ((drop_bit sh version AND 0xf) + 48) s }"

definition printhwversion :: "'d bus \<Rightarrow> 'd \<Rightarrow> 'd option" where
  "printhwversion b s =
     do { let (version, s) = csr_read b mimpid s;
          s \<leftarrow> print_bcd b version 24 s;
          s \<leftarrow> uart1_putc b 46 s;
          s \<leftarrow> print_bcd b version 16 s;
          s \<leftarrow> uart1_putc b 46 s;
          s \<leftarrow> print_bcd b version 8 s;
          s \<leftarrow> uart1_putc b 46 s;
          print_bcd b version 0 s }"

definition logo :: "u8 list" where
  "logo = crlf @ str ''___       _  __    _ '' @ [92] @ str '' /__ __ '' @ crlf
     @ str '' | |_|| ||_|(_ ---|_) V __) _)'' @ crlf
     @ str '' | | ||_|| |__)   | '' @ [92] @ str ''   __)/__'' @ crlf"

definition printlogo :: "'d bus \<Rightarrow> 'd \<Rightarrow> 'd option" where
  "printlogo b s = uart1_puts b (cstr logo) s"

section \<open>Facts\<close>

subsection \<open>The digits are the digits of the number\<close>

lemma hexchar_hexdigit: "hexchar v = hexdigit (unat v mod 16)"
proof -
  have d: "unat v mod 16 < 16" by simp
  have v: "v AND 0x0f = word_of_nat (unat v mod 16)"
    using and_mask_word [of v 4] by (simp add: mask_eq_exp_minus_1)
  have c: "(ucast ((v AND 0x0f) + 48 :: u32) :: u8) = 48 + word_of_nat (unat v mod 16)"
    by (rule word_unat_eq_iff [THEN iffD2]) (simp add: v unat_word_ariths unsigned_ucast_eq take_bit_eq_mod unsigned_of_nat)
  show ?thesis
    using d by (simp add: hexchar_def c hexdigit_def word_less_nat_alt)
qed

lemma printhex_loop_eq:
  "k \<le> length buf \<Longrightarrow> printhex_loop k v buf = Some (hexstr k (unat v) @ drop k buf)"
proof (induction k arbitrary: v buf)
  case 0
  then show ?case by simp
next
  case (Suc k)
  have "drop k (buf[k := hexchar v]) = hexchar v # drop (Suc k) buf"
    using Suc.prems by (simp add: drop_update_swap Cons_nth_drop_Suc [symmetric])
  with Suc show ?case by (simp add: setb_def hexchar_hexdigit drop_bit_eq_div unat_div_distrib)
qed

lemma hexdigit_nonzero: "d < 16 \<Longrightarrow> hexdigit d \<noteq> 0"
  using unat_hexdigit [of d] by (cases "d < 10") auto

lemma hexstr_nonzero: "0 \<notin> set (hexstr n v)"
  by (induction n arbitrary: v) (auto simp: hexdigit_nonzero [symmetric] dest: sym)

lemma decstr_nonzero: "0 \<notin> set (decstr v)"
  using decstr_digits [of 0 v] by (auto simp: isdigit_def)

lemma decstr_0 [simp]: "decstr 0 = [48]"
  by (simp add: decstr.simps)

lemma dec_digit:
  fixes uv :: "'a::len word"
  assumes "unat (10 :: 'a word) = 10"
  shows "(ucast (uv mod 10) :: u8) + 48 = word_of_nat (48 + unat uv mod 10)"
    and "unat (uv div 10) = unat uv div 10"
proof -
  have "(ucast (uv mod 10) :: u8) = word_of_nat (unat (uv mod 10))"
    by (rule word_eq_unat_iff [THEN iffD2]) (simp add: unsigned_of_nat unsigned_ucast_eq)
  also have "unat (uv mod 10) = unat uv mod 10"
    using assms by (simp add: unat_mod_distrib)
  finally show "(ucast (uv mod 10) :: u8) + 48 = word_of_nat (48 + unat uv mod 10)" by simp
  show "unat (uv div 10) = unat uv div 10"
    using assms by (simp add: unat_div_distrib)
qed

lemma dec_loop_0 [simp]: "dec_loop 0 i buf = Some (i, buf)"
  by (cases i) simp_all

declare dec_loop.simps [simp del]

lemma dec_loop_eq:
  fixes uv :: "'a::len word"
  assumes "unat (10 :: 'a word) = 10"
  shows "uv \<noteq> 0 \<Longrightarrow> unat uv < 10 ^ i \<Longrightarrow> i \<le> length buf \<Longrightarrow>
    \<exists>j xs. dec_loop uv i buf = Some (j, xs @ decstr (unat uv) @ drop i buf) \<and> length xs = j"
proof (induction i arbitrary: uv buf)
  case 0
  then show ?case by (simp add: unat_eq_zero)
next
  case (Suc i)
  let ?d = "word_of_nat (48 + unat uv mod 10) :: u8"
  have buf: "drop i (buf[i := ?d]) = ?d # drop (Suc i) buf"
    using Suc.prems(3) by (simp add: drop_update_swap Cons_nth_drop_Suc [symmetric])
  have uv: "0 < uv" using Suc.prems(1) by (simp add: word_neq_0_conv)
  have step: "dec_loop uv (Suc i) buf = dec_loop (uv div 10) i (buf[i := ?d])"
    using Suc.prems(3) uv by (simp only: dec_loop.simps if_True dec_digit [OF assms] setb_def)
      simp
  show ?case
  proof (cases "unat uv < 10")
    case True
    then have "unat (uv div 10) = 0" using dec_digit(2) [OF assms] by simp
    then have "uv div 10 = 0" by (simp add: unat_eq_zero)
    moreover have "take i (buf[i := ?d]) @ decstr (unat uv) @ drop (Suc i) buf = buf[i := ?d]"
      using True buf append_take_drop_id [of i "buf[i := ?d]"] by (simp add: decstr.simps)
    ultimately show ?thesis
      using Suc.prems(3) by (intro exI [of _ i] exI [of _ "take i (buf[i := ?d])"])
        (simp add: step)
  next
    case False
    then have nz: "unat (uv div 10) \<noteq> 0" using dec_digit(2) [OF assms] by simp
    then have "uv div 10 \<noteq> 0" by (auto simp: unat_eq_zero)
    moreover have "unat (uv div 10) < 10 ^ i"
      using Suc.prems(2) by (simp add: dec_digit [OF assms] less_mult_imp_div_less mult.commute)
    ultimately obtain j xs where
      "dec_loop (uv div 10) i (buf[i := ?d])
         = Some (j, xs @ decstr (unat (uv div 10)) @ drop i (buf[i := ?d]))" "length xs = j"
      using Suc.IH [of "uv div 10" "buf[i := ?d]"] Suc.prems(3) by auto
    moreover have "decstr (unat uv) = decstr (unat (uv div 10)) @ [?d]"
      using False by (subst decstr.simps) (simp add: dec_digit [OF assms])
    ultimately show ?thesis by (auto simp: step buf [simplified])
  qed
qed

text \<open>The decimal notation of an integer.\<close>

definition intstr :: "int \<Rightarrow> u8 list" where
  "intstr i = (if i < 0 then 45 # decstr (nat (- i)) else decstr (nat i))"

lemma half_range: "(2 :: int) ^ (LENGTH('a::len) - 1) < 2 ^ LENGTH('a)"
  by (rule power_strict_increasing) simp_all

lemma unat_neg_sint: "sint v < 0 \<Longrightarrow> unat (- v) = nat (- sint v)" for v :: "'a::len word"
proof -
  assume neg: "sint v < 0"
  have "- (2 ^ (LENGTH('a) - 1)) \<le> sint v" by (rule sint_ge)
  then have "- sint v < 2 ^ LENGTH('a)"
    using half_range [where 'a = 'a] by linarith
  moreover have "- v = word_of_int (- sint v)" by simp
  then have "uint (- v) = (- sint v) mod 2 ^ LENGTH('a)" by (simp only: uint_word_of_int)
  ultimately have "uint (- v) = - sint v" using neg by simp
  then show ?thesis by (simp flip: nat_uint_eq)
qed

lemma unat_nonneg_sint: "0 \<le> sint v \<Longrightarrow> unat v = nat (sint v)" for v :: "'a::len word"
proof -
  assume "0 \<le> sint v"
  moreover have "sint v < 2 ^ LENGTH('a)"
    using sint_less [of v] half_range [where 'a = 'a] unfolding One_nat_def by linarith
  ultimately have "uint v = sint v" by (simp add: uint_sint take_bit_eq_mod)
  then show ?thesis by (simp flip: nat_uint_eq)
qed


lemma drop_replicate_Suc: "drop n (replicate (Suc n) x) = [x]"
  by (induction n) auto

lemma dec_loop_string:
  fixes uv :: "'a::len word"
  assumes "unat (10 :: 'a word) = 10" and "uv \<noteq> 0" and "unat uv < 10 ^ n"
  shows "\<exists>j buf. dec_loop uv n (replicate (Suc n) 0) = Some (j, buf)
    \<and> drop j buf = decstr (unat uv) @ [0]"
  using dec_loop_eq [OF assms, of "replicate (Suc n) 0"] by (metis drop_replicate_Suc length_replicate append.assoc append_eq_conv_conj lessI less_imp_le_nat)

subsection \<open>Hexadecimal input\<close>

lemma hexval_word:
  "isdigit c \<Longrightarrow> (ucast c :: u32) - 48 = word_of_nat (hexval c)"
  "isxdigit c \<Longrightarrow> \<not> isdigit c \<Longrightarrow> (ucast (tolower c) :: u32) - 97 + 10 = word_of_nat (hexval c)"
  "\<not> isxdigit c \<Longrightarrow> hexval c = 0"
  by (auto simp: isdigit_def isxdigit_def hexval_def tolower_def word_le_nat_alt
      word_eq_unat_iff unat_sub_if' unat_word_ariths unsigned_of_nat take_bit_nat_eq_self)

lemma unat_hex_shift: "unat (hex_shift v c) = (16 * unat v + hexval c) mod 2 ^ 32"
proof -
  have or: "push_bit 4 v OR word_of_nat d = push_bit 4 v + word_of_nat d" if "d < 16" for d :: nat
  proof (rule disjunctive_add [symmetric])
    fix n
    have "take_bit 4 d = d" using that by (simp add: take_bit_nat_eq_self)
    then have "4 \<le> n \<Longrightarrow> \<not> bit d n" by (metis bit_take_bit_iff not_less)
    then show "\<not> bit (push_bit 4 v) n \<or> \<not> bit (word_of_nat d :: u32) n"
      by (auto simp: bit_simps)
  qed
  have "hex_shift v c = push_bit 4 v + word_of_nat (hexval c)"
    using or [OF hexval_lt_16 [of c]] hexval_word [of c]
    by (cases "isdigit c"; cases "isxdigit c") (simp_all add: hex_shift_def Let_def)
  then show ?thesis
    by (simp add: push_bit_eq_mult unat_word_ariths unsigned_of_nat mod_simps take_bit_eq_mod
        mult.commute)
qed

lemma hex_shift_word:
  "hex_shift (word_of_nat n) c = word_of_nat (16 * n + hexval c)"
  by (rule word_eq_unat_iff [THEN iffD2])
    (simp add: unat_hex_shift unsigned_of_nat take_bit_eq_mod del: of_nat_add of_nat_mult,
      metis mod_add_left_eq mod_mult_right_eq)

lemma skip_space_append:
  "list_all isspace sp \<Longrightarrow> \<not> isspace c \<Longrightarrow> skip_space (sp @ c # cs) = Some (c # cs)"
  by (induction sp) auto

lemma parsehex_loop_append:
  "list_all isxdigit ds \<Longrightarrow> \<not> isxdigit c \<Longrightarrow>
    parsehex_loop (word_of_nat n) (ds @ c # cs)
      = Some (word_of_nat (foldl (\<lambda>v c. 16 * v + hexval c) n ds), c # cs)"
  by (induction ds arbitrary: n) (auto simp: hex_shift_word simp del: of_nat_add of_nat_mult)

lemma isxdigit_not_isspace: "isxdigit c \<Longrightarrow> \<not> isspace c"
  by (auto simp: isxdigit_def isspace_def word_le_nat_alt)

text \<open>\<^verbatim>\<open>parsehex\<close> skips white space, takes the longest run of hexadecimal digits and leaves the rest.\<close>

lemma parsehex_eq:
  assumes "list_all isspace sp" and "list_all isxdigit ds" and "\<not> isxdigit c"
    and "ds = [] \<Longrightarrow> \<not> isspace c"
  shows "parsehex (sp @ ds @ c # cs) = Some (word_of_nat (hexnum ds), c # cs)"
proof -
  have "skip_space (sp @ ds @ c # cs) = Some (ds @ c # cs)"
    using assms by (cases ds) (auto simp: skip_space_append isxdigit_not_isspace)
  then show ?thesis
    using parsehex_loop_append [OF assms(2,3), of 0] by (simp add: parsehex_def hexnum_def)
qed

subsection \<open>The delay loop\<close>

lemma delay_turns_eq: "delay_turns t0 = (if t0 = 0 then 2 ^ 32 else unat t0)"
proof -
  have pos: "t0 \<noteq> 0 \<Longrightarrow> delay_turns t0 = unat t0" for t0
  proof (induction t0 rule: delay_turns.induct)
    case (1 t0)
    show ?case
    proof (cases "t0 = 1")
      case True
      then show ?thesis by (simp add: delay_turns.simps)
    next
      case False
      then have "delay_turns (t0 - 1) = unat (t0 - 1)" using 1 by simp
      moreover have "unat (t0 - 1) + 1 = unat t0"
        using "1.prems" by (simp add: unat_minus_one unat_gt_0 Suc_leI)
      ultimately show ?thesis using False by (subst delay_turns.simps) simp
    qed
  qed
  show ?thesis
  proof (cases "t0 = 0")
    case True
    have "unat (- 1 :: u32) = 2 ^ 32 - 1" by (simp add: unsigned_minus_1_eq_mask mask_eq_exp_minus_1)
    with True pos [of "- 1"] show ?thesis by (subst delay_turns.simps) simp
  next
    case False
    with pos show ?thesis by simp
  qed
qed

section \<open>Formatted output\<close>

text \<open>\<^verbatim>\<open>char buffer[256]\<close>, what \<^verbatim>\<open>vsnprintf\<close> leaves in it, and the number it returns.\<close>

definition PRINTF_BUFFER_SIZE :: nat where "PRINTF_BUFFER_SIZE = 256"

definition uart1_printf ::
    "'d bus \<Rightarrow> (nat \<Rightarrow> u8 list \<Rightarrow> 'a \<Rightarrow> u8 list \<times> int) \<Rightarrow> u8 list \<Rightarrow> 'a \<Rightarrow> 'd \<Rightarrow> (int \<times> 'd) option" where
  "uart1_printf b vsnprintf fmt args s =
     do { let (buffer, n) = vsnprintf PRINTF_BUFFER_SIZE fmt args;
          s \<leftarrow> uart1_puts b (Some buffer) s;
          Some (n, s) }"

section \<open>Over the port\<close>

context uart_port
begin

lemma puts_buf_wp [wp]:
  assumes "ready s" and "0 \<notin> set cs" and "\<And>s'. talks cs [] s s' \<Longrightarrow> Q s'" and "p = cs @ 0 # tail"
  shows "returns (uart1_puts b (Some p) s) Q"
  using puts_loop_wp [OF assms(1-3)] assms(4) by (simp add: uart1_puts_def)

lemma printhex_wp [wp]:
  assumes "ready s"
    and "\<And>s'. talks (hexstr (if n < 1 \<or> n > 8 then 8 else nat n) (unat v)) [] s s' \<Longrightarrow> Q s'"
  shows "returns (printhex b v n s) Q"
proof -
  define k where "k = (if n < 1 \<or> n > 8 then 8 else nat n)"
  have "k \<le> 8" by (auto simp: k_def)
  then have buf: "hexstr k (unat v) @ drop k (replicate 9 0)
      = hexstr k (unat v) @ 0 # replicate (8 - k) 0"
    by (simp add: Suc_diff_le flip: replicate_Suc)
  have "printhex b v n s = uart1_puts b (Some (hexstr k (unat v) @ drop k (replicate 9 0))) s"
    using \<open>k \<le> 8\<close> by (auto simp: printhex_def printhex_loop_eq k_def)
  with assms show ?thesis
    by (simp only: buf) (rule puts_buf_wp; simp add: k_def hexstr_nonzero)
qed

lemma digits_wp:
  fixes uv :: "'w::len word"
  assumes "ready s" and "unat (10 :: 'w word) = 10" and "uv \<noteq> 0" and "unat uv < 10 ^ n"
    and "\<And>s'. talks (decstr (unat uv)) [] s s' \<Longrightarrow> Q s'"
  shows "returns (do { (i, buf) \<leftarrow> dec_loop uv n (replicate (Suc n) 0);
    uart1_puts b (Some (drop i buf)) s }) Q"
proof -
  from dec_loop_string [OF assms(2-4)] obtain j buf where
    "dec_loop uv n (replicate (Suc n) 0) = Some (j, buf)" "drop j buf = decstr (unat uv) @ [0]"
    by auto
  with assms(1,5) show ?thesis by (auto intro!: puts_buf_wp simp: decstr_nonzero)
qed

lemma printdec_wp [wp]:
  assumes "ready s" and "\<And>s'. talks (intstr (sint v)) [] s s' \<Longrightarrow> Q s'"
  shows "returns (printdec b v s) Q"
proof -
  have less: "unat w < 100000000000" for w :: u32
  proof -
    have "unat w < 4294967296" using unsigned_less [of w] by simp
    then show ?thesis by linarith
  qed
  show ?thesis
  proof (cases "sint v < 0")
    case True
    then have "v \<noteq> 0" by auto
    moreover have "talks (intstr (sint v)) [] s u"
      if "talks [45] [] s t" "talks (decstr (unat (- v))) [] t u" for t u
      using True talks_trans [OF that] by (simp add: intstr_def unat_neg_sint)
    ultimately show ?thesis using True assms
      unfolding printdec_def
      by (auto intro!: returns_bind [of "uart1_putc b 45 s"] putc_wp
          digits_wp [where n = 11, simplified] less simp: talks_ready)
  next
    case False
    then show ?thesis using assms
      unfolding printdec_def
      by (auto intro!: putc_wp digits_wp [where n = 11, simplified] less
          simp: intstr_def unat_nonneg_sint)
  qed
qed

lemma printulonglong_wp:
  assumes "ready s" and "\<And>s'. talks (decstr (unat uv)) [] s s' \<Longrightarrow> Q s'"
  shows "returns (uart1_printulonglong b uv s) Q"
proof -
  have "unat uv < 18446744073709551616" using unsigned_less [of uv] by simp
  then have "unat uv < 100000000000000000000" by linarith
  with assms show ?thesis
    unfolding uart1_printulonglong_def
    by (auto intro!: putc_wp digits_wp [where n = 20, simplified])
qed

lemma printlonglong_wp:
  assumes "ready s" and "\<And>s'. talks (intstr (sint v)) [] s s' \<Longrightarrow> Q s'"
  shows "returns (uart1_printlonglong b v s) Q"
proof -
  have less: "unat w < 100000000000000000000" for w :: u64
  proof -
    have "unat w < 18446744073709551616" using unsigned_less [of w] by simp
    then show ?thesis by linarith
  qed
  show ?thesis
  proof (cases "sint v < 0")
    case True
    then have "v \<noteq> 0" by auto
    moreover have "talks (intstr (sint v)) [] s u"
      if "talks [45] [] s t" "talks (decstr (unat (- v))) [] t u" for t u
      using True talks_trans [OF that] by (simp add: intstr_def unat_neg_sint)
    ultimately show ?thesis using True assms
      by (auto simp: uart1_printlonglong_def talks_ready
          intro!: returns_bind [of "uart1_putc b 45 s"] putc_wp digits_wp [where n = 20, simplified] less)
  next
    case False
    then show ?thesis using assms
      by (auto simp: uart1_printlonglong_def intstr_def unat_nonneg_sint
          intro!: putc_wp digits_wp [where n = 20, simplified] less)
  qed
qed

lemma gethex_loop_wp:
  assumes "ready s" and "inp s = cs @ later"
    and "\<And>s'. talks [] cs s s' \<Longrightarrow>
      Q (word_of_nat (foldl (\<lambda>v c. 16 * v + hexval c) n cs), s')"
  shows "returns (gethex_loop b (length cs) (word_of_nat n) s) Q"
  using assms
proof (induction cs arbitrary: s n Q)
  case Nil
  then show ?case by simp
next
  case (Cons c cs)
  have "returns (gethex_loop b (length cs) (word_of_nat (16 * n + hexval c)) t) Q"
    if t: "talks [] [c] s t" for t
  proof (rule Cons.IH)
    show "ready t" using t by (rule talks_ready)
    show "inp t = cs @ later" using Cons.prems(2) talks_inp [OF t] by simp
    show "Q (word_of_nat (foldl (\<lambda>v c. 16 * v + hexval c) (16 * n + hexval c) cs), u)"
      if "talks [] cs t u" for u
      using Cons.prems(3) [of u] talks_trans [OF t that] by simp
  qed
  with Cons.prems(1,2) show ?case
    by (auto intro!: wp getc_wp simp: hex_shift_word simp del: of_nat_add of_nat_mult)
qed

text \<open>\<^verbatim>\<open>gethex(n)\<close> consumes exactly \<open>n\<close> characters and returns the number they denote.\<close>

lemma gethex_wp:
  assumes "ready s" and "inp s = cs @ later" and "int (length cs) = n"
    and "\<And>s'. talks [] cs s s' \<Longrightarrow> Q (word_of_nat (hexnum cs), s')"
  shows "returns (gethex b n s) Q"
  using gethex_loop_wp [of s cs later Q 0] assms by (auto simp: gethex_def hexnum_def)

lemma printlogo_wp [wp]:
  assumes "ready s" and "\<And>s'. talks logo [] s s' \<Longrightarrow> Q s'"
  shows "returns (printlogo b s) Q"
proof -
  have "0 \<notin> set logo" by (simp add: logo_def str_def ch_def)
  with assms show ?thesis unfolding printlogo_def by (intro puts_wp)
qed

text \<open>A text that \<^verbatim>\<open>vsnprintf\<close> has cut to the array is sent as far as it is there; the result counts all of it.\<close>

lemma printf_wp:
  assumes "ready s" and "vsnprintf PRINTF_BUFFER_SIZE fmt args = (take 255 t @ 0 # tail, int (length t))" and "0 \<notin> set t"
    and "\<And>s'. talks (take 255 t) [] s s' \<Longrightarrow> Q (int (length t), s')"
  shows "returns (uart1_printf b vsnprintf fmt args s) Q"
proof -
  have "0 \<notin> set (take 255 t)" using assms(3) by (auto dest: in_set_takeD)
  with assms show ?thesis
    by (auto simp: uart1_printf_def uart1_puts_def returns_bind_iff intro: puts_loop_wp)
qed

end

end
