(* ===== verification/Ram.thy ===== *)
theory Ram
  imports Uart
begin

text \<open>
  The contract of memory. Below \<open>limit\<close> an aligned access is plain memory, little endian; it
  changes nothing else of the machine that the software relies on.
\<close>

section \<open>Words in memory\<close>

definition mem_word :: "(u32 \<Rightarrow> u8) \<Rightarrow> u32 \<Rightarrow> u32" where
  "mem_word m a = ucast (m a) OR push_bit 8 (ucast (m (a + 1))) OR push_bit 16 (ucast (m (a + 2)))
     OR push_bit 24 (ucast (m (a + 3)))"

definition mem_half :: "(u32 \<Rightarrow> u8) \<Rightarrow> u32 \<Rightarrow> u16" where
  "mem_half m a = ucast (m a) OR push_bit 8 (ucast (m (a + 1)))"

definition put_word :: "u32 \<Rightarrow> u32 \<Rightarrow> (u32 \<Rightarrow> u8) \<Rightarrow> u32 \<Rightarrow> u8" where
  "put_word a v m = m (a := ucast v, a + 1 := ucast (drop_bit 8 v), a + 2 := ucast (drop_bit 16 v),
     a + 3 := ucast (drop_bit 24 v))"

definition put_half :: "u32 \<Rightarrow> u16 \<Rightarrow> (u32 \<Rightarrow> u8) \<Rightarrow> u32 \<Rightarrow> u8" where
  "put_half a v m = m (a := ucast v, a + 1 := ucast (drop_bit 8 v))"

text \<open>The bytes of a word read from memory.\<close>

lemma mem_word_bytes:
  "(ucast (mem_word m a) :: u8) = m a"
  "(ucast (drop_bit 8 (mem_word m a)) :: u8) = m (a + 1)"
  "(ucast (drop_bit 16 (mem_word m a)) :: u8) = m (a + 2)"
  "(ucast (drop_bit 24 (mem_word m a)) :: u8) = m (a + 3)"
  by (rule bit_word_eqI;
      force simp: mem_word_def bit_simps dest: bit_imp_le_length)+

lemma mem_word_put_word: "mem_word (put_word a v m) a = v"
proof (rule bit_word_eqI)
  fix n assume "n < LENGTH(32)"
  then consider "n < 8" | "8 \<le> n" "n < 16" | "16 \<le> n" "n < 24" | "24 \<le> n" "n < 32" by force
  then show "bit (mem_word (put_word a v m) a) n = bit v n"
    by cases (auto simp: mem_word_def put_word_def bit_simps)
qed

section \<open>The contract\<close>

locale ram_port =
  fixes b :: "'d bus"
    and limit :: u32
    and ready :: "'d \<Rightarrow> bool"
    and memory :: "'d \<Rightarrow> u32 \<Rightarrow> u8"
    and others :: "'d \<Rightarrow> 'o"
  assumes load8: "ready s \<Longrightarrow> a < limit \<Longrightarrow> ld8 b a s = (v8, s') \<Longrightarrow>
      v8 = memory s a \<and> ready s' \<and> memory s' = memory s \<and> others s' = others s"
    and store8: "ready s \<Longrightarrow> a < limit \<Longrightarrow> s' = st8 b a w8 s \<Longrightarrow>
      ready s' \<and> memory s' = (memory s)(a := w8) \<and> others s' = others s"
    and load16: "ready s \<Longrightarrow> a < limit \<Longrightarrow> a AND 1 = 0 \<Longrightarrow> ld16 b a s = (v16, s') \<Longrightarrow>
      v16 = mem_half (memory s) a \<and> ready s' \<and> memory s' = memory s \<and> others s' = others s"
    and store16: "ready s \<Longrightarrow> a < limit \<Longrightarrow> a AND 1 = 0 \<Longrightarrow> s' = st16 b a w16 s \<Longrightarrow>
      ready s' \<and> memory s' = put_half a w16 (memory s) \<and> others s' = others s"
    and load32: "ready s \<Longrightarrow> a < limit \<Longrightarrow> a AND 3 = 0 \<Longrightarrow> ld32 b a s = (v32, s') \<Longrightarrow>
      v32 = mem_word (memory s) a \<and> ready s' \<and> memory s' = memory s \<and> others s' = others s"
    and store32: "ready s \<Longrightarrow> a < limit \<Longrightarrow> a AND 3 = 0 \<Longrightarrow> s' = st32 b a w32 s \<Longrightarrow>
      ready s' \<and> memory s' = put_word a w32 (memory s) \<and> others s' = others s"
    and csr_store: "ready s \<Longrightarrow> ready (csrw b n w32 s) \<and> memory (csrw b n w32 s) = memory s"

text \<open>
  A board: a serial port, memory, and an output port with lamps. What the serial port leaves
  alone is the memory and the state \<open>lamps\<close>; what memory accesses leave alone is the traffic of
  the serial port and the lamps.
\<close>

locale board =
  uart_port b ready outp inp "\<lambda>s. (memory s, lamps s)" sending arrived rxwait +
  ram_port b limit ready memory "\<lambda>s. (outp s, inp s, lamps s)"
  for b :: "'d bus" and ready outp inp and memory :: "'d \<Rightarrow> u32 \<Rightarrow> u8" and lamps :: "'d \<Rightarrow> 'l" and sending arrived rxwait limit +
  fixes pout :: "'l \<Rightarrow> u32" and with_pout :: "u32 \<Rightarrow> 'l \<Rightarrow> 'l" and idle :: "'d \<Rightarrow> bool"
  assumes idle_ready: "ready s \<Longrightarrow> idle s"
    and config: "idle s \<Longrightarrow> a = UART1_BAUD \<or> a = UART1_CTRL \<or> a = UART1_STAT \<or> a = GPIOA_POUT \<Longrightarrow>
      idle (st32 b a w s) \<and> memory (st32 b a w s) = memory s \<and> outp (st32 b a w s) = outp s"
    and config_csr: "idle s \<Longrightarrow> csrr b n s = (v32, s') \<Longrightarrow>
      idle s' \<and> memory s' = memory s \<and> outp s' = outp s"
    and config_csrw: "idle s \<Longrightarrow> idle (csrw b n w s) \<and> memory (csrw b n w s) = memory s \<and> outp (csrw b n w s) = outp s"
    and enable: "idle s \<Longrightarrow> w AND UART_CTRL_EN \<noteq> 0 \<Longrightarrow> ready (st32 b UART1_CTRL w s)"
    and keep_enabled: "ready s \<Longrightarrow> ready (st32 b UART1_STAT w s)"
    and load_pout: "ready s \<Longrightarrow> ld32 b GPIOA_POUT s = (v32, s') \<Longrightarrow>
      v32 = pout (lamps s) \<and> ready s' \<and> memory s' = memory s \<and> outp s' = outp s \<and> inp s' = inp s
      \<and> lamps s' = lamps s"
    and store_pout: "ready s \<Longrightarrow> s' = st32 b GPIOA_POUT w s \<Longrightarrow>
      ready s' \<and> memory s' = memory s \<and> outp s' = outp s \<and> inp s' = inp s
      \<and> lamps s' = with_pout w (lamps s)"
    and pout_with_pout: "pout (with_pout w l) = w"
    and csr_load: "ready s \<Longrightarrow> csrr b n s = (v32, s') \<Longrightarrow>
      ready s' \<and> memory s' = memory s \<and> outp s' = outp s \<and> inp s' = inp s \<and> lamps s' = lamps s"
begin

text \<open>\<open>does m sent got s s'\<close>: memory has become \<open>m\<close>, the characters \<open>sent\<close> went out and \<open>got\<close>
  came in; the lamps may have changed.\<close>

definition does :: "(u32 \<Rightarrow> u8) \<Rightarrow> u8 list \<Rightarrow> u8 list \<Rightarrow> 'd \<Rightarrow> 'd \<Rightarrow> bool" where
  "does m sent got s s' \<longleftrightarrow>
     ready s' \<and> outp s' = outp s @ sent \<and> inp s = got @ inp s' \<and> memory s' = m"

lemma does_refl [simp]: "ready s \<Longrightarrow> does (memory s) [] [] s s"
  by (simp add: does_def)

lemma does_ready: "does m xs ys s t \<Longrightarrow> ready t"
  by (simp add: does_def)

lemma does_inp: "does m xs ys s t \<Longrightarrow> inp s = ys @ inp t"
  by (simp add: does_def)

lemma does_memory: "does m xs ys s t \<Longrightarrow> memory t = m"
  by (simp add: does_def)

lemma does_trans: "does m xs ys s t \<Longrightarrow> does m' xs' ys' t u \<Longrightarrow> does m' (xs @ xs') (ys @ ys') s u"
  by (auto simp: does_def)

lemma talks_does: "talks xs ys s t \<Longrightarrow> does (memory s) xs ys s t"
  by (simp add: does_def talks_def)

lemma does_talks: "does m xs ys s t \<Longrightarrow> talks xs' ys' t u \<Longrightarrow> does m (xs @ xs') (ys @ ys') s u"
  by (auto simp: does_def talks_def)

lemma does_same: "does m xs ys s t \<Longrightarrow> does (memory t) xs' ys' t u \<Longrightarrow> does m (xs @ xs') (ys @ ys') s u"
  by (auto simp: does_def)

lemma talks_memory: "talks xs ys s t \<Longrightarrow> memory t = memory s"
  by (simp add: talks_def)

lemma store_does:
  "ready s \<Longrightarrow> a < limit \<Longrightarrow> does ((memory s)(a := w'')) [] [] s (st8 b a w'' s)"
  "ready s \<Longrightarrow> a < limit \<Longrightarrow> a AND 1 = 0 \<Longrightarrow> does (put_half a w' (memory s)) [] [] s (st16 b a w' s)"
  "ready s \<Longrightarrow> a < limit \<Longrightarrow> a AND 3 = 0 \<Longrightarrow> does (put_word a w (memory s)) [] [] s (st32 b a w s)"
  using store32 [OF _ _ _ refl, of s a w] store16 [OF _ _ _ refl, of s a w'] store8 [OF _ _ refl, of s a w'']
  by (simp_all add: does_def)

lemma pout_does: "ready s \<Longrightarrow> does (memory s) [] [] s (st32 b GPIOA_POUT w s)"
  by (simp add: does_def store_pout [OF _ refl])

lemma rmw_pout_does: "ready s \<Longrightarrow> does (memory s) [] [] s (rmw b GPIOA_POUT f s)"
  by (cases "ld32 b GPIOA_POUT s") (simp add: does_def rmw_def load_pout store_pout [OF _ refl])

lemma csr_does: "ready s \<Longrightarrow> csrr b n s = (v, t) \<Longrightarrow> does (memory s) [] [] s t"
  using csr_load [of s n] by (simp add: does_def)

end

end
