(* ===== verification/Records.thy ===== *)
theory Records
  imports Clib
begin

text \<open>
  Motorola S-records: what the lines of a file mean, independent of the programs that read them.
  The bootloader (theory \<open>Boot\<close>) and the table generators (theory \<open>Srec\<close>) are both verified
  against this meaning.
\<close>

section \<open>Lines\<close>

definition addr_of :: "u8 list \<Rightarrow> u32" where
  "addr_of cs = word_of_nat (hexnum cs)"

text \<open>
  The lines of a file as a reader sees them that goes by the count: a data record of \<open>w\<close> address
  bytes (type \<open>w - 1\<close>), with the characters of its count, its address and each of its bytes, and
  the rest of the line; an end record (type \<open>11 - w\<close>); a line that starts with \<^verbatim>\<open>S\<close> and another
  character; and a single character that is none of \<^verbatim>\<open>S\<close>, \<^verbatim>\<open>J\<close>, \<^verbatim>\<open>#\<close>.
\<close>

datatype line =
    Data nat "u8 list" "u8 list" "u8 list list" "u8 list"
  | End nat "u8 list" "u8 list" "u8 list"
  | Other u8 "u8 list"
  | Skip u8

fun line_chars :: "line \<Rightarrow> u8 list" where
  "line_chars (Data w n a ds rest) = [83, word_of_nat (47 + w)] @ n @ a @ concat ds @ rest @ [10]"
| "line_chars (End w n a rest) = [83, word_of_nat (59 - w)] @ n @ a @ rest @ [10]"
| "line_chars (Other c rest) = [83, c] @ rest @ [10]"
| "line_chars (Skip c) = [c]"

definition byte_of :: "u8 list \<Rightarrow> u8" where
  "byte_of cs = word_of_nat (hexnum cs)"

fun put_bytes :: "u32 \<Rightarrow> u8 list \<Rightarrow> (u32 \<Rightarrow> u8) \<Rightarrow> u32 \<Rightarrow> u8" where
  "put_bytes a [] m = m"
| "put_bytes a (d # ds) m = put_bytes (a + 1) ds (m (a := d))"

text \<open>What a line means: the memory after it, and the start address after it.\<close>

fun line_store :: "line \<Rightarrow> (u32 \<Rightarrow> u8) \<Rightarrow> u32 \<Rightarrow> u8" where
  "line_store (Data w n a ds rest) m = put_bytes (addr_of a) (map byte_of ds) m"
| "line_store l m = m"

fun line_start :: "u32 \<Rightarrow> line \<Rightarrow> u32" where
  "line_start p (End w n a rest) = addr_of a"
| "line_start p l = p"

text \<open>A line that is in the format, and whose bytes go to memory below \<open>limit\<close>: the count is that of
  the bytes which follow, the check byte included.\<close>

fun line_ok :: "u32 \<Rightarrow> line \<Rightarrow> bool" where
  "line_ok limit (Data w n a ds rest) \<longleftrightarrow>
     w \<in> {2, 3, 4} \<and> length n = 2 \<and> length a = 2 * w \<and> (\<forall>d\<in>set ds. length d = 2) \<and> 10 \<notin> set rest
     \<and> hexnum n = w + length ds + 1
     \<and> (\<forall>k < length ds. addr_of a + word_of_nat k < limit)"
| "line_ok limit (End w n a rest) \<longleftrightarrow>
     w \<in> {2, 3, 4} \<and> length n = 2 \<and> length a = 2 * w \<and> 10 \<notin> set rest"
| "line_ok limit (Other c rest) \<longleftrightarrow> c \<notin> {49, 50, 51, 55, 56, 57} \<and> 10 \<notin> set rest"
| "line_ok limit (Skip c) \<longleftrightarrow> c \<notin> {83, 74, 35}"

lemma hexnum_2: "length d = 2 \<Longrightarrow> hexnum d < 256"
  using hexnum_bound [of d] by simp

lemma bit_byte:
  assumes "k < 256" "bit (word_of_nat k :: u32) n" shows "n < 8"
proof -
  have "bit (take_bit 8 k) n" using assms by (simp add: bit_simps take_bit_nat_eq_self)
  then show ?thesis by (simp add: bit_simps)
qed

lemma ucast_word_of_nat [simp]: "ucast (word_of_nat k :: u32) = (word_of_nat k :: u8)"
  by (rule bit_word_eqI) (simp add: bit_simps)

end
