(* ===== verification/Boot.thy ===== *)
theory Boot
  imports Util Ram Records
begin

text \<open>
  The bootloader, \<^verbatim>\<open>sw/bootloader/bootloader.c\<close>: the greeting, the wait for a key, the upload of
  S-records, and the monitor. Starting a program is an argument \<open>app\<close>, a function of its address,
  which may or may not return. The loops over commands and records are endless in the code;
  \<open>upload_loop\<close> is one until a record ends it, and the monitor is given by one turn of its loop.
\<close>

section \<open>Characters and lines\<close>

definition BUFLEN :: nat where "BUFLEN = 41"
definition BOOTWAIT :: nat where "BOOTWAIT = 10"

definition set_mtvec :: "'d bus \<Rightarrow> u32 \<Rightarrow> 'd \<Rightarrow> 'd" where
  "set_mtvec b vector s = csr_write b mtvec vector s"

text \<open>\<^verbatim>\<open>while ((c = uart1_getc()) != '\n');\<close>\<close>

partial_function (option) eat_line :: "'d bus \<Rightarrow> 'd \<Rightarrow> 'd option" where
  "eat_line b s =
     do { (w, s) \<leftarrow> uart1_getc b s;
          if (ucast w :: u8) \<noteq> 10 then eat_line b s else Some s }"

text \<open>One turn of the switch of \<^verbatim>\<open>getline\<close> for a character that does not end the line.\<close>

definition getline_edit ::
    "'d bus \<Rightarrow> int \<Rightarrow> u8 \<Rightarrow> u8 list \<Rightarrow> nat \<Rightarrow> 'd \<Rightarrow> (u8 list \<times> nat \<times> 'd) option" where
  "getline_edit b maxlen c buffer index s =
     (if c = 0x7f \<or> c = 8 then
        (if index > 0 then do { s \<leftarrow> uart1_putc b 0x7f s; Some (buffer, index - 1, s) }
         else Some (buffer, index, s))
      else if c = 21 then do { s \<leftarrow> rubout b index s; Some (buffer, 0, s) }
      else if int index < maxlen \<and> c > 0x1f \<and> c < 0x7f then
        do { buffer \<leftarrow> setb buffer index c;
             s \<leftarrow> uart1_putc b (ucast c) s;
             Some (buffer, index + 1, s) }
      else Some (buffer, index, s))"

partial_function (option) getline_loop ::
    "'d bus \<Rightarrow> int \<Rightarrow> u8 list \<Rightarrow> nat \<Rightarrow> 'd \<Rightarrow> (nat \<times> u8 list \<times> 'd) option" where
  "getline_loop b maxlen buffer index s =
     do { (w, s) \<leftarrow> uart1_getc b s;
          let c = (ucast w :: u8);
          if c = 10 \<or> c = 13 then
            do { buffer \<leftarrow> setb buffer index 0;
                 s \<leftarrow> uart1_puts b (cstr crlf) s;
                 Some (index, buffer, s) }
          else
            do { (buffer, index, s) \<leftarrow> getline_edit b maxlen c buffer index s;
                 getline_loop b maxlen buffer index s } }"

definition getline :: "'d bus \<Rightarrow> u8 list \<Rightarrow> int \<Rightarrow> 'd \<Rightarrow> (nat \<times> u8 list \<times> 'd) option" where
  "getline b buffer sz s = getline_loop b (sz - 1) buffer 0 s"

section \<open>Greeting and wait\<close>

definition boot_greeting :: "'d bus \<Rightarrow> 'd \<Rightarrow> 'd option" where
  "boot_greeting b s =
     do { s \<leftarrow> printlogo b s;
          s \<leftarrow> uart1_puts b (cstr (crlf @ str ''THUAS RISC-V Bootloader v0.7'' @ crlf @ str ''Hardware: '')) s;
          let (v, s) = csr_read b mimpid s;
          s \<leftarrow> printhex b v 8 s;
          s \<leftarrow> uart1_puts b (cstr (crlf @ str ''Clock frequency: '')) s;
          let (v, s) = csr_read b 0xfc1 s;
          s \<leftarrow> printdec b v s;
          uart1_puts b (cstr crlf) s }"

text \<open>\<^verbatim>\<open>for (count = 1; count <= BOOTWAIT*1024*1024; count++)\<close>, with \<open>k\<close> turns left.\<close>

fun key_loop :: "'d bus \<Rightarrow> nat \<Rightarrow> nat \<Rightarrow> 'd \<Rightarrow> (bool \<times> 'd) option" where
  "key_loop b 0 count s = Some (False, s)"
| "key_loop b (Suc k) count s =
     do { s \<leftarrow> (if count mod (1024 * 1024) = 0 then
                 do { s \<leftarrow> uart1_putc b 42 s; Some (rmw b GPIOA_POUT (drop_bit 1) s) }
               else Some s);
          let (r, s) = uart1_hasreceived b s;
          if r \<noteq> 0 then Some (True, s) else key_loop b k (count + 1) s }"

definition wait_key :: "'d bus \<Rightarrow> 'd \<Rightarrow> (bool \<times> 'd) option" where
  "wait_key b s =
     do { let s = st32 b GPIOA_POUT (push_bit BOOTWAIT 1 - 1) s;
          (keyhit, s) \<leftarrow> key_loop b (BOOTWAIT * 1024 * 1024) 1 s;
          Some (keyhit, st32 b GPIOA_POUT 0 s) }"

section \<open>Upload\<close>

text \<open>Replace byte \<open>v mod 4\<close> of a word.\<close>

definition patch :: "u32 \<Rightarrow> u32 \<Rightarrow> u32 \<Rightarrow> u32" where
  "patch v byte word =
     (if v AND 3 = 0 then (word AND NOT 0xff) OR byte
      else if v AND 3 = 1 then (word AND NOT 0xff00) OR push_bit 8 byte
      else if v AND 3 = 2 then (word AND NOT 0xff0000) OR push_bit 16 byte
      else if v AND 3 = 3 then (word AND NOT 0xff000000) OR push_bit 24 byte
      else word)"

text \<open>\<^verbatim>\<open>for (i = 0; i < count; i++)\<close>, with \<open>k\<close> turns left.\<close>

fun bytes_loop :: "'d bus \<Rightarrow> nat \<Rightarrow> u32 \<Rightarrow> 'd \<Rightarrow> 'd option" where
  "bytes_loop b 0 v s = Some s"
| "bytes_loop b (Suc k) v s =
     do { let boun = v AND NOT 3;
          (byte, s) \<leftarrow> gethex b 2 s;
          let (word, s) = ld32 b boun s;
          let s = st32 b boun (patch v byte word) s;
          bytes_loop b k (v + 1) s }"

definition data_record :: "'d bus \<Rightarrow> u8 \<Rightarrow> 'd \<Rightarrow> 'd option" where
  "data_record b c s =
     do { (count, v, s) \<leftarrow>
            (if c = ch (CHR ''1'') then
               do { (n, s) \<leftarrow> gethex b 2 s; (v, s) \<leftarrow> gethex b 4 s; Some (n - 3, v, s) }
             else if c = ch (CHR ''2'') then
               do { (n, s) \<leftarrow> gethex b 2 s; (v, s) \<leftarrow> gethex b 6 s; Some (n - 4, v, s) }
             else
               do { (n, s) \<leftarrow> gethex b 2 s; (v, s) \<leftarrow> gethex b 8 s; Some (n - 5, v, s) });
          s \<leftarrow> bytes_loop b (unat count) v s;
          eat_line b s }"

definition end_record :: "'d bus \<Rightarrow> u8 \<Rightarrow> 'd \<Rightarrow> (u32 \<times> 'd) option" where
  "end_record b c s =
     do { (v, s) \<leftarrow> gethex b 2 s;
          (v, s) \<leftarrow> (if c = ch (CHR ''7'') then gethex b 8 s
                    else if c = ch (CHR ''8'') then gethex b 6 s
                    else gethex b 4 s);
          s \<leftarrow> eat_line b s;
          Some (v, s) }"

text \<open>A line after its first character \<^verbatim>\<open>S\<close>: the address of the application, and the state.\<close>

definition s_record :: "'d bus \<Rightarrow> u32 \<Rightarrow> 'd \<Rightarrow> (u32 \<times> 'd) option" where
  "s_record b app_start s =
     do { (w, s) \<leftarrow> uart1_getc b s;
          let c = (ucast w :: u8);
          if c = ch (CHR ''1'') \<or> c = ch (CHR ''2'') \<or> c = ch (CHR ''3'') then
            do { s \<leftarrow> data_record b c s; Some (app_start, s) }
          else if c = ch (CHR ''7'') \<or> c = ch (CHR ''8'') \<or> c = ch (CHR ''9'') then
            end_record b c s
          else do { s \<leftarrow> eat_line b s; Some (app_start, s) } }"

text \<open>\<^verbatim>\<open>if (!noresponse) uart1_puts("?\n");\<close>\<close>

definition respond :: "'d bus \<Rightarrow> bool \<Rightarrow> 'd \<Rightarrow> 'd option" where
  "respond b noresponse s = (if \<not> noresponse then uart1_puts b (cstr [63, 10]) s else Some s)"

definition start_app :: "'d bus \<Rightarrow> (u32 \<Rightarrow> 'd \<Rightarrow> 'd option) \<Rightarrow> u32 \<Rightarrow> 'd \<Rightarrow> 'd option" where
  "start_app b app app_start s =
     (let s = uart1_init b 0 0 s; s = st32 b GPIOA_POUT 0 s in app app_start s)"

partial_function (option) upload_loop ::
    "'d bus \<Rightarrow> (u32 \<Rightarrow> 'd \<Rightarrow> 'd option) \<Rightarrow> bool \<Rightarrow> u32 \<Rightarrow> 'd \<Rightarrow> (u32 \<times> 'd) option" where
  "upload_loop b app noresponse app_start s =
     do { let s = rmw b GPIOA_POUT (\<lambda>v. v XOR 1) s;
          (w, s) \<leftarrow> uart1_getc b s;
          let c = (ucast w :: u8);
          if c = ch (CHR ''S'') then
            do { (app_start, s) \<leftarrow> s_record b app_start s;
                 s \<leftarrow> respond b noresponse s;
                 upload_loop b app noresponse app_start s }
          else if c = ch (CHR ''J'') then
            do { s \<leftarrow> respond b noresponse s;
                 s \<leftarrow> start_app b app app_start s;
                 Some (app_start, s) }
          else if c = ch (CHR ''#'') then Some (app_start, s)
          else
            do { s \<leftarrow> respond b noresponse s;
                 upload_loop b app noresponse app_start s } }"

definition boot_upload :: "'d bus \<Rightarrow> (u32 \<Rightarrow> 'd \<Rightarrow> 'd option) \<Rightarrow> u32 \<Rightarrow> 'd \<Rightarrow> (u32 \<times> 'd) option" where
  "boot_upload b app app_start s =
     do { (w, s) \<leftarrow> uart1_getc b s;
          let c = (ucast w :: u8);
          if c = ch (CHR ''!'') \<or> c = ch (CHR ''$'') then
            do { let noresponse = (c = ch (CHR ''$''));
                 s \<leftarrow> respond b noresponse s;
                 (app_start, s) \<leftarrow> upload_loop b app noresponse app_start s;
                 Some (app_start, st32 b GPIOA_POUT 0xaa s) }
          else Some (app_start, s) }"

section \<open>The monitor\<close>

text \<open>The string in a buffer; a buffer without a null character has none.\<close>

definition c_string :: "u8 list \<Rightarrow> u8 list option" where
  "c_string buf = (if 0 \<in> set buf then Some (takeWhile (\<lambda>c. c \<noteq> 0) buf) else None)"

text \<open>The sixteen-word dump: the printable characters of a word, high byte first, with \<open>j\<close> from
  3 down to 0 as \<open>Suc j\<close>.\<close>

fun ascii_loop :: "'d bus \<Rightarrow> nat \<Rightarrow> u32 \<Rightarrow> u32 \<Rightarrow> 'd \<Rightarrow> 'd option" where
  "ascii_loop b 0 m v s = Some s"
| "ascii_loop b (Suc j) m v s =
     do { let c = drop_bit (j * 8) (v AND m);
          s \<leftarrow> uart1_putc b (if c > 0x1f \<and> c < 0x7f then c else 46) s;
          ascii_loop b j (drop_bit 8 m) v s }"

fun dump_loop :: "'d bus \<Rightarrow> nat \<Rightarrow> u32 \<Rightarrow> 'd \<Rightarrow> (u32 \<times> 'd) option" where
  "dump_loop b 0 addr s = Some (addr, s)"
| "dump_loop b (Suc k) addr s =
     do { s \<leftarrow> printhex b addr 8 s;
          s \<leftarrow> uart1_puts b (cstr (str '': '')) s;
          let (v, s) = ld32 b addr s;
          s \<leftarrow> printhex b v 8 s;
          s \<leftarrow> uart1_puts b (cstr (str ''  '')) s;
          s \<leftarrow> ascii_loop b 4 0xff000000 v s;
          s \<leftarrow> uart1_puts b (cstr crlf) s;
          dump_loop b k (addr + 4) s }"

definition help_text :: "u8 list" where
  "help_text = str ''Help:'' @ crlf
     @ str '' h                - this help'' @ crlf
     @ str '' r                - run application'' @ crlf
     @ str '' rb <addr>        - read byte from addr'' @ crlf
     @ str '' wb <addr> <data> - write byte data at addr'' @ crlf
     @ str '' rh <addr>        - read halfword from addr'' @ crlf
     @ str '' wh <addr> <data> - write halfword data at addr'' @ crlf
     @ str '' rw <addr>        - read word from addr'' @ crlf
     @ str '' ww <addr> <data> - write word data at addr'' @ crlf
     @ str '' dw <addr>        - dump 16 words'' @ crlf
     @ str '' n                - dump next 16 words''"

text \<open>Print an address and the value read there, with \<open>n\<close> digits.\<close>

definition show_cell :: "'d bus \<Rightarrow> u32 \<Rightarrow> u32 \<Rightarrow> int \<Rightarrow> 'd \<Rightarrow> 'd option" where
  "show_cell b addr v n s =
     do { s \<leftarrow> printhex b addr 8 s; s \<leftarrow> uart1_puts b (cstr (str '': '')) s; printhex b v n s }"

text \<open>One command: the length that decides about the final line end, the address kept for the next
  dump, and the state. \<open>t\<close> is the string in the buffer.\<close>

definition boot_command ::
    "'d bus \<Rightarrow> (u32 \<Rightarrow> 'd \<Rightarrow> 'd option) \<Rightarrow> u32 \<Rightarrow> u32 \<Rightarrow> u8 list \<Rightarrow> nat \<Rightarrow> 'd \<Rightarrow> (nat \<times> u32 \<times> 'd) option"
    where
  "boot_command b app app_start addr buffer len s =
     do { t \<leftarrow> c_string buffer;
          if t = str ''h'' then
            do { s \<leftarrow> uart1_puts b (cstr help_text) s; Some (len, addr, s) }
          else if t = str ''r'' then
            do { let s = uart1_init b 0 0 s;
                 let s = st32 b GPIOA_POUT 0 s;
                 let s = set_mtvec b 0 s;
                 s \<leftarrow> app app_start s;
                 Some (len, addr, s) }
          else if take 3 t = str ''rb '' then
            do { (addr, _) \<leftarrow> parsehex (drop 3 buffer);
                 let (v, s) = ld8 b addr s;
                 s \<leftarrow> show_cell b addr (ucast v) 2 s;
                 Some (len, addr, s) }
          else if take 3 t = str ''wb '' then
            do { (addr, p) \<leftarrow> parsehex (drop 3 buffer);
                 (v, _) \<leftarrow> parsehex p;
                 Some (len, addr, st8 b addr (ucast v) s) }
          else if take 3 t = str ''rh '' then
            do { (addr, _) \<leftarrow> parsehex (drop 3 buffer);
                 let (v, s) = ld16 b addr s;
                 s \<leftarrow> show_cell b addr (ucast v) 4 s;
                 Some (len, addr, s) }
          else if take 3 t = str ''wh '' then
            do { (addr, p) \<leftarrow> parsehex (drop 3 buffer);
                 (v, _) \<leftarrow> parsehex p;
                 Some (len, addr, st16 b addr (ucast v) s) }
          else if take 3 t = str ''rw '' then
            do { (addr, _) \<leftarrow> parsehex (drop 3 buffer);
                 let (v, s) = ld32 b addr s;
                 s \<leftarrow> show_cell b addr v 8 s;
                 Some (len, addr, s) }
          else if take 3 t = str ''ww '' then
            do { (addr, p) \<leftarrow> parsehex (drop 3 buffer);
                 (v, _) \<leftarrow> parsehex p;
                 Some (len, addr, st32 b addr v s) }
          else if take 3 t = str ''dw '' \<or> t = str ''n'' then
            do { (addr, _) \<leftarrow> (if t \<noteq> str ''n'' then parsehex (drop 3 buffer) else Some (addr, []));
                 (addr, s) \<leftarrow> dump_loop b 16 (addr AND NOT 3) s;
                 Some (0, addr, s) }
          else if len = 0 then Some (len, addr, s)
          else do { s \<leftarrow> uart1_puts b (cstr (str ''??'')) s; Some (len, addr, s) } }"

text \<open>One turn of the endless loop: prompt, line, command.\<close>

definition boot_turn ::
    "'d bus \<Rightarrow> (u32 \<Rightarrow> 'd \<Rightarrow> 'd option) \<Rightarrow> u32 \<Rightarrow> u32 \<times> u8 list \<times> 'd \<Rightarrow> (u32 \<times> u8 list \<times> 'd) option" where
  "boot_turn b app app_start = (\<lambda>(addr, buffer, s).
     do { s \<leftarrow> uart1_puts b (cstr (str ''> '')) s;
          (len, buffer, s) \<leftarrow> getline b buffer (int BUFLEN) s;
          (len, addr, s) \<leftarrow> boot_command b app app_start addr buffer len s;
          s \<leftarrow> (if len \<noteq> 0 then uart1_puts b (cstr crlf) s else Some s);
          Some (addr, buffer, s) })"

section \<open>From reset to the monitor\<close>

text \<open>\<^verbatim>\<open>main\<close> up to the first prompt: the address of the application, \<^verbatim>\<open>addr\<close>, and the state. \<open>th\<close>
  is the address of the trap handler.\<close>

definition boot_main ::
    "'d bus \<Rightarrow> (u32 \<Rightarrow> 'd \<Rightarrow> 'd option) \<Rightarrow> u32 \<Rightarrow> 'd \<Rightarrow> (u32 \<times> u32 \<times> 'd) option" where
  "boot_main b app th s =
     do { let app_start = 0;
          let addr = 0;
          let s = uart1_init b BAUD_RATE UART_CTRL_EN s;
          s \<leftarrow> boot_greeting b s;
          (keyhit, s) \<leftarrow> wait_key b s;
          s \<leftarrow> (if \<not> keyhit then app app_start (uart1_init b 0 0 s) else Some s);
          (app_start, s) \<leftarrow> boot_upload b app app_start s;
          let s = set_mtvec b th s;
          s \<leftarrow> uart1_puts b (cstr crlf) s;
          Some (app_start, addr, s) }"

text \<open>The trap handler of the monitor. The compiler saves and restores the registers.\<close>

definition boot_trap_handler :: "'d bus \<Rightarrow> 'd \<Rightarrow> 'd option" where
  "boot_trap_handler b s =
     do { let (epc, s) = csr_read b mepc s;
          let (cause, s) = csr_read b mcause s;
          s \<leftarrow> uart1_puts b (cstr (str ''Trap: mcause = 0x'')) s;
          s \<leftarrow> printhex b cause 8 s;
          s \<leftarrow> uart1_puts b (cstr crlf) s;
          let epc = (if 0 \<le> sint cause then epc + 4 else epc);
          Some (csr_write b mepc epc s) }"

section \<open>Line input\<close>

text \<open>The line after one more character, and its echo: as in \<^verbatim>\<open>uart1_gets\<close>, without control-C and
  without the bell.\<close>

definition line_text :: "int \<Rightarrow> u8 list \<Rightarrow> u8 \<Rightarrow> u8 list" where
  "line_text m t c =
     (if c = 0x7f \<or> c = 8 then butlast t
      else if c = 21 then []
      else if int (length t) < m \<and> printable c then t @ [c] else t)"

definition line_echo :: "int \<Rightarrow> u8 list \<Rightarrow> u8 \<Rightarrow> u8 list" where
  "line_echo m t c =
     (if c = 0x7f \<or> c = 8 then (if t = [] then [] else [0x7f])
      else if c = 21 then replicate (length t) 0x7f
      else if int (length t) < m \<and> printable c then [c] else [])"

fun line_echoes :: "int \<Rightarrow> u8 list \<Rightarrow> u8 list \<Rightarrow> u8 list" where
  "line_echoes m t [] = []"
| "line_echoes m t (c # cs) = line_echo m t c @ line_echoes m (line_text m t c) cs"

lemma line_text_length: "int (length t) \<le> m \<Longrightarrow> int (length (line_text m t c)) \<le> m"
  by (auto simp: line_text_def)

lemma foldl_line_text_length: "int (length t) \<le> m \<Longrightarrow> int (length (foldl (line_text m) t cs)) \<le> m"
  by (induction cs arbitrary: t) (auto simp: line_text_length)

lemma line_text_printable: "list_all printable t \<Longrightarrow> list_all printable (line_text m t c)"
  by (cases t rule: rev_cases) (auto simp: line_text_def)

lemma foldl_line_text_printable:
  "list_all printable t \<Longrightarrow> list_all printable (foldl (line_text m) t cs)"
  by (induction cs arbitrary: t) (auto simp: line_text_printable)

text \<open>Printable characters are kept while they fit.\<close>

lemma foldl_line_text_id:
  "list_all printable (t @ cs) \<Longrightarrow> int (length (t @ cs)) \<le> m \<Longrightarrow>
    foldl (line_text m) t cs = t @ cs \<and> line_echoes m t cs = cs"
proof (induction cs arbitrary: t)
  case Nil
  then show ?case by simp
next
  case (Cons c cs)
  then have "printable c" by simp
  then have "c \<noteq> 0x7f" "c \<noteq> 8" "c \<noteq> 21" by (auto simp: printable_def)
  with Cons \<open>printable c\<close> show ?case by (simp add: line_text_def line_echo_def)
qed

context uart_port
begin

lemma getline_edit_wp:
  assumes "ready s" and "take (length t) buf = t"
    and "int (length t) \<le> m" and "m < int (length buf)"
  shows "returns (getline_edit b m c buf (length t) s) (\<lambda>(buf', i', s').
    i' = length (line_text m t c) \<and> take i' buf' = line_text m t c \<and> length buf' = length buf
      \<and> talks (line_echo m t c) [] s s')"
proof -
  have append: "take (Suc (length t)) (buf[length t := c]) = t @ [c]"
    using assms(2-4) by (simp add: take_Suc_conv_app_nth)
  have butlast: "take (length t - Suc 0) buf = butlast t"
    using assms(2) by (metis One_nat_def butlast_take length_take less_imp_le_nat
        linorder_not_le min.absorb_iff2 min_def nat_le_linear take_all_iff)
  from assms append butlast show ?thesis
    unfolding getline_edit_def
    by (auto intro!: wp simp: line_text_def line_echo_def printable_def)
qed

lemma getline_loop_wp:
  assumes "ready s" and "take (length t) buf = t"
    and "int (length t) \<le> m" and "m < int (length buf)"
    and "inp s = cs @ nl # later" and "nl = 10 \<or> nl = 13" and "10 \<notin> set cs" "13 \<notin> set cs"
  shows "returns (getline_loop b m buf (length t) s) (\<lambda>(n, buf', s').
    n = length (foldl (line_text m) t cs) \<and> take n buf' = foldl (line_text m) t cs
      \<and> buf' ! n = 0 \<and> length buf' = length buf
      \<and> talks (line_echoes m t cs @ crlf) (cs @ [nl]) s s')"
  using assms
proof (induction cs arbitrary: t buf s)
  case Nil
  then show ?case
    by (subst getline_loop.simps, intro returns_bind getc_wp)
      (auto intro!: wp dest: talks_ready talks_trans)
next
  case (Cons c cs)
  have step: "returns (getline_loop b m buf' (length (line_text m t c)) u) (\<lambda>(n, buf'', s').
      n = length (foldl (line_text m) t (c # cs)) \<and> take n buf'' = foldl (line_text m) t (c # cs)
      \<and> buf'' ! n = 0 \<and> length buf'' = length buf
      \<and> talks (line_echoes m t (c # cs) @ crlf) ((c # cs) @ [nl]) s s')"
    if "talks [] [c] s r" "talks (line_echo m t c) [] r u" "length buf' = length buf"
      "take (length (line_text m t c)) buf' = line_text m t c" for r u buf'
  proof -
    have su: "talks (line_echo m t c) [c] s u"
      using talks_trans [OF that(1,2)] by simp
    have "inp u = cs @ nl # later"
      using Cons.prems(5) talks_inp [OF su] by simp
    with su that Cons.prems have "returns (getline_loop b m buf' (length (line_text m t c)) u)
        (\<lambda>(n, buf'', s'). n = length (foldl (line_text m) (line_text m t c) cs)
        \<and> take n buf'' = foldl (line_text m) (line_text m t c) cs
        \<and> buf'' ! n = 0 \<and> length buf'' = length buf'
        \<and> talks (line_echoes m (line_text m t c) cs @ crlf) (cs @ [nl]) u s')"
      by (intro Cons.IH) (auto simp: line_text_length talks_ready)
    then show ?thesis
      by (rule returns_mono) (use that(3) talks_trans [OF su] in auto)
  qed
  have "c \<noteq> 10" "c \<noteq> 13" using Cons.prems(7,8) by auto
  with Cons.prems(1-5) show ?case
    by (subst getline_loop.simps, intro returns_bind getc_wp)
      (auto intro!: wp returns_mono [OF getline_edit_wp] step [simplified] simp: talks_ready)
qed

lemma getline_wp:
  assumes "ready s" and "0 < sz" and "sz \<le> int (length buf)"
    and "inp s = cs @ nl # later" and "nl = 10 \<or> nl = 13" and "10 \<notin> set cs" "13 \<notin> set cs"
  shows "returns (getline b buf sz s) (\<lambda>(n, buf', s').
    n = length (foldl (line_text (sz - 1)) [] cs) \<and> take n buf' = foldl (line_text (sz - 1)) [] cs
      \<and> buf' ! n = 0 \<and> length buf' = length buf
      \<and> talks (line_echoes (sz - 1) [] cs @ crlf) (cs @ [nl]) s s')"
  using getline_loop_wp [of s "[]" buf "sz - 1" cs nl later] assms by (simp add: getline_def)

text \<open>The rest of a line.\<close>

lemma eat_line_wp:
  assumes "ready s" and "inp s = cs @ 10 # later" and "10 \<notin> set cs"
    and "\<And>s'. talks [] (cs @ [10]) s s' \<Longrightarrow> Q s'"
  shows "returns (eat_line b s) Q"
  using assms
proof (induction cs arbitrary: s Q)
  case Nil
  then show ?case by (subst eat_line.simps, intro returns_bind getc_wp) auto
next
  case (Cons c cs)
  have "returns (eat_line b t) Q" if t: "talks [] [c] s t" for t
  proof (rule Cons.IH)
    show "inp t = cs @ 10 # later" using Cons.prems(2) talks_inp [OF t] by simp
    show "Q u" if "talks [] (cs @ [10]) t u" for u
      using Cons.prems(4) talks_trans [OF t that] by simp
  qed (use t Cons.prems(3) in \<open>auto simp: talks_ready\<close>)
  with Cons.prems(1-3) show ?case
    by (subst eat_line.simps, intro returns_bind getc_wp) auto
qed

end

section \<open>Patching a byte\<close>

text \<open>Reading a word, replacing one byte and writing the word back stores the byte.\<close>

lemma unat_and_3: "unat (v AND 3) < 4" for v :: u32
  using unat_and_mask [of v 2] by (simp add: mask_eq_exp_minus_1)

lemma align_split: "v = (v AND NOT 3) + (v AND 3)" for v :: u32
  by (subst disjunctive_add_eq_or) (auto simp: bit_eq_iff bit_simps)

text \<open>The four lanes of a word.\<close>

definition lane :: "nat \<Rightarrow> u32 \<Rightarrow> u8" where
  "lane i w = ucast (drop_bit (8 * i) w)"

lemma lane_replace:
  assumes "\<And>n. bit byte n \<Longrightarrow> n < 8" and "i < 4" "k < 4"
  shows "lane k ((word AND NOT (push_bit (8 * i) (mask 8))) OR push_bit (8 * i) byte)
    = (if k = i then ucast byte else lane k word)"
proof (rule bit_word_eqI)
  fix n assume "n < LENGTH(8)"
  then have n: "n < 8" by simp
  consider "k = i" | "k < i" | "i < k" by linarith
  then show "bit (lane k ((word AND NOT (push_bit (8 * i) (mask 8))) OR push_bit (8 * i) byte)) n
      = bit (if k = i then ucast byte else lane k word) n"
  proof cases
    case 3
    then have "\<not> 8 * k + n - 8 * i < 8" by linarith
    with assms(1) have "\<not> bit byte (8 * k + n - 8 * i)" by blast
    with 3 n assms(3) show ?thesis by (auto simp: lane_def bit_simps ac_simps)
  qed (use n assms(2,3) in \<open>auto simp: lane_def bit_simps ac_simps\<close>)
qed

lemma patch_lanes:
  assumes "v AND 3 = word_of_nat i" "i < 4" and "\<And>n. bit byte n \<Longrightarrow> n < 8"
  shows "patch v byte word = (word AND NOT (push_bit (8 * i) (mask 8))) OR push_bit (8 * i) byte"
proof -
  have "i = 0 \<or> i = 1 \<or> i = 2 \<or> i = 3" using assms(2) by linarith
  then show ?thesis using assms(1) by (auto simp: patch_def mask_eq_exp_minus_1)
qed

lemma put_word_lanes:
  "put_word a w m = m (a := lane 0 w, a + 1 := lane 1 w, a + 2 := lane 2 w, a + 3 := lane 3 w)"
  by (simp add: put_word_def lane_def)

lemma lanes_mem_word: "k < 4 \<Longrightarrow> lane k (mem_word m a) = m (a + word_of_nat k)"
proof -
  assume "k < 4"
  then have "k = 0 \<or> k = 1 \<or> k = 2 \<or> k = 3" by linarith
  then show ?thesis by (auto simp: lane_def mem_word_bytes)
qed

lemma put_word_one:
  assumes "\<And>k. k < 4 \<Longrightarrow> lane k w = (if k = i then c else m (a + word_of_nat k))" and "i < 4"
  shows "put_word a w m = m (a + word_of_nat i := c)"
proof -
  have "lane 0 w = (if i = 0 then c else m a)" "lane 1 w = (if i = 1 then c else m (a + 1))"
    "lane 2 w = (if i = 2 then c else m (a + 2))" "lane 3 w = (if i = 3 then c else m (a + 3))"
    using assms(1) [of 0] assms(1) [of 1] assms(1) [of 2] assms(1) [of 3] by auto
  moreover have "i = 0 \<or> i = 1 \<or> i = 2 \<or> i = 3" using assms(2) by linarith
  ultimately show ?thesis by (auto simp: put_word_lanes fun_eq_iff)
qed

lemma patch_store:
  assumes "\<And>n. bit byte n \<Longrightarrow> n < 8"
  shows "put_word (v AND NOT 3) (patch v byte (mem_word m (v AND NOT 3))) m = m (v := ucast byte)"
proof -
  define a where "a = v AND NOT 3"
  define i where "i = unat (v AND 3)"
  have i: "v AND 3 = word_of_nat i" "i < 4" by (simp_all add: i_def unat_and_3)
  then have v: "v = a + word_of_nat i" using align_split [of v] by (simp add: a_def)
  have lane: "lane k (patch v byte (mem_word m a)) = (if k = i then ucast byte else m (a + word_of_nat k))"
    if "k < 4" for k
    using lane_replace [OF assms i(2) that] that
    by (simp add: patch_lanes [OF i assms] lanes_mem_word)
  have "put_word a (patch v byte (mem_word m a)) m = m (a + word_of_nat i := ucast byte)"
    by (rule put_word_one [OF lane i(2)])
  then show ?thesis unfolding v [symmetric] unfolding a_def .
qed

section \<open>Waiting and commands\<close>

text \<open>Nothing has been sent to the board: the wait ends by itself, one star per \<^verbatim>\<open>2^20\<close> turns.\<close>

definition stars :: "nat \<Rightarrow> nat \<Rightarrow> nat" where
  "stars count k = (count + k - 1) div (1024 * 1024) - (count - 1) div (1024 * 1024)"

lemma stars_Suc: "0 < count \<Longrightarrow> stars count (Suc k) =
    (if count mod (1024 * 1024) = 0 then 1 else 0) + stars (Suc count) k"
proof -
  assume "0 < count"
  then obtain c where c: "count = Suc c" by (cases count) auto
  have "Suc c div (1024 * 1024) \<le> (Suc c + k) div (1024 * 1024)" by (rule div_le_mono) simp
  then show ?thesis by (auto simp: stars_def c div_Suc)
qed

text \<open>The string in the buffer is the line that was typed.\<close>

lemma c_string_take:
  "take n buf = t \<Longrightarrow> buf ! n = 0 \<Longrightarrow> n < length buf \<Longrightarrow> 0 \<notin> set t \<Longrightarrow>
    c_string buf = Some t \<and> buf = t @ 0 # drop (Suc n) buf"
proof -
  assume t: "take n buf = t" "buf ! n = 0" "n < length buf" "0 \<notin> set t"
  then have buf: "buf = t @ 0 # drop (Suc n) buf" by (metis id_take_nth_drop)
  have "takeWhile (\<lambda>c. c \<noteq> 0) (t @ 0 # drop (Suc n) buf) = t"
    using t(4) by (subst takeWhile_append2) auto
  with buf show ?thesis unfolding c_string_def by (metis in_set_conv_decomp)
qed


lemma c_string_append: "0 \<notin> set t \<Longrightarrow> c_string (t @ 0 # tail) = Some t"
  by (induction t) (auto simp: c_string_def)

text \<open>Arguments: an address, and an address and data.\<close>

lemma parse_address:
  "list_all isxdigit A \<Longrightarrow> A \<noteq> [] \<Longrightarrow> \<not> isxdigit c \<Longrightarrow>
    parsehex (A @ c # cs) = Some (addr_of A, c # cs)"
  using parsehex_eq [of "[]" A c cs] by (simp add: addr_of_def)

lemma parse_data:
  "list_all isxdigit D \<Longrightarrow> D \<noteq> [] \<Longrightarrow> parsehex (32 # D @ 0 # tail) = Some (addr_of D, 0 # tail)"
  using parsehex_eq [of "[32]" D 0 tail] by (simp add: addr_of_def isspace_def isxdigit_def isdigit_def)

lemma xdigit_facts: "\<not> isxdigit 32" "\<not> isxdigit 0"
  by (simp_all add: isxdigit_def isdigit_def)

lemma xdigits_printable: "list_all isxdigit A \<Longrightarrow> list_all printable A"
  by (auto simp: list_all_iff isxdigit_def isdigit_def printable_def word_le_nat_alt word_less_nat_alt)

definition write_line :: "u8 \<Rightarrow> u8 list \<Rightarrow> u8 list \<Rightarrow> u8 list" where
  "write_line k A D = [119, k, 32] @ A @ 32 # D"

definition read_line :: "u8 \<Rightarrow> u8 list \<Rightarrow> u8 list" where
  "read_line k A = [114, k, 32] @ A"

lemma command_strings:
  "str ''h'' = [104]" "str ''r'' = [114]" "str ''n'' = [110]" "str ''rb '' = [114, 98, 32]"
  "str ''wb '' = [119, 98, 32]" "str ''rh '' = [114, 104, 32]" "str ''wh '' = [119, 104, 32]"
  "str ''rw '' = [114, 119, 32]" "str ''ww '' = [119, 119, 32]" "str ''dw '' = [100, 119, 32]"
  by (simp_all add: str_def ch_def)

text \<open>The three sizes: byte, halfword, word.\<close>

definition put_cell :: "u8 \<Rightarrow> u32 \<Rightarrow> u32 \<Rightarrow> (u32 \<Rightarrow> u8) \<Rightarrow> u32 \<Rightarrow> u8" where
  "put_cell k a v m = (if k = 98 then m (a := ucast v)
     else if k = 104 then put_half a (ucast v) m else put_word a v m)"

definition cell_aligned :: "u8 \<Rightarrow> u32 \<Rightarrow> bool" where
  "cell_aligned k a \<longleftrightarrow> a AND (if k = 98 then 0 else if k = 104 then 1 else 3) = 0"

definition get_cell :: "u8 \<Rightarrow> (u32 \<Rightarrow> u8) \<Rightarrow> u32 \<Rightarrow> u8 list" where
  "get_cell k m a = (if k = 98 then hexstr 2 (unat (m a))
     else if k = 104 then hexstr 4 (unat (mem_half m a)) else hexstr 8 (unat (mem_word m a)))"

text \<open>The dump of sixteen words.\<close>

definition shown :: "u8 \<Rightarrow> u8" where
  "shown c = (if printable c then c else 46)"

definition dump_line :: "(u32 \<Rightarrow> u8) \<Rightarrow> u32 \<Rightarrow> u8 list" where
  "dump_line m a = hexstr 8 (unat a) @ str '': '' @ hexstr 8 (unat (mem_word m a)) @ str ''  ''
     @ map shown [m (a + 3), m (a + 2), m (a + 1), m a] @ crlf"

fun dump_lines :: "(u32 \<Rightarrow> u8) \<Rightarrow> nat \<Rightarrow> u32 \<Rightarrow> u8 list" where
  "dump_lines m 0 a = []"
| "dump_lines m (Suc k) a = dump_line m a @ dump_lines m k (a + 4)"


section \<open>An upload\<close>

text \<open>The answer to a line; an upload started with \<^verbatim>\<open>$\<close> has none.\<close>

definition answer :: "bool \<Rightarrow> u8 list" where
  "answer noresponse = (if noresponse then [] else [63, 10])"

lemma next_aligned: "a AND 3 = 0 \<Longrightarrow> (a + 4) AND 3 = 0" for a :: u32
proof -
  have "unat (v AND 3) = unat v mod 4" for v :: u32
    using unat_and_mask [of v 2] by (simp add: mask_eq_exp_minus_1)
  then show "a AND 3 = 0 \<Longrightarrow> ?thesis"
    unfolding word_eq_unat_iff by (simp add: unat_word_ariths mod_mod_cancel)
qed

lemma align_below: "v < limit \<Longrightarrow> v AND NOT 3 < limit" for v :: u32
  by (rule order.strict_trans1 [OF word_and_le2]) 

context board
begin

lemma bytes_loop_wp:
  assumes "ready s" and "inp s = concat ds @ later" and "\<forall>d\<in>set ds. length d = 2"
    and "\<forall>k < length ds. v + word_of_nat k < limit"
  shows "returns (bytes_loop b (length ds) v s)
    (does (put_bytes v (map byte_of ds) (memory s)) [] (concat ds) s)"
  using assms
proof (induction ds arbitrary: v s)
  case Nil
  then show ?case by simp
next
  case (Cons d ds)
  have d: "length d = 2" "hexnum d < 256" using Cons.prems(3) hexnum_2 by auto
  let ?byte = "word_of_nat (hexnum d) :: u32"
  have "v < limit" using Cons.prems(4) by force
  then have below: "v AND NOT 3 < limit" by (rule align_below)
  have step: "returns (let (word, s) = ld32 b (v AND NOT 3) t;
        s = st32 b (v AND NOT 3) (patch v ?byte word) s in bytes_loop b (length ds) (v + 1) s)
      (does (put_bytes v (map byte_of (d # ds)) (memory s)) [] (concat (d # ds)) s)"
    if t: "talks [] d s t" for t
  proof -
    obtain w u where ld: "ld32 b (v AND NOT 3) t = (w, u)" by (cases "ld32 b (v AND NOT 3) t")
    have mult: "(v AND NOT 3) AND 3 = 0" by (simp add: ac_simps)
    from load32 [OF talks_ready [OF t] below mult ld] talks_memory [OF t]
    have u: "does (memory s) [] d s u" "w = mem_word (memory s) (v AND NOT 3)"
      using t by (auto simp: does_def talks_def)
    let ?x = "st32 b (v AND NOT 3) (patch v ?byte w) u"
    have "does ((memory s)(v := byte_of d)) [] [] u ?x"
      using store_does(3) [OF does_ready [OF u(1)] below mult, of "patch v ?byte w"]
        patch_store [of ?byte v "memory s"] bit_byte [OF d(2)] does_memory [OF u(1)]
      by (simp add: u(2) byte_of_def)
    from does_trans [OF u(1) this] have x: "does ((memory s)(v := byte_of d)) [] d s ?x" by simp
    have "inp ?x = concat ds @ later" using does_inp [OF x] Cons.prems(2) by simp
    moreover have "\<forall>k < length ds. v + 1 + word_of_nat k < limit"
    proof (intro allI impI)
      fix k assume "k < length ds"
      with Cons.prems(4) have "v + word_of_nat (Suc k) < limit" by (simp del: of_nat_Suc)
      then show "v + 1 + word_of_nat k < limit" by (simp add: ac_simps)
    qed
    ultimately have "returns (bytes_loop b (length ds) (v + 1) ?x)
        (does (put_bytes (v + 1) (map byte_of ds) (memory ?x)) [] (concat ds) ?x)"
      using Cons.prems(3) by (intro Cons.IH does_ready [OF x]) auto
    then show ?thesis unfolding ld Let_def prod.case does_memory [OF x]
      by (rule returns_mono) (use does_trans [OF x] in \<open>simp add: byte_of_def\<close>)
  qed
  show ?case
    by (auto simp: Let_def intro!: returns_bind gethex_wp [OF Cons.prems(1), of d "concat ds @ later"]
        step [simplified Let_def, simplified] simp: Cons.prems(2) d)
qed


text \<open>The records.\<close>

lemma type_char: "w \<in> {2, 3, 4} \<Longrightarrow> (word_of_nat (47 + w) :: u8) =
    (if w = 2 then ch (CHR ''1'') else if w = 3 then ch (CHR ''2'') else ch (CHR ''3''))"
  by (auto simp: ch_def)

lemma type_char': "w \<in> {2, 3, 4} \<Longrightarrow> (word_of_nat (59 - w) :: u8) =
    (if w = 2 then ch (CHR ''9'') else if w = 3 then ch (CHR ''8'') else ch (CHR ''7''))"
  by (auto simp: ch_def)

lemma count_left:
  "k < 256 \<Longrightarrow> k = w + l + 1 \<Longrightarrow> unat (word_of_nat k - word_of_nat (w + 1) :: u32) = l"
  by (simp add: unsigned_of_nat take_bit_nat_eq_self_iff flip: of_nat_diff)

lemma field_wp:
  assumes "does m sent got s t" and "inp s = got @ f @ later" and "int (length f) = k"
    and "\<And>u. does m sent (got @ f) s u \<Longrightarrow> Q (word_of_nat (hexnum f), u)"
  shows "returns (gethex b k t) Q"
proof (rule gethex_wp [OF does_ready [OF assms(1)]])
  show "inp t = f @ later" using does_inp [OF assms(1)] assms(2) by simp
  show "Q (word_of_nat (hexnum f), u)" if "talks [] f t u" for u
    using does_trans [OF assms(1) talks_does [OF that]] does_memory [OF assms(1)] assms(4) by simp
qed (fact assms(3))

lemma data_record_wp:
  assumes t: "does m sent got s t" and l: "line_ok limit (Data w n a ds rest)"
    and inp: "inp s = got @ n @ a @ concat ds @ rest @ 10 # later"
  shows "returns (data_record b (word_of_nat (47 + w)) t)
    (does (line_store (Data w n a ds rest) m) sent (got @ n @ a @ concat ds @ rest @ [10]) s)"
proof -
  from l have w: "w \<in> {2, 3, 4}" and n: "length n = 2" and a: "length a = 2 * w"
    and ds: "\<forall>d\<in>set ds. length d = 2" "\<forall>k < length ds. addr_of a + word_of_nat k < limit"
    and rest: "10 \<notin> set rest" and k: "hexnum n = w + length ds + 1" by auto
  have body: "returns (do { s \<leftarrow> bytes_loop b (length ds) (addr_of a) u; eat_line b s })
      (does (line_store (Data w n a ds rest) m) sent (got @ n @ a @ concat ds @ rest @ [10]) s)"
    if u: "does m sent (got @ n @ a) s u" for u
  proof -
    have "inp u = concat ds @ rest @ 10 # later" using does_inp [OF u] inp by simp
    then have "returns (bytes_loop b (length ds) (addr_of a) u)
        (does (put_bytes (addr_of a) (map byte_of ds) (memory u)) [] (concat ds) u)"
      using ds by (intro bytes_loop_wp does_ready [OF u]) auto
    moreover have "returns (eat_line b x)
      (does (line_store (Data w n a ds rest) m) sent (got @ n @ a @ concat ds @ rest @ [10]) s)"
      if x: "does (put_bytes (addr_of a) (map byte_of ds) (memory u)) [] (concat ds) u x" for x
    proof -
      from does_trans [OF u x] have sx: "does (put_bytes (addr_of a) (map byte_of ds) m) sent
          (got @ n @ a @ concat ds) s x" by (simp add: does_memory [OF u])
      have "inp x = rest @ 10 # later" using does_inp [OF sx] inp by simp
      then show ?thesis
        using rest does_talks [OF sx, of "[]" "rest @ [10]"]
        by (intro eat_line_wp [OF does_ready [OF sx]]) auto
    qed
    ultimately show ?thesis by (auto intro!: returns_bind elim!: returns_mono)
  qed
  have cnt: "unat (word_of_nat (hexnum n) - word_of_nat (w + 1) :: u32) = length ds"
    using k hexnum_2 [OF n] by (intro count_left) auto
  have fields: "returns (gethex b 2 t) (\<lambda>(nv, x). returns (gethex b (2 * int w) x) (\<lambda>(v, u).
      nv = word_of_nat (hexnum n) \<and> v = addr_of a \<and> does m sent (got @ n @ a) s u))"
    using n a inp
    by (auto intro!: field_wp [OF t, where f = n] field_wp [where f = a] simp: addr_of_def)
  from w show ?thesis
    using fields cnt
    unfolding data_record_def type_char [OF w]
    by (auto simp: returns_bind_iff ch_def elim!: returns_mono
        intro!: body [unfolded returns_bind_iff line_store.simps])
qed


lemma end_record_wp:
  assumes t: "does m sent got s t" and l: "line_ok limit (End w n a rest)"
    and inp: "inp s = got @ n @ a @ rest @ 10 # later"
  shows "returns (end_record b (word_of_nat (59 - w)) t) (\<lambda>(v, u). v = addr_of a \<and>
    does m sent (got @ n @ a @ rest @ [10]) s u)"
proof -
  from l have w: "w \<in> {2, 3, 4}" and n: "length n = 2" and a: "length a = 2 * w"
    and rest: "10 \<notin> set rest" by auto
  have line: "returns (eat_line b u) (does m sent (got @ n @ a @ rest @ [10]) s)"
    if u: "does m sent (got @ n @ a) s u" for u
    using rest does_talks [OF u, of "[]" "rest @ [10]"] does_inp [OF u] inp
    by (intro eat_line_wp [OF does_ready [OF u], of rest later]) auto
  have fields: "returns (gethex b 2 t) (\<lambda>(nv, x). returns (gethex b (2 * int w) x) (\<lambda>(v, u).
      v = addr_of a \<and> does m sent (got @ n @ a) s u))"
    using n a inp
    by (auto intro!: field_wp [OF t, where f = n] field_wp [where f = a] simp: addr_of_def)
  from w show ?thesis
    using fields line
    unfolding end_record_def type_char' [OF w]
    by (auto simp: returns_bind_iff ch_def elim!: returns_mono)
qed

text \<open>A line is consumed, memory and the start address are as the line says, and nothing is sent.\<close>

lemma s_record_wp:
  assumes t: "does m sent (got @ [83]) s t" and l: "line_ok limit l" and S: "\<And>c. l \<noteq> Skip c"
    and inp: "inp s = got @ line_chars l @ later"
  shows "returns (s_record b p t) (\<lambda>(p', u). p' = line_start p l \<and>
    does (line_store l m) sent (got @ line_chars l) s u)"
proof (cases l)
  case (Data w n a ds rest)
  let ?c = "word_of_nat (47 + w) :: u8"
  have w: "w \<in> {2, 3, 4}" using l by (simp add: Data)
  have "inp t = ?c # n @ a @ concat ds @ rest @ 10 # later"
    using does_inp [OF t] inp by (simp add: Data)
  moreover have "returns (data_record b ?c u)
      (does (line_store l m) sent (got @ line_chars l) s)" if "talks [] [?c] t u" for u
    using data_record_wp [OF does_talks [OF t that]] l inp by (simp add: Data)
  ultimately show ?thesis
    using w type_char [OF w]
    by (auto simp: s_record_def Data returns_bind_iff ch_def intro!: getc_wp [OF does_ready [OF t]]
        elim!: returns_mono)
next
  case (End w n a rest)
  let ?c = "word_of_nat (59 - w) :: u8"
  have w: "w \<in> {2, 3, 4}" using l by (simp add: End)
  have "inp t = ?c # n @ a @ rest @ 10 # later"
    using does_inp [OF t] inp by (simp add: End)
  moreover have "returns (end_record b ?c u) (\<lambda>(v, u). v = addr_of a \<and>
      does (line_store l m) sent (got @ line_chars l) s u)" if "talks [] [?c] t u" for u
    using end_record_wp [OF does_talks [OF t that]] l inp by (simp add: End)
  ultimately show ?thesis
    using w type_char' [OF w]
    by (auto simp: s_record_def End returns_bind_iff ch_def intro!: getc_wp [OF does_ready [OF t]]
        elim!: returns_mono)
next
  case (Other c rest)
  have inpt: "inp t = c # rest @ 10 # later" using does_inp [OF t] inp by (simp add: Other)
  have "returns (eat_line b u) (does m sent (got @ line_chars l) s)" if u: "talks [] [c] t u" for u
  proof -
    from does_talks [OF t u] have su: "does m sent (got @ [83, c]) s u" by simp
    show ?thesis
      using l inpt talks_inp [OF u] does_talks [OF su, of "[]" "rest @ [10]"]
      by (intro eat_line_wp [OF does_ready [OF su]]) (auto simp: Other)
  qed
  with inpt l show ?thesis
    by (auto simp: s_record_def Other returns_bind_iff ch_def intro!: getc_wp [OF does_ready [OF t]]
        elim!: returns_mono)
qed (use S in simp)

lemma respond_wp:
  assumes "does m sent got s t"
  shows "returns (respond b nr t) (does m (sent @ answer nr) got s)"
  using assms does_talks [OF assms, of "[63, 10]" "[]"]
  by (auto simp: respond_def answer_def intro!: puts_wp does_ready)

text \<open>The lamp changes and the first character of a line is read.\<close>

lemma upload_char_wp:
  assumes t: "does m sent got s t" and "inp s = got @ c # later"
    and "\<And>u. does m sent (got @ [c]) s u \<Longrightarrow> Q (ucast c, u)"
  shows "returns (uart1_getc b (rmw b GPIOA_POUT (\<lambda>v. v XOR 1) t)) Q"
proof -
  let ?u = "rmw b GPIOA_POUT (\<lambda>v. v XOR 1) t"
  from does_same [OF t rmw_pout_does [OF does_ready [OF t]]]
  have u: "does m sent got s ?u" by simp
  have "inp ?u = c # later" using does_inp [OF u] assms(2) by simp
  then show ?thesis
    using assms(3) does_talks [OF u, of "[]" "[c]"] by (intro getc_wp [OF does_ready [OF u]]) auto
qed

text \<open>The lines of an upload, up to the character that ends it. Each line is answered.\<close>

lemma upload_lines_wp:
  assumes "does m sent got s t" and "\<forall>l\<in>set ls. line_ok limit l"
    and "inp s = got @ concat (map line_chars ls) @ later"
    and "\<And>u. does (fold line_store ls m) (sent @ concat (replicate (length ls) (answer nr)))
        (got @ concat (map line_chars ls)) s u \<Longrightarrow>
      returns (upload_loop b app nr (foldl line_start p ls) u) Q"
  shows "returns (upload_loop b app nr p t) Q"
  using assms
proof (induction ls arbitrary: m sent got t p)
  case Nil
  then show ?case by simp
next
  case (Cons l ls)
  note t = Cons.prems(1)
  let ?later = "concat (map line_chars ls) @ later"
  have inp: "inp s = got @ line_chars l @ ?later" using Cons.prems(3) by simp
  have next_line: "returns (upload_loop b app nr (line_start p l) x) Q"
    if x: "does (line_store l m) (sent @ answer nr) (got @ line_chars l) s x" for x
    using Cons.prems(2-4) by (intro Cons.IH [OF x]) (auto simp: fold_rev)
  have answered: "returns (respond b nr u) (\<lambda>x. returns (upload_loop b app nr (line_start p l) x) Q)"
    if "does (line_store l m) sent (got @ line_chars l) s u" for u
    by (rule returns_mono [OF respond_wp [OF that]]) (rule next_line)
  show ?case
  proof (cases "\<exists>c. l = Skip c")
    case True
    then obtain c where l: "l = Skip c" ..
    have "c \<notin> {83, 74, 35}" using Cons.prems(2) by (simp add: l)
    then show ?thesis
      using answered inp
      by (subst upload_loop.simps)
        (auto simp: l ch_def returns_bind_iff intro!: upload_char_wp [OF t])
  next
    case False
    then obtain cs where chars: "line_chars l = 83 # cs" by (cases l) auto
    have "returns (s_record b p u) (\<lambda>r. returns (case r of (app_start, s) \<Rightarrow>
        respond b nr s \<bind> upload_loop b app nr app_start) Q)" if "does m sent (got @ [83]) s u" for u
    proof -
      have "returns (s_record b p u) (\<lambda>(p', v). p' = line_start p l \<and>
          does (line_store l m) sent (got @ line_chars l) s v)"
        using s_record_wp [OF that] Cons.prems(2) False inp by auto
      then show ?thesis
        using answered by (auto simp: returns_bind_iff elim!: returns_mono)
    qed
    then show ?thesis
      using inp
      by (subst upload_loop.simps)
        (auto simp: chars ch_def returns_bind_iff intro!: upload_char_wp [OF t] elim!: returns_mono)
  qed
qed


subsection \<open>Starting the application\<close>

lemma uart_init_idle:
  assumes "idle s"
  shows "idle (uart1_init b baud w s) \<and> memory (uart1_init b baud w s) = memory s \<and>
    outp (uart1_init b baud w s) = outp s"
proof -
  obtain v t where rd: "csrr b 0xfc1 s = (v, t)" by (cases "csrr b 0xfc1 s")
  show ?thesis
    using config_csr [OF assms rd] by (auto simp: uart1_init_def csr_read_def rd Let_def config)
qed

lemma uart_init_ready:
  assumes "idle s" and "w AND UART_CTRL_EN \<noteq> 0"
  shows "ready (uart1_init b baud w s)"
proof -
  obtain v t where rd: "csrr b 0xfc1 s = (v, t)" by (cases "csrr b 0xfc1 s")
  show ?thesis
    using config_csr [OF assms(1) rd]
    by (auto simp: uart1_init_def csr_read_def rd Let_def config enable keep_enabled assms(2))
qed

text \<open>The application starts with the serial port off, and with the memory and the output there
  were.\<close>

definition started :: "(u32 \<Rightarrow> u8) \<Rightarrow> u8 list \<Rightarrow> 'd \<Rightarrow> bool" where
  "started m out t \<longleftrightarrow> idle t \<and> memory t = m \<and> outp t = out"

lemma start_app_wp:
  assumes "ready s" and "\<And>t. started (memory s) (outp s) t \<Longrightarrow> returns (app p t) Q"
  shows "returns (start_app b app p s) Q"
proof -
  have "idle s" using assms(1) by (rule idle_ready)
  then have "started (memory s) (outp s) (st32 b GPIOA_POUT 0 (uart1_init b 0 0 s))"
    using uart_init_idle [of s 0 0] by (simp add: started_def config)
  with assms(2) show ?thesis by (simp add: start_app_def)
qed

text \<open>An upload that ends with \<^verbatim>\<open>J\<close>: the application starts at the address of the last end record,
  with the bytes of all data records in memory.\<close>

lemma upload_jump_wp:
  assumes "does m sent got s t" and "\<forall>l\<in>set ls. line_ok limit l"
    and "inp s = got @ concat (map line_chars ls) @ 74 # later"
    and "\<And>u. started (fold line_store ls m)
        (outp s @ sent @ concat (replicate (Suc (length ls)) (answer nr))) u \<Longrightarrow>
      returns (app (foldl line_start p ls) u) (\<lambda>v. Q (foldl line_start p ls, v))"
  shows "returns (upload_loop b app nr p t) Q"
proof (rule upload_lines_wp [OF assms(1,2)])
  show "inp s = got @ concat (map line_chars ls) @ (74 # later)" using assms(3) .
next
  let ?sent = "sent @ concat (replicate (length ls) (answer nr))"
  let ?got = "got @ concat (map line_chars ls)"
  fix u assume u: "does (fold line_store ls m) ?sent ?got s u"
  have rep: "concat (replicate n (answer nr)) @ answer nr = answer nr @ concat (replicate n (answer nr))" for n
    by (induction n) auto
  have "returns (respond b nr v) (\<lambda>x. returns (start_app b app (foldl line_start p ls) x)
      (\<lambda>y. Q (foldl line_start p ls, y)))" if v: "does (fold line_store ls m) ?sent (?got @ [74]) s v" for v
    by (rule returns_mono [OF respond_wp [OF v]], rule start_app_wp)
      (auto simp: does_def rep intro!: assms(4))
  then show "returns (upload_loop b app nr (foldl line_start p ls) u) Q"
    using assms(3)
    by (subst upload_loop.simps)
      (auto simp: ch_def returns_bind_iff intro!: upload_char_wp [OF u])
qed

text \<open>An upload that ends with \<^verbatim>\<open>#\<close>: the bootloader goes on.\<close>

lemma upload_break_wp:
  assumes "does m sent got s t" and "\<forall>l\<in>set ls. line_ok limit l"
    and "inp s = got @ concat (map line_chars ls) @ 35 # later"
    and "\<And>u. does (fold line_store ls m) (sent @ concat (replicate (length ls) (answer nr)))
        (got @ concat (map line_chars ls) @ [35]) s u \<Longrightarrow> Q (foldl line_start p ls, u)"
  shows "returns (upload_loop b app nr p t) Q"
proof (rule upload_lines_wp [OF assms(1,2)])
  show "inp s = got @ concat (map line_chars ls) @ (35 # later)" using assms(3) .
next
  fix u assume "does (fold line_store ls m) (sent @ concat (replicate (length ls) (answer nr)))
    (got @ concat (map line_chars ls)) s u"
  from upload_char_wp [OF this] show "returns (upload_loop b app nr (foldl line_start p ls) u) Q"
    using assms(3,4) by (subst upload_loop.simps) (auto simp: ch_def returns_bind_iff)
qed

lemma boot_upload_start:
  assumes "ready s" and "inp s = c # later" and c: "c = 33 \<or> c = 36"
    and "\<And>u. does (memory s) (answer (c = 36)) [c] s u \<Longrightarrow>
      returns (upload_loop b app (c = 36) p u) (\<lambda>(q, v). Q (q, st32 b GPIOA_POUT 0xaa v))"
  shows "returns (boot_upload b app p s) Q"
proof -
  have "returns (respond b (c = 36) t) (\<lambda>u. returns (upload_loop b app (c = 36) p u)
      (\<lambda>(q, v). Q (q, st32 b GPIOA_POUT 0xaa v)))" if "talks [] [c] s t" for t
    by (rule returns_mono [OF respond_wp [OF talks_does [OF that]]], rule assms(4)) simp
  with c show ?thesis unfolding boot_upload_def
    by (auto simp: returns_bind_iff ch_def case_prod_unfold intro!: getc_wp [OF assms(1,2)]
        elim!: returns_mono)
qed

text \<open>The whole of an upload, from the first character to the running application.\<close>

lemma boot_upload_jump:
  assumes "ready s" and "c = 33 \<or> c = 36"
    and "\<forall>l\<in>set ls. line_ok limit l" and "inp s = c # concat (map line_chars ls) @ 74 # later"
    and "\<And>u. started (fold line_store ls (memory s))
        (outp s @ concat (replicate (length ls + 2) (answer (c = 36)))) u \<Longrightarrow>
      returns (app (foldl line_start p ls) u)
        (\<lambda>v. Q (foldl line_start p ls, st32 b GPIOA_POUT 0xaa v))"
  shows "returns (boot_upload b app p s) Q"
proof (rule boot_upload_start [OF assms(1,4,2)])
  fix u assume u: "does (memory s) (answer (c = 36)) [c] s u"
  show "returns (upload_loop b app (c = 36) p u) (\<lambda>(q, v). Q (q, st32 b GPIOA_POUT 0xaa v))"
    using assms(4,5) by (intro upload_jump_wp [OF u assms(3)]) auto
qed

subsection \<open>The wait for a key\<close>

lemma key_loop_silent:
  assumes "ready s" and "inp s = []" and "0 < count"
    and "\<And>t. does (memory s) (replicate (stars count k) 42) [] s t \<Longrightarrow> Q (False, t)"
  shows "returns (key_loop b k count s) Q"
  using assms
proof (induction k arbitrary: count s Q)
  case 0
  then show ?case by (simp add: stars_def)
next
  case (Suc k)
  let ?n = "if count mod (1024 * 1024) = 0 then 1 else 0 :: nat"
  have poll: "returns (let (r, s) = uart1_hasreceived b t in
      if r \<noteq> 0 then Some (True, s) else key_loop b k (count + 1) s) Q"
    if t: "does (memory s) (replicate ?n 42) [] s t" for t
  proof -
    obtain v u where ld: "ld32 b UART1_STAT t = (v, u)" by (cases "ld32 b UART1_STAT t")
    have "inp t = []" using does_inp [OF t] Suc.prems(2) by simp
    with stat_read [OF does_ready [OF t] ld] rx_done [OF does_ready [OF t] ld]
    have u: "does (memory s) (replicate ?n 42) [] s u" and zero: "v AND UART_STAT_RC = 0"
      using t by (auto simp: does_def)
    have "returns (key_loop b k (count + 1) u) Q"
    proof (rule Suc.IH)
      show "inp u = []" using does_inp [OF u] Suc.prems(2) by simp
      show "Q (False, x)" if "does (memory u) (replicate (stars (count + 1) k) 42) [] u x" for x
        using Suc.prems(4) does_same [OF u that] stars_Suc [OF Suc.prems(3), of k]
        by (auto simp: replicate_add split: if_splits)
    qed (use does_ready [OF u] in auto)
    with zero show ?thesis by (simp add: uart1_hasreceived_def ld)
  qed
  have "returns (if count mod (1024 * 1024) = 0 then
      do { s \<leftarrow> uart1_putc b 42 s; Some (rmw b GPIOA_POUT (drop_bit 1) s) } else Some s)
    (does (memory s) (replicate ?n 42) [] s)"
    using Suc.prems(1) does_same [OF talks_does rmw_pout_does [OF talks_ready]]
    by (auto intro!: wp)
  then show ?case
    unfolding key_loop.simps by (intro returns_bind) (rule returns_mono [OF _ poll])
qed


lemma wait_key_silent:
  assumes "ready s" and "inp s = []"
    and "\<And>t. does (memory s) (replicate BOOTWAIT 42) [] s t \<Longrightarrow> Q (False, t)"
  shows "returns (wait_key b s) Q"
proof -
  let ?t = "st32 b GPIOA_POUT (push_bit BOOTWAIT 1 - 1) s"
  note t = pout_does [OF assms(1), of "push_bit BOOTWAIT 1 - 1"]
  have n: "stars 1 (BOOTWAIT * 1024 * 1024) = BOOTWAIT" by (simp add: stars_def BOOTWAIT_def)
  have "returns (key_loop b (BOOTWAIT * 1024 * 1024) 1 ?t)
      (\<lambda>(k, u). \<not> k \<and> does (memory s) (replicate BOOTWAIT 42) [] s u)"
    using does_ready [OF t] does_inp [OF t] assms(2) does_same [OF t]
    by (intro key_loop_silent) (auto simp only: n append_Nil append_Nil2 case_prod_conv simp_thms)
  then show ?thesis
    using assms(3) does_same [OF _ pout_does [OF does_ready]]
    by (auto simp: wait_key_def returns_bind_iff Let_def elim!: returns_mono)
qed

text \<open>A key that arrives before the first star ends the wait.\<close>

lemma key_loop_hit:
  assumes "ready s" and "inp s \<noteq> []" and "rxwait s < k" and "count + rxwait s < 1024 * 1024" and "0 < count"
    and "\<And>t. does (memory s) [] [] s t \<Longrightarrow> Q (True, t)"
  shows "returns (key_loop b k count s) Q"
  using assms
proof (induction k arbitrary: count s Q)
  case 0
  then show ?case by simp
next
  case (Suc k)
  obtain v u where ld: "ld32 b UART1_STAT s = (v, u)" by (cases "ld32 b UART1_STAT s")
  from stat_read [OF Suc.prems(1) ld] have u: "does (memory s) [] [] s u"
    by (auto simp: does_def)
  have "count mod (1024 * 1024) \<noteq> 0" using Suc.prems(4,5) by simp
  moreover have "returns (key_loop b k (Suc count) u) Q" if "v AND UART_STAT_RC = 0"
  proof (rule Suc.IH [OF does_ready [OF u]])
    show "inp u \<noteq> []" using does_inp [OF u] Suc.prems(2) by simp
    show "rxwait u < k" "Suc count + rxwait u < 1024 * 1024"
      using rx_wait [OF Suc.prems(1) ld that Suc.prems(2)] Suc.prems(3,4) by simp_all
    show "Q (True, t)" if "does (memory u) [] [] u t" for t
      using Suc.prems(6) does_same [OF u that] by simp
  qed (use Suc.prems in auto)
  ultimately show ?case
    using Suc.prems(6) u by (simp add: uart1_hasreceived_def ld)
qed

lemma wait_key_hit:
  assumes "ready s" and "inp s \<noteq> []"
    and "rxwait (st32 b GPIOA_POUT (push_bit BOOTWAIT 1 - 1) s) < 1024 * 1024 - 1"
    and "\<And>t. does (memory s) [] [] s t \<Longrightarrow> Q (True, t)"
  shows "returns (wait_key b s) Q"
proof -
  let ?t = "st32 b GPIOA_POUT (push_bit BOOTWAIT 1 - 1) s"
  note t = pout_does [OF assms(1), of "push_bit BOOTWAIT 1 - 1"]
  have "returns (key_loop b (BOOTWAIT * 1024 * 1024) 1 ?t)
      (\<lambda>(k, u). k \<and> does (memory s) [] [] s u)"
    using does_ready [OF t] does_inp [OF t] assms(2,3) does_same [OF t]
    by (intro key_loop_hit) (auto simp: BOOTWAIT_def)
  then show ?thesis
    using assms(4) does_same [OF _ pout_does [OF does_ready]]
    by (auto simp: wait_key_def returns_bind_iff Let_def elim!: returns_mono)
qed

lemma turn_wp:
  assumes "ready s" and "length buffer = BUFLEN" and "inp s = t @ 13 # later"
    and "list_all printable t" and "length t < BUFLEN"
    and "\<And>u tail. does (memory s) (str ''> '' @ t @ crlf) (t @ [13]) s u \<Longrightarrow>
      returns (boot_command b app p addr (t @ 0 # tail) (length t) u) (\<lambda>(len, addr', v).
        returns (if len \<noteq> 0 then uart1_puts b (cstr crlf) v else Some v)
          (\<lambda>w. length (t @ 0 # tail) = BUFLEN \<longrightarrow> Q (addr', t @ 0 # tail, w)))"
  shows "returns (boot_turn b app p (addr, buffer, s)) Q"
proof -
  have nl: "10 \<notin> set t" "13 \<notin> set t" "0 \<notin> set t"
    using assms(4) by (auto simp: list_all_iff printable_def)
  have id: "foldl (line_text (int BUFLEN - 1)) [] t = t" "line_echoes (int BUFLEN - 1) [] t = t"
    using foldl_line_text_id [of "[]" t "int BUFLEN - 1"] assms(4,5) by simp_all
  have prompt: "0 \<notin> set (str ''> '')" by (simp add: str_def ch_def)
  have "returns (getline b buffer (int BUFLEN) r) (\<lambda>(len, buffer, s).
      returns (boot_command b app p addr buffer len s) (\<lambda>(len, addr', v).
        returns (if len \<noteq> 0 then uart1_puts b (cstr crlf) v else Some v)
          (\<lambda>w. Q (addr', buffer, w))))" if r: "talks (str ''> '') [] s r" for r
  proof (rule returns_mono [OF getline_wp [of r "int BUFLEN" buffer t 13 later]])
    show "ready r" using r by (rule talks_ready)
    show "inp r = t @ 13 # later" using talks_inp [OF r] assms(3) by simp
  next
    fix x :: "nat \<times> u8 list \<times> 'd"
    obtain n buf u where x: "x = (n, buf, u)" by (cases x) auto
    assume "case x of (n, buf', s') \<Rightarrow>
      n = length (foldl (line_text (int BUFLEN - 1)) [] t) \<and>
      take n buf' = foldl (line_text (int BUFLEN - 1)) [] t \<and> buf' ! n = 0 \<and>
      length buf' = length buffer \<and>
      talks (line_echoes (int BUFLEN - 1) [] t @ crlf) (t @ [13]) r s'"
    then have n: "n = length t" "take n buf = t" "buf ! n = 0" "length buf = BUFLEN"
      and u: "talks (t @ crlf) (t @ [13]) r u" by (auto simp: x id assms(2))
    have buf: "t @ 0 # drop (Suc (length t)) buf = buf"
      using c_string_take [OF n(2,3)] n(1,4) assms(5) nl(3) by simp
    have "does (memory s) (str ''> '' @ t @ crlf) (t @ [13]) s u"
      using talks_does [OF talks_trans [OF r u]] by simp
    from assms(6) [OF this, of "drop (Suc (length t)) buf"] n(4) show "case x of (len, buffer, s) \<Rightarrow>
      returns (boot_command b app p addr buffer len s) (\<lambda>(len, addr', v).
        returns (if len \<noteq> 0 then uart1_puts b (cstr crlf) v else Some v)
          (\<lambda>w. Q (addr', buffer, w)))"
      unfolding buf by (simp add: x n(1) cong: if_cong)
  qed (use assms(2) nl in \<open>auto simp: BUFLEN_def\<close>)
  then show ?thesis
    unfolding boot_turn_def case_prod_conv
    by (intro returns_bind puts_wp [OF assms(1) prompt])
      (auto simp: returns_bind_iff case_prod_unfold)
qed

lemma show_cell_wp:
  assumes "does m sent got s t" and "n \<in> {2, 4, 8}"
    and "\<And>u. does m (sent @ hexstr 8 (unat addr) @ str '': '' @ hexstr n (unat v)) got s u \<Longrightarrow> Q u"
  shows "returns (show_cell b addr v (int n) t) Q"
proof -
  have colon: "0 \<notin> set (str '': '')" by (simp add: str_def ch_def)
  have "returns (show_cell b addr v (int n) t)
      (talks (hexstr 8 (unat addr) @ str '': '' @ hexstr n (unat v)) [] t)"
    using does_ready [OF assms(1)] assms(2) colon
    unfolding show_cell_def
    by (auto intro!: wp simp: talks_ready dest: talks_trans)
  then show ?thesis
    by (rule returns_mono) (use assms(3) does_talks [OF assms(1)] in fastforce)
qed


lemma write_command_wp:
  assumes "k \<in> {98, 104, 119}" and "list_all isxdigit A" "A \<noteq> []" "list_all isxdigit D" "D \<noteq> []"
    and t: "does m sent got s u" and "addr_of A < limit" and al: "cell_aligned k (addr_of A)"
  shows "returns (boot_command b app p addr (write_line k A D @ 0 # tail) len u)
    (\<lambda>(len', a, v). len' = len \<and> a = addr_of A \<and>
      does (put_cell k (addr_of A) (addr_of D) m) sent got s v)"
proof -
  let ?t = "write_line k A D"
  have nz: "0 \<notin> set ?t"
    using xdigits_printable [OF assms(2)] xdigits_printable [OF assms(4)] assms(1)
    by (auto simp: write_line_def list_all_iff printable_def)
  have str: "c_string (?t @ 0 # tail) = Some ?t"
    using nz by (rule c_string_append)
  have args: "parsehex (drop 3 (?t @ 0 # tail)) = Some (addr_of A, 32 # D @ 0 # tail)"
    "parsehex (32 # D @ 0 # tail) = Some (addr_of D, 0 # tail)"
    using assms(2-5) xdigit_facts by (simp_all add: write_line_def parse_address parse_data)
  have other: "?t \<noteq> [104]" "?t \<noteq> [114]" "take 3 ?t = [119, k, 32]"
    by (simp_all add: write_line_def)
  have cmd: "boot_command b app p addr (?t @ 0 # tail) len u = Some (len, addr_of A,
      if k = 98 then st8 b (addr_of A) (ucast (addr_of D)) u
      else if k = 104 then st16 b (addr_of A) (ucast (addr_of D)) u
      else st32 b (addr_of A) (addr_of D) u)"
    using assms(1) str args other
    by (elim insertE emptyE) (simp_all add: boot_command_def command_strings)
  note st = store_does [OF does_ready [OF t] assms(7)]
  have after: "does m' sent got s v" if "does m' [] [] u v" for m' v
    using does_trans [OF t that] by simp
  show ?thesis
    using assms(1) al after [OF st(1)] after [OF st(2)] after [OF st(3)]
    unfolding cmd does_memory [OF t] put_cell_def cell_aligned_def by (elim insertE emptyE) simp_all
qed

lemma read_command_wp:
  assumes "k \<in> {98, 104, 119}" and "list_all isxdigit A" "A \<noteq> []"
    and t: "does m sent got s u" and "addr_of A < limit" and al: "cell_aligned k (addr_of A)"
  shows "returns (boot_command b app p addr (read_line k A @ 0 # tail) len u)
    (\<lambda>(len', a, v). len' = len \<and> a = addr_of A \<and>
      does m (sent @ hexstr 8 (unat (addr_of A)) @ str '': '' @ get_cell k m (addr_of A)) got s v)"
proof -
  let ?t = "read_line k A"
  have nz: "0 \<notin> set ?t"
    using xdigits_printable [OF assms(2)] assms(1)
    by (auto simp: read_line_def list_all_iff printable_def)
  have str: "c_string (?t @ 0 # tail) = Some ?t"
    using nz by (rule c_string_append)
  have args: "parsehex (drop 3 (?t @ 0 # tail)) = Some (addr_of A, 0 # tail)"
    using assms(2,3) xdigit_facts by (simp add: read_line_def parse_address)
  have other: "?t \<noteq> [104]" "?t \<noteq> [114]" "take 3 ?t = [114, k, 32]"
    by (simp_all add: read_line_def)
  obtain v8 u8 where ld8: "ld8 b (addr_of A) u = (v8, u8)" by (cases "ld8 b (addr_of A) u")
  obtain v16 u16 where ld16: "ld16 b (addr_of A) u = (v16, u16)" by (cases "ld16 b (addr_of A) u")
  obtain v32 u32 where ld32: "ld32 b (addr_of A) u = (v32, u32)" by (cases "ld32 b (addr_of A) u")
  note loads = load8 [OF does_ready [OF t] assms(5) ld8] load16 [OF does_ready [OF t] assms(5) _ ld16]
    load32 [OF does_ready [OF t] assms(5) _ ld32]
  have d: "does m sent got s u8" "k = 104 \<Longrightarrow> does m sent got s u16" "k = 119 \<Longrightarrow> does m sent got s u32"
    using loads t al by (auto simp: does_def cell_aligned_def)
  have v: "v8 = m (addr_of A)" "k = 104 \<Longrightarrow> v16 = mem_half m (addr_of A)"
    "k = 119 \<Longrightarrow> v32 = mem_word m (addr_of A)"
    using loads does_memory [OF t] al by (auto simp: cell_aligned_def)
  have cmd: "boot_command b app p addr (?t @ 0 # tail) len u =
      do { s \<leftarrow> (if k = 98 then show_cell b (addr_of A) (ucast v8) (int 2) u8
        else if k = 104 then show_cell b (addr_of A) (ucast v16) (int 4) u16
        else show_cell b (addr_of A) v32 (int 8) u32); Some (len, addr_of A, s) }"
    using assms(1) str args other
    by (elim insertE emptyE) (simp_all add: boot_command_def command_strings ld8 ld16 ld32)
  show ?thesis
    using assms(1) unfolding cmd get_cell_def
    by (elim insertE emptyE)
      (auto simp: v intro!: returns_bind show_cell_wp [OF d(1), of 2, simplified]
        show_cell_wp [OF d(2), of 4, simplified] show_cell_wp [OF d(3), of 8, simplified])
qed


lemma crlf_wp:
  "does m sent got s v \<Longrightarrow> returns (uart1_puts b (cstr crlf) v) (does m (sent @ crlf) got s)"
  using does_talks [of m sent got s v crlf "[]"] by (auto intro!: puts_wp does_ready)

lemma turn_line_wp:
  assumes "ready s" and "length buffer = BUFLEN" and "inp s = t @ 13 # later"
    and "list_all printable t" and "length t < BUFLEN" and "t \<noteq> []"
    and "\<And>u tail. does (memory s) (str ''> '' @ t @ crlf) (t @ [13]) s u \<Longrightarrow>
      returns (boot_command b app p addr (t @ 0 # tail) (length t) u) (\<lambda>(len, a', v).
        len = length t \<and> a' = a \<and> does m sent (t @ [13]) s v)"
  shows "returns (boot_turn b app p (addr, buffer, s)) (\<lambda>(a', buf, v). a' = a \<and>
    length buf = BUFLEN \<and> does m (sent @ crlf) (t @ [13]) s v)"
proof (rule turn_wp [OF assms(1-5)])
  fix u tail assume "does (memory s) (str ''> '' @ t @ crlf) (t @ [13]) s u"
  from assms(7) [OF this, of tail] obtain v where
    cmd: "boot_command b app p addr (t @ 0 # tail) (length t) u = Some (length t, a, v)"
    and "does m sent (t @ [13]) s v" by (auto simp: returns_ex)
  from crlf_wp [OF this(2)] obtain w where "uart1_puts b (cstr crlf) v = Some w"
    "does m (sent @ crlf) (t @ [13]) s w" by (auto simp: returns_ex)
  then show "returns (boot_command b app p addr (t @ 0 # tail) (length t) u) (\<lambda>(len, addr', v).
        returns (if len \<noteq> 0 then uart1_puts b (cstr crlf) v else Some v)
          (\<lambda>w. length (t @ 0 # tail) = BUFLEN \<longrightarrow> (case (addr', t @ 0 # tail, w) of (a', buf, v) \<Rightarrow>
             a' = a \<and> length buf = BUFLEN \<and> does m (sent @ crlf) (t @ [13]) s v)))"
    using assms(6) by (simp add: cmd)
qed

text \<open>A turn of the monitor for a write and for a read.\<close>

lemma turn_write_wp:
  assumes "ready s" and "length buffer = BUFLEN" and "inp s = write_line k A D @ 13 # later"
    and "k \<in> {98, 104, 119}" and "list_all isxdigit A" "A \<noteq> []" "list_all isxdigit D" "D \<noteq> []"
    and "length (write_line k A D) < BUFLEN" and "addr_of A < limit" and "cell_aligned k (addr_of A)"
  shows "returns (boot_turn b app p (addr, buffer, s)) (\<lambda>(a, buf, v). a = addr_of A \<and>
    length buf = BUFLEN \<and> does (put_cell k (addr_of A) (addr_of D) (memory s))
      ((str ''> '' @ write_line k A D @ crlf) @ crlf) (write_line k A D @ [13]) s v)"
  using xdigits_printable [OF assms(5)] xdigits_printable [OF assms(7)] assms(4)
  by (intro turn_line_wp [OF assms(1-3)] write_command_wp assms)
    (auto simp: write_line_def printable_def)

lemma turn_read_wp:
  assumes "ready s" and "length buffer = BUFLEN" and "inp s = read_line k A @ 13 # later"
    and "k \<in> {98, 104, 119}" and "list_all isxdigit A" "A \<noteq> []"
    and "length (read_line k A) < BUFLEN" and "addr_of A < limit" and "cell_aligned k (addr_of A)"
  shows "returns (boot_turn b app p (addr, buffer, s)) (\<lambda>(a, buf, v). a = addr_of A \<and>
    length buf = BUFLEN \<and> does (memory s) (((str ''> '' @ read_line k A @ crlf)
        @ hexstr 8 (unat (addr_of A)) @ str '': '' @ get_cell k (memory s) (addr_of A)) @ crlf)
      (read_line k A @ [13]) s v)"
  using xdigits_printable [OF assms(5)] assms(4)
  by (intro turn_line_wp [OF assms(1-3)] read_command_wp assms)
    (auto simp: read_line_def printable_def)

lemma ascii_loop_wp:
  assumes "ready s" and "0 < j \<Longrightarrow> m = push_bit (8 * (j - 1)) 0xff" and "j \<le> 4"
  shows "returns (ascii_loop b j m v s) (talks (map (\<lambda>i. shown (lane i v)) (rev [0..<j])) [] s)"
  using assms
proof (induction j arbitrary: m s)
  case 0
  then show ?case by simp
next
  case (Suc j)
  let ?c = "drop_bit (j * 8) (v AND m)"
  have m: "m = push_bit (8 * j) (mask 8)" using Suc.prems(2) by (simp add: mask_eq_exp_minus_1)
  have c: "?c = ucast (lane j v)"
    unfolding m using Suc.prems(3)
    by (intro bit_word_eqI) (auto simp: bit_simps lane_def ac_simps)
  have sh: "(ucast (if ?c > 0x1f \<and> ?c < 0x7f then ?c else 46) :: u8) = shown (lane j v)"
    unfolding c by (simp add: shown_def printable_def word_less_nat_alt)
  have "returns (ascii_loop b j (drop_bit 8 m) v t)
      (talks (map (\<lambda>i. shown (lane i v)) (rev [0..<Suc j])) [] s)"
    if t: "talks [shown (lane j v)] [] s t" for t
  proof -
    have "j = 0 \<or> j = 1 \<or> j = 2 \<or> j = 3" using Suc.prems(3) by linarith
    then have "0 < j \<Longrightarrow> drop_bit 8 m = push_bit (8 * (j - 1)) 0xff"
      using Suc.prems(2) by auto
    then show ?thesis
      using Suc.prems(3) talks_trans [OF t]
      by (auto elim!: returns_mono intro!: returns_mono [OF Suc.IH [OF talks_ready [OF t]]])
  qed
  then show ?case
    unfolding ascii_loop.simps Let_def
    by (intro returns_bind putc_wp [OF Suc.prems(1)]) (simp only: sh)
qed

lemma ascii_wp:
  assumes "ready s"
  shows "returns (ascii_loop b 4 0xff000000 (mem_word m a) s)
    (talks (map shown [m (a + 3), m (a + 2), m (a + 1), m a]) [] s)"
  using ascii_loop_wp [OF assms, of 4 "0xff000000" "mem_word m a"]
  by (simp add: lanes_mem_word eval_nat_numeral upt_rec)

text \<open>Steps of a command that prints and reads memory.\<close>

lemma does_printhex:
  assumes "does m sent got s t" and "n \<in> {2, 4, 8}"
    and "\<And>u. does m (sent @ hexstr (nat n) (unat v)) got s u \<Longrightarrow> Q u"
  shows "returns (printhex b v n t) Q"
  using assms(2) does_talks [OF assms(1), of _ "[]"]
  by (intro printhex_wp [OF does_ready [OF assms(1)]] assms(3)) auto

lemma does_puts:
  assumes "does m sent got s t" and "0 \<notin> set cs" and "\<And>u. does m (sent @ cs) got s u \<Longrightarrow> Q u"
  shows "returns (uart1_puts b (cstr cs) t) Q"
  using assms(2) does_talks [OF assms(1), of _ "[]"]
  by (intro puts_wp [OF does_ready [OF assms(1)]] assms(3)) auto

lemma does_ld32:
  assumes "does m sent got s t" and "a < limit" and "a AND 3 = 0"
    and "\<And>u. does m sent got s u \<Longrightarrow> returns (f (mem_word m a) u) Q"
  shows "returns (let (v, s) = ld32 b a t in f v s) Q"
proof -
  obtain v u where ld: "ld32 b a t = (v, u)" by (cases "ld32 b a t")
  with load32 [OF does_ready [OF assms(1)] assms(2,3) ld] assms(1)
  have "does m sent got s u" "v = mem_word m a" by (auto simp: does_def)
  with assms(4) show ?thesis by (simp add: ld)
qed

lemma dump_wp:
  assumes "does m sent got s t" and "\<forall>j < k. a + 4 * word_of_nat j < limit" and "a AND 3 = 0"
  shows "returns (dump_loop b k a t) (\<lambda>(a', u). a' = a + 4 * word_of_nat k \<and>
    does m (sent @ dump_lines m k a) got s u)"
  using assms
proof (induction k arbitrary: a sent t)
  case 0
  then show ?case by simp
next
  case (Suc k)
  note t = Suc.prems(1)
  have "a < limit" using Suc.prems(2) by force
  have strs: "0 \<notin> set (str '': '')" "0 \<notin> set (str ''  '')" by (simp_all add: str_def ch_def)
  have line: "returns (do { s \<leftarrow> printhex b a 8 t; s \<leftarrow> uart1_puts b (cstr (str '': '')) s;
      let (v, s) = ld32 b a s; s \<leftarrow> printhex b v 8 s; s \<leftarrow> uart1_puts b (cstr (str ''  '')) s;
      s \<leftarrow> ascii_loop b 4 0xff000000 v s; uart1_puts b (cstr crlf) s })
    (does m (sent @ dump_line m a) got s)"
    apply (rule returns_bind, rule does_printhex [OF t], simp)
    apply (rule returns_bind, rule does_puts, assumption, rule strs)
    apply (rule does_ld32, assumption, rule \<open>a < limit\<close>, rule Suc.prems(3))
    apply (rule returns_bind, rule does_printhex, assumption, simp)
    apply (rule returns_bind, rule does_puts, assumption, rule strs)
    apply (rule returns_bind, rule returns_mono, rule ascii_wp, erule does_ready)
    apply (drule (1) does_talks, erule does_puts, simp, simp add: dump_line_def)
    done
  have rest: "returns (dump_loop b k (a + 4) u) (\<lambda>(a', u). a' = a + 4 * word_of_nat (Suc k) \<and>
      does m (sent @ dump_lines m (Suc k) a) got s u)" if u: "does m (sent @ dump_line m a) got s u" for u
  proof -
    have "\<forall>j < k. a + 4 + 4 * word_of_nat j < limit"
    proof (intro allI impI)
      fix j assume "j < k"
      with Suc.prems(2) have "a + 4 * word_of_nat (Suc j) < limit" by (simp del: of_nat_Suc)
      then show "a + 4 + 4 * word_of_nat j < limit" by (simp add: algebra_simps)
    qed
    from returns_mono [OF Suc.IH [OF u this next_aligned [OF Suc.prems(3)]]] show ?thesis by (auto simp: algebra_simps)
  qed
  from returns_mono [OF line rest] show ?case
    by (simp add: returns_bind_iff case_prod_unfold Let_def)
qed

end

end
