(* ===== verification/Monitor.thy ===== *)
theory Monitor
  imports Util Ram Records Boot
begin

text \<open>
  The stand-alone monitor program, \<^verbatim>\<open>sw/monitor/monitor.c\<close>. It reads a line with \<^verbatim>\<open>uart1_gets\<close>, parses
  the address and the data itself, and prints what it reads in either byte order. The endless loop
  is given by one turn; the state between turns is the byte order and the line buffer.
\<close>

section \<open>Arguments\<close>

text \<open>A character of a number: hexadecimal digits count, everything else is passed over.\<close>

definition add_digit :: "u32 \<Rightarrow> u8 \<Rightarrow> u32" where
  "add_digit val c =
     (if isxdigit c then
        (if isdigit c then val * 16 + ucast c - 48 else val * 16 + ucast (toupper c) - 65 + 10)
      else val)"

fun address_loop :: "u32 \<Rightarrow> u8 list \<Rightarrow> u32 option" where
  "address_loop val [] = None"
| "address_loop val (c # cs) =
     (if c \<noteq> 0 \<and> c \<noteq> 32 then address_loop (add_digit val c) cs else Some val)"

definition read_address :: "u8 list \<Rightarrow> u32 option" where
  "read_address s =
     do { s \<leftarrow> skip_space s;
          if hd s = 0 then Some 0 else address_loop 0 s }"

text \<open>\<^verbatim>\<open>while (!isspace(*s)) s++\<close> does not stop at the end of the string.\<close>

fun skip_word :: "u8 list \<Rightarrow> u8 list option" where
  "skip_word [] = None"
| "skip_word (c # cs) = (if \<not> isspace c then skip_word cs else Some (c # cs))"

fun data_loop :: "u32 \<Rightarrow> u8 list \<Rightarrow> u32 option" where
  "data_loop val [] = None"
| "data_loop val (c # cs) = (if c \<noteq> 0 then data_loop (add_digit val c) cs else Some val)"

definition read_data_after_address :: "u8 list \<Rightarrow> u32 option" where
  "read_data_after_address s =
     do { s \<leftarrow> skip_space s;
          if hd s = 0 then Some 0
          else
            do { s \<leftarrow> skip_word s;
                 s \<leftarrow> skip_space s;
                 if hd s = 0 then Some 0 else data_loop 0 s } }"

section \<open>Commands\<close>

definition swap_word :: "u32 \<Rightarrow> u32" where
  "swap_word val = push_bit 24 (val AND 0xff) + push_bit 16 (drop_bit 8 val AND 0xff)
     + push_bit 8 (drop_bit 16 val AND 0xff) + (drop_bit 24 val AND 0xff)"

definition swap_half :: "u16 \<Rightarrow> u16" where
  "swap_half val = push_bit 8 (val AND 0xff) + (drop_bit 8 val AND 0xff)"

text \<open>\<^verbatim>\<open>sprintf(buffer, "%0nlx", val)\<close> for a value of at most \<open>n\<close> digits, and \<^verbatim>\<open>uart1_puts(buffer)\<close>.\<close>

definition print_value :: "'d bus \<Rightarrow> nat \<Rightarrow> u32 \<Rightarrow> u8 list \<Rightarrow> 'd \<Rightarrow> (u8 list \<times> 'd) option" where
  "print_value b n val buffer s =
     do { let buffer = hexstr n (unat val) @ 0 # drop (n + 1) buffer;
          s \<leftarrow> uart1_puts b (Some buffer) s;
          Some (buffer, s) }"

definition say_line :: "'d bus \<Rightarrow> string \<Rightarrow> 'd \<Rightarrow> 'd option" where
  "say_line b t s = uart1_puts b (cstr (str t @ crlf)) s"

definition say_text :: "'d bus \<Rightarrow> string \<Rightarrow> 'd \<Rightarrow> 'd option" where
  "say_text b t s = uart1_puts b (cstr (str t)) s"

definition monitor_read :: "'d bus \<Rightarrow> bool \<Rightarrow> u8 list \<Rightarrow> 'd \<Rightarrow> (u8 list \<times> 'd) option" where
  "monitor_read b little buffer s =
     do { (buffer, s) \<leftarrow>
            (if buffer ! 1 = ch (CHR ''w'') then
               do { p \<leftarrow> read_address (drop 2 buffer);
                    if p AND 3 = 0 then
                      do { let (val, s) = ld32 b p s;
                           print_value b 8 (if little then swap_word val else val) buffer s }
                    else do { s \<leftarrow> say_text b ''Not on 4-byte boundary'' s; Some (buffer, s) } }
             else if buffer ! 1 = ch (CHR ''h'') then
               do { p \<leftarrow> read_address (drop 2 buffer);
                    if p AND 1 = 0 then
                      do { let (val, s) = ld16 b p s;
                           print_value b 4 (ucast (if little then swap_half val else val)) buffer s }
                    else do { s \<leftarrow> say_text b ''Not on 2-byte boundary'' s; Some (buffer, s) } }
             else if buffer ! 1 = ch (CHR ''b'') then
               do { p \<leftarrow> read_address (drop 2 buffer);
                    let (val, s) = ld8 b p s;
                    print_value b 2 (ucast val) buffer s }
             else do { s \<leftarrow> say_text b ''Unknown size'' s; Some (buffer, s) });
          s \<leftarrow> uart1_puts b (cstr crlf) s;
          Some (buffer, s) }"

definition monitor_write :: "'d bus \<Rightarrow> u8 list \<Rightarrow> 'd \<Rightarrow> 'd option" where
  "monitor_write b buffer s =
     do { s \<leftarrow>
            (if buffer ! 1 = ch (CHR ''w'') then
               do { p \<leftarrow> read_address (drop 2 buffer);
                    data \<leftarrow> read_data_after_address (drop 2 buffer);
                    if p AND 3 = 0 then Some (st32 b p data s)
                    else say_text b ''Not on 4-byte boundary'' s }
             else if buffer ! 1 = ch (CHR ''h'') then
               do { p \<leftarrow> read_address (drop 2 buffer);
                    data \<leftarrow> read_data_after_address (drop 2 buffer);
                    if p AND 1 = 0 then Some (st16 b p (ucast data) s)
                    else say_text b ''Not on 2-byte boundary'' s }
             else if buffer ! 1 = ch (CHR ''b'') then
               do { p \<leftarrow> read_address (drop 2 buffer);
                    data \<leftarrow> read_data_after_address (drop 2 buffer);
                    Some (st8 b p (ucast data) s) }
             else say_text b ''Unknown size'' s);
          uart1_puts b (cstr crlf) s }"

definition monitor_help :: "'d bus \<Rightarrow> 'd \<Rightarrow> 'd option" where
  "monitor_help b s =
     do { s \<leftarrow> say_line b ''Commands:'' s;
          s \<leftarrow> say_line b ''h -- this help'' s;
          s \<leftarrow> say_line b ''l -- set little endian format'' s;
          s \<leftarrow> say_line b ''b -- set big endian format'' s;
          s \<leftarrow> say_line b ''rw <address> -- read word'' s;
          s \<leftarrow> say_line b ''rh <address> -- read half word'' s;
          s \<leftarrow> say_line b ''rb <address> -- read byte'' s;
          s \<leftarrow> say_line b ''ww <address> <data> -- write word'' s;
          s \<leftarrow> say_line b ''wh <address> <data> -- write half word'' s;
          say_line b ''wb <address> <data> -- write byte'' s }"

text \<open>What follows the reading of a line \<open>t\<close> into the buffer; \<^verbatim>\<open>continue\<close> is the end of a turn.\<close>

definition monitor_line :: "'d bus \<Rightarrow> bool \<Rightarrow> u8 list \<Rightarrow> 'd \<Rightarrow> (bool \<times> u8 list \<times> 'd) option" where
  "monitor_line b little buffer s =
     do { t \<leftarrow> c_string buffer;
          let len = length t;
          if len = 0 then
            do { s \<leftarrow> say_line b ''Enter a command or h for help'' s; Some (little, buffer, s) }
          else if len = 1 \<and> buffer ! 0 = ch (CHR ''h'') then
            do { s \<leftarrow> monitor_help b s; Some (little, buffer, s) }
          else if len = 1 \<and> buffer ! 0 = ch (CHR ''b'') then
            do { s \<leftarrow> say_line b ''Set Big Endian'' s; Some (False, buffer, s) }
          else if len = 1 \<and> buffer ! 0 = ch (CHR ''l'') then
            do { s \<leftarrow> say_line b ''Set Little Endian'' s; Some (True, buffer, s) }
          else if len < 3 then
            do { s \<leftarrow> say_line b ''Enter a correct command of h for help'' s; Some (little, buffer, s) }
          else
            do { (buffer, s) \<leftarrow> (if buffer ! 0 = ch (CHR ''r'') then monitor_read b little buffer s
                               else Some (buffer, s));
                 s \<leftarrow> (if buffer ! 0 = ch (CHR ''w'') then monitor_write b buffer s else Some s);
                 Some (little, buffer, s) } }"

definition monitor_turn :: "'d bus \<Rightarrow> bool \<times> u8 list \<times> 'd \<Rightarrow> (bool \<times> u8 list \<times> 'd) option" where
  "monitor_turn b = (\<lambda>(little, buffer, s).
     do { s \<leftarrow> say_text b ''>> '' s;
          (len, buffer, s) \<leftarrow> uart1_gets b buffer 40 s;
          monitor_line b little buffer s })"

text \<open>\<^verbatim>\<open>main\<close> up to the loop.\<close>

definition monitor_start :: "'d bus \<Rightarrow> 'd \<Rightarrow> (bool \<times> u8 list \<times> 'd) option" where
  "monitor_start b s =
     do { let buffer = replicate 40 0;
          let s = uart1_init b BAUD_RATE UART_CTRL_EN s;
          s \<leftarrow> uart1_puts b (cstr (crlf @ str ''THUAS RISC-V FPGA 32-bit processor'' @ crlf)) s;
          s \<leftarrow> say_line b ''Monitor v0.1'' s;
          Some (True, buffer, s) }"

section \<open>What the arguments mean\<close>

lemma hexval_upper: "isxdigit c \<Longrightarrow> \<not> isdigit c \<Longrightarrow> (ucast (toupper c) :: u32) - 65 + 10 = word_of_nat (hexval c)"
  by (auto simp: isdigit_def isxdigit_def hexval_def toupper_def word_le_nat_alt
      word_eq_unat_iff unat_sub_if' unat_word_ariths unsigned_of_nat take_bit_nat_eq_self)

lemma add_digit_word: "isxdigit c \<Longrightarrow> add_digit (word_of_nat n) c = word_of_nat (16 * n + hexval c)"
  using hexval_word(1) [of c] hexval_upper [of c]
  by (auto simp: add_digit_def mult.commute add_diff_eq [symmetric] add.assoc)

lemma address_loop_eq:
  "list_all isxdigit A \<Longrightarrow> c = 0 \<or> c = 32 \<Longrightarrow>
    address_loop (word_of_nat n) (A @ c # tail) = Some (word_of_nat (n * 16 ^ length A + hexnum A))"
proof (induction A arbitrary: n)
  case Nil
  then show ?case by auto
next
  case (Cons d A)
  have "d \<noteq> 0" "d \<noteq> 32" using Cons.prems(1) by (auto simp: isxdigit_def)
  with Cons.prems Cons.IH [of "16 * n + hexval d"] show ?case
    by (simp add: add_digit_word hexnum_Cons algebra_simps del: of_nat_add of_nat_mult)
qed

lemma data_loop_eq:
  "list_all isxdigit D \<Longrightarrow> data_loop (word_of_nat n) (D @ 0 # tail) = Some (word_of_nat (n * 16 ^ length D + hexnum D))"
proof (induction D arbitrary: n)
  case Nil
  then show ?case by simp
next
  case (Cons d D)
  have "d \<noteq> 0" using Cons.prems(1) by (auto simp: isxdigit_def)
  with Cons.prems Cons.IH [of "16 * n + hexval d"] show ?case
    by (simp add: add_digit_word hexnum_Cons algebra_simps del: of_nat_add of_nat_mult)
qed

lemma skip_space_digit: "list_all isxdigit A \<Longrightarrow> A \<noteq> [] \<Longrightarrow> skip_space (32 # A @ cs) = Some (A @ cs)"
  by (cases A) (auto simp: isspace_def isxdigit_def isdigit_def word_le_nat_alt)

lemma hd_digit: "list_all isxdigit A \<Longrightarrow> A \<noteq> [] \<Longrightarrow> hd (A @ cs) \<noteq> 0"
  by (cases A) (auto simp: isxdigit_def)

lemma skip_word_digits: "list_all isxdigit A \<Longrightarrow> skip_word (A @ 32 # cs) = Some (32 # cs)"
  by (induction A) (auto simp: isspace_def isxdigit_def word_le_nat_alt)

lemma read_address_eq:
  assumes "list_all isxdigit A" "A \<noteq> []" "c = 0 \<or> c = 32"
  shows "read_address (32 # A @ c # tail) = Some (addr_of A)"
  using skip_space_digit [OF assms(1,2)] hd_digit [OF assms(1,2)] address_loop_eq [OF assms(1,3), of 0]
  by (simp add: read_address_def addr_of_def)

lemma read_data_eq:
  assumes "list_all isxdigit A" "A \<noteq> []" "list_all isxdigit D" "D \<noteq> []"
  shows "read_data_after_address (32 # A @ 32 # D @ 0 # tail) = Some (addr_of D)"
  using skip_space_digit [OF assms(1,2)] hd_digit [OF assms(1,2)] skip_word_digits [OF assms(1)]
    skip_space_digit [OF assms(3,4)] hd_digit [OF assms(3,4)] data_loop_eq [OF assms(3), of 0]
  by (simp add: read_data_after_address_def addr_of_def)

text \<open>The contents of a cell as it is printed: in the order of memory, or most significant first.\<close>

definition shown_cell :: "bool \<Rightarrow> u8 \<Rightarrow> (u32 \<Rightarrow> u8) \<Rightarrow> u32 \<Rightarrow> u8 list" where
  "shown_cell little k m a =
     (let bs = map (\<lambda>i. m (a + word_of_nat i)) [0 ..< if k = 98 then 1 else if k = 104 then 2 else 4]
      in concat (map (\<lambda>c. hexstr 2 (unat c)) (if little then bs else rev bs)))"

lemma hexstr_append: "hexstr (m + n) v = hexstr m (v div 16 ^ n) @ hexstr n v"
  by (induction n arbitrary: v) (simp_all add: div_mult2_eq mult.commute)

lemma hexstr_byte: "hexstr 2 (unat (ucast w :: u8)) = hexstr 2 (unat w)" for w :: "'a::len word"
proof -
  have "unat w mod 256 div 16 = unat w div 16 mod 16"
    using mod_mult2_eq [of "unat w" 16 16] by simp
  then show ?thesis by (simp add: hexstr_digits unsigned_ucast_eq take_bit_eq_mod mod_mod_cancel)
qed

lemma hexstr_parts:
  "hexstr 4 v = hexstr 2 (v div 256) @ hexstr 2 v"
  "hexstr 8 v = hexstr 2 (v div 16777216) @ hexstr 2 (v div 65536) @ hexstr 2 (v div 256) @ hexstr 2 v"
  using hexstr_append [of 2 2 v] hexstr_append [of 6 2 v] hexstr_append [of 4 2 "v div 256"]
    hexstr_append [of 2 2 "v div 65536"]
  by (simp_all add: div_mult2_eq [symmetric])

lemma hexstr_word:
  "hexstr 8 (unat w) = concat (map (\<lambda>c. hexstr 2 (unat c))
    [ucast (drop_bit 24 w) :: u8, ucast (drop_bit 16 w), ucast (drop_bit 8 w), ucast w])" for w :: u32
  by (simp add: hexstr_parts hexstr_byte unat_drop_div)

lemma hexstr_half:
  "hexstr 4 (unat w) = concat (map (\<lambda>c. hexstr 2 (unat c)) [ucast (drop_bit 8 w) :: u8, ucast w])" for w :: u16
  by (simp add: hexstr_parts hexstr_byte unat_drop_div)

lemma swap_word_bytes:
  "ucast (drop_bit 24 (swap_word w)) = (ucast w :: u8)"
  "ucast (drop_bit 16 (swap_word w)) = (ucast (drop_bit 8 w) :: u8)"
  "ucast (drop_bit 8 (swap_word w)) = (ucast (drop_bit 16 w) :: u8)"
  "ucast (swap_word w) = (ucast (drop_bit 24 w) :: u8)"
proof -
  have 255: "255 = (mask 8 :: u32)" by (simp add: mask_eq_exp_minus_1)
  have "push_bit 24 (w AND 255) AND push_bit 16 (drop_bit 8 w AND 255) = 0"
    "(push_bit 24 (w AND 255) OR push_bit 16 (drop_bit 8 w AND 255)) AND push_bit 8 (drop_bit 16 w AND 255) = 0"
    "(push_bit 24 (w AND 255) OR push_bit 16 (drop_bit 8 w AND 255) OR push_bit 8 (drop_bit 16 w AND 255))
      AND (drop_bit 24 w AND 255) = 0"
    unfolding 255 by (rule bit_word_eqI; auto simp: bit_simps)+
  then have "swap_word w = push_bit 24 (w AND 255) OR push_bit 16 (drop_bit 8 w AND 255)
      OR push_bit 8 (drop_bit 16 w AND 255) OR (drop_bit 24 w AND 255)"
    by (simp add: swap_word_def disjunctive_add_eq_or or.assoc)
  then show "ucast (drop_bit 24 (swap_word w)) = (ucast w :: u8)"
    "ucast (drop_bit 16 (swap_word w)) = (ucast (drop_bit 8 w) :: u8)"
    "ucast (drop_bit 8 (swap_word w)) = (ucast (drop_bit 16 w) :: u8)"
    "ucast (swap_word w) = (ucast (drop_bit 24 w) :: u8)"
    unfolding 255 by (auto intro!: bit_word_eqI simp: bit_simps)
qed

lemma swap_half_bytes:
  "ucast (drop_bit 8 (swap_half w)) = (ucast w :: u8)" "ucast (swap_half w) = (ucast (drop_bit 8 w) :: u8)"
proof -
  have 255: "255 = (mask 8 :: u16)" by (simp add: mask_eq_exp_minus_1)
  have "push_bit 8 (w AND 255) AND (drop_bit 8 w AND 255) = 0"
    unfolding 255 by (rule bit_word_eqI) (auto simp: bit_simps)
  then have "swap_half w = push_bit 8 (w AND 255) OR (drop_bit 8 w AND 255)"
    by (simp add: swap_half_def disjunctive_add_eq_or)
  then show "ucast (drop_bit 8 (swap_half w)) = (ucast w :: u8)" "ucast (swap_half w) = (ucast (drop_bit 8 w) :: u8)"
    unfolding 255 by (auto intro!: bit_word_eqI simp: bit_simps)
qed

lemma mem_half_bytes: "ucast (mem_half m a) = m a" "ucast (drop_bit 8 (mem_half m a)) = m (a + 1)"
  by (rule bit_word_eqI; auto simp: mem_half_def bit_simps dest: bit_imp_le_length)+

lemma shown_cells:
  "shown_cell little 119 m a = hexstr 8 (unat (if little then swap_word (mem_word m a) else mem_word m a))"
  "shown_cell little 104 m a = hexstr 4 (unat (ucast (if little then swap_half (mem_half m a) else mem_half m a) :: u32))"
  "shown_cell little 98 m a = hexstr 2 (unat (ucast (m a) :: u32))"
  by (simp_all add: shown_cell_def Let_def hexstr_word hexstr_half swap_word_bytes swap_half_bytes
      mem_word_bytes mem_half_bytes upt_conv_Cons)

lemma foldl_gets_text_id:
  "list_all printable (t @ cs) \<Longrightarrow> int (length (t @ cs)) < sz \<Longrightarrow>
    foldl (gets_text sz) t cs = t @ cs \<and> gets_echoes sz t cs = cs"
proof (induction cs arbitrary: t)
  case Nil
  then show ?case by simp
next
  case (Cons c cs)
  then have "printable c" by simp
  then have "c \<noteq> 0x7f" "c \<noteq> 8" "c \<noteq> 21" "c \<noteq> 3" by (auto simp: printable_def)
  with Cons \<open>printable c\<close> show ?case by (simp add: gets_text_def gets_echo_def)
qed

lemma hexstr_no_nul: "0 \<notin> set (hexstr n v)"
  using set_hexstr [of 0 n v] by (auto simp: isxdigit_def)

section \<open>A turn\<close>

text \<open>The answer to an address that is not a multiple of the size of the cell.\<close>

definition misaligned :: "u8 \<Rightarrow> u8 list" where
  "misaligned k = (if k = 119 then str ''Not on 4-byte boundary'' else str ''Not on 2-byte boundary'')"

lemma texts_no_nul: "0 \<notin> set (misaligned k)" "0 \<notin> set (str ''Not on 4-byte boundary'')"
  "0 \<notin> set (str ''Not on 2-byte boundary'')" "0 \<notin> set crlf"
  by (simp_all add: misaligned_def str_def ch_def)

lemma key_codes: "ch (CHR ''w'') = 119" "ch (CHR ''h'') = 104" "ch (CHR ''b'') = 98" "ch (CHR ''r'') = 114"
  "ch (CHR ''l'') = 108"
  by (simp_all add: ch_def)

context board
begin

lemma print_value_wp:
  assumes "does m sent got s t"
  shows "returns (print_value b n v buf t) (\<lambda>(buf', u). does m (sent @ hexstr n (unat v)) got s u
    \<and> buf' = hexstr n (unat v) @ 0 # drop (n + 1) buf)"
proof -
  have "returns (uart1_puts b (Some (hexstr n (unat v) @ 0 # drop (n + 1) buf)) t)
      (does m (sent @ hexstr n (unat v)) got s)"
    using does_talks [OF assms, of _ "[]"]
    by (intro puts_buf_wp [OF does_ready [OF assms] hexstr_no_nul]) auto
  then show ?thesis by (auto simp: print_value_def Let_def returns_bind_iff elim!: returns_mono)
qed

lemma monitor_turn_wp:
  assumes "ready s" "length buffer = 40" "inp s = t @ 13 # later" "list_all printable t" "length t < 40"
    and "\<And>u tail. length (t @ 0 # tail) = 40 \<Longrightarrow> does (memory s) (str ''>> '' @ t @ crlf) (t @ [13]) s u \<Longrightarrow>
      returns (monitor_line b little (t @ 0 # tail) u) Q"
  shows "returns (monitor_turn b (little, buffer, s)) Q"
proof -
  have nl: "10 \<notin> set t" "13 \<notin> set t" "0 \<notin> set t"
    using assms(4) by (auto simp: list_all_iff printable_def)
  have id: "foldl (gets_text 40) [] t = t" "gets_echoes 40 [] t = t"
    using foldl_gets_text_id [of "[]" t 40] assms(4,5) by simp_all
  have prompt: "0 \<notin> set (str ''>> '')" by (simp add: str_def ch_def)
  have "returns (uart1_gets b buffer 40 r) (\<lambda>(len, buffer, s). returns (monitor_line b little buffer s) Q)"
    if r: "talks (str ''>> '') [] s r" for r
  proof (rule returns_mono [OF gets_wp [of r 40 buffer t 13 later]])
    show "ready r" using r by (rule talks_ready)
    show "inp r = t @ 13 # later" using talks_inp [OF r] assms(3) by simp
  next
    fix x :: "nat \<times> u8 list \<times> 'd"
    obtain n buf u where x: "x = (n, buf, u)" by (cases x) auto
    assume "case x of (n, buf', s') \<Rightarrow> n = length (foldl (gets_text 40) [] t)
      \<and> take n buf' = foldl (gets_text 40) [] t \<and> buf' ! n = 0 \<and> length buf' = length buffer
      \<and> talks (gets_echoes 40 [] t @ crlf) (t @ [13]) r s'"
    then have n: "n = length t" "take n buf = t" "buf ! n = 0" "length buf = 40"
      and u: "talks (t @ crlf) (t @ [13]) r u" by (auto simp: x id assms(2))
    have buf: "t @ 0 # drop (Suc (length t)) buf = buf"
      using c_string_take [OF n(2,3)] n(1,4) assms(5) nl(3) by simp
    have "does (memory s) (str ''>> '' @ t @ crlf) (t @ [13]) s u"
      using talks_does [OF talks_trans [OF r u]] by simp
    from assms(6) [OF _ this, of "drop (Suc (length t)) buf"] n(4)
    show "case x of (len, buffer, s) \<Rightarrow> returns (monitor_line b little buffer s) Q"
      unfolding buf by (simp add: x)
  qed (use assms(2) nl in auto)
  then show ?thesis
    unfolding monitor_turn_def case_prod_conv say_text_def
    by (intro returns_bind puts_wp [OF assms(1) prompt]) (auto simp: returns_bind_iff case_prod_unfold)
qed

lemma monitor_write_wp:
  assumes "k \<in> {98, 104, 119}" "list_all isxdigit A" "A \<noteq> []" "list_all isxdigit D" "D \<noteq> []"
    and t: "does m sent got s u" and "addr_of A < limit"
  shows "returns (monitor_write b (write_line k A D @ 0 # tail) u)
    (does (if cell_aligned k (addr_of A) then put_cell k (addr_of A) (addr_of D) m else m)
      (sent @ (if cell_aligned k (addr_of A) then [] else misaligned k) @ crlf) got s)"
proof -
  have args: "read_address (drop 2 (write_line k A D @ 0 # tail)) = Some (addr_of A)"
    "read_data_after_address (drop 2 (write_line k A D @ 0 # tail)) = Some (addr_of D)"
    using read_address_eq [OF assms(2,3), of 32 "D @ 0 # tail"] read_data_eq [OF assms(2-5), of tail]
    by (simp_all add: write_line_def)
  note st = store_does [OF does_ready [OF t] assms(7)]
  have end1: "returns (uart1_puts b (cstr crlf) v) (does m' (sent @ [] @ crlf) got s)"
    if "does m' [] [] u v" for m' v
    using does_trans [OF t that] by (auto intro!: does_puts texts_no_nul)
  have end2: "returns (do { s \<leftarrow> say_text b what u; uart1_puts b (cstr crlf) s })
      (does m (sent @ misaligned k @ crlf) got s)" if "str what = misaligned k" for what
    unfolding say_text_def that
    by (rule returns_bind, rule does_puts [OF t], rule texts_no_nul, rule does_puts, assumption,
        rule texts_no_nul) simp
  consider "k = 98" | "k = 104" | "k = 119" using assms(1) by blast
  then show ?thesis
  proof cases
    case 1
    then show ?thesis using end1 [OF st(1)] args
      by (simp add: monitor_write_def key_codes write_line_def cell_aligned_def put_cell_def does_memory [OF t])
  next
    case 2
    then show ?thesis using end1 [OF st(2)] end2 [of "''Not on 2-byte boundary''"] args
      by (simp add: monitor_write_def key_codes write_line_def cell_aligned_def put_cell_def does_memory [OF t]
          misaligned_def)
  next
    case 3
    then show ?thesis using end1 [OF st(3)] end2 [of "''Not on 4-byte boundary''"] args
      by (simp add: monitor_write_def key_codes write_line_def cell_aligned_def put_cell_def does_memory [OF t]
          misaligned_def)
  qed
qed

text \<open>The two ways in which a read command ends.\<close>

lemma print_value_end:
  assumes "does m sent got s w" and "0 < n"
  shows "returns (do { (buf, s) \<leftarrow> print_value b n v buf w; s \<leftarrow> uart1_puts b (cstr crlf) s; Some (buf, s) })
      (\<lambda>(buf, v'). buf ! 0 \<noteq> 119 \<and> does m (sent @ hexstr n (unat v) @ crlf) got s v')"
proof -
  have "hexstr n (unat v) ! 0 \<in> set (hexstr n (unat v))" using assms(2) by (intro nth_mem) simp
  from set_hexstr [OF this] assms(2) have "(hexstr n (unat v) @ 0 # drop (n + 1) buf) ! 0 \<noteq> 119"
    by (auto simp: nth_append isxdigit_def)
  then show ?thesis
    by (intro returns_bind_pair [OF print_value_wp [OF assms(1)]] returns_bind)
      (auto intro!: does_puts texts_no_nul)
qed

lemma misaligned_end:
  assumes t: "does m sent got s u" and what: "str what = misaligned k"
  shows "returns (do { s \<leftarrow> say_text b what u; s \<leftarrow> uart1_puts b (cstr crlf) s; Some (read_line k A @ 0 # tail, s) })
      (\<lambda>(buf, v'). buf ! 0 \<noteq> 119 \<and> does m (sent @ misaligned k @ crlf) got s v')"
  unfolding say_text_def what
  by (rule returns_bind, rule does_puts [OF t], rule texts_no_nul, rule returns_bind, rule does_puts, assumption,
      rule texts_no_nul) (simp add: read_line_def)

lemma monitor_read_wp:
  assumes "k \<in> {98, 104, 119}" "list_all isxdigit A" "A \<noteq> []"
    and t: "does m sent got s u" and "addr_of A < limit"
  shows "returns (monitor_read b little (read_line k A @ 0 # tail) u) (\<lambda>(buf, v). buf ! 0 \<noteq> 119 \<and> does m
    (sent @ (if cell_aligned k (addr_of A) then shown_cell little k m (addr_of A) else misaligned k) @ crlf) got s v)"
proof -
  have args: "read_address (drop 2 (read_line k A @ 0 # tail)) = Some (addr_of A)"
    using read_address_eq [OF assms(2,3), of 0 tail] by (simp add: read_line_def)
  note end1 = print_value_end and end2 = misaligned_end [OF t]
  obtain v8 u8 where ld8: "ld8 b (addr_of A) u = (v8, u8)" by (cases "ld8 b (addr_of A) u")
  obtain v16 u16 where ld16: "ld16 b (addr_of A) u = (v16, u16)" by (cases "ld16 b (addr_of A) u")
  obtain v32 u32 where ld32: "ld32 b (addr_of A) u = (v32, u32)" by (cases "ld32 b (addr_of A) u")
  have d8: "does m sent got s u8" "v8 = m (addr_of A)"
    using load8 [OF does_ready [OF t] assms(5) ld8] t by (auto simp: does_def)
  have d16: "does m sent got s u16" "v16 = mem_half m (addr_of A)" if "addr_of A AND 1 = 0"
    using load16 [OF does_ready [OF t] assms(5) that ld16] t by (auto simp: does_def)
  have d32: "does m sent got s u32" "v32 = mem_word m (addr_of A)" if "addr_of A AND 3 = 0"
    using load32 [OF does_ready [OF t] assms(5) that ld32] t by (auto simp: does_def)
  consider "k = 98" | "k = 104" | "k = 119" using assms(1) by blast
  then show ?thesis
  proof cases
    case 1
    then show ?thesis using end1 [OF d8(1), of 2 "ucast v8"] args
      by (simp add: monitor_read_def key_codes read_line_def cell_aligned_def shown_cells ld8 d8(2))
  next
    case 2
    show ?thesis
    proof (cases "addr_of A AND 1 = 0")
      case True
      with 2 show ?thesis using end1 [OF d16(1) [OF True], of 4 "ucast (if little then swap_half v16 else v16)"] args
        by (cases little) (simp_all add: monitor_read_def key_codes read_line_def cell_aligned_def shown_cells ld16
            d16(2) [OF True])
    next
      case False
      with 2 show ?thesis using end2 [of "''Not on 2-byte boundary''"] args
        by (simp add: monitor_read_def key_codes read_line_def cell_aligned_def misaligned_def)
    qed
  next
    case 3
    show ?thesis
    proof (cases "addr_of A AND 3 = 0")
      case True
      with 3 show ?thesis using end1 [OF d32(1) [OF True], of 8 "if little then swap_word v32 else v32"] args
        by (cases little) (simp_all add: monitor_read_def key_codes read_line_def cell_aligned_def shown_cells ld32
            d32(2) [OF True])
    next
      case False
      with 3 show ?thesis using end2 [of "''Not on 4-byte boundary''"] args
        by (simp add: monitor_read_def key_codes read_line_def cell_aligned_def misaligned_def)
    qed
  qed
qed

lemma monitor_write_turn_wp:
  assumes "ready s" and "length buffer = 40" and "inp s = write_line k A D @ 13 # later"
    and k: "k \<in> {98, 104, 119}" "list_all isxdigit A" "A \<noteq> []" "list_all isxdigit D" "D \<noteq> []"
    and len: "length (write_line k A D) < 40" and a: "addr_of A < limit"
  shows "returns (monitor_turn b (little, buffer, s)) (\<lambda>(little', buf, v). little' = little
    \<and> does (if cell_aligned k (addr_of A) then put_cell k (addr_of A) (addr_of D) (memory s) else memory s)
      ((str ''>> '' @ write_line k A D @ crlf) @ (if cell_aligned k (addr_of A) then [] else misaligned k) @ crlf)
      (write_line k A D @ [13]) s v)"
proof (rule monitor_turn_wp [OF assms(1-3)])
  have A: "list_all printable A" "list_all printable D" using xdigits_printable [OF k(2)] xdigits_printable [OF k(4)] by simp_all
  then show "list_all printable (write_line k A D)" using k(1) by (auto simp: write_line_def printable_def)
  then have nul: "0 \<notin> set (write_line k A D)" by (auto simp: list_all_iff printable_def)
  fix u tail
  assume u: "does (memory s) (str ''>> '' @ write_line k A D @ crlf) (write_line k A D @ [13]) s u"
  have "3 < length (write_line k A D)" by (simp add: write_line_def)
  with monitor_write_wp [OF k u a, of tail] c_string_append [OF nul, of tail]
  show "returns (monitor_line b little (write_line k A D @ 0 # tail) u) (\<lambda>(little', buf, v). little' = little
    \<and> does (if cell_aligned k (addr_of A) then put_cell k (addr_of A) (addr_of D) (memory s) else memory s)
      ((str ''>> '' @ write_line k A D @ crlf) @ (if cell_aligned k (addr_of A) then [] else misaligned k) @ crlf)
      (write_line k A D @ [13]) s v)"
    by (simp add: monitor_line_def key_codes Let_def nth_append returns_bind_iff)
      (simp add: write_line_def)
qed (use len in simp)

lemma monitor_read_turn_wp:
  assumes "ready s" and "length buffer = 40" and "inp s = read_line k A @ 13 # later"
    and k: "k \<in> {98, 104, 119}" "list_all isxdigit A" "A \<noteq> []"
    and len: "length (read_line k A) < 40" and a: "addr_of A < limit"
  shows "returns (monitor_turn b (little, buffer, s)) (\<lambda>(little', buf, v). little' = little
    \<and> does (memory s) ((str ''>> '' @ read_line k A @ crlf) @ (if cell_aligned k (addr_of A)
        then shown_cell little k (memory s) (addr_of A) else misaligned k) @ crlf) (read_line k A @ [13]) s v)"
    (is "returns _ ?Q")
proof (rule monitor_turn_wp [OF assms(1-3)])
  have A: "list_all printable A" using xdigits_printable [OF k(2)] by simp
  then show "list_all printable (read_line k A)" using k(1) by (auto simp: read_line_def printable_def)
  then have nul: "0 \<notin> set (read_line k A)" by (auto simp: list_all_iff printable_def)
  fix u tail
  assume u: "does (memory s) (str ''>> '' @ read_line k A @ crlf) (read_line k A @ [13]) s u"
  have "3 < length (read_line k A)" using k(3) by (cases A) (simp_all add: read_line_def)
  then have "monitor_line b little (read_line k A @ 0 # tail) u = (do {
      (buffer, s) \<leftarrow> monitor_read b little (read_line k A @ 0 # tail) u;
      s \<leftarrow> (if buffer ! 0 = 119 then monitor_write b buffer s else Some s);
      Some (little, buffer, s) })"
    using c_string_append [OF nul, of tail]
    by (simp add: monitor_line_def key_codes Let_def nth_append) (simp add: read_line_def)
  then show "returns (monitor_line b little (read_line k A @ 0 # tail) u) ?Q"
    by (simp only:) (rule returns_bind_pair [OF monitor_read_wp [OF k u a, of little tail]], simp)
qed (use len in simp)

end
end
