(* ===== verification/Startup.thy ===== *)
theory Startup
  imports Ram
begin

text \<open>
  The start-up code of a program, \<^verbatim>\<open>sw/crt/startup.c\<close>: it sets the trap vector, copies the
  initial data from ROM to RAM, clears the uninitialised data, and calls the constructors and
  \<^verbatim>\<open>main\<close>, which are arguments here. The addresses that the linker script defines are a record.
\<close>

record layout =
  sdata :: u32
  edata :: u32
  sidata :: u32
  sbss :: u32
  ebss :: u32

function copy_loop :: "'d bus \<Rightarrow> u32 \<Rightarrow> u32 \<Rightarrow> u32 \<Rightarrow> 'd \<Rightarrow> 'd" where
  "copy_loop b pStart pEnd pdRom s =
     (if pStart < pEnd then
        let (v, s) = ld8 b pdRom s; s = st8 b pStart v s
        in copy_loop b (pStart + 1) pEnd (pdRom + 1) s
      else s)"
  by pat_completeness auto
termination
  by (relation "measure (\<lambda>(b, p, e, r, s). unat e - unat p)")
    (auto simp: unat_Suc_below word_less_nat_alt)

function zero_loop :: "'d bus \<Rightarrow> u32 \<Rightarrow> u32 \<Rightarrow> 'd \<Rightarrow> 'd" where
  "zero_loop b pStart pEnd s =
     (if pStart < pEnd then zero_loop b (pStart + 1) pEnd (st8 b pStart 0 s) else s)"
  by pat_completeness auto
termination
  by (relation "measure (\<lambda>(b, p, e, s). unat e - unat p)")
    (auto simp: unat_Suc_below word_less_nat_alt)

declare copy_loop.simps [simp del] zero_loop.simps [simp del]

text \<open>\<^verbatim>\<open>_start\<close> up to the call of \<^verbatim>\<open>exit\<close>, which does not return: the state and the result of
  \<^verbatim>\<open>main\<close>. The global pointer and the stack pointer are set before the C code runs.\<close>

definition startup ::
    "'d bus \<Rightarrow> layout \<Rightarrow> u32 \<Rightarrow> ('d \<Rightarrow> 'd option) \<Rightarrow> ('d \<Rightarrow> (u32 \<times> 'd) option) \<Rightarrow> 'd \<Rightarrow> (u32 \<times> 'd) option"
    where
  "startup b L pre_init_trap_handler init_array main s =
     do { let s = csrw b mtvec pre_init_trap_handler s;
          let s = copy_loop b (sdata L) (edata L) (sidata L) s;
          let s = zero_loop b (sbss L) (ebss L) s;
          s \<leftarrow> init_array s;
          main s }"

section \<open>What memory holds when the constructors run\<close>

definition initialised :: "layout \<Rightarrow> (u32 \<Rightarrow> u8) \<Rightarrow> u32 \<Rightarrow> u8" where
  "initialised L m a =
     (if sbss L \<le> a \<and> a < ebss L then 0
      else if sdata L \<le> a \<and> a < edata L then m (sidata L + (a - sdata L))
      else m a)"

text \<open>The image in ROM lies below the data in RAM and does not wrap.\<close>

definition placed :: "u32 \<Rightarrow> layout \<Rightarrow> bool" where
  "placed limit L \<longleftrightarrow> unat (sidata L) + (unat (edata L) - unat (sdata L)) \<le> unat (sdata L)
     \<and> edata L \<le> limit \<and> ebss L \<le> limit"

context ram_port
begin

lemma copy_loop_wp:
  assumes "ready s" and "e \<le> limit"
    and "unat r + (unat e - unat p) \<le> unat p0" and "p0 \<le> p"
  shows "ready (copy_loop b p e r s) \<and> others (copy_loop b p e r s) = others s \<and>
    memory (copy_loop b p e r s) = (\<lambda>a. if p \<le> a \<and> a < e then memory s (r + (a - p)) else memory s a)"
  using assms
proof (induction "unat e - unat p" arbitrary: p r s)
  case 0
  then have "\<not> p < e" by (simp add: word_less_nat_alt)
  with 0 show ?case by (auto simp: copy_loop.simps [of b p] fun_eq_iff)
next
  case (Suc n)
  from Suc.hyps(2) have less: "p < e" by (simp add: word_less_nat_alt)
  obtain v t where ld: "ld8 b r s = (v, t)" by (cases "ld8 b r s")
  let ?u = "st8 b p v t"
  have range: "unat r < unat p0" "unat p0 \<le> unat p" "unat p < unat e" "unat e \<le> unat limit"
    using Suc.prems less by (simp_all add: word_less_nat_alt word_le_nat_alt)
  then have "r < limit" "p < limit" by (simp_all add: word_less_nat_alt)
  with Suc.prems(1) load8 [of s r, OF _ _ ld] store8 [of t p ?u v]
  have u: "ready ?u" "others ?u = others s" "memory ?u = (memory s)(p := memory s r)" by auto
  have r1: "unat (r + 1) = Suc (unat r)" "unat (p + 1) = Suc (unat p)"
    using range less by (auto intro: unat_Suc_below simp: word_less_nat_alt)
  have loop: "copy_loop b p e r s = copy_loop b (p + 1) e (r + 1) ?u"
    using less by (simp add: copy_loop.simps [of b p] ld)
  have "memory ?u (r + 1 + (a - (p + 1))) = memory s (r + (a - p))" if "p < a" "a < e" for a
  proof -
    have "unat (a - p) = unat a - unat p" using that by (simp add: unat_sub word_less_nat_alt word_le_nat_alt)
    then have "unat r + unat (a - p) < unat p0" using Suc.prems(3) that
      by (simp add: word_less_nat_alt)
    then have "unat (r + (a - p)) < unat p"
      using range by (metis unat_word_ariths(1) mod_less_eq_dividend order.strict_trans1 order.strict_trans2)
    then have "r + (a - p) \<noteq> p" by (metis less_irrefl)
    moreover have "r + 1 + (a - (p + 1)) = r + (a - p)" by simp
    ultimately show ?thesis by (simp only: u(3) fun_upd_def if_False)
  qed
  then have "(if p + 1 \<le> a \<and> a < e then memory ?u (r + 1 + (a - (p + 1))) else memory ?u a)
      = (if p \<le> a \<and> a < e then memory s (r + (a - p)) else memory s a)" for a
    using less by (cases "a = p") (auto simp: u(3) less_Suc_word [OF less] order.order_iff_strict [of p])
  moreover have "unat (r + 1) + (unat e - unat (p + 1)) \<le> unat p0" "p0 \<le> p + 1"
    "n = unat e - unat (p + 1)"
    using Suc.prems(3,4) Suc.hyps(2) r1 range by (simp_all add: word_le_nat_alt)
  ultimately show ?case
    using Suc.hyps(1) [OF _ u(1) Suc.prems(2), of "p + 1" "r + 1"] u(2) by (simp add: loop)
qed

lemma zero_loop_wp:
  assumes "ready s" and "e \<le> limit"
  shows "ready (zero_loop b p e s) \<and> others (zero_loop b p e s) = others s \<and>
    memory (zero_loop b p e s) = (\<lambda>a. if p \<le> a \<and> a < e then 0 else memory s a)"
  using assms
proof (induction "unat e - unat p" arbitrary: p s)
  case 0
  then have "\<not> p < e" by (simp add: word_less_nat_alt)
  with 0 show ?case by (auto simp: zero_loop.simps [of b p] fun_eq_iff)
next
  case (Suc n)
  from Suc.hyps(2) have less: "p < e" by (simp add: word_less_nat_alt)
  with Suc.prems have u: "ready (st8 b p 0 s)" "others (st8 b p 0 s) = others s"
    "memory (st8 b p 0 s) = (memory s)(p := 0)"
    using store8 [of s p "st8 b p 0 s" 0] by auto
  have loop: "zero_loop b p e s = zero_loop b (p + 1) e (st8 b p 0 s)"
    using less by (simp add: zero_loop.simps [of b p])
  show ?case
    using Suc.hyps(1) [of "p + 1" "st8 b p 0 s"] Suc.hyps(2) Suc.prems u unat_Suc_below [OF less] less
    by (auto simp: loop fun_eq_iff less_Suc_word [OF less] order.order_iff_strict [of p])
qed


text \<open>The constructors and \<^verbatim>\<open>main\<close> run with the initialised memory.\<close>

lemma startup_wp:
  assumes "ready s" and "placed limit L"
    and "\<And>t. ready t \<Longrightarrow> memory t = initialised L (memory s) \<Longrightarrow>
      returns (init t \<bind> main) Q"
  shows "returns (startup b L h init main s) Q"
proof -
  let ?t = "csrw b mtvec h s"
  let ?u = "copy_loop b (sdata L) (edata L) (sidata L) ?t"
  let ?v = "zero_loop b (sbss L) (ebss L) ?u"
  from csr_store [OF assms(1)] have t: "ready ?t" "memory ?t = memory s" by blast+
  have u: "ready ?u" "memory ?u = (\<lambda>a. if sdata L \<le> a \<and> a < edata L
      then memory s (sidata L + (a - sdata L)) else memory s a)"
    using copy_loop_wp [OF t(1), of "edata L" "sidata L" "sdata L" "sdata L"] assms(2)
    by (simp_all add: placed_def t(2) cong: if_cong)
  have "ready ?v" "memory ?v = initialised L (memory s)"
    using zero_loop_wp [OF u(1), of "ebss L" "sbss L"] assms(2) u(2)
    by (auto simp: placed_def initialised_def fun_eq_iff)
  then show ?thesis using assms(3) by (simp add: startup_def)
qed

end

end
