(* ===== verification/Periph.thy ===== *)
theory Periph
  imports Hw
begin

text \<open>
  The small drivers: GPIO, the first timer, the watchdog, the CRC unit (\<^verbatim>\<open>sw/lib/{gpio,timer,wdt,
  crc}\<close>) and the 64-bit counters read through two 32-bit control registers (\<^verbatim>\<open>sw/lib/csr\<close>). The
  CRC unit and a counter each have a contract: a block is folded into the checksum byte by byte,
  and a 64-bit read returns a value the counter had while it was read.
\<close>

section \<open>GPIO, timer and watchdog\<close>

definition gpioa_readpin :: "'d bus \<Rightarrow> u32 \<Rightarrow> 'd \<Rightarrow> u32 \<times> 'd" where
  "gpioa_readpin b pin s =
     (let (v, s) = ld32 b GPIOA_PIN s; pinstatus = v AND pin
      in (if pinstatus = 0 then GPIO_PIN_RESET else GPIO_PIN_SET, s))"

definition gpioa_writepin :: "'d bus \<Rightarrow> u32 \<Rightarrow> u32 \<Rightarrow> 'd \<Rightarrow> 'd" where
  "gpioa_writepin b pin value s =
     (if value = GPIO_PIN_RESET then rmw b GPIOA_POUT (\<lambda>v. v AND NOT pin) s
      else rmw b GPIOA_POUT (\<lambda>v. v OR pin) s)"

definition gpioa_togglepin :: "'d bus \<Rightarrow> u32 \<Rightarrow> 'd \<Rightarrow> 'd" where
  "gpioa_togglepin b pin s = rmw b GPIOA_POUT (\<lambda>v. v XOR pin) s"

definition timer1_clear_interrupt :: "'d bus \<Rightarrow> 'd \<Rightarrow> 'd" where
  "timer1_clear_interrupt b s = rmw b TIMER1_STAT (\<lambda>v. v AND NOT TIMER1_TC) s"

definition timer1_disable :: "'d bus \<Rightarrow> 'd \<Rightarrow> 'd" where
  "timer1_disable b s = rmw b TIMER1_CTRL (\<lambda>v. v AND NOT TIMER1_EN) s"

definition timer1_disable_interrupt :: "'d bus \<Rightarrow> 'd \<Rightarrow> 'd" where
  "timer1_disable_interrupt b s = rmw b TIMER1_CTRL (\<lambda>v. v AND NOT TIMER1_TCIE) s"

definition timer1_enable :: "'d bus \<Rightarrow> 'd \<Rightarrow> 'd" where
  "timer1_enable b s = rmw b TIMER1_CTRL (\<lambda>v. v OR TIMER1_EN) s"

definition timer1_enable_interrupt :: "'d bus \<Rightarrow> 'd \<Rightarrow> 'd" where
  "timer1_enable_interrupt b s = rmw b TIMER1_CTRL (\<lambda>v. v OR TIMER1_TCIE) s"

definition timer1_getcounter :: "'d bus \<Rightarrow> 'd \<Rightarrow> u32 \<times> 'd" where
  "timer1_getcounter b s = ld32 b TIMER1_CNTR s"

definition timer1_setcompare :: "'d bus \<Rightarrow> u32 \<Rightarrow> 'd \<Rightarrow> 'd" where
  "timer1_setcompare b cmpt s = st32 b TIMER1_CMPT cmpt s"

definition timer1_setcounter :: "'d bus \<Rightarrow> u32 \<Rightarrow> 'd \<Rightarrow> 'd" where
  "timer1_setcounter b cntr s = st32 b TIMER1_CNTR cntr s"

definition wdt_init :: "'d bus \<Rightarrow> u32 \<Rightarrow> 'd \<Rightarrow> 'd" where
  "wdt_init b val s = st32 b WDT_CTRL val s"

definition wdt_reset :: "'d bus \<Rightarrow> 'd \<Rightarrow> 'd" where
  "wdt_reset b s = st32 b WDT_TRIG WDT_PASSWORD s"

definition wdt_start :: "'d bus \<Rightarrow> 'd \<Rightarrow> 'd" where
  "wdt_start b s = rmw b WDT_CTRL (\<lambda>v. v OR WDT_EN) s"

definition wdt_stop :: "'d bus \<Rightarrow> 'd \<Rightarrow> 'd" where
  "wdt_stop b s = rmw b WDT_CTRL (\<lambda>v. v AND NOT WDT_EN) s"

section \<open>The CRC unit\<close>

definition crc_init :: "'d bus \<Rightarrow> u32 \<Rightarrow> u32 \<Rightarrow> u32 \<Rightarrow> 'd \<Rightarrow> 'd" where
  "crc_init b ctrl poly sreg s =
     (let s = st32 b CRC_CTRL ctrl s; s = st32 b CRC_POLY poly s in st32 b CRC_SREG sreg s)"

definition crc_write :: "'d bus \<Rightarrow> u8 \<Rightarrow> 'd \<Rightarrow> 'd option" where
  "crc_write b data s =
     (let s = st32 b CRC_DATA (ucast data) s in poll (ld32 b CRC_STAT) (\<lambda>v. v AND CRC_TC \<noteq> 0) s)"

text \<open>\<open>k\<close> is the value of \<^verbatim>\<open>len\<close> before the test.\<close>

fun crc_loop :: "'d bus \<Rightarrow> nat \<Rightarrow> u8 list \<Rightarrow> 'd \<Rightarrow> 'd option" where
  "crc_loop b 0 block s = Some s"
| "crc_loop b (Suc k) [] s = None"
| "crc_loop b (Suc k) (d # block) s = do { s \<leftarrow> crc_write b d s; crc_loop b k block s }"

definition crc_block :: "'d bus \<Rightarrow> u8 list \<Rightarrow> u32 \<Rightarrow> 'd \<Rightarrow> 'd option" where
  "crc_block b block len s = crc_loop b (unat len) block s"

definition crc_get :: "'d bus \<Rightarrow> 'd \<Rightarrow> u32 \<times> 'd" where
  "crc_get b s = ld32 b CRC_SREG s"

text \<open>The contract: the unit shifts a byte into its register, with the polynomial and the size
  that were set, by a function \<open>shift\<close> of the old contents.\<close>

locale crc_port =
  fixes b :: "'d bus"
    and ready :: "'d \<Rightarrow> bool"
    and sreg :: "'d \<Rightarrow> u32"
    and shift :: "u8 \<Rightarrow> u32 \<Rightarrow> u32"
    and rest :: "'d \<Rightarrow> 'r"
    and busy :: "u8 \<Rightarrow> nat \<Rightarrow> 'd \<Rightarrow> 'd \<Rightarrow> bool"
  assumes crc_start: "ready s \<Longrightarrow> \<exists>n. busy (ucast v) n s (st32 b CRC_DATA v s)"
    and crc_busy: "busy d (Suc n) s t \<Longrightarrow> ld32 b CRC_STAT t = (v, t') \<Longrightarrow>
      v AND CRC_TC = 0 \<and> busy d n s t'"
    and crc_done: "busy d 0 s t \<Longrightarrow> ld32 b CRC_STAT t = (v, t') \<Longrightarrow>
      v AND CRC_TC \<noteq> 0 \<and> ready t' \<and> sreg t' = shift d (sreg s) \<and> rest t' = rest s"
    and crc_sreg: "ready s \<Longrightarrow> ld32 b CRC_SREG s = (v, s') \<Longrightarrow>
      v = sreg s \<and> ready s' \<and> sreg s' = sreg s \<and> rest s' = rest s"
begin

definition sums :: "u8 list \<Rightarrow> 'd \<Rightarrow> 'd \<Rightarrow> bool" where
  "sums ds s s' \<longleftrightarrow> ready s' \<and> sreg s' = fold shift ds (sreg s) \<and> rest s' = rest s"

lemma busy_poll:
  "busy d n s t \<Longrightarrow> returns (poll (ld32 b CRC_STAT) (\<lambda>v. v AND CRC_TC \<noteq> 0) t) (sums [d] s)"
proof (induction n arbitrary: t)
  case 0
  obtain v t' where "ld32 b CRC_STAT t = (v, t')" by (cases "ld32 b CRC_STAT t")
  with crc_done [OF 0 this] show ?case by (simp add: poll_step sums_def)
next
  case (Suc n)
  obtain v t' where "ld32 b CRC_STAT t = (v, t')" by (cases "ld32 b CRC_STAT t")
  with crc_busy [OF Suc.prems this] Suc.IH show ?case by (simp add: poll_step)
qed

lemma write_wp:
  assumes "ready s" shows "returns (crc_write b d s) (sums [d] s)"
proof -
  from crc_start [OF assms, of "ucast d"] obtain n where "busy d n s (st32 b CRC_DATA (ucast d) s)"
    by auto
  from busy_poll [OF this] show ?thesis by (simp add: crc_write_def)
qed

lemma loop_wp:
  "ready s \<Longrightarrow> k \<le> length block \<Longrightarrow> returns (crc_loop b k block s) (sums (take k block) s)"
proof (induction k arbitrary: block s)
  case 0
  then show ?case by (simp add: sums_def)
next
  case (Suc k)
  then obtain d ds where block: "block = d # ds" by (cases block) auto
  have "returns (crc_loop b k ds t) (sums (d # take k ds) s)" if t: "sums [d] s t" for t
  proof -
    have "sums (take k ds) t = sums (d # take k ds) s"
      using t by (simp add: sums_def fun_eq_iff)
    with Suc.IH [of t ds] Suc.prems(2) t show ?thesis by (simp add: block sums_def [of "[d]"])
  qed
  with write_wp [OF Suc.prems(1), of d] show ?case
    by (auto simp: block returns_bind_iff elim: returns_mono)
qed

lemma block_wp:
  "ready s \<Longrightarrow> unat len \<le> length block \<Longrightarrow>
    returns (crc_block b block len s) (sums (take (unat len) block) s)"
  unfolding crc_block_def by (rule loop_wp)

end

section \<open>64-bit counters\<close>

text \<open>The assembler loop of \<^verbatim>\<open>csr_get_cycle\<close> and its siblings: read the high, the low and again the
  high half, and start again when the two high halves differ. \<open>join\<close> puts the halves together.\<close>

definition join :: "u32 \<Rightarrow> u32 \<Rightarrow> u64" where
  "join th lo32 = push_bit 32 (ucast th) OR ucast lo32"

partial_function (option) csr_get :: "'d bus \<Rightarrow> u32 \<Rightarrow> u32 \<Rightarrow> 'd \<Rightarrow> (u64 \<times> 'd) option" where
  "csr_get b hi lo s =
     (let (th, s) = csrr b hi s;
          (lo32, s) = csrr b lo s;
          (tt, s) = csrr b hi s
      in if th \<noteq> tt then csr_get b hi lo s else Some (join th lo32, s))"

definition csr_get_cycle :: "'d bus \<Rightarrow> 'd \<Rightarrow> (u64 \<times> 'd) option" where
  "csr_get_cycle b s = csr_get b rdcycleh rdcycle s"

definition csr_get_time :: "'d bus \<Rightarrow> 'd \<Rightarrow> (u64 \<times> 'd) option" where
  "csr_get_time b s = csr_get b rdtimeh rdtime s"

definition csr_get_instret :: "'d bus \<Rightarrow> 'd \<Rightarrow> (u64 \<times> 'd) option" where
  "csr_get_instret b s = csr_get b rdinstreth rdinstret s"

definition csr_get_mhpmcounter3 :: "'d bus \<Rightarrow> 'd \<Rightarrow> (u64 \<times> 'd) option" where
  "csr_get_mhpmcounter3 b s = csr_get b (mhpmcounterh 3) (mhpmcounter 3) s"

definition csr_get_mhpmcounter4 :: "'d bus \<Rightarrow> 'd \<Rightarrow> (u64 \<times> 'd) option" where
  "csr_get_mhpmcounter4 b s = csr_get b (mhpmcounterh 4) (mhpmcounter 4) s"

definition csr_get_mhpmcounter5 :: "'d bus \<Rightarrow> 'd \<Rightarrow> (u64 \<times> 'd) option" where
  "csr_get_mhpmcounter5 b s = csr_get b (mhpmcounterh 5) (mhpmcounter 5) s"

definition csr_get_mhpmcounter6 :: "'d bus \<Rightarrow> 'd \<Rightarrow> (u64 \<times> 'd) option" where
  "csr_get_mhpmcounter6 b s = csr_get b (mhpmcounterh 6) (mhpmcounter 6) s"

definition csr_get_mhpmcounter7 :: "'d bus \<Rightarrow> 'd \<Rightarrow> (u64 \<times> 'd) option" where
  "csr_get_mhpmcounter7 b s = csr_get b (mhpmcounterh 7) (mhpmcounter 7) s"

definition csr_get_mhpmcounter8 :: "'d bus \<Rightarrow> 'd \<Rightarrow> (u64 \<times> 'd) option" where
  "csr_get_mhpmcounter8 b s = csr_get b (mhpmcounterh 8) (mhpmcounter 8) s"

definition csr_get_mhpmcounter9 :: "'d bus \<Rightarrow> 'd \<Rightarrow> (u64 \<times> 'd) option" where
  "csr_get_mhpmcounter9 b s = csr_get b (mhpmcounterh 9) (mhpmcounter 9) s"

text \<open>The halves of a count, and what joining them gives back.\<close>

lemma unat_join: "unat (join h l) = unat h * 2 ^ 32 + unat l"
proof -
  have "join h l = push_bit 32 (ucast h) + ucast l"
    unfolding join_def by (rule disjunctive_add_eq_or [symmetric])
      (auto simp: bit_eq_iff bit_simps dest: bit_imp_le_length)
  moreover have h: "unat h < 2 ^ 32" and l: "unat l < 2 ^ 32"
    using unsigned_less [of h] unsigned_less [of l] by simp_all
  then have "unat (ucast h :: u64) = unat h" "unat (ucast l :: u64) = unat l"
    by (simp_all add: unsigned_ucast_eq take_bit_nat_eq_self_iff)
  moreover have "unat (push_bit 32 (ucast h :: u64)) = unat h * 2 ^ 32"
    using h calculation(2)
    by (simp add: push_bit_eq_mult unat_word_ariths)
  ultimately show ?thesis
    using h l by (simp add: unat_word_ariths)
qed

lemma join_halves:
  assumes "t1 \<le> t" "t \<le> t2" "t2 < 2 ^ 64"
    and "word_of_nat (t1 div 2 ^ 32) = (word_of_nat (t2 div 2 ^ 32) :: u32)"
  shows "join (word_of_nat (t1 div 2 ^ 32)) (word_of_nat t) = word_of_nat t"
proof -
  have eq: "unat (word_of_nat n :: u32) = n mod 2 ^ 32" for n
    by (simp add: unsigned_of_nat take_bit_eq_mod)
  have "t1 div 2 ^ 32 mod 2 ^ 32 = t2 div 2 ^ 32 mod 2 ^ 32"
    using arg_cong [OF assms(4), of unat] by (simp only: eq)
  moreover have "t1 div 2 ^ 32 < 2 ^ 32" "t2 div 2 ^ 32 < 2 ^ 32"
    using assms(1-3) by (simp_all add: less_mult_imp_div_less)
  ultimately have "t1 div 2 ^ 32 = t2 div 2 ^ 32" by simp
  moreover have "t1 div 2 ^ 32 \<le> t div 2 ^ 32" "t div 2 ^ 32 \<le> t2 div 2 ^ 32"
    using assms(1,2) by (auto intro: div_le_mono)
  ultimately have "t1 div 2 ^ 32 = t div 2 ^ 32" by simp
  moreover have "t < 2 ^ 64" "t div 2 ^ 32 < 2 ^ 32" using assms(2,3)
    by (auto simp: less_mult_imp_div_less)
  ultimately have "unat (join (word_of_nat (t1 div 2 ^ 32)) (word_of_nat t))
      = t div 2 ^ 32 * 2 ^ 32 + t mod 2 ^ 32"
    by (simp add: unat_join eq)
  also have "\<dots> = t" by (rule div_mult_mod_eq)
  also have "t = unat (word_of_nat t :: u64)"
    using \<open>t < 2 ^ 64\<close> by (simp add: unsigned_of_nat take_bit_nat_eq_self)
  finally show ?thesis by (simp add: word_eq_unat_iff)
qed

text \<open>The contract of a counter: a read returns a half of a value it has during the read, and no
  read takes longer than \<open>D\<close> counts.\<close>

locale counter =
  fixes b :: "'d bus" and hi lo :: u32
    and ok :: "'d \<Rightarrow> bool" and count :: "'d \<Rightarrow> nat" and rest :: "'d \<Rightarrow> 'r" and D :: nat
  assumes read_hi: "ok s \<Longrightarrow> csrr b hi s = (v, s') \<Longrightarrow> ok s' \<and> rest s' = rest s \<and> count s' \<le> count s + D
      \<and> (\<exists>t. count s \<le> t \<and> t \<le> count s' \<and> v = word_of_nat (t div 2 ^ 32))"
    and read_lo: "ok s \<Longrightarrow> csrr b lo s = (v, s') \<Longrightarrow> ok s' \<and> rest s' = rest s \<and> count s' \<le> count s + D
      \<and> (\<exists>t. count s \<le> t \<and> t \<le> count s' \<and> v = word_of_nat t)"
    and short: "6 * D < 2 ^ 32"
begin

definition observes :: "'d \<Rightarrow> u64 \<times> 'd \<Rightarrow> bool" where
  "observes s = (\<lambda>(v, s'). ok s' \<and> rest s' = rest s \<and> count s \<le> count s' \<and>
     (count s' < 2 ^ 64 \<longrightarrow> (\<exists>t. count s \<le> t \<and> t \<le> count s' \<and> v = word_of_nat t)))"

text \<open>One turn: either it delivers, or the high half changed less than \<open>3 * D\<close> counts ago.\<close>

lemma turn:
  assumes "ok s"
  obtains v s' where "csr_get b hi lo s = Some (v, s')" "observes s (v, s')"
  | s' where "csr_get b hi lo s = csr_get b hi lo s'" "ok s'" "rest s' = rest s" "count s \<le> count s'"
      "count s' \<le> count s + 3 * D" "count s' mod 2 ^ 32 < 3 * D" "count s div 2 ^ 32 < count s' div 2 ^ 32"
proof -
  obtain th s1 where 1: "csrr b hi s = (th, s1)" by (cases "csrr b hi s")
  obtain lo32 s2 where 2: "csrr b lo s1 = (lo32, s2)" by (cases "csrr b lo s1")
  obtain tt s3 where 3: "csrr b hi s2 = (tt, s3)" by (cases "csrr b hi s2")
  from read_hi [OF assms 1] obtain t1 where t1: "ok s1" "rest s1 = rest s" "count s \<le> t1"
    "t1 \<le> count s1" "count s1 \<le> count s + D" "th = word_of_nat (t1 div 2 ^ 32)" by blast
  from read_lo [OF t1(1) 2] obtain t2 where t2: "ok s2" "rest s2 = rest s1" "count s1 \<le> t2"
    "t2 \<le> count s2" "count s2 \<le> count s1 + D" "lo32 = word_of_nat t2" by blast
  from read_hi [OF t2(1) 3] obtain t3 where t3: "ok s3" "rest s3 = rest s2" "count s2 \<le> t3"
    "t3 \<le> count s3" "count s3 \<le> count s2 + D" "tt = word_of_nat (t3 div 2 ^ 32)" by blast
  show ?thesis
  proof (cases "th = tt")
    case True
    have "csr_get b hi lo s = Some (join th lo32, s3)"
      using True by (subst csr_get.simps) (simp add: 1 2 3)
    moreover have "observes s (join th lo32, s3)"
      using t1 t2 t3 True join_halves [of t1 t2 t3] unfolding observes_def
      by (auto intro!: exI [of _ t2])
    ultimately show ?thesis by (rule that(1))
  next
    case False
    have "csr_get b hi lo s = csr_get b hi lo s3"
      using False by (subst csr_get.simps) (simp add: 1 2 3)
    moreover have "count s div 2 ^ 32 < count s3 div 2 ^ 32"
    proof (rule ccontr)
      assume "\<not> ?thesis"
      moreover have "count s div 2 ^ 32 \<le> t1 div 2 ^ 32" "t1 div 2 ^ 32 \<le> t3 div 2 ^ 32"
        "t3 div 2 ^ 32 \<le> count s3 div 2 ^ 32"
        using t1 t2 t3 by (auto intro!: div_le_mono)
      ultimately have "t1 div 2 ^ 32 = t3 div 2 ^ 32" by linarith
      with False t1(6) t3(6) show False by simp
    qed
    moreover have "count s3 mod 2 ^ 32 < 3 * D"
    proof -
      have "count s < count s3 div 2 ^ 32 * 2 ^ 32"
        using calculation(2) by (simp add: div_less_iff_less_mult)
      moreover have "count s3 = count s3 div 2 ^ 32 * 2 ^ 32 + count s3 mod 2 ^ 32"
        by (rule div_mult_mod_eq [symmetric])
      ultimately show ?thesis using t1 t2 t3 by linarith
    qed
    ultimately show ?thesis using t1 t2 t3 by (intro that(2)) auto
  qed
qed

text \<open>The second turn delivers when the first does not, so the loop ends.\<close>

lemma get_wp:
  assumes "ok s"
  shows "returns (csr_get b hi lo s) (observes s)"
proof (rule turn [OF assms])
  fix v s' assume "csr_get b hi lo s = Some (v, s')" "observes s (v, s')"
  then show ?thesis by simp
next
  fix s' assume s': "csr_get b hi lo s = csr_get b hi lo s'" "ok s'" "rest s' = rest s"
    "count s \<le> count s'" "count s' mod 2 ^ 32 < 3 * D"
  show ?thesis
  proof (rule turn [OF s'(2)])
    fix v s'' assume "csr_get b hi lo s' = Some (v, s'')" "observes s' (v, s'')"
    then have "count s' \<le> t \<Longrightarrow> count s \<le> t" for t using s'(4) by simp
    with s'(1-4) \<open>csr_get b hi lo s' = _\<close> \<open>observes s' _\<close> show ?thesis
      by (auto simp: observes_def)
  next
    fix s'' assume s'': "count s'' \<le> count s' + 3 * D"
      "count s' div 2 ^ 32 < count s'' div 2 ^ 32"
    have "count s' = count s' div 2 ^ 32 * 2 ^ 32 + count s' mod 2 ^ 32"
      "count s'' = count s'' div 2 ^ 32 * 2 ^ 32 + count s'' mod 2 ^ 32"
      by (rule div_mult_mod_eq [symmetric])+
    moreover have "2 ^ 32 + count s' div 2 ^ 32 * 2 ^ 32 \<le> count s'' div 2 ^ 32 * 2 ^ 32"
      using mult_le_mono1 [OF Suc_leI [OF s''(2)], of "2 ^ 32"] by (simp only: mult_Suc)
    ultimately have False using s''(1) s'(5) short by linarith
    then show ?thesis ..
  qed
qed

end

end
