(* ===== verification/Syscalls.thy ===== *)
theory Syscalls
  imports Periph Uart
begin

text \<open>
  The system call stubs under newlib, \<^verbatim>\<open>sw/lib/syscalls\<close>. Addresses and sizes that the linker
  script defines are parameters; the functions that a program may replace (\<^verbatim>\<open>__io_putchar\<close>,
  \<^verbatim>\<open>__io_getchar\<close>) are arguments. A stub that sets \<^verbatim>\<open>errno\<close> returns its new value beside its result.
\<close>

section \<open>The heap\<close>

text \<open>The linker's symbols, and the variables \<^verbatim>\<open>__sbrk_heap_end\<close> (0 for \<^verbatim>\<open>NULL\<close>) and \<^verbatim>\<open>errno\<close>.\<close>

record linker =
  l_end :: u32
  l_stack_pointer :: u32
  l_stack_size :: u32

record heap =
  heap_end :: u32
  errno :: u32

definition ENOENT :: u32 where "ENOENT = 2"
definition ECHILD :: u32 where "ECHILD = 10"
definition EAGAIN :: u32 where "EAGAIN = 11"
definition ENOMEM :: u32 where "ENOMEM = 12"
definition EINVAL :: u32 where "EINVAL = 22"
definition EMLINK :: u32 where "EMLINK = 31"

definition stack_limit :: "linker \<Rightarrow> u32" where
  "stack_limit L = l_stack_pointer L - l_stack_size L"

definition sbrk :: "linker \<Rightarrow> u32 \<Rightarrow> heap \<Rightarrow> u32 \<times> heap" where
  "sbrk L incr h =
     (let max_heap = stack_limit L;
          h = (if heap_end h = 0 then h \<lparr> heap_end := l_end L \<rparr> else h)
      in if heap_end h + incr > max_heap then (-1, h \<lparr> errno := ENOMEM \<rparr>)
         else (heap_end h, h \<lparr> heap_end := heap_end h + incr \<rparr>))"

text \<open>The bottom of the free space, whether or not the heap has been used.\<close>

definition break :: "linker \<Rightarrow> heap \<Rightarrow> u32" where
  "break L h = (if heap_end h = 0 then l_end L else heap_end h)"

text \<open>A program whose image ends below the stack.\<close>

definition linked :: "linker \<Rightarrow> bool" where
  "linked L \<longleftrightarrow> 0 < l_end L \<and> l_end L \<le> stack_limit L"

lemma sbrk_bounded:
  "linked L \<Longrightarrow> break L h \<le> stack_limit L \<Longrightarrow> break L (snd (sbrk L incr h)) \<le> stack_limit L"
  by (auto simp: sbrk_def break_def Let_def linked_def not_less)

lemma sbrk_grows:
  assumes "linked L" "break L h + incr \<le> stack_limit L" "0 < break L h + incr"
  shows "sbrk L incr h = (break L h, h \<lparr> heap_end := break L h + incr \<rparr>)"
  using assms by (auto simp: sbrk_def break_def Let_def)

lemma sbrk_full:
  assumes "stack_limit L < break L h + incr"
  shows "fst (sbrk L incr h) = -1 \<and> break L (snd (sbrk L incr h)) = break L h
    \<and> errno (snd (sbrk L incr h)) = ENOMEM"
  using assms by (auto simp: sbrk_def break_def Let_def)

text \<open>A sequence of calls, and the blocks it hands out: address and size.\<close>

fun sbrks :: "linker \<Rightarrow> u32 list \<Rightarrow> heap \<Rightarrow> (u32 \<times> u32) list \<times> heap" where
  "sbrks L [] h = ([], h)"
| "sbrks L (n # ns) h =
     (let (p, h) = sbrk L n h; (ps, h) = sbrks L ns h
      in (if p = -1 then ps else (p, n) # ps, h))"

definition apart :: "(u32 \<times> u32) \<Rightarrow> (u32 \<times> u32) \<Rightarrow> bool" where
  "apart x y \<longleftrightarrow> unat (fst x) + unat (snd x) \<le> unat (fst y) \<or> unat (fst y) + unat (snd y) \<le> unat (fst x)"

definition inside :: "nat \<Rightarrow> nat \<Rightarrow> (u32 \<times> u32) \<Rightarrow> bool" where
  "inside lo hi x \<longleftrightarrow> lo \<le> unat (fst x) \<and> unat (fst x) + unat (snd x) \<le> hi"

text \<open>Requests that do not wrap around the address space hand out disjoint blocks between the
  image and the stack.\<close>

lemma sbrks_disjoint:
  assumes "linked L" "break L h \<le> stack_limit L" "\<forall>n\<in>set ns. unat n + unat (stack_limit L) < 2 ^ 32"
  shows "sorted_wrt apart (fst (sbrks L ns h)) \<and>
    (\<forall>x\<in>set (fst (sbrks L ns h)). inside (unat (break L h)) (unat (stack_limit L)) x)"
  using assms(2,3)
proof (induction ns arbitrary: h)
  case Nil
  then show ?case by simp
next
  case (Cons n ns)
  obtain p h' where sb: "sbrk L n h = (p, h')" by (cases "sbrk L n h")
  obtain ps h'' where rec: "sbrks L ns h' = (ps, h'')" by (cases "sbrks L ns h'")
  have "unat (break L h) \<le> unat (stack_limit L)" using Cons.prems(1) by (simp add: word_le_nat_alt)
  with Cons.prems(2) have add: "unat (break L h + n) = unat (break L h) + unat n"
    by (auto simp: unat_word_ariths intro!: mod_less)
  have h': "break L h' \<le> stack_limit L"
    using sbrk_bounded [OF assms(1) Cons.prems(1), of n] sb by simp
  note IH = Cons.IH [OF h'] 
  show ?case
  proof (cases "stack_limit L < break L h + n")
    case True
    with sbrk_full [OF True] sb Cons.prems IH rec show ?thesis by simp
  next
    case False
    have pos: "0 < break L h" using assms(1) by (auto simp: break_def linked_def word_neq_0_conv)
    then have "0 < break L h + n" using add by (simp add: word_less_nat_alt)
    with False sbrk_grows [OF assms(1)] sb have p: "p = break L h" "heap_end h' = break L h + n"
      by (auto simp: not_less)
    with \<open>0 < break L h + n\<close> have b': "unat (break L h') = unat (break L h) + unat n"
      using add by (auto simp: break_def)
    have fit: "unat (break L h) + unat n \<le> unat (stack_limit L)"
      using False add by (simp add: not_less word_le_nat_alt)
    have "apart (p, n) x \<and> inside (unat (break L h)) (unat (stack_limit L)) x" if "x \<in> set ps" for x
      using IH that Cons.prems(2) by (auto simp: rec b' inside_def apart_def p)
    then show ?thesis
      using IH Cons.prems(2) fit by (auto simp: sb rec inside_def p)
  qed
qed

section \<open>Time\<close>

record timeval =
  tv_sec :: u64
  tv_usec :: u32

definition gettimeofday :: "'d bus \<Rightarrow> 'd \<Rightarrow> (u32 \<times> timeval \<times> 'd) option" where
  "gettimeofday b s =
     do { (thetime, s) \<leftarrow> csr_get b rdtimeh rdtime s;
          let usec = thetime mod 1000000;
          let sec = thetime div 1000000;
          Some (0, \<lparr> tv_sec = sec, tv_usec = ucast usec \<rparr>, s) }"

text \<open>\<^verbatim>\<open>clock_t\<close> is 32 bits wide on this processor.\<close>

record tms =
  tms_utime :: u32
  tms_stime :: u32
  tms_cutime :: u32
  tms_cstime :: u32

definition times :: "'d bus \<Rightarrow> 'd \<Rightarrow> (u32 \<times> tms \<times> 'd) option" where
  "times b s =
     do { (thetime, s) \<leftarrow> csr_get b rdtimeh rdtime s;
          Some (0, \<lparr> tms_utime = ucast thetime, tms_stime = 0, tms_cutime = 0, tms_cstime = 0 \<rparr>, s) }"

lemma time_split:
  "unat (t div 1000000) * 1000000 + unat (ucast (t mod 1000000) :: u32) = unat (t :: u64)"
  "unat (ucast (t mod 1000000) :: u32) < 1000000"
proof -
  have "unat (t mod 1000000) = unat t mod 1000000" by (simp add: unat_mod_distrib)
  then have "unat (ucast (t mod 1000000) :: u32) = unat t mod 1000000"
    by (simp add: unsigned_ucast_eq take_bit_nat_eq_self_iff)
  then show "unat (t div 1000000) * 1000000 + unat (ucast (t mod 1000000) :: u32) = unat t"
    "unat (ucast (t mod 1000000) :: u32) < 1000000"
    by (simp_all add: unat_div_distrib)
qed

section \<open>Files\<close>

text \<open>\<^verbatim>\<open>_write\<close> and \<^verbatim>\<open>_read\<close> with the program's functions for one character; \<open>k\<close> turns are left.
  A negative count does nothing.\<close>

fun write_loop :: "(u32 \<Rightarrow> 'd \<Rightarrow> 'd option) \<Rightarrow> nat \<Rightarrow> u8 list \<Rightarrow> 'd \<Rightarrow> 'd option" where
  "write_loop putchar 0 buf s = Some s"
| "write_loop putchar (Suc k) [] s = None"
| "write_loop putchar (Suc k) (c # buf) s = do { s \<leftarrow> putchar (ucast c) s; write_loop putchar k buf s }"

definition sys_write :: "(u32 \<Rightarrow> 'd \<Rightarrow> 'd option) \<Rightarrow> u8 list \<Rightarrow> int \<Rightarrow> 'd \<Rightarrow> (int \<times> 'd) option" where
  "sys_write putchar buf n s = do { s \<leftarrow> write_loop putchar (nat n) buf s; Some (n, s) }"

fun read_loop ::
    "('d \<Rightarrow> (u32 \<times> 'd) option) \<Rightarrow> nat \<Rightarrow> nat \<Rightarrow> u8 list \<Rightarrow> 'd \<Rightarrow> (u8 list \<times> 'd) option" where
  "read_loop getchar 0 i buf s = Some (buf, s)"
| "read_loop getchar (Suc k) i buf s =
     do { (c, s) \<leftarrow> getchar s; buf \<leftarrow> setb buf i (ucast c); read_loop getchar k (Suc i) buf s }"

definition sys_read ::
    "('d \<Rightarrow> (u32 \<times> 'd) option) \<Rightarrow> u8 list \<Rightarrow> int \<Rightarrow> 'd \<Rightarrow> (int \<times> u8 list \<times> 'd) option" where
  "sys_read getchar buf n s = do { (buf, s) \<leftarrow> read_loop getchar (nat n) 0 buf s; Some (n, buf, s) }"

text \<open>The weak defaults do nothing and return 0.\<close>

definition io_putchar :: "u32 \<Rightarrow> 'd \<Rightarrow> 'd option" where
  "io_putchar c s = Some s"

definition io_getchar :: "'d \<Rightarrow> (u32 \<times> 'd) option" where
  "io_getchar s = Some (0, s)"

lemma sys_write_default: "n \<le> int (length buf) \<Longrightarrow> sys_write io_putchar buf n s = Some (n, s)"
proof -
  have "k \<le> length buf \<Longrightarrow> write_loop io_putchar k buf s = Some s" for k
    by (induction k arbitrary: buf) (auto simp: io_putchar_def neq_Nil_conv Suc_le_length_iff)
  then show "n \<le> int (length buf) \<Longrightarrow> ?thesis" by (simp add: sys_write_def)
qed

text \<open>Standard output and input on the serial port.\<close>

context uart_port
begin

lemma write_loop_wp:
  "ready s \<Longrightarrow> k \<le> length buf \<Longrightarrow>
    returns (write_loop (uart1_putc b) k buf s) (talks (take k buf) [] s)"
proof (induction k arbitrary: buf s)
  case 0
  then show ?case by simp
next
  case (Suc k)
  then obtain c cs where buf: "buf = c # cs" by (cases buf) auto
  have "returns (write_loop (uart1_putc b) k cs t) (talks (c # take k cs) [] s)"
    if t: "talks [c] [] s t" for t
    using Suc.IH [OF talks_ready [OF t], of cs] Suc.prems(2) talks_trans [OF t]
    by (auto simp: buf elim!: returns_mono)
  with Suc.prems(1) show ?case by (auto simp: buf intro!: wp)
qed

lemma read_loop_wp:
  assumes "ready s" and "inp s = cs @ later" and "i + length cs \<le> length buf"
  shows "returns (read_loop (uart1_getc b) (length cs) i buf s) (\<lambda>(buf', s').
    buf' = take i buf @ cs @ drop (i + length cs) buf \<and> talks [] cs s s')"
  using assms
proof (induction cs arbitrary: i buf s)
  case Nil
  then show ?case by simp
next
  case (Cons c cs)
  have "returns (read_loop (uart1_getc b) (length cs) (Suc i) (buf[i := c]) t) (\<lambda>(buf', s').
      buf' = take i buf @ (c # cs) @ drop (i + length (c # cs)) buf \<and> talks [] (c # cs) s s')"
    if t: "talks [] [c] s t" for t
  proof -
    have "inp t = cs @ later" using talks_inp [OF t] Cons.prems(2) by simp
    moreover have "Suc i + length cs \<le> length (buf[i := c])" using Cons.prems(3) by simp
    ultimately show ?thesis
      by (rule returns_mono [OF Cons.IH [OF talks_ready [OF t]]])
        (use talks_trans [OF t] Cons.prems(3) in \<open>auto simp: take_Suc_conv_app_nth\<close>)
  qed
  with Cons.prems show ?case
    by (auto intro!: returns_bind getc_wp [OF Cons.prems(1)] simp: setb_def)
qed

lemma sys_write_wp:
  assumes "ready s" "n \<le> int (length buf)"
  shows "returns (sys_write (uart1_putc b) buf n s)
    (\<lambda>(r, s'). r = n \<and> talks (take (nat n) buf) [] s s')"
  using write_loop_wp [OF assms(1), of "nat n" buf] assms(2)
  by (auto simp: sys_write_def returns_bind_iff elim!: returns_mono)

lemma sys_read_wp:
  assumes "ready s" "inp s = cs @ later" "length cs \<le> length buf"
  shows "returns (sys_read (uart1_getc b) buf (int (length cs)) s) (\<lambda>(r, buf', s').
    r = int (length cs) \<and> buf' = cs @ drop (length cs) buf \<and> talks [] cs s s')"
  using read_loop_wp [OF assms(1,2), of 0 buf] assms(3)
  by (auto simp: sys_read_def returns_bind_iff elim!: returns_mono)

end

subsection \<open>The other stubs\<close>

definition S_IFCHR :: u32 where "S_IFCHR = 0x2000"

definition sys_getpid :: u32 where "sys_getpid = 1"

definition sys_kill :: "heap \<Rightarrow> u32 \<times> heap" where "sys_kill h = (-1, h \<lparr> errno := EINVAL \<rparr>)"

definition sys_close :: u32 where "sys_close = -1"

text \<open>The result and the new \<^verbatim>\<open>st_mode\<close>.\<close>

definition sys_fstat :: "u32 \<times> u32" where "sys_fstat = (0, S_IFCHR)"

definition sys_isatty :: u32 where "sys_isatty = 1"

definition sys_lseek :: u32 where "sys_lseek = 0"

definition sys_open :: u32 where "sys_open = -1"

definition sys_wait :: "heap \<Rightarrow> u32 \<times> heap" where "sys_wait h = (-1, h \<lparr> errno := ECHILD \<rparr>)"

definition sys_unlink :: "heap \<Rightarrow> u32 \<times> heap" where "sys_unlink h = (-1, h \<lparr> errno := ENOENT \<rparr>)"

definition sys_stat :: "u32 \<times> u32" where "sys_stat = (0, S_IFCHR)"

definition sys_link :: "heap \<Rightarrow> u32 \<times> heap" where "sys_link h = (-1, h \<lparr> errno := EMLINK \<rparr>)"

definition sys_fork :: "heap \<Rightarrow> u32 \<times> heap" where "sys_fork h = (-1, h \<lparr> errno := EAGAIN \<rparr>)"

definition sys_execve :: "heap \<Rightarrow> u32 \<times> heap" where "sys_execve h = (-1, h \<lparr> errno := ENOMEM \<rparr>)"

text \<open>\<^verbatim>\<open>while (1);\<close>, and the empty environment: one null pointer.\<close>

partial_function (option) sys_exit :: "u32 \<Rightarrow> 'd \<Rightarrow> 'd option" where
  "sys_exit status s = sys_exit status s"

definition environ :: "u8 list option list" where "environ = [None]"

text \<open>\<^verbatim>\<open>_exit\<close> does not return.\<close>

lemma sys_exit_hangs: "sys_exit status s = None"
proof (cases "sys_exit status s")
  case (Some t)
  then have False by (rule sys_exit.raw_induct [rotated]) auto
  then show ?thesis ..
qed

end
