(* ===== verification/Spi.thy ===== *)
theory Spi
  imports Hw
begin

text \<open>
  The drivers of the two SPI units, \<^verbatim>\<open>sw/lib/spi\<close>: the same code at two base addresses. The
  functions with a unit number are the ones of the source; the others carry the base address.
\<close>

section \<open>The driver\<close>

definition spi_init :: "u32 \<Rightarrow> 'd bus \<Rightarrow> u32 \<Rightarrow> 'd \<Rightarrow> 'd" where
  "spi_init base b value s = st32 b (base + CTRL_offset) value s"

definition spi_transfer :: "u32 \<Rightarrow> 'd bus \<Rightarrow> u32 \<Rightarrow> 'd \<Rightarrow> (u32 \<times> 'd) option" where
  "spi_transfer base b data s =
     do { let s = st32 b (base + DATA_offset) data s;
          s \<leftarrow> poll (ld32 b (base + STAT_offset)) (\<lambda>v. v AND 0x08 \<noteq> 0) s;
          Some (ld32 b (base + DATA_offset) s) }"

text \<open>The loops over a buffer: \<open>k\<close> turns are left. A read behind the buffer to send has no
  result; a byte received is stored at position \<open>i\<close> of the buffer.\<close>

fun spi_transmit_loop :: "u32 \<Rightarrow> 'd bus \<Rightarrow> nat \<Rightarrow> u8 list \<Rightarrow> 'd \<Rightarrow> 'd option" where
  "spi_transmit_loop base b 0 buf s = Some s"
| "spi_transmit_loop base b (Suc k) [] s = None"
| "spi_transmit_loop base b (Suc k) (c # buf) s =
     do { (_, s) \<leftarrow> spi_transfer base b (ucast c) s; spi_transmit_loop base b k buf s }"

fun spi_receive_loop ::
    "u32 \<Rightarrow> 'd bus \<Rightarrow> nat \<Rightarrow> nat \<Rightarrow> u8 list \<Rightarrow> u32 \<Rightarrow> 'd \<Rightarrow> (u8 list \<times> 'd) option" where
  "spi_receive_loop base b 0 i buf dummy s = Some (buf, s)"
| "spi_receive_loop base b (Suc k) i buf dummy s =
     do { (v, s) \<leftarrow> spi_transfer base b dummy s;
          buf \<leftarrow> setb buf i (ucast v);
          spi_receive_loop base b k (Suc i) buf dummy s }"

fun spi_transmit_receive_loop ::
    "u32 \<Rightarrow> 'd bus \<Rightarrow> nat \<Rightarrow> nat \<Rightarrow> u8 list \<Rightarrow> u8 list \<Rightarrow> 'd \<Rightarrow> (u8 list \<times> 'd) option" where
  "spi_transmit_receive_loop base b 0 i buft bufr s = Some (bufr, s)"
| "spi_transmit_receive_loop base b (Suc k) i [] bufr s = None"
| "spi_transmit_receive_loop base b (Suc k) i (c # buft) bufr s =
     do { (v, s) \<leftarrow> spi_transfer base b (ucast c) s;
          bufr \<leftarrow> setb bufr i (ucast v);
          spi_transmit_receive_loop base b k (Suc i) buft bufr s }"

definition spi1_init :: "'d bus \<Rightarrow> u32 \<Rightarrow> 'd \<Rightarrow> 'd" where
  "spi1_init = spi_init SPI1_BASE"

definition spi1_transfer :: "'d bus \<Rightarrow> u32 \<Rightarrow> 'd \<Rightarrow> (u32 \<times> 'd) option" where
  "spi1_transfer = spi_transfer SPI1_BASE"

definition spi1_transmit :: "'d bus \<Rightarrow> u8 list \<Rightarrow> u32 \<Rightarrow> 'd \<Rightarrow> 'd option" where
  "spi1_transmit b buf len s = spi_transmit_loop SPI1_BASE b (unat len) buf s"

definition spi1_receive :: "'d bus \<Rightarrow> u8 list \<Rightarrow> u32 \<Rightarrow> u32 \<Rightarrow> 'd \<Rightarrow> (u8 list \<times> 'd) option" where
  "spi1_receive b buf len dummy s = spi_receive_loop SPI1_BASE b (unat len) 0 buf dummy s"

definition spi1_transmit_receive ::
    "'d bus \<Rightarrow> u8 list \<Rightarrow> u8 list \<Rightarrow> u32 \<Rightarrow> 'd \<Rightarrow> (u8 list \<times> 'd) option" where
  "spi1_transmit_receive b buft bufr len s =
     spi_transmit_receive_loop SPI1_BASE b (unat len) 0 buft bufr s"

definition spi2_init :: "'d bus \<Rightarrow> u32 \<Rightarrow> 'd \<Rightarrow> 'd" where
  "spi2_init = spi_init SPI2_BASE"

definition spi2_transfer :: "'d bus \<Rightarrow> u32 \<Rightarrow> 'd \<Rightarrow> (u32 \<times> 'd) option" where
  "spi2_transfer = spi_transfer SPI2_BASE"

definition spi2_transmit :: "'d bus \<Rightarrow> u8 list \<Rightarrow> u32 \<Rightarrow> 'd \<Rightarrow> 'd option" where
  "spi2_transmit b buf len s = spi_transmit_loop SPI2_BASE b (unat len) buf s"

definition spi2_receive :: "'d bus \<Rightarrow> u8 list \<Rightarrow> u32 \<Rightarrow> u32 \<Rightarrow> 'd \<Rightarrow> (u8 list \<times> 'd) option" where
  "spi2_receive b buf len dummy s = spi_receive_loop SPI2_BASE b (unat len) 0 buf dummy s"

definition spi2_transmit_receive ::
    "'d bus \<Rightarrow> u8 list \<Rightarrow> u8 list \<Rightarrow> u32 \<Rightarrow> 'd \<Rightarrow> (u8 list \<times> 'd) option" where
  "spi2_transmit_receive b buft bufr len s =
     spi_transmit_receive_loop SPI2_BASE b (unat len) 0 buft bufr s"

section \<open>The contract of a unit\<close>

text \<open>
  What a device on the bus answers is a function of what has been sent to it: \<open>slave h c\<close> is
  the byte shifted in while \<open>c\<close> is shifted out, after the bytes \<open>h\<close>. \<open>answers\<close> is what it
  answers to a sequence of bytes.
\<close>

fun answers :: "('h list \<Rightarrow> 'h \<Rightarrow> u8) \<Rightarrow> 'h list \<Rightarrow> 'h list \<Rightarrow> u8 list" where
  "answers slave h [] = []"
| "answers slave h (c # cs) = slave h c # answers slave (h @ [c]) cs"

lemma answers_append:
  "answers slave h (cs @ ds) = answers slave h cs @ answers slave (h @ cs) ds"
  by (induction cs arbitrary: h) auto

lemma length_answers [simp]: "length (answers slave h cs) = length cs"
  by (induction cs arbitrary: h) auto

text \<open>
  \<open>sent\<close> is the history of the bytes sent, \<open>pin\<close> the state of the chip select line, which
  the slave sees with every byte. \<open>shifting c n s t\<close>: at \<open>t\<close>, the byte \<open>c\<close> written at
  \<open>s\<close> needs \<open>n\<close> more status reads; \<open>shifted\<close>: it is done and its answer waits in the data
  register.
\<close>

locale spi_port =
  fixes b :: "'d bus"
    and base :: u32
    and ready :: "'d \<Rightarrow> bool"
    and sent :: "'d \<Rightarrow> ('p \<times> u8) list"
    and pin :: "'d \<Rightarrow> 'p"
    and slave :: "('p \<times> u8) list \<Rightarrow> 'p \<times> u8 \<Rightarrow> u8"
    and rest :: "'d \<Rightarrow> 'r"
    and shifting :: "u8 \<Rightarrow> nat \<Rightarrow> 'd \<Rightarrow> 'd \<Rightarrow> bool"
    and shifted :: "u8 \<Rightarrow> 'd \<Rightarrow> 'd \<Rightarrow> bool"
  assumes shift_start:
      "ready s \<Longrightarrow> \<exists>n. shifting (ucast v) n s (st32 b (base + DATA_offset) v s)"
    and shift_busy: "shifting c (Suc n) s t \<Longrightarrow> ld32 b (base + STAT_offset) t = (v, t') \<Longrightarrow>
      v AND 8 = 0 \<and> shifting c n s t'"
    and shift_done: "shifting c 0 s t \<Longrightarrow> ld32 b (base + STAT_offset) t = (v, t') \<Longrightarrow>
      v AND 8 \<noteq> 0 \<and> shifted c s t'"
    and shift_data: "shifted c s t \<Longrightarrow> ld32 b (base + DATA_offset) t = (v, t') \<Longrightarrow>
      v = ucast (slave (sent s) (pin s, c)) \<and> ready t' \<and> sent t' = sent s @ [(pin s, c)]
        \<and> pin t' = pin s \<and> rest t' = rest s"
begin

definition swaps :: "u8 list \<Rightarrow> u8 list \<Rightarrow> 'd \<Rightarrow> 'd \<Rightarrow> bool" where
  "swaps cs rs s s' \<longleftrightarrow> ready s' \<and> pin s' = pin s \<and> rest s' = rest s
     \<and> sent s' = sent s @ map (Pair (pin s)) cs
     \<and> rs = answers slave (sent s) (map (Pair (pin s)) cs)"

lemma swaps_refl [simp]: "ready s \<Longrightarrow> swaps [] [] s s"
  by (simp add: swaps_def)

lemma swaps_ready: "swaps cs rs s s' \<Longrightarrow> ready s'"
  by (simp add: swaps_def)

lemma swaps_trans: "swaps cs rs s t \<Longrightarrow> swaps ds qs t u \<Longrightarrow> swaps (cs @ ds) (rs @ qs) s u"
  by (auto simp: swaps_def answers_append)

lemma swaps_length: "swaps cs rs s t \<Longrightarrow> length rs = length cs"
  by (simp add: swaps_def)

lemma shifting_poll:
  "shifting c n s t \<Longrightarrow>
    returns (poll (ld32 b (base + STAT_offset)) (\<lambda>v. v AND 8 \<noteq> 0) t) (shifted c s)"
proof (induction n arbitrary: t)
  case 0
  obtain v t' where "ld32 b (base + STAT_offset) t = (v, t')"
    by (cases "ld32 b (base + STAT_offset) t")
  with shift_done [OF 0 this] show ?case by (simp add: poll_step)
next
  case (Suc n)
  obtain v t' where "ld32 b (base + STAT_offset) t = (v, t')"
    by (cases "ld32 b (base + STAT_offset) t")
  with shift_busy [OF Suc.prems this] Suc.IH show ?case by (simp add: poll_step)
qed

lemma transfer_wp [wp]:
  assumes "ready s" and "\<And>r s'. swaps [ucast v] [r] s s' \<Longrightarrow> Q (ucast r, s')"
  shows "returns (spi_transfer base b v s) Q"
proof -
  from shift_start [OF assms(1)] obtain n where
    n: "shifting (ucast v) n s (st32 b (base + DATA_offset) v s)" ..
  have "returns (Some (ld32 b (base + DATA_offset) t)) Q" if "shifted (ucast v) s t" for t
  proof -
    obtain w t' where "ld32 b (base + DATA_offset) t = (w, t')"
      by (cases "ld32 b (base + DATA_offset) t")
    with shift_data [OF that this] assms(2) show ?thesis by (simp add: swaps_def)
  qed
  then show ?thesis unfolding spi_transfer_def Let_def
    by (intro returns_bind) (rule returns_mono [OF shifting_poll [OF n]])
qed

lemma transmit_loop_wp:
  assumes "ready s" and "k \<le> length buf" and "\<And>rs s'. swaps (take k buf) rs s s' \<Longrightarrow> Q s'"
  shows "returns (spi_transmit_loop base b k buf s) Q"
  using assms
proof (induction k arbitrary: buf s Q)
  case 0
  show ?case using 0(1) 0(3) [of "[]" s] by simp
next
  case (Suc k)
  from Suc.prems(2) obtain c cs where buf: "buf = c # cs" by (cases buf) auto
  have "returns (spi_transmit_loop base b k cs t) Q" if "swaps [c] [r] s t" for r t
    using that Suc.prems(2) swaps_ready [OF that] swaps_trans [OF that] buf
    by (intro Suc.IH Suc.prems(3)) auto
  with Suc.prems(1) buf show ?case by (auto intro!: wp)
qed

lemma receive_loop_wp:
  assumes "ready s" and "i + k \<le> length buf"
    and "\<And>rs s'. swaps (replicate k (ucast dummy)) rs s s' \<Longrightarrow>
      Q (take i buf @ rs @ drop (i + k) buf, s')"
  shows "returns (spi_receive_loop base b k i buf dummy s) Q"
  using assms
proof (induction k arbitrary: i buf s Q)
  case 0
  show ?case using 0(1) 0(3) [of "[]" s] by simp
next
  case (Suc k)
  have "returns (spi_receive_loop base b k (Suc i) (buf[i := r]) dummy t) Q"
    if t: "swaps [ucast dummy] [r] s t" for r t
  proof (rule Suc.IH)
    show "ready t" using t by (rule swaps_ready)
    show "Suc i + k \<le> length (buf[i := r])" using Suc.prems(2) by simp
    show "Q (take (Suc i) (buf[i := r]) @ rs @ drop (Suc i + k) (buf[i := r]), u)"
      if "swaps (replicate k (ucast dummy)) rs t u" for rs u
      using Suc.prems(3) [of "r # rs" u] swaps_trans [OF t that] Suc.prems(2)
      by (simp add: take_Suc_conv_app_nth)
  qed
  with Suc.prems(1,2) show ?case by (auto intro!: wp)
qed

lemma transmit_receive_loop_wp:
  assumes "ready s" and "k \<le> length buft" and "i + k \<le> length bufr"
    and "\<And>rs s'. swaps (take k buft) rs s s' \<Longrightarrow>
      Q (take i bufr @ rs @ drop (i + k) bufr, s')"
  shows "returns (spi_transmit_receive_loop base b k i buft bufr s) Q"
  using assms
proof (induction k arbitrary: i buft bufr s Q)
  case 0
  show ?case using 0(1) 0(4) [of "[]" s] by simp
next
  case (Suc k)
  from Suc.prems(2) obtain c cs where buft: "buft = c # cs" by (cases buft) auto
  have "returns (spi_transmit_receive_loop base b k (Suc i) cs (bufr[i := r]) t) Q"
    if t: "swaps [c] [r] s t" for r t
  proof (rule Suc.IH)
    show "ready t" using t by (rule swaps_ready)
    show "k \<le> length cs" using Suc.prems(2) buft by simp
    show "Suc i + k \<le> length (bufr[i := r])" using Suc.prems(3) by simp
    show "Q (take (Suc i) (bufr[i := r]) @ rs @ drop (Suc i + k) (bufr[i := r]), u)"
      if "swaps (take k cs) rs t u" for rs u
      using Suc.prems(4) [of "r # rs" u] swaps_trans [OF t that] Suc.prems(3) buft
      by (simp add: take_Suc_conv_app_nth)
  qed
  with Suc.prems(1,3) buft show ?case by (auto intro!: wp)
qed

end

end
