(* ===== verification/Sdcard.thy ===== *)
theory Sdcard
  imports Spi
begin

text \<open>
  The SD card driver on the second SPI unit, \<^verbatim>\<open>sw/fatfs/sdcard.c\<close>, as compiled without
  \<^verbatim>\<open>SD_DEBUG\<close>. Its three static structs are one record. The driver has its own transfer function,
  so only the contract of the unit is taken from \<^verbatim>\<open>Spi\<close>. The card is whatever answers on the bus.
\<close>

section \<open>The static data\<close>

record sd_card =
  csd_version :: u32
  csd_capacity :: u32
  csd_speed :: u16
  ocr_sectorsize :: u16
  ocr_ccs :: u16
  ocr_status :: u16
  cid_mid :: u16
  cid_mdt :: u16
  cid_prv :: u8
  cid_oid :: "u8 list"
  cid_pnm :: "u8 list"
  cid_psn :: u32

definition sd_cleared :: sd_card where
  "sd_cleared = \<lparr> csd_version = 0, csd_capacity = 0, csd_speed = 0, ocr_sectorsize = 0, ocr_ccs = 0,
     ocr_status = 0, cid_mid = 0, cid_mdt = 0, cid_prv = 0, cid_oid = replicate 3 0,
     cid_pnm = replicate 6 0, cid_psn = 0 \<rparr>"

definition SD_SUCCESS :: u32 where "SD_SUCCESS = 0"
definition SD_ERROR :: u32 where "SD_ERROR = 1"
definition SD_SLOW :: u32 where "SD_SLOW = 7"
definition SD_FAST :: u32 where "SD_FAST = 3"

definition SD_READ_TIMEOUT :: u32 where
  "SD_READ_TIMEOUT = (F_CPU div 10) div (push_bit (unat (SD_FAST + 1)) 1 * 8)"

definition SD_WRITE_TIMEOUT :: u32 where
  "SD_WRITE_TIMEOUT = (F_CPU div 4) div (push_bit (unat (SD_FAST + 1)) 1 * 8)"

section \<open>The unit and its chip select\<close>

definition SPI2_init :: "'d bus \<Rightarrow> u32 \<Rightarrow> 'd \<Rightarrow> 'd" where
  "SPI2_init b speed s = st32 b (SPI2_BASE + CTRL_offset) (push_bit 8 speed) s"

definition CS_PIN :: u32 where "CS_PIN = push_bit 14 1"

definition SPI2_csenable :: "'d bus \<Rightarrow> 'd \<Rightarrow> 'd" where
  "SPI2_csenable b s = rmw b GPIOA_POUT (\<lambda>v. v AND NOT CS_PIN) s"

definition SPI2_csdisable :: "'d bus \<Rightarrow> 'd \<Rightarrow> 'd" where
  "SPI2_csdisable b s = rmw b GPIOA_POUT (\<lambda>v. v OR CS_PIN) s"

definition SPI2_transfer :: "'d bus \<Rightarrow> u8 \<Rightarrow> 'd \<Rightarrow> (u8 \<times> 'd) option" where
  "SPI2_transfer b what s =
     do { let s = st32 b (SPI2_BASE + DATA_offset) (ucast what) s;
          s \<leftarrow> poll (ld32 b (SPI2_BASE + STAT_offset)) (\<lambda>v. v AND 0x08 \<noteq> 0) s;
          let (v, s) = ld32 b (SPI2_BASE + DATA_offset) s;
          Some (ucast (v AND 0xff), s) }"

text \<open>A transfer whose answer is not used.\<close>

definition send_byte :: "'d bus \<Rightarrow> u8 \<Rightarrow> 'd \<Rightarrow> 'd option" where
  "send_byte b what s = do { (_, s) \<leftarrow> SPI2_transfer b what s; Some s }"

text \<open>The sequences around every command: assert and deassert chip select.\<close>

definition sd_select :: "'d bus \<Rightarrow> 'd \<Rightarrow> 'd option" where
  "sd_select b s = do { s \<leftarrow> send_byte b 0xff s; let s = SPI2_csenable b s; send_byte b 0xff s }"

definition sd_release :: "'d bus \<Rightarrow> 'd \<Rightarrow> 'd option" where
  "sd_release b s = do { s \<leftarrow> send_byte b 0xff s; let s = SPI2_csdisable b s; send_byte b 0xff s }"

section \<open>Commands and responses\<close>

fun send_bytes :: "'d bus \<Rightarrow> u8 list \<Rightarrow> 'd \<Rightarrow> 'd option" where
  "send_bytes b [] s = Some s"
| "send_bytes b (c # cs) s = do { s \<leftarrow> send_byte b c s; send_bytes b cs s }"

text \<open>The start-up delay of \<^verbatim>\<open>SD_powerup\<close> counts a local variable without an initial value and has no
  other effect: it is left out.\<close>

definition SD_powerup :: "'d bus \<Rightarrow> 'd \<Rightarrow> 'd option" where
  "SD_powerup b s =
     do { let s = SPI2_csdisable b s;
          s \<leftarrow> send_bytes b (replicate 10 0xff) s;
          let s = SPI2_csdisable b s;
          send_byte b 0xff s }"

definition SD_command :: "'d bus \<Rightarrow> u8 \<Rightarrow> u32 \<Rightarrow> u8 \<Rightarrow> 'd \<Rightarrow> 'd option" where
  "SD_command b cmd arg crc s =
     do { s \<leftarrow> send_byte b (cmd OR 0x40) s;
          s \<leftarrow> send_byte b (ucast (drop_bit 24 arg AND 0xff)) s;
          s \<leftarrow> send_byte b (ucast (drop_bit 16 arg AND 0xff)) s;
          s \<leftarrow> send_byte b (ucast (drop_bit 8 arg AND 0xff)) s;
          s \<leftarrow> send_byte b (ucast (drop_bit 0 arg AND 0xff)) s;
          send_byte b crc s }"

text \<open>The loop of \<^verbatim>\<open>SD_readR1\<close>; \<open>k\<close> is \<open>9 - i\<close>.\<close>

fun readR1_loop :: "'d bus \<Rightarrow> nat \<Rightarrow> 'd \<Rightarrow> (u8 \<times> 'd) option" where
  "readR1_loop b k s =
     do { (ret, s) \<leftarrow> SPI2_transfer b 0xff s;
          if ret = 0xff then
            (case k of 0 \<Rightarrow> Some (ret, s) | Suc k' \<Rightarrow> readR1_loop b k' s)
          else Some (ret, s) }"

definition SD_readR1 :: "'d bus \<Rightarrow> 'd \<Rightarrow> (u8 \<times> 'd) option" where
  "SD_readR1 b s = readR1_loop b 9 s"

definition SD_CMD0 :: "'d bus \<Rightarrow> 'd \<Rightarrow> (u8 \<times> 'd) option" where
  "SD_CMD0 b s =
     do { s \<leftarrow> sd_select b s;
          s \<leftarrow> SD_command b 0 0 0x95 s;
          (ret, s) \<leftarrow> SD_readR1 b s;
          s \<leftarrow> sd_release b s;
          Some (ret, s) }"

definition SD_readR37 :: "'d bus \<Rightarrow> u8 list \<Rightarrow> 'd \<Rightarrow> (u8 list \<times> 'd) option" where
  "SD_readR37 b res s =
     do { (r, s) \<leftarrow> SD_readR1 b s;
          res \<leftarrow> setb res 0 r;
          if r > 1 then Some (res, s)
          else
            do { (r, s) \<leftarrow> SPI2_transfer b 0xff s; res \<leftarrow> setb res 1 r;
                 (r, s) \<leftarrow> SPI2_transfer b 0xff s; res \<leftarrow> setb res 2 r;
                 (r, s) \<leftarrow> SPI2_transfer b 0xff s; res \<leftarrow> setb res 3 r;
                 (r, s) \<leftarrow> SPI2_transfer b 0xff s; res \<leftarrow> setb res 4 r;
                 Some (res, s) } }"

definition SD_CMD8 :: "'d bus \<Rightarrow> u8 list \<Rightarrow> 'd \<Rightarrow> (u8 list \<times> 'd) option" where
  "SD_CMD8 b res s =
     do { s \<leftarrow> sd_select b s;
          s \<leftarrow> SD_command b 8 0x1aa 0x87 s;
          (res, s) \<leftarrow> SD_readR37 b res s;
          s \<leftarrow> sd_release b s;
          Some (res, s) }"

definition SD_CMD58 :: "'d bus \<Rightarrow> u8 list \<Rightarrow> 'd \<Rightarrow> (u8 list \<times> 'd) option" where
  "SD_CMD58 b res s =
     do { s \<leftarrow> sd_select b s;
          s \<leftarrow> SD_command b 58 0 0xff s;
          (res, s) \<leftarrow> SD_readR37 b res s;
          s \<leftarrow> sd_release b s;
          Some (res, s) }"

definition SD_CMD55 :: "'d bus \<Rightarrow> 'd \<Rightarrow> (u8 \<times> 'd) option" where
  "SD_CMD55 b s =
     do { s \<leftarrow> sd_select b s;
          s \<leftarrow> SD_command b 55 0 0xff s;
          (ret, s) \<leftarrow> SD_readR1 b s;
          s \<leftarrow> sd_release b s;
          Some (ret, s) }"

definition SD_ACMD41 :: "'d bus \<Rightarrow> 'd \<Rightarrow> (u8 \<times> 'd) option" where
  "SD_ACMD41 b s =
     do { s \<leftarrow> sd_select b s;
          s \<leftarrow> SD_command b 41 0x40000000 0xff s;
          (ret, s) \<leftarrow> SD_readR1 b s;
          s \<leftarrow> sd_release b s;
          Some (ret, s) }"

text \<open>The wait for the data token in \<^verbatim>\<open>SD_CMD910\<close>: when the count reaches 0 the card is released, but
  nothing ends the loop.\<close>

partial_function (option) transport_loop :: "'d bus \<Rightarrow> u32 \<Rightarrow> 'd \<Rightarrow> (u8 \<times> 'd) option" where
  "transport_loop b count s =
     do { (ret, s) \<leftarrow> SPI2_transfer b 0xff s;
          if ret = 0xff then
            do { s \<leftarrow> (if count - 1 = 0 then sd_release b s else Some s);
                 transport_loop b (count - 1) s }
          else Some (ret, s) }"

text \<open>\<open>k\<close> bytes from the card, stored from position \<open>i\<close>.\<close>

fun fetch_loop :: "'d bus \<Rightarrow> nat \<Rightarrow> nat \<Rightarrow> u8 list \<Rightarrow> 'd \<Rightarrow> (u8 list \<times> 'd) option" where
  "fetch_loop b 0 i buf s = Some (buf, s)"
| "fetch_loop b (Suc k) i buf s =
     do { (r, s) \<leftarrow> SPI2_transfer b 0xff s; buf \<leftarrow> setb buf i r; fetch_loop b k (Suc i) buf s }"

definition SD_CMD910 :: "'d bus \<Rightarrow> u8 \<Rightarrow> u8 list \<Rightarrow> 'd \<Rightarrow> (u32 \<times> u8 list \<times> 'd) option" where
  "SD_CMD910 b cmd buf s =
     do { s \<leftarrow> sd_select b s;
          s \<leftarrow> SD_command b cmd 0 0xff s;
          (ret, s) \<leftarrow> SD_readR1 b s;
          if ret \<noteq> 0 then Some (SD_ERROR, buf, s)
          else
            do { (ret, s) \<leftarrow> transport_loop b SD_READ_TIMEOUT s;
                 if ret \<noteq> 0xfe then Some (SD_ERROR, buf, s)
                 else
                   do { (buf, s) \<leftarrow> fetch_loop b 16 0 buf s;
                        s \<leftarrow> send_byte b 0xff s;
                        s \<leftarrow> send_byte b 0xff s;
                        s \<leftarrow> sd_release b s;
                        Some (SD_SUCCESS, buf, s) } } }"

section \<open>Fields of the card's registers\<close>

text \<open>The turns of the loop of \<^verbatim>\<open>ext_bits\<close> from \<open>i\<close> on. A byte outside the array, and a shift by 32 or
  more, have no result.\<close>

fun ext_bits_loop :: "u8 list \<Rightarrow> u32 \<Rightarrow> nat \<Rightarrow> u32 \<Rightarrow> u32 \<Rightarrow> u32 option" where
  "ext_bits_loop data lsb 0 i bits = Some bits"
| "ext_bits_loop data lsb (Suc k) i bits =
     do { let position = lsb + i;
          let byte = 15 - drop_bit 3 position;
          let bit = position AND 0x7;
          if unat byte < length data \<and> i < 32 then
            do { let val = drop_bit (unat bit) (data ! unat byte) AND 1;
                 ext_bits_loop data lsb k (i + 1) (bits OR push_bit (unat i) (ucast val)) }
          else None }"

definition ext_bits :: "u8 list \<Rightarrow> u32 \<Rightarrow> u32 \<Rightarrow> u32 option" where
  "ext_bits data msb lsb = (let size = 1 + msb - lsb in ext_bits_loop data lsb (unat size) 0 0)"

section \<open>Initialisation\<close>

text \<open>The loop of \<^verbatim>\<open>CMD55\<close> and \<^verbatim>\<open>ACMD41\<close>, with \<open>counter\<close> turns left: \<open>Inl\<close> is the return with an error,
  \<open>Inr counter\<close> the value of the counter after the loop.\<close>

fun acmd_loop :: "'d bus \<Rightarrow> nat \<Rightarrow> 'd \<Rightarrow> ((u32 + nat) \<times> 'd) option" where
  "acmd_loop b 0 s = Some (Inr 0, s)"
| "acmd_loop b (Suc counter) s =
     do { (r, s) \<leftarrow> SD_CMD55 b s;
          if r > 1 then Some (Inl SD_ERROR, s)
          else
            do { (r, s) \<leftarrow> SD_ACMD41 b s;
                 if r > 1 then Some (Inl SD_ERROR, s)
                 else if r = 0 then Some (Inr (Suc counter), s)
                 else acmd_loop b counter s } }"

definition set_ocr :: "u8 \<Rightarrow> sd_card \<Rightarrow> sd_card" where
  "set_ocr r1 st =
     (if r1 AND 0xc0 = 0xc0 then st \<lparr> ocr_ccs := 1, ocr_sectorsize := 512 \<rparr>
      else if r1 AND 0xc0 = 0x80 then st \<lparr> ocr_ccs := 0, ocr_sectorsize := 1 \<rparr>
      else st)"

definition set_csd :: "u8 list \<Rightarrow> sd_card \<Rightarrow> sd_card option" where
  "set_csd csdcid st =
     do { version \<leftarrow> ext_bits csdcid 127 126;
          capacity \<leftarrow> ext_bits csdcid 69 48;
          speed \<leftarrow> ext_bits csdcid 103 96;
          Some (st \<lparr> csd_version := version + 1, csd_capacity := capacity + 1, csd_speed := ucast speed \<rparr>) }"

definition set_cid :: "u8 list \<Rightarrow> sd_card \<Rightarrow> sd_card option" where
  "set_cid csdcid st =
     do { psn \<leftarrow> ext_bits csdcid 55 24;
          mdt \<leftarrow> ext_bits csdcid 19 8;
          Some (st \<lparr> cid_mid := ucast (csdcid ! 0), cid_oid := [csdcid ! 1, csdcid ! 2, 0],
            cid_pnm := [csdcid ! 3, csdcid ! 4, csdcid ! 5, csdcid ! 6, csdcid ! 7, 0],
            cid_prv := csdcid ! 8, cid_psn := psn, cid_mdt := ucast mdt \<rparr>) }"

text \<open>What follows the power-up conditions: \<^verbatim>\<open>res[1]\<close> tells the capacity class, and the two
  register blocks are read at full speed. \<open>csdcid\<close> is the array on the stack.\<close>

definition SD_identify :: "'d bus \<Rightarrow> u8 list \<Rightarrow> u8 \<Rightarrow> sd_card \<Rightarrow> 'd \<Rightarrow> (u32 \<times> sd_card \<times> 'd) option" where
  "SD_identify b csdcid r1 st s =
     do { let st = set_ocr r1 st;
          if r1 AND 0x80 = 0 then Some (SD_ERROR, st, s)
          else
            do { let s = SPI2_init b SD_FAST s;
                 (e, csdcid, s) \<leftarrow> SD_CMD910 b 9 csdcid s;
                 if e \<noteq> SD_SUCCESS then Some (SD_ERROR, st, s)
                 else
                   do { st \<leftarrow> set_csd csdcid st;
                        (e, csdcid, s) \<leftarrow> SD_CMD910 b 10 csdcid s;
                        if e \<noteq> SD_SUCCESS then Some (SD_ERROR, st, s)
                        else
                          do { st \<leftarrow> set_cid csdcid st;
                               let st = st \<lparr> ocr_status := 1 \<rparr>;
                               Some (SD_SUCCESS, st, s) } } } }"

definition SD_initialize :: "'d bus \<Rightarrow> u8 list \<Rightarrow> sd_card \<Rightarrow> 'd \<Rightarrow> (u32 \<times> sd_card \<times> 'd) option" where
  "SD_initialize b csdcid st s =
     do { let res = replicate 6 0;
          let st = sd_cleared;
          let s = SPI2_init b SD_SLOW s;
          s \<leftarrow> SD_powerup b s;
          (r, s) \<leftarrow> SD_CMD0 b s;
          res \<leftarrow> setb res 0 r;
          if r > 1 then Some (SD_ERROR, st, s)
          else
            do { (res, s) \<leftarrow> SD_CMD8 b res s;
                 if res ! 0 > 1 then Some (SD_ERROR, st, s)
                 else
                   do { (out, s) \<leftarrow> acmd_loop b 100 s;
                        case out of
                          Inl e \<Rightarrow> Some (e, st, s)
                        | Inr counter \<Rightarrow>
                            if counter = 0 then Some (SD_ERROR, st, s)
                            else
                              do { (res, s) \<leftarrow> SD_CMD58 b res s;
                                   if res ! 0 > 1 then Some (SD_ERROR, st, s)
                                   else SD_identify b csdcid (res ! 1) st s } } } }"

section \<open>Sectors\<close>

text \<open>The waits for a token: the loop ends at the first byte that is not \<^verbatim>\<open>0xff\<close>, or when the count
  reaches 0; \<open>count\<close> turns are left.\<close>

fun token_loop :: "'d bus \<Rightarrow> nat \<Rightarrow> 'd \<Rightarrow> ((u8 \<times> nat) \<times> 'd) option" where
  "token_loop b count s =
     do { (ret, s) \<leftarrow> SPI2_transfer b 0xff s;
          if ret = 0xff then
            (case count - 1 of 0 \<Rightarrow> Some ((ret, 0), s) | Suc c \<Rightarrow> token_loop b (Suc c) s)
          else Some ((ret, count), s) }"

definition SD_readsector :: "'d bus \<Rightarrow> sd_card \<Rightarrow> u32 \<Rightarrow> u8 list \<Rightarrow> 'd \<Rightarrow> (u32 \<times> u8 list \<times> 'd) option" where
  "SD_readsector b st sector buf s =
     do { s \<leftarrow> sd_select b s;
          s \<leftarrow> SD_command b 17 sector 0xff s;
          (ret, s) \<leftarrow> SD_readR1 b s;
          if ret > 1 then
            do { s \<leftarrow> sd_release b s; Some (SD_ERROR, buf, s) }
          else
            do { ((ret, count), s) \<leftarrow> token_loop b (unat SD_READ_TIMEOUT) s;
                 if count = 0 then Some (SD_ERROR, buf, s)
                 else
                   do { (buf, s) \<leftarrow> fetch_loop b (unat (ocr_sectorsize st)) 0 buf s;
                        s \<leftarrow> send_byte b 0xff s;
                        s \<leftarrow> send_byte b 0xff s;
                        s \<leftarrow> sd_release b s;
                        Some (SD_SUCCESS, buf, s) } } }"

text \<open>The bytes of a sector: a read behind the buffer has no result.\<close>

fun store_loop :: "'d bus \<Rightarrow> nat \<Rightarrow> u8 list \<Rightarrow> 'd \<Rightarrow> 'd option" where
  "store_loop b 0 buf s = Some s"
| "store_loop b (Suc k) [] s = None"
| "store_loop b (Suc k) (c # buf) s = do { s \<leftarrow> send_byte b c s; store_loop b k buf s }"

text \<open>The wait while the card stores the data: \<open>True\<close> when the count reaches 0.\<close>

fun busy_loop :: "'d bus \<Rightarrow> nat \<Rightarrow> 'd \<Rightarrow> (bool \<times> 'd) option" where
  "busy_loop b count s =
     do { (ret, s) \<leftarrow> SPI2_transfer b 0xff s;
          if ret = 0 then
            (case count - 1 of 0 \<Rightarrow> Some (True, s) | Suc c \<Rightarrow> busy_loop b (Suc c) s)
          else Some (False, s) }"

definition SD_writesector :: "'d bus \<Rightarrow> sd_card \<Rightarrow> u32 \<Rightarrow> u8 list \<Rightarrow> 'd \<Rightarrow> (u32 \<times> 'd) option" where
  "SD_writesector b st sector buf s =
     do { s \<leftarrow> sd_select b s;
          s \<leftarrow> SD_command b 24 sector 0xff s;
          (ret, s) \<leftarrow> SD_readR1 b s;
          if ret > 1 then
            do { s \<leftarrow> sd_release b s; Some (SD_ERROR, s) }
          else
            do { s \<leftarrow> send_byte b 0xfe s;
                 s \<leftarrow> store_loop b (unat (ocr_sectorsize st)) buf s;
                 s \<leftarrow> send_byte b 0xff s;
                 s \<leftarrow> send_byte b 0xff s;
                 ((ret, count), s) \<leftarrow> token_loop b (unat SD_WRITE_TIMEOUT) s;
                 if count = 0 then Some (SD_ERROR, s)
                 else if ret AND 0x1f = 0x05 then
                   do { (late, s) \<leftarrow> busy_loop b (unat SD_WRITE_TIMEOUT) s;
                        s \<leftarrow> sd_release b s;
                        Some (if late then SD_ERROR else SD_SUCCESS, s) }
                 else if ret AND 0x1f = 0x0b then
                   do { s \<leftarrow> sd_release b s; Some (SD_SUCCESS, s) }
                 else if ret AND 0x1f = 0x0d then
                   do { s \<leftarrow> sd_release b s; Some (SD_ERROR, s) }
                 else
                   do { s \<leftarrow> sd_release b s; Some (SD_SUCCESS, s) } } }"

section \<open>Queries\<close>

definition SD_getsectorsize :: "sd_card \<Rightarrow> u32" where "SD_getsectorsize st = ucast (ocr_sectorsize st)"
definition SD_getcapacity :: "sd_card \<Rightarrow> u32" where "SD_getcapacity st = csd_capacity st"
definition SD_getccs :: "sd_card \<Rightarrow> u32" where "SD_getccs st = ucast (ocr_ccs st)"
definition SD_getspeed :: "sd_card \<Rightarrow> u32" where "SD_getspeed st = ucast (csd_speed st)"
definition SD_getcsdver :: "sd_card \<Rightarrow> u32" where "SD_getcsdver st = csd_version st"
definition SD_getstatus :: "sd_card \<Rightarrow> u32" where "SD_getstatus st = ucast (ocr_status st)"

end
