(* ===== verification/Sdlaws.thy ===== *)
theory Sdlaws
  imports Sdcard
begin

text \<open>
  What the SD card driver does, over the contract of the SPI unit and its chip select line: the bit
  fields of the card's registers, the transfer of a sector in every outcome, and the initialisation.
  The card is described by what it answers to polls after a history of bytes.
\<close>

section \<open>Bit fields\<close>

text \<open>The register as one number, its first byte the most significant.\<close>

lemma bit_byte_shift: "bit (uint w + 2 ^ 8 * h) n \<longleftrightarrow> bit w n \<or> 8 \<le> n \<and> bit h (n - 8)" for w :: u8 and h :: int
proof -
  have "uint w AND push_bit 8 h = 0"
    by (rule bit_eqI) (simp add: bit_and_iff bit_push_bit_iff bit_uint_iff)
  then have "uint w + 2 ^ 8 * h = uint w OR push_bit 8 h"
    by (simp only: disjunctive_add_eq_or push_bit_eq_mult mult.commute)
  moreover have "bit w n \<Longrightarrow> n < 8" by (drule bit_imp_le_length) simp
  ultimately show ?thesis by (auto simp: bit_or_iff bit_push_bit_iff bit_uint_iff)
qed

lemma bit_horner_bytes:
  "bit (horner_sum uint (2 ^ 8) ws) n \<longleftrightarrow> n div 8 < length ws \<and> bit (ws ! (n div 8)) (n mod 8)" for ws :: "u8 list"
proof (induction ws arbitrary: n)
  case Nil
  show ?case by (simp only: horner_sum_simps list.size bit_0_eq bot_apply) simp
next
  case (Cons w ws)
  have "bit (horner_sum uint (2 ^ 8) (w # ws)) n \<longleftrightarrow> bit w n \<or> 8 \<le> n \<and> bit (horner_sum uint (2 ^ 8) ws) (n - 8)"
    by (simp only: horner_sum_simps bit_byte_shift)
  also have "\<dots> \<longleftrightarrow> n div 8 < length (w # ws) \<and> bit ((w # ws) ! (n div 8)) (n mod 8)"
  proof (cases "n < 8")
    case False
    then have "n = n - 8 + 8" by simp
    then have "n div 8 = Suc ((n - 8) div 8)" "(n - 8) mod 8 = n mod 8"
      using div_add_self2 [of 8 "n - 8"] mod_add_self2 [of "n - 8" 8] by simp_all
    moreover have "\<not> bit w n" using False by (auto dest: bit_imp_le_length)
    ultimately show ?thesis using False Cons.IH [of "n - 8"] by simp
  qed simp
  finally show ?case .
qed

lemma bit_word_rcat_bytes:
  "bit (word_rcat ws :: 'b::len word) n \<longleftrightarrow>
     n < LENGTH('b) \<and> n div 8 < length ws \<and> bit (rev ws ! (n div 8)) (n mod 8)" for ws :: "u8 list"
  using bit_horner_bytes [of "rev ws" n] by (simp add: word_rcat_def bit_simps)

lemma ext_bits_loop_eq:
  fixes data :: "u8 list" and lsb :: u32 and k i :: nat
  defines "W \<equiv> word_rcat data :: 128 word"
  assumes "length data = 16" and "unat lsb + i + k \<le> 128" and "i + k \<le> 32"
  shows "ext_bits_loop data lsb k (word_of_nat i) (take_bit i (ucast (drop_bit (unat lsb) W)))
    = Some (take_bit (i + k) (ucast (drop_bit (unat lsb) W)))"
  using assms(3,4)
proof (induction k arbitrary: i)
  case 0
  then show ?case by simp
next
  case (Suc k)
  have i: "unat (word_of_nat i :: u32) = i" using Suc.prems(2) by (simp add: unsigned_of_nat take_bit_nat_eq_self_iff)
  have pos: "unat (lsb + word_of_nat i) = unat lsb + i"
    using Suc.prems by (simp add: unat_word_ariths i)
  have "(unat lsb + i) div 8 \<le> 15" using Suc.prems by simp
  then have byte: "unat (15 - drop_bit 3 (lsb + word_of_nat i)) = 15 - (unat lsb + i) div 8"
    by (simp add: unat_sub_if' unat_drop_div pos)
  have bit: "unat ((lsb + word_of_nat i) AND 7) = (unat lsb + i) mod 8"
    using unat_and_mask [of "lsb + word_of_nat i" 3] by (simp add: mask_eq_exp_minus_1 pos)
  have here: "take_bit i (ucast (drop_bit (unat lsb) W)) OR
      push_bit i (ucast (drop_bit ((unat lsb + i) mod 8) (data ! (15 - (unat lsb + i) div 8)) AND 1) :: u32)
    = take_bit (Suc i) (ucast (drop_bit (unat lsb) W) :: u32)"
  proof (rule bit_word_eqI)
    fix n assume n: "n < LENGTH(32)"
    have "bit W (unat lsb + i) = bit (data ! (15 - (unat lsb + i) div 8)) ((unat lsb + i) mod 8)"
      using \<open>(unat lsb + i) div 8 \<le> 15\<close> Suc.prems assms(2)
      by (simp add: W_def bit_word_rcat_bytes rev_nth less_Suc_eq_le)
    then show "bit (take_bit i (ucast (drop_bit (unat lsb) W)) OR
      push_bit i (ucast (drop_bit ((unat lsb + i) mod 8) (data ! (15 - (unat lsb + i) div 8)) AND 1) :: u32)) n
    = bit (take_bit (Suc i) (ucast (drop_bit (unat lsb) W) :: u32)) n"
      using n by (cases "n = i") (auto simp: bit_simps less_Suc_eq)
  qed
  have "ext_bits_loop data lsb k (word_of_nat (Suc i)) (take_bit (Suc i) (ucast (drop_bit (unat lsb) W)))
      = Some (take_bit (Suc i + k) (ucast (drop_bit (unat lsb) W)))"
    using Suc.prems by (intro Suc.IH) auto
  moreover have "(word_of_nat i :: u32) < 32" using i Suc.prems(2) by (simp add: word_less_nat_alt)
  ultimately show ?case
    by (simp add: Let_def byte bit i here assms(2) add.commute [of 1])
qed

lemma ext_bits_eq:
  assumes "length data = 16" and "lsb \<le> msb" and "msb < 128" and "msb - lsb < 32"
  shows "ext_bits data msb lsb =
    Some (take_bit (unat msb - unat lsb + 1) (ucast (drop_bit (unat lsb) (word_rcat data :: 128 word))))"
proof -
  have m: "unat (msb - lsb) = unat msb - unat lsb" "unat lsb \<le> unat msb" "unat msb < 128" "unat msb - unat lsb < 32"
    using assms(2-4) by (auto simp: word_le_nat_alt word_less_nat_alt unat_sub)
  then have size: "unat (1 + msb - lsb) = unat msb - unat lsb + 1"
    by (simp add: add_diff_eq [symmetric] unat_word_ariths(1) del: add_diff_eq)
  show ?thesis
    using ext_bits_loop_eq [of data lsb 0 "unat (1 + msb - lsb)"] assms(1) m
    by (simp add: ext_bits_def size)
qed

section \<open>The contract of the unit with its chip select line\<close>

text \<open>\<open>says slave p h rs\<close>: after the history \<open>h\<close>, polled with \<^verbatim>\<open>0xff\<close> at level \<open>p\<close> of the output port, the
  card answers \<open>rs\<close>.\<close>

fun says :: "(('p \<times> u8) list \<Rightarrow> 'p \<times> u8 \<Rightarrow> u8) \<Rightarrow> 'p \<Rightarrow> ('p \<times> u8) list \<Rightarrow> u8 list \<Rightarrow> bool" where
  "says slave p h [] \<longleftrightarrow> True"
| "says slave p h (r # rs) \<longleftrightarrow> slave h (p, 0xff) = r \<and> says slave p (h @ [(p, 0xff)]) rs"

abbreviation polls :: "'p \<Rightarrow> nat \<Rightarrow> ('p \<times> u8) list" where
  "polls p n \<equiv> replicate n (p, 0xff)"

definition command_bytes :: "u8 \<Rightarrow> u32 \<Rightarrow> u8 \<Rightarrow> u8 list" where
  "command_bytes cmd arg crc = [cmd OR 0x40, ucast (drop_bit 24 arg), ucast (drop_bit 16 arg),
     ucast (drop_bit 8 arg), ucast arg, crc]"

text \<open>What goes over the bus before the response to a command: the select sequence and the command.\<close>

definition sd_head :: "u32 \<Rightarrow> u8 \<Rightarrow> u32 \<Rightarrow> u8 \<Rightarrow> (u32 \<times> u8) list" where
  "sd_head p cmd arg crc = [(p, 0xff), (p AND NOT CS_PIN, 0xff)]
     @ map (Pair (p AND NOT CS_PIN)) (command_bytes cmd arg crc)"

text \<open>What goes over the bus of a write up to the answer to the data: the command, the polls for its
  response, the start token, the data and two bytes for the checksum.\<close>

definition sd_write_head :: "u32 \<Rightarrow> u32 \<Rightarrow> u8 list \<Rightarrow> nat \<Rightarrow> (u32 \<times> u8) list" where
  "sd_write_head p sector data n = sd_head p 24 sector 0xff @ polls (p AND NOT CS_PIN) (n + 1)
     @ map (Pair (p AND NOT CS_PIN)) (0xfe # data @ [0xff, 0xff])"

declare readR1_loop.simps [simp del] token_loop.simps [simp del] busy_loop.simps [simp del]

locale sd_port = spi_port b SPI2_BASE ready sent pin slave rest shifting shifted
  for b :: "'d bus" and ready and sent :: "'d \<Rightarrow> (u32 \<times> u8) list" and pin :: "'d \<Rightarrow> u32" and slave
    and rest :: "'d \<Rightarrow> 'r" and shifting and shifted +
  assumes pin_load: "ready s \<Longrightarrow> ld32 b GPIOA_POUT s = (v, t) \<Longrightarrow>
      v = pin s \<and> ready t \<and> pin t = pin s \<and> sent t = sent s \<and> rest t = rest s"
    and pin_store: "ready s \<Longrightarrow> t = st32 b GPIOA_POUT v s \<Longrightarrow>
      ready t \<and> pin t = v \<and> sent t = sent s \<and> rest t = rest s"
    and speed_store: "ready s \<Longrightarrow> t = st32 b (SPI2_BASE + CTRL_offset) v s \<Longrightarrow>
      ready t \<and> pin t = pin s \<and> sent t = sent s \<and> rest t = rest s"
begin

text \<open>From \<open>s\<close> on, \<open>xs\<close> has been sent, and the output port is now at \<open>p\<close>.\<close>

definition moved :: "u32 \<Rightarrow> (u32 \<times> u8) list \<Rightarrow> 'd \<Rightarrow> 'd \<Rightarrow> bool" where
  "moved p xs s t \<longleftrightarrow> ready t \<and> pin t = p \<and> sent t = sent s @ xs \<and> rest t = rest s"

lemma moved_refl [simp]: "ready s \<Longrightarrow> moved (pin s) [] s s"
  by (simp add: moved_def)

lemma SPI2_transfer_eq:
  "SPI2_transfer b c s = do { (v, s) \<leftarrow> spi_transfer SPI2_BASE b (ucast c) s; Some (ucast (v AND 0xff), s) }"
  by (simp add: SPI2_transfer_def spi_transfer_def Let_def case_prod_unfold)

lemma low_byte: "(ucast (ucast (r :: u8) AND 0xff :: u32) :: u8) = r"
proof -
  have 255: "255 = (mask 8 :: u32)" by (simp add: mask_eq_exp_minus_1)
  show ?thesis unfolding 255 by (rule bit_word_eqI) (auto simp: bit_simps)
qed

lemma SPI2_transfer_wp:
  assumes "moved p xs s u"
  shows "returns (SPI2_transfer b c u) (\<lambda>(r, v). r = slave (sent s @ xs) (p, c) \<and> moved p (xs @ [(p, c)]) s v)"
  unfolding SPI2_transfer_eq
  by (rule returns_bind, rule transfer_wp)
    (use assms in \<open>auto simp: moved_def swaps_def low_byte\<close>)

lemma send_byte_wp: "moved p xs s u \<Longrightarrow> returns (send_byte b c u) (moved p (xs @ [(p, c)]) s)"
  unfolding send_byte_def by (rule returns_bind_pair [OF SPI2_transfer_wp]) auto

lemma send_bytes_wp: "moved p xs s u \<Longrightarrow> returns (send_bytes b cs u) (moved p (xs @ map (Pair p) cs) s)"
proof (induction cs arbitrary: xs u)
  case Nil
  then show ?case by simp
next
  case (Cons c cs)
  have "returns (send_bytes b cs v) (moved p (xs @ map (Pair p) (c # cs)) s)" if "moved p (xs @ [(p, c)]) s v" for v
    using Cons.IH [OF that] by simp
  then show ?case
    by (auto simp: returns_bind_iff intro!: returns_mono [OF send_byte_wp [OF Cons.prems]])
qed

lemma set_pin_wp:
  assumes "moved p xs s u"
  shows "moved (f p) xs s (rmw b GPIOA_POUT f u)"
proof -
  obtain v t where ld: "ld32 b GPIOA_POUT u = (v, t)" by (cases "ld32 b GPIOA_POUT u")
  with pin_load [of u v t] pin_store [of t _ "f v"] assms show ?thesis by (simp add: rmw_def moved_def)
qed

lemma speed_wp: "moved p xs s u \<Longrightarrow> moved p xs s (SPI2_init b v u)"
  using speed_store [of u _ "push_bit 8 v"] by (auto simp: SPI2_init_def moved_def)

lemma set_pin_send:
  assumes "moved p xs s u"
  shows "returns (do { s \<leftarrow> send_byte b c u; send_byte b d (rmw b GPIOA_POUT f s) })
    (moved (f p) (xs @ [(p, c), (f p, d)]) s)"
proof (rule returns_bind, rule returns_mono [OF send_byte_wp [OF assms]])
  show "returns (send_byte b d (rmw b GPIOA_POUT f v)) (moved (f p) (xs @ [(p, c), (f p, d)]) s)"
    if "moved p (xs @ [(p, c)]) s v" for v
    using send_byte_wp [OF set_pin_wp [OF that]] by simp
qed

lemma sd_select_wp:
  "moved p xs s u \<Longrightarrow>
    returns (sd_select b u) (moved (p AND NOT CS_PIN) (xs @ [(p, 0xff), (p AND NOT CS_PIN, 0xff)]) s)"
  unfolding sd_select_def SPI2_csenable_def Let_def by (rule set_pin_send)

lemma sd_release_wp:
  "moved p xs s u \<Longrightarrow>
    returns (sd_release b u) (moved (p OR CS_PIN) (xs @ [(p, 0xff), (p OR CS_PIN, 0xff)]) s)"
  unfolding sd_release_def SPI2_csdisable_def Let_def by (rule set_pin_send)

lemma and_255_byte: "ucast (w AND 0xff) = (ucast w :: u8)" for w :: u32
proof -
  have 255: "255 = (mask 8 :: u32)" by (simp add: mask_eq_exp_minus_1)
  show ?thesis unfolding 255 by (rule bit_word_eqI) (auto simp: bit_simps)
qed

lemma send_bytes_fun:
  "send_bytes b [] = Some" "send_bytes b (c # cs) = (\<lambda>s. send_byte b c s \<bind> send_bytes b cs)"
  by (simp_all add: fun_eq_iff)

lemma SD_command_bytes: "SD_command b cmd arg crc s = send_bytes b (command_bytes cmd arg crc) s"
  by (simp add: SD_command_def command_bytes_def and_255_byte send_bytes_fun)

lemma sd_start_wp:
  assumes "ready s"
  shows "returns (do { s \<leftarrow> sd_select b s; SD_command b cmd arg crc s })
    (moved (pin s AND NOT CS_PIN) (sd_head (pin s) cmd arg crc) s)"
  unfolding SD_command_bytes
  by (rule returns_bind, rule returns_mono [OF sd_select_wp [OF moved_refl [OF assms]]])
    (auto simp: sd_head_def dest: send_bytes_wp)

text \<open>The loops that poll the card.\<close>

lemma readR1_loop_wp:
  assumes "n \<le> k" and "r \<noteq> 0xff" and "moved p xs s u"
    and "says slave p (sent s @ xs) (replicate n 0xff @ [r])"
  shows "returns (readR1_loop b k u) (\<lambda>(r', v). r' = r \<and> moved p (xs @ polls p (n + 1)) s v)"
  using assms
proof (induction n arbitrary: k xs u)
  case 0
  then show ?case
    by (subst readR1_loop.simps)
      (rule returns_bind_pair [OF SPI2_transfer_wp [OF 0(3)]], auto split: if_splits)
next
  case (Suc n)
  then obtain k' where k: "k = Suc k'" by (cases k) auto
  have "returns (readR1_loop b k' v) (\<lambda>(r', v). r' = r \<and> moved p (xs @ polls p (Suc n + 1)) s v)"
    if "moved p (xs @ [(p, 0xff)]) s v" for v
    using Suc.IH [OF _ Suc.prems(2) that, of k'] Suc.prems(1,4) k by simp
  then show ?case
    by (subst readR1_loop.simps)
      (rule returns_bind_pair [OF SPI2_transfer_wp [OF Suc.prems(3)]], use Suc.prems(4) k in auto)
qed

lemma token_loop_wp:
  assumes "n < k" and "r \<noteq> 0xff" and "moved p xs s u"
    and "says slave p (sent s @ xs) (replicate n 0xff @ [r])"
  shows "returns (token_loop b k u) (\<lambda>((r', c), v). r' = r \<and> c = k - n \<and> moved p (xs @ polls p (n + 1)) s v)"
  using assms
proof (induction n arbitrary: k xs u)
  case 0
  then show ?case
    by (subst token_loop.simps)
      (rule returns_bind_pair [OF SPI2_transfer_wp [OF 0(3)]], auto split: if_splits)
next
  case (Suc n)
  then obtain k' where k: "k = Suc (Suc k')" by (cases k; cases "k - 1") auto
  have "returns (token_loop b (Suc k') v)
      (\<lambda>((r', c), v). r' = r \<and> c = k - Suc n \<and> moved p (xs @ polls p (Suc n + 1)) s v)"
    if "moved p (xs @ [(p, 0xff)]) s v" for v
    using Suc.IH [OF _ Suc.prems(2) that, of "Suc k'"] Suc.prems(1,4) k by simp
  then show ?case
    by (subst token_loop.simps)
      (rule returns_bind_pair [OF SPI2_transfer_wp [OF Suc.prems(3)]], use Suc.prems(4) k in auto)
qed

lemma token_loop_late:
  assumes "0 < k" and "moved p xs s u" and "says slave p (sent s @ xs) (replicate k 0xff)"
  shows "returns (token_loop b k u) (\<lambda>((r', c), v). c = 0 \<and> moved p (xs @ polls p k) s v)"
  using assms
proof (induction k arbitrary: xs u)
  case 0
  then show ?case by simp
next
  case (Suc k)
  show ?case
  proof (cases k)
    case 0
    with Suc.prems(3) show ?thesis
      by (subst token_loop.simps) (rule returns_bind_pair [OF SPI2_transfer_wp [OF Suc.prems(2)]], auto)
  next
    case (Suc k')
    have "returns (token_loop b (Suc k') v) (\<lambda>((r', c), v). c = 0 \<and> moved p (xs @ polls p (Suc k)) s v)"
      if "moved p (xs @ [(p, 0xff)]) s v" for v
      using Suc.IH [OF _ that] Suc.prems(3) \<open>k = Suc k'\<close> by simp
    then show ?thesis
      by (subst token_loop.simps)
        (rule returns_bind_pair [OF SPI2_transfer_wp [OF Suc.prems(2)]], use Suc.prems(3) \<open>k = Suc k'\<close> in auto)
  qed
qed

lemma busy_loop_wp:
  assumes "n < k" and "r \<noteq> 0" and "moved p xs s u"
    and "says slave p (sent s @ xs) (replicate n 0 @ [r])"
  shows "returns (busy_loop b k u) (\<lambda>(late, v). \<not> late \<and> moved p (xs @ polls p (n + 1)) s v)"
  using assms
proof (induction n arbitrary: k xs u)
  case 0
  then show ?case
    by (subst busy_loop.simps)
      (rule returns_bind_pair [OF SPI2_transfer_wp [OF 0(3)]], auto split: if_splits)
next
  case (Suc n)
  then obtain k' where k: "k = Suc (Suc k')" by (cases k; cases "k - 1") auto
  have "returns (busy_loop b (Suc k') v) (\<lambda>(late, v). \<not> late \<and> moved p (xs @ polls p (Suc n + 1)) s v)"
    if "moved p (xs @ [(p, 0xff)]) s v" for v
    using Suc.IH [OF _ Suc.prems(2) that, of "Suc k'"] Suc.prems(1,4) k by simp
  then show ?case
    by (subst busy_loop.simps)
      (rule returns_bind_pair [OF SPI2_transfer_wp [OF Suc.prems(3)]], use Suc.prems(4) k in auto)
qed

lemma fetch_loop_wp:
  assumes "i + length rs \<le> length buf" and "moved p xs s u" and "says slave p (sent s @ xs) rs"
  shows "returns (fetch_loop b (length rs) i buf u) (\<lambda>(buf', v).
    buf' = take i buf @ rs @ drop (i + length rs) buf \<and> moved p (xs @ polls p (length rs)) s v)"
  using assms
proof (induction rs arbitrary: i buf xs u)
  case Nil
  then show ?case by simp
next
  case (Cons r rs)
  have "returns (fetch_loop b (length rs) (Suc i) (buf[i := r]) v) (\<lambda>(buf', v).
      buf' = take i buf @ (r # rs) @ drop (i + length (r # rs)) buf \<and> moved p (xs @ polls p (length (r # rs))) s v)"
    if "moved p (xs @ [(p, 0xff)]) s v" for v
    using Cons.IH [OF _ that, of "Suc i" "buf[i := r]"] Cons.prems(1,3)
    by (simp add: take_Suc_conv_app_nth)
  with Cons.prems(1,3) show ?case
    by (auto simp: setb_def intro!: returns_bind_pair [OF SPI2_transfer_wp [OF Cons.prems(2)]])
qed

lemma store_loop_wp:
  assumes "k \<le> length cs" and "moved p xs s u"
  shows "returns (store_loop b k cs u) (moved p (xs @ map (Pair p) (take k cs)) s)"
  using assms
proof (induction k arbitrary: cs xs u)
  case 0
  then show ?case by simp
next
  case (Suc k)
  then obtain c cs' where cs: "cs = c # cs'" by (cases cs) auto
  have "returns (store_loop b k cs' v) (moved p (xs @ map (Pair p) (take (Suc k) cs)) s)"
    if "moved p (xs @ [(p, c)]) s v" for v
    using Suc.IH [OF _ that, of cs'] Suc.prems(1) cs by simp
  then show ?case
    by (auto simp: cs returns_bind_iff intro!: returns_mono [OF send_byte_wp [OF Suc.prems(2)]])
qed


section \<open>Reading and writing a sector\<close>

lemma says_append:
  "says slave p h (rs @ qs) \<longleftrightarrow> says slave p h rs \<and> says slave p (h @ polls p (length rs)) qs"
  by (induction rs arbitrary: h) auto

lemma poll_sum: "polls p (a + c + 3) = polls p a @ polls p c @ [(p, 0xff), (p, 0xff), (p, 0xff)]"
  by (simp only: replicate_add numeral_3_eq_3 replicate_Suc replicate_0 append_assoc)

lemma poll_snoc: "polls p (n + 1) @ (p, 0xff) # xs = polls p (n + 2) @ xs"
  using replicate_append_same [of "n + 1" "(p, 0xff :: u8)"] by simp

lemma says_split:
  "says slave p h (rs @ qs) \<Longrightarrow> length rs = m \<Longrightarrow> says slave p h rs \<and> says slave p (h @ polls p m) qs"
  by (auto simp: says_append)

lemma r1_not_idle: "r \<le> 1 \<Longrightarrow> r \<noteq> 0xff" for r :: u8
  by (auto simp: word_le_nat_alt)

lemma SD_readR1_wp:
  "n \<le> 9 \<Longrightarrow> r \<noteq> 0xff \<Longrightarrow> moved p xs s u \<Longrightarrow> says slave p (sent s @ xs) (replicate n 0xff @ [r]) \<Longrightarrow>
    returns (SD_readR1 b u) (\<lambda>(r', v). r' = r \<and> moved p (xs @ polls p (n + 1)) s v)"
  unfolding SD_readR1_def by (rule readR1_loop_wp)

lemma sd_start:
  assumes "ready s"
  obtains u v where "sd_select b s = Some u" "SD_command b cmd arg crc u = Some v"
    "moved (pin s AND NOT CS_PIN) (sd_head (pin s) cmd arg crc) s v"
  using sd_start_wp [OF assms, of cmd arg crc]
  by (cases "sd_select b s") (auto simp: returns_ex)

lemma readsector_wp:
  defines "lo s \<equiv> pin s AND NOT CS_PIN"
  assumes "ready s" and n: "n \<le> 9" "r1 \<le> 1" and k: "k < unat SD_READ_TIMEOUT" "token \<noteq> 0xff"
    and len: "length data = unat (ocr_sectorsize st)" "length data \<le> length buf"
    and card: "says slave (lo s) (sent s @ sd_head (pin s) 17 sector 0xff)
      (replicate n 0xff @ [r1] @ replicate k 0xff @ [token] @ data)"
  shows "returns (SD_readsector b st sector buf s) (\<lambda>(e, buf', t).
    e = SD_SUCCESS \<and> buf' = data @ drop (length data) buf
    \<and> moved (lo s OR CS_PIN) (sd_head (pin s) 17 sector 0xff @ polls (lo s) (n + k + length data + 5)
        @ [(lo s OR CS_PIN, 0xff)]) s t)"
proof -
  let ?p = "lo s" and ?xs = "sd_head (pin s) 17 sector 0xff"
  have says: "says slave ?p (sent s @ ?xs) (replicate n 0xff @ [r1])"
    "says slave ?p (sent s @ ?xs @ polls ?p (n + 1)) (replicate k 0xff @ [token])"
    "says slave ?p (sent s @ (?xs @ polls ?p (n + 1)) @ polls ?p (k + 1)) data"
  proof -
    have "says slave ?p (sent s @ ?xs) ((replicate n 0xff @ [r1]) @ (replicate k 0xff @ [token]) @ data)"
      using card by simp
    from says_split [OF this, of "n + 1"] show first: "says slave ?p (sent s @ ?xs) (replicate n 0xff @ [r1])"
      and "says slave ?p (sent s @ ?xs @ polls ?p (n + 1)) (replicate k 0xff @ [token])"
      and "says slave ?p (sent s @ (?xs @ polls ?p (n + 1)) @ polls ?p (k + 1)) data"
      using says_split [of ?p "sent s @ ?xs @ polls ?p (n + 1)" "replicate k 0xff @ [token]" data "k + 1"] by auto
  qed
  obtain u v where u: "sd_select b s = Some u" "SD_command b 17 sector 0xff u = Some v" "moved ?p ?xs s v"
    using sd_start [OF assms(2)] unfolding lo_def by blast
  obtain w where w: "SD_readR1 b v = Some (r1, w)" "moved ?p (?xs @ polls ?p (n + 1)) s w"
    using SD_readR1_wp [OF n(1) r1_not_idle [OF n(2)] u(3) says(1)] by (auto simp: returns_ex)
  obtain x where x: "token_loop b (unat SD_READ_TIMEOUT) w = Some ((token, unat SD_READ_TIMEOUT - k), x)"
    "moved ?p ((?xs @ polls ?p (n + 1)) @ polls ?p (k + 1)) s x"
    using token_loop_wp [OF k w(2) says(2)] by (auto simp: returns_ex)
  obtain y where y: "fetch_loop b (length data) 0 buf x = Some (data @ drop (length data) buf, y)"
    "moved ?p (((?xs @ polls ?p (n + 1)) @ polls ?p (k + 1)) @ polls ?p (length data)) s y"
    using fetch_loop_wp [OF _ x(2) says(3), of 0 buf] len(2) by (auto simp: returns_ex)
  obtain z1 where z1: "send_byte b 0xff y = Some z1" "moved ?p (((?xs @ polls ?p (n + 1)) @ polls ?p (k + 1))
      @ polls ?p (length data) @ [(?p, 0xff)]) s z1"
    using send_byte_wp [OF y(2), of "0xff"] by (auto simp: returns_ex)
  obtain z2 where z2: "send_byte b 0xff z1 = Some z2" "moved ?p (((?xs @ polls ?p (n + 1)) @ polls ?p (k + 1))
      @ polls ?p (length data) @ [(?p, 0xff), (?p, 0xff)]) s z2"
    using send_byte_wp [OF z1(2), of "0xff"] by (auto simp: returns_ex)
  obtain z where z: "sd_release b z2 = Some z"
    "moved (?p OR CS_PIN) ((((?xs @ polls ?p (n + 1)) @ polls ?p (k + 1)) @ polls ?p (length data)
      @ [(?p, 0xff), (?p, 0xff)]) @ [(?p, 0xff), (?p OR CS_PIN, 0xff)]) s z"
    using sd_release_wp [OF z2(2)] by (auto simp: returns_ex)
  have "polls ?p (n + k + length data + 5) =
      polls ?p (n + 1) @ polls ?p (k + 1) @ polls ?p (length data) @ [(?p, 0xff), (?p, 0xff), (?p, 0xff)]"
  proof -
    have "n + k + length data + 5 = (n + 1) + (k + 1 + length data) + 3" by simp
    then show ?thesis
      using poll_sum [of "n + 1" "k + 1 + length data" ?p] replicate_add [of "k + 1" "length data" "(?p, 0xff :: u8)"]
      by (simp only: append_assoc)
  qed
  with u w x y z1 z2 z leD [OF n(2)] k(1) show ?thesis
    by (simp add: SD_readsector_def len(1) [symmetric])
qed


text \<open>A command the card refuses, or does not answer in time.\<close>

lemma sd_refused_wp:
  defines "lo s \<equiv> pin s AND NOT CS_PIN"
  assumes "ready s" and n: "n \<le> 9" "1 < r1" "r1 \<noteq> 0xff"
    and card: "says slave (lo s) (sent s @ sd_head (pin s) cmd arg crc) (replicate n 0xff @ [r1])"
  obtains u v w x where "sd_select b s = Some u" "SD_command b cmd arg crc u = Some v"
    "SD_readR1 b v = Some (r1, w)" "sd_release b w = Some x"
    "moved (lo s OR CS_PIN) (sd_head (pin s) cmd arg crc @ polls (lo s) (n + 2) @ [(lo s OR CS_PIN, 0xff)]) s x"
proof -
  let ?p = "lo s" and ?xs = "sd_head (pin s) cmd arg crc"
  obtain u v where u: "sd_select b s = Some u" "SD_command b cmd arg crc u = Some v" "moved ?p ?xs s v"
    using sd_start [OF assms(2)] unfolding lo_def by blast
  obtain w where w: "SD_readR1 b v = Some (r1, w)" "moved ?p (?xs @ polls ?p (n + 1)) s w"
    using SD_readR1_wp [OF n(1,3) u(3) card] by (auto simp: returns_ex)
  obtain x where x: "sd_release b w = Some x"
    "moved (?p OR CS_PIN) ((?xs @ polls ?p (n + 1)) @ [(?p, 0xff), (?p OR CS_PIN, 0xff)]) s x"
    using sd_release_wp [OF w(2)] by (auto simp: returns_ex)
  have "moved (?p OR CS_PIN) (?xs @ polls ?p (n + 2) @ [(?p OR CS_PIN, 0xff)]) s x"
    using x(2) by (simp only: append_assoc poll_snoc)
  with u(1,2) w(1) x(1) show ?thesis by (rule that)
qed

lemma readsector_refused_wp:
  defines "lo s \<equiv> pin s AND NOT CS_PIN"
  assumes "ready s" and "n \<le> 9" "1 < r1" "r1 \<noteq> 0xff"
    and "says slave (lo s) (sent s @ sd_head (pin s) 17 sector 0xff) (replicate n 0xff @ [r1])"
  shows "returns (SD_readsector b st sector buf s) (\<lambda>(e, buf', t). e = SD_ERROR \<and> buf' = buf
    \<and> moved (lo s OR CS_PIN) (sd_head (pin s) 17 sector 0xff @ polls (lo s) (n + 2) @ [(lo s OR CS_PIN, 0xff)]) s t)"
proof -
  from sd_refused_wp [OF assms(2-5) assms(6) [unfolded lo_def]] obtain u v w x where
    "sd_select b s = Some u" "SD_command b 17 sector 0xff u = Some v"
    "SD_readR1 b v = Some (r1, w)" "sd_release b w = Some x"
    "moved (lo s OR CS_PIN) (sd_head (pin s) 17 sector 0xff @ polls (lo s) (n + 2) @ [(lo s OR CS_PIN, 0xff)]) s x"
    unfolding lo_def by blast
  with assms(4) show ?thesis by (simp add: SD_readsector_def)
qed

lemma readsector_late_wp:
  defines "lo s \<equiv> pin s AND NOT CS_PIN"
  assumes "ready s" and n: "n \<le> 9" "r1 \<le> 1"
    and card: "says slave (lo s) (sent s @ sd_head (pin s) 17 sector 0xff)
      (replicate n 0xff @ [r1] @ replicate (unat SD_READ_TIMEOUT) 0xff)"
  shows "returns (SD_readsector b st sector buf s) (\<lambda>(e, buf', t). e = SD_ERROR \<and> buf' = buf
    \<and> moved (lo s) (sd_head (pin s) 17 sector 0xff @ polls (lo s) (n + 1 + unat SD_READ_TIMEOUT)) s t)"
proof -
  let ?p = "lo s" and ?xs = "sd_head (pin s) 17 sector 0xff"
  have says: "says slave ?p (sent s @ ?xs) (replicate n 0xff @ [r1])"
      "says slave ?p (sent s @ ?xs @ polls ?p (n + 1)) (replicate (unat SD_READ_TIMEOUT) 0xff)"
    using says_split [of ?p "sent s @ ?xs" "replicate n 0xff @ [r1]" "replicate (unat SD_READ_TIMEOUT) 0xff" "n + 1"]
      card by auto
  obtain u v where u: "sd_select b s = Some u" "SD_command b 17 sector 0xff u = Some v" "moved ?p ?xs s v"
    using sd_start [OF assms(2)] unfolding lo_def by blast
  obtain w where w: "SD_readR1 b v = Some (r1, w)" "moved ?p (?xs @ polls ?p (n + 1)) s w"
    using SD_readR1_wp [OF n(1) r1_not_idle [OF n(2)] u(3) says(1)] by (auto simp: returns_ex)
  have "0 < unat SD_READ_TIMEOUT" by (simp add: SD_READ_TIMEOUT_def F_CPU_def SD_FAST_def)
  from token_loop_late [OF this w(2) says(2)] obtain r x where
    "token_loop b (unat SD_READ_TIMEOUT) w = Some ((r, 0), x)"
    "moved ?p ((?xs @ polls ?p (n + 1)) @ polls ?p (unat SD_READ_TIMEOUT)) s x"
    by (auto simp: returns_ex)
  moreover have "polls ?p (n + 1 + unat SD_READ_TIMEOUT) = polls ?p (n + 1) @ polls ?p (unat SD_READ_TIMEOUT)"
    by (simp only: replicate_add append_assoc)
  ultimately show ?thesis using u w leD [OF n(2)] by (simp add: SD_readsector_def)
qed

lemma writesector_token:
  defines "lo s \<equiv> pin s AND NOT CS_PIN"
  assumes "ready s" and n: "n \<le> 9" "r1 \<le> 1" and k: "k < unat SD_WRITE_TIMEOUT" "token \<noteq> 0xff"
    and len: "length data = unat (ocr_sectorsize st)"
    and card: "says slave (lo s) (sent s @ sd_head (pin s) 24 sector 0xff) (replicate n 0xff @ [r1])"
      "says slave (lo s) (sent s @ sd_write_head (pin s) sector data n) (replicate k 0xff @ [token])"
  obtains x where "moved (lo s) (sd_write_head (pin s) sector data n @ polls (lo s) (k + 1)) s x"
    "SD_writesector b st sector (data @ tail) s =
      (if token AND 0x1f = 5 then
         do { (late, s) \<leftarrow> busy_loop b (unat SD_WRITE_TIMEOUT) x; s \<leftarrow> sd_release b s;
              Some (if late then SD_ERROR else SD_SUCCESS, s) }
       else do { s \<leftarrow> sd_release b x; Some (if token AND 0x1f = 0x0d then SD_ERROR else SD_SUCCESS, s) })"
proof -
  let ?p = "lo s" and ?xs = "sd_head (pin s) 24 sector 0xff"
  obtain u v where u: "sd_select b s = Some u" "SD_command b 24 sector 0xff u = Some v" "moved ?p ?xs s v"
    using sd_start [OF assms(2)] unfolding lo_def by blast
  obtain w where w: "SD_readR1 b v = Some (r1, w)" "moved ?p (?xs @ polls ?p (n + 1)) s w"
    using SD_readR1_wp [OF n(1) r1_not_idle [OF n(2)] u(3) card(1)] by (auto simp: returns_ex)
  obtain w1 where w1: "send_byte b 0xfe w = Some w1" "moved ?p ((?xs @ polls ?p (n + 1)) @ [(?p, 0xfe)]) s w1"
    using send_byte_wp [OF w(2)] by (auto simp: returns_ex)
  obtain w2 where w2: "store_loop b (length data) (data @ tail) w1 = Some w2"
    "moved ?p (((?xs @ polls ?p (n + 1)) @ [(?p, 0xfe)]) @ map (Pair ?p) data) s w2"
    using store_loop_wp [OF _ w1(2), of "length data" "data @ tail"] by (auto simp: returns_ex)
  obtain w3 where w3: "send_byte b 0xff w2 = Some w3"
    "moved ?p ((((?xs @ polls ?p (n + 1)) @ [(?p, 0xfe)]) @ map (Pair ?p) data) @ [(?p, 0xff)]) s w3"
    using send_byte_wp [OF w2(2), of "0xff"] by (auto simp: returns_ex)
  obtain w4 where w4: "send_byte b 0xff w3 = Some w4" "moved ?p (sd_write_head (pin s) sector data n) s w4"
    using send_byte_wp [OF w3(2), of "0xff"] by (auto simp: returns_ex sd_write_head_def lo_def)
  obtain x where x: "token_loop b (unat SD_WRITE_TIMEOUT) w4 = Some ((token, unat SD_WRITE_TIMEOUT - k), x)"
    "moved ?p (sd_write_head (pin s) sector data n @ polls ?p (k + 1)) s x"
    using token_loop_wp [OF k w4(2) card(2)] by (auto simp: returns_ex)
  have "SD_writesector b st sector (data @ tail) s =
      (if token AND 0x1f = 5 then
         do { (late, s) \<leftarrow> busy_loop b (unat SD_WRITE_TIMEOUT) x; s \<leftarrow> sd_release b s;
              Some (if late then SD_ERROR else SD_SUCCESS, s) }
       else do { s \<leftarrow> sd_release b x; Some (if token AND 0x1f = 0x0d then SD_ERROR else SD_SUCCESS, s) })"
    using u w(1) w1(1) w2(1) w3(1) w4(1) x(1) leD [OF n(2)] k(1)
    by (simp add: SD_writesector_def len [symmetric])
  with x(2) show ?thesis by (rule that)
qed

lemma writesector_stored_wp:
  defines "lo s \<equiv> pin s AND NOT CS_PIN"
  assumes "ready s" "n \<le> 9" "r1 \<le> 1" "k < unat SD_WRITE_TIMEOUT" "token \<noteq> 0xff"
    and ok: "token AND 0x1f = 5" and m: "m < unat SD_WRITE_TIMEOUT" "idle \<noteq> 0"
    and "length data = unat (ocr_sectorsize st)"
    and "says slave (lo s) (sent s @ sd_head (pin s) 24 sector 0xff) (replicate n 0xff @ [r1])"
    and card: "says slave (lo s) (sent s @ sd_write_head (pin s) sector data n)
        (replicate k 0xff @ [token] @ replicate m 0 @ [idle])"
  shows "returns (SD_writesector b st sector (data @ tail) s) (\<lambda>(e, t). e = SD_SUCCESS
    \<and> moved (lo s OR CS_PIN) (sd_write_head (pin s) sector data n @ polls (lo s) (k + m + 3)
        @ [(lo s OR CS_PIN, 0xff)]) s t)"
proof -
  let ?p = "lo s" and ?ys = "sd_write_head (pin s) sector data n"
  have says: "says slave ?p (sent s @ ?ys) (replicate k 0xff @ [token])"
      "says slave ?p (sent s @ ?ys @ polls ?p (k + 1)) (replicate m 0 @ [idle])"
    using says_split [of ?p "sent s @ ?ys" "replicate k 0xff @ [token]" "replicate m 0 @ [idle]" "k + 1"] card
    by auto
  obtain x where x: "moved ?p (?ys @ polls ?p (k + 1)) s x"
    "SD_writesector b st sector (data @ tail) s = do {
       (late, s) \<leftarrow> busy_loop b (unat SD_WRITE_TIMEOUT) x; s \<leftarrow> sd_release b s;
       Some (if late then SD_ERROR else SD_SUCCESS, s) }"
    using writesector_token [OF assms(2-6,10) assms(11) [unfolded lo_def] says(1) [unfolded lo_def], of tail] ok
    unfolding lo_def by auto
  obtain y where y: "busy_loop b (unat SD_WRITE_TIMEOUT) x = Some (False, y)"
    "moved ?p ((?ys @ polls ?p (k + 1)) @ polls ?p (m + 1)) s y"
    using busy_loop_wp [OF m x(1)] says(2) by (auto simp: returns_ex)
  obtain z where z: "sd_release b y = Some z"
    "moved (?p OR CS_PIN) (((?ys @ polls ?p (k + 1)) @ polls ?p (m + 1)) @ [(?p, 0xff), (?p OR CS_PIN, 0xff)]) s z"
    using sd_release_wp [OF y(2)] by (auto simp: returns_ex)
  have "polls ?p (k + m + 3) = polls ?p (k + 1) @ polls ?p (m + 1) @ [(?p, 0xff)]"
  proof -
    have "k + m + 3 = (k + 1) + ((m + 1) + 1)" by simp
    then show ?thesis by (simp only: replicate_add One_nat_def replicate_Suc replicate_0 append_assoc)
  qed
  with x(2) y(1) z show ?thesis by simp
qed

text \<open>Every other token ends the call at once; only \<^verbatim>\<open>0x0d\<close> is an error.\<close>

lemma writesector_judged_wp:
  defines "lo s \<equiv> pin s AND NOT CS_PIN"
  assumes "ready s" "n \<le> 9" "r1 \<le> 1" "k < unat SD_WRITE_TIMEOUT" "token \<noteq> 0xff"
    and other: "token AND 0x1f \<noteq> 5"
    and "length data = unat (ocr_sectorsize st)"
    and "says slave (lo s) (sent s @ sd_head (pin s) 24 sector 0xff) (replicate n 0xff @ [r1])"
    and "says slave (lo s) (sent s @ sd_write_head (pin s) sector data n) (replicate k 0xff @ [token])"
  shows "returns (SD_writesector b st sector (data @ tail) s) (\<lambda>(e, t).
    e = (if token AND 0x1f = 0x0d then SD_ERROR else SD_SUCCESS)
    \<and> moved (lo s OR CS_PIN) (sd_write_head (pin s) sector data n @ polls (lo s) (k + 2)
        @ [(lo s OR CS_PIN, 0xff)]) s t)"
proof -
  let ?p = "lo s" and ?ys = "sd_write_head (pin s) sector data n"
  obtain x where x: "moved ?p (?ys @ polls ?p (k + 1)) s x"
    "SD_writesector b st sector (data @ tail) s = do {
       s \<leftarrow> sd_release b x; Some (if token AND 0x1f = 0x0d then SD_ERROR else SD_SUCCESS, s) }"
    using writesector_token [OF assms(2-6,8) assms(9) [unfolded lo_def] assms(10) [unfolded lo_def], of tail] other
    unfolding lo_def by auto
  obtain z where "sd_release b x = Some z"
    "moved (?p OR CS_PIN) ((?ys @ polls ?p (k + 1)) @ [(?p, 0xff), (?p OR CS_PIN, 0xff)]) s z"
    using sd_release_wp [OF x(1)] by (auto simp: returns_ex)
  then have "sd_release b x = Some z" "moved (?p OR CS_PIN) (?ys @ polls ?p (k + 2) @ [(?p OR CS_PIN, 0xff)]) s z"
    by (simp_all only: append_assoc poll_snoc)
  with x(2) show ?thesis by simp
qed

end

section \<open>Initialisation\<close>

text \<open>A card that answers each command of the initialisation the same way whenever it is given:
  \<open>wait cmd\<close> bytes of \<^verbatim>\<open>0xff\<close>, then the bytes \<open>reply cmd\<close>.\<close>

definition sd_arg :: "u8 \<Rightarrow> u32" where
  "sd_arg cmd = (if cmd = 8 then 0x1aa else if cmd = 41 then 0x40000000 else 0)"

definition sd_crc :: "u8 \<Rightarrow> u8" where
  "sd_crc cmd = (if cmd = 0 then 0x95 else if cmd = 8 then 0x87 else 0xff)"

definition init_commands :: "u8 set" where
  "init_commands = {0, 8, 55, 41, 58, 9, 10}"

definition obeys ::
    "((u32 \<times> u8) list \<Rightarrow> u32 \<times> u8 \<Rightarrow> u8) \<Rightarrow> (u8 \<Rightarrow> nat) \<Rightarrow> (u8 \<Rightarrow> u8 list) \<Rightarrow> bool" where
  "obeys slave wait reply \<longleftrightarrow> (\<forall>cmd\<in>init_commands. wait cmd \<le> 9 \<and>
     (\<forall>p h. says slave (p AND NOT CS_PIN) (h @ sd_head p cmd (sd_arg cmd) (sd_crc cmd))
        (replicate (wait cmd) 0xff @ reply cmd)))"

lemma pin_parked: "(p AND NOT CS_PIN) OR CS_PIN = p OR CS_PIN" for p :: u32
  by (rule bit_word_eqI) (auto simp: bit_simps)

context sd_port
begin

text \<open>Between two commands the card is not selected.\<close>

definition parked :: "'d \<Rightarrow> 'd \<Rightarrow> bool" where
  "parked s t \<longleftrightarrow> ready t \<and> rest t = rest s \<and> pin t = pin s OR CS_PIN"

lemma parked_trans: "parked s t \<Longrightarrow> parked t u \<Longrightarrow> parked s u"
  by (simp add: parked_def or.assoc)

lemma moved_parked: "moved (pin s OR CS_PIN) xs s t \<Longrightarrow> parked s t"
  by (simp add: moved_def parked_def)

lemma release_parked:
  assumes "moved (pin s AND NOT CS_PIN) xs s u"
  shows "returns (sd_release b u) (parked s)"
  using sd_release_wp [OF assms] by (auto simp: pin_parked elim!: returns_mono dest: moved_parked)

lemma powerup_wp:
  assumes "ready s"
  shows "returns (SD_powerup b s) (parked s)"
proof -
  have u: "moved (pin s OR CS_PIN) [] s (SPI2_csdisable b s)"
    unfolding SPI2_csdisable_def using set_pin_wp [OF moved_refl [OF assms]] .
  obtain v where v: "send_bytes b (replicate 10 0xff) (SPI2_csdisable b s) = Some v"
      "moved (pin s OR CS_PIN) (map (Pair (pin s OR CS_PIN)) (replicate 10 0xff)) s v"
    using send_bytes_wp [OF u, of "replicate 10 0xff"] by (auto simp: returns_ex)
  have w: "moved (pin s OR CS_PIN) (map (Pair (pin s OR CS_PIN)) (replicate 10 0xff)) s (SPI2_csdisable b v)"
    unfolding SPI2_csdisable_def using set_pin_wp [OF v(2), of "\<lambda>v. v OR CS_PIN"] by (simp add: or.assoc)
  from returns_mono [OF send_byte_wp [OF w] moved_parked] v(1) show ?thesis by (simp add: SD_powerup_def)
qed

lemma sd_first_byte:
  assumes "ready s" and ob: "obeys slave wait reply" "cmd \<in> init_commands" and r: "reply cmd = r # rs" "r \<noteq> 0xff"
  obtains u v w xs where "sd_select b s = Some u" "SD_command b cmd (sd_arg cmd) (sd_crc cmd) u = Some v"
    "SD_readR1 b v = Some (r, w)"
    "moved (pin s AND NOT CS_PIN) xs s w" "says slave (pin s AND NOT CS_PIN) (sent s @ xs) rs"
proof -
  let ?p = "pin s AND NOT CS_PIN" and ?xs = "sd_head (pin s) cmd (sd_arg cmd) (sd_crc cmd)"
  have card: "wait cmd \<le> 9" "says slave ?p (sent s @ ?xs) ((replicate (wait cmd) 0xff @ [r]) @ rs)"
    using ob r(1) by (auto simp: obeys_def)
  note says = says_split [OF card(2), of "wait cmd + 1", simplified]
  obtain u v where u: "sd_select b s = Some u" "SD_command b cmd (sd_arg cmd) (sd_crc cmd) u = Some v"
    "moved ?p ?xs s v"
    using sd_start [OF assms(1)] by blast
  obtain w where w: "SD_readR1 b v = Some (r, w)" "moved ?p (?xs @ polls ?p (wait cmd + 1)) s w"
    using SD_readR1_wp [OF card(1) r(2) u(3)] says by (auto simp: returns_ex)
  show ?thesis by (rule that [OF u(1,2) w]) (use says in simp)
qed

lemma sd_R1_wp:
  assumes "ready s" "obeys slave wait reply" "cmd \<in> init_commands" "reply cmd = r # rs" "r \<noteq> 0xff"
  shows "returns (do { s \<leftarrow> sd_select b s; s \<leftarrow> SD_command b cmd (sd_arg cmd) (sd_crc cmd) s;
      (ret, s) \<leftarrow> SD_readR1 b s; s \<leftarrow> sd_release b s; Some (ret, s) }) (\<lambda>(ret, t). ret = r \<and> parked s t)"
proof -
  obtain u v w xs where u: "sd_select b s = Some u"
    "SD_command b cmd (sd_arg cmd) (sd_crc cmd) u = Some v" "SD_readR1 b v = Some (r, w)"
    and w: "moved (pin s AND NOT CS_PIN) xs s w" "says slave (pin s AND NOT CS_PIN) (sent s @ xs) rs"
    by (rule sd_first_byte [OF assms])
  from release_parked [OF w(1)] show ?thesis by (auto simp: u returns_bind_iff elim!: returns_mono)
qed

lemma sd_R37_wp:
  assumes "ready s" "obeys slave wait reply" "cmd \<in> init_commands" "reply cmd = [r, r1, r2, r3, r4]" "r \<le> 1"
    and "length res = 6"
  shows "returns (do { s \<leftarrow> sd_select b s; s \<leftarrow> SD_command b cmd (sd_arg cmd) (sd_crc cmd) s;
      (res, s) \<leftarrow> SD_readR37 b res s; s \<leftarrow> sd_release b s; Some (res, s) })
    (\<lambda>(res', t). res' = [r, r1, r2, r3, r4, res ! 5] \<and> parked s t)"
proof -
  let ?p = "pin s AND NOT CS_PIN"
  obtain u v w xs
    where u: "sd_select b s = Some u" "SD_command b cmd (sd_arg cmd) (sd_crc cmd) u = Some v"
      "SD_readR1 b v = Some (r, w)"
    and w: "moved ?p xs s w" "says slave ?p (sent s @ xs) [r1, r2, r3, r4]"
    by (rule sd_first_byte [OF assms(1-4) r1_not_idle [OF assms(5)]])
  obtain w1 where w1: "SPI2_transfer b 0xff w = Some (r1, w1)" "moved ?p (xs @ [(?p, 0xff)]) s w1"
    using SPI2_transfer_wp [OF w(1), of "0xff"] w(2) by (auto simp: returns_ex)
  obtain w2 where w2: "SPI2_transfer b 0xff w1 = Some (r2, w2)" "moved ?p (xs @ [(?p, 0xff), (?p, 0xff)]) s w2"
    using SPI2_transfer_wp [OF w1(2), of "0xff"] w(2) by (auto simp: returns_ex)
  obtain w3 where w3: "SPI2_transfer b 0xff w2 = Some (r3, w3)"
    "moved ?p (xs @ [(?p, 0xff), (?p, 0xff), (?p, 0xff)]) s w3"
    using SPI2_transfer_wp [OF w2(2), of "0xff"] w(2) by (auto simp: returns_ex)
  obtain w4 where w4: "SPI2_transfer b 0xff w3 = Some (r4, w4)"
    "moved ?p (xs @ [(?p, 0xff), (?p, 0xff), (?p, 0xff), (?p, 0xff)]) s w4"
    using SPI2_transfer_wp [OF w3(2), of "0xff"] w(2) by (auto simp: returns_ex)
  obtain q0 q1 q2 q3 q4 q5 where res: "res = [q0, q1, q2, q3, q4, q5]"
    using assms(6) by (auto simp: length_Suc_conv eval_nat_numeral)
  have "SD_readR37 b res v = Some ([r, r1, r2, r3, r4, res ! 5], w4)"
    using leD [OF assms(5)] by (simp add: SD_readR37_def u w1 w2 w3 w4 setb_def res)
  with release_parked [OF w4(2)] show ?thesis by (auto simp: u returns_bind_iff elim!: returns_mono)
qed

lemma transport_loop_wp:
  assumes "n < unat c" and "r \<noteq> 0xff" and "moved p xs s u"
    and "says slave p (sent s @ xs) (replicate n 0xff @ [r])"
  shows "returns (transport_loop b c u) (\<lambda>(r', v). r' = r \<and> moved p (xs @ polls p (n + 1)) s v)"
  using assms
proof (induction n arbitrary: c xs u)
  case 0
  then show ?case
    by (subst transport_loop.simps)
      (rule returns_bind_pair [OF SPI2_transfer_wp [OF 0(3)]], auto)
next
  case (Suc n)
  have c: "n < unat (c - 1)" "c - 1 \<noteq> 0"
    using Suc.prems(1) by (auto simp: unat_minus_one word_neq_0_conv word_less_nat_alt)
  have "returns (transport_loop b (c - 1) v) (\<lambda>(r', v). r' = r \<and> moved p (xs @ polls p (Suc n + 1)) s v)"
    if "moved p (xs @ [(p, 0xff)]) s v" for v
    using Suc.IH [OF c(1) Suc.prems(2) that] Suc.prems(4) by simp
  then show ?case
    by (subst transport_loop.simps)
      (rule returns_bind_pair [OF SPI2_transfer_wp [OF Suc.prems(3)]], use Suc.prems(4) c(2) in auto)
qed

lemma CMD910_wp:
  assumes "ready s" "obeys slave wait reply" "cmd \<in> init_commands" "sd_arg cmd = 0" "sd_crc cmd = 0xff"
    and reply: "reply cmd = 0 # replicate k 0xff @ 0xfe # data" and k: "k < unat SD_READ_TIMEOUT"
    and len: "length data = 16" "length buf = 16"
  shows "returns (SD_CMD910 b cmd buf s) (\<lambda>(e, buf', t). e = SD_SUCCESS \<and> buf' = data \<and> parked s t)"
proof -
  let ?p = "pin s AND NOT CS_PIN"
  have "0 \<noteq> (0xff :: u8)" by simp
  then obtain u v w xs
    where u: "sd_select b s = Some u" "SD_command b cmd 0 0xff u = Some v" "SD_readR1 b v = Some (0, w)"
    and w: "moved ?p xs s w" "says slave ?p (sent s @ xs) (replicate k 0xff @ 0xfe # data)"
    by (rule sd_first_byte [OF assms(1-3) reply, unfolded assms(4,5)])
  have says: "says slave ?p (sent s @ xs) (replicate k 0xff @ [0xfe])"
      "says slave ?p (sent s @ xs @ polls ?p (k + 1)) data"
    using says_split [of ?p "sent s @ xs" "replicate k 0xff @ [0xfe]" data "k + 1"] w(2) by auto
  obtain x where x: "transport_loop b SD_READ_TIMEOUT w = Some (0xfe, x)" "moved ?p (xs @ polls ?p (k + 1)) s x"
    using transport_loop_wp [OF k _ w(1) says(1)] by (auto simp: returns_ex)
  obtain y where y: "fetch_loop b 16 0 buf x = Some (data, y)"
    "moved ?p ((xs @ polls ?p (k + 1)) @ polls ?p 16) s y"
    using fetch_loop_wp [OF _ x(2), of 0 data buf] says(2) len by (auto simp: returns_ex)
  obtain z1 where z1: "send_byte b 0xff y = Some z1"
      "moved ?p (((xs @ polls ?p (k + 1)) @ polls ?p 16) @ [(?p, 0xff)]) s z1"
    using send_byte_wp [OF y(2), of "0xff"] by (auto simp: returns_ex)
  obtain z2 where z2: "send_byte b 0xff z1 = Some z2"
      "moved ?p ((((xs @ polls ?p (k + 1)) @ polls ?p 16) @ [(?p, 0xff)]) @ [(?p, 0xff)]) s z2"
    using send_byte_wp [OF z1(2), of "0xff"] by (auto simp: returns_ex)
  from release_parked [OF z2(2)] obtain z where "sd_release b z2 = Some z" "parked s z"
    by (auto simp: returns_ex)
  with u x(1) y(1) z1(1) z2(1) show ?thesis by (simp add: SD_CMD910_def)
qed

text \<open>A card that is selected and answers nothing more keeps \<^verbatim>\<open>SD_CMD910\<close> in its loop for ever: the
  timeout only releases the card.\<close>

lemma transport_loop_diverges:
  assumes "ready s" and "\<And>p h. slave (sent s @ h) (p, 0xff) = 0xff"
  shows "transport_loop b c s = None"
proof (rule ccontr)
  assume "transport_loop b c s \<noteq> None"
  then obtain r where r: "transport_loop b c s = Some r" by blast
  let ?mute = "\<lambda>s. ready s \<and> (\<forall>p h. slave (sent s @ h) (p, 0xff) = 0xff)"
  have "b = b \<longrightarrow> \<not> ?mute s"
  proof (rule transport_loop.raw_induct [OF _ r, where P = "\<lambda>b' c s r. b' = b \<longrightarrow> \<not> ?mute s"])
    fix loop b' c s r
    assume IH: "\<And>b' c s r. loop b' c s = Some r \<Longrightarrow> b' = b \<longrightarrow> \<not> ?mute s"
      and eq: "do { (ret, s) \<leftarrow> SPI2_transfer b' 0xff s;
          if ret = 0xff then do { s \<leftarrow> (if c - 1 = 0 then sd_release b' s else Some s); loop b' (c - 1) s }
          else Some (ret, s) } = Some r"
    show "b' = b \<longrightarrow> \<not> ?mute s"
    proof (intro impI notI)
      assume b: "b' = b" and s: "?mute s"
      then have "slave (sent s @ []) (pin s, 0xff) = 0xff" by blast
      with s obtain t where t: "SPI2_transfer b 0xff s = Some (0xff, t)" "moved (pin s) [(pin s, 0xff)] s t"
        using SPI2_transfer_wp [OF moved_refl, of s "0xff"] by (auto simp: returns_ex)
      then have mt: "?mute t" using s by (simp add: moved_def)
      obtain x xs where x: "sd_release b t = Some x" "moved (pin s OR CS_PIN) xs s x"
        using sd_release_wp [OF t(2)] by (auto simp: returns_ex)
      then have "?mute x" using s by (simp add: moved_def)
      with t(1) x(1) mt eq obtain y where "?mute y" "loop b (c - 1) y = Some r"
        by (cases "c - 1 = 0") (simp_all add: b)
      with IH [of b "c - 1" y r] show False by blast
    qed
  qed
  with assms show False by simp
qed

lemma CMD910_mute:
  defines "lo s \<equiv> pin s AND NOT CS_PIN"
  assumes "ready s" "n \<le> 9"
    and card: "says slave (lo s) (sent s @ sd_head (pin s) cmd 0 0xff) (replicate n 0xff @ [0])"
    and mute: "\<And>p h. slave (sent s @ sd_head (pin s) cmd 0 0xff @ polls (lo s) (n + 1) @ h) (p, 0xff) = 0xff"
  shows "SD_CMD910 b cmd buf s = None"
proof -
  obtain u v where u: "sd_select b s = Some u" "SD_command b cmd 0 0xff u = Some v"
    "moved (lo s) (sd_head (pin s) cmd 0 0xff) s v"
    using sd_start [OF assms(2)] unfolding lo_def by blast
  obtain w where w: "SD_readR1 b v = Some (0, w)"
    "moved (lo s) (sd_head (pin s) cmd 0 0xff @ polls (lo s) (n + 1)) s w"
    using SD_readR1_wp [OF assms(3) _ u(3) card] by (auto simp: returns_ex)
  have "transport_loop b SD_READ_TIMEOUT w = None"
    using w(2) mute by (intro transport_loop_diverges) (auto simp: moved_def)
  with u w(1) show ?thesis by (simp add: SD_CMD910_def)
qed

text \<open>The whole initialisation.\<close>

lemma parked_speed: "parked s t \<Longrightarrow> parked s (SPI2_init b v t)"
  using speed_store [of t _ "push_bit 8 v"] by (auto simp: parked_def SPI2_init_def)

lemma parked_ready: "parked s t \<Longrightarrow> ready t"
  by (simp add: parked_def)

lemma sd_small_commands:
  assumes "ready s" "obeys slave wait reply" "r \<noteq> 0xff"
  shows "reply 0 = r # rs \<Longrightarrow> returns (SD_CMD0 b s) (\<lambda>(ret, t). ret = r \<and> parked s t)"
    and "reply 55 = r # rs \<Longrightarrow> returns (SD_CMD55 b s) (\<lambda>(ret, t). ret = r \<and> parked s t)"
    and "reply 41 = r # rs \<Longrightarrow> returns (SD_ACMD41 b s) (\<lambda>(ret, t). ret = r \<and> parked s t)"
  using sd_R1_wp [OF assms(1,2) _ _ assms(3), of 0] sd_R1_wp [OF assms(1,2) _ _ assms(3), of 55]
    sd_R1_wp [OF assms(1,2) _ _ assms(3), of 41]
  by (simp_all add: SD_CMD0_def SD_CMD55_def SD_ACMD41_def sd_arg_def sd_crc_def init_commands_def)

lemma sd_long_commands:
  assumes "ready s" "obeys slave wait reply" "r \<le> 1" "length res = 6"
  shows "reply 8 = [r, r1, r2, r3, r4] \<Longrightarrow>
      returns (SD_CMD8 b res s) (\<lambda>(res', t). res' = [r, r1, r2, r3, r4, res ! 5] \<and> parked s t)"
    and "reply 58 = [r, r1, r2, r3, r4] \<Longrightarrow>
      returns (SD_CMD58 b res s) (\<lambda>(res', t). res' = [r, r1, r2, r3, r4, res ! 5] \<and> parked s t)"
  using sd_R37_wp [OF assms(1,2) _ _ assms(3,4), of 8] sd_R37_wp [OF assms(1,2) _ _ assms(3,4), of 58]
  by (simp_all add: SD_CMD8_def SD_CMD58_def sd_arg_def sd_crc_def init_commands_def)

lemma acmd_ready:
  assumes "ready s" "obeys slave wait reply" "reply 55 = r # rs" "r \<le> 1" "reply 41 = 0 # qs" "0 < n"
  shows "returns (acmd_loop b n s) (\<lambda>(out, t). out = Inr n \<and> parked s t)"
proof -
  obtain k where n: "n = Suc k" using assms(6) by (cases n) auto
  obtain t where t: "SD_CMD55 b s = Some (r, t)" "parked s t"
    using sd_small_commands(2) [OF assms(1,2) r1_not_idle [OF assms(4)] assms(3)] by (auto simp: returns_ex)
  obtain u where "SD_ACMD41 b t = Some (0, u)" "parked t u"
    using sd_small_commands(3) [OF parked_ready [OF t(2)] assms(2) _ assms(5)] by (auto simp: returns_ex)
  with t leD [OF assms(4)] parked_trans show ?thesis by (auto simp: n)
qed

lemma acmd_busy:
  assumes "obeys slave wait reply" "reply 55 = r # rs" "r \<le> 1" "reply 41 = 1 # qs"
  shows "ready s \<Longrightarrow> returns (acmd_loop b n s) (\<lambda>(out, t). out = Inr 0 \<and> ready t)"
proof (induction n arbitrary: s)
  case 0
  then show ?case by simp
next
  case (Suc n)
  obtain t where t: "SD_CMD55 b s = Some (r, t)" "parked s t"
    using sd_small_commands(2) [OF Suc.prems assms(1) r1_not_idle [OF assms(3)] assms(2)] by (auto simp: returns_ex)
  obtain u where "SD_ACMD41 b t = Some (1, u)" "parked t u"
    using sd_small_commands(3) [OF parked_ready [OF t(2)] assms(1) _ assms(4)] by (auto simp: returns_ex)
  with t leD [OF assms(3)] Suc.IH parked_ready show ?case by simp
qed

end

text \<open>What the static structs say about a card with the given registers.\<close>

definition field :: "u8 list \<Rightarrow> nat \<Rightarrow> nat \<Rightarrow> u32" where
  "field data msb lsb = take_bit (msb - lsb + 1) (ucast (drop_bit lsb (word_rcat data :: 128 word)))"

definition sd_described :: "u8 \<Rightarrow> u8 list \<Rightarrow> u8 list \<Rightarrow> sd_card" where
  "sd_described ocr csd cid = \<lparr> csd_version = field csd 127 126 + 1, csd_capacity = field csd 69 48 + 1,
     csd_speed = ucast (field csd 103 96), ocr_sectorsize = (if bit ocr 6 then 512 else 1),
     ocr_ccs = (if bit ocr 6 then 1 else 0), ocr_status = 1, cid_mid = ucast (cid ! 0),
     cid_mdt = ucast (field cid 19 8), cid_prv = cid ! 8, cid_oid = take 2 (drop 1 cid) @ [0],
     cid_pnm = take 5 (drop 3 cid) @ [0], cid_psn = field cid 55 24 \<rparr>"

lemma all_bits_u8: "(a = b) = (\<forall>n\<in>{0, 1, 2, 3, 4, 5, 6, 7 :: nat}. bit a n = bit b n)" for a b :: u8
proof
  assume *: "\<forall>n\<in>{0, 1, 2, 3, 4, 5, 6, 7 :: nat}. bit a n = bit b n"
  show "a = b"
  proof (rule bit_word_eqI)
    fix n assume "n < LENGTH(8)"
    then have "n \<in> {0, 1, 2, 3, 4, 5, 6, 7}" by auto
    with * show "bit a n = bit b n" by blast
  qed
qed simp

lemma ocr_bits: "(r AND 0xc0 = 0xc0) = (bit r 7 \<and> bit r 6)" "(r AND 0xc0 = 0x80) = (bit r 7 \<and> \<not> bit r 6)"
  "(r AND 0x80 = 0) = (\<not> bit r 7)" for r :: u8
  by (simp_all add: all_bits_u8 bit_and_iff) auto

lemma six_zeros: "replicate 6 0 = [0, 0, 0, 0, 0, 0 :: u8]"
  by (simp add: eval_nat_numeral)

lemma sixteen: "length xs = 16 \<Longrightarrow> [xs ! 1, xs ! 2, c] = take 2 (drop 1 xs) @ [c]
    \<and> [xs ! 3, xs ! 4, xs ! 5, xs ! 6, xs ! 7, c] = take 5 (drop 3 xs) @ [c]"
  by (simp add: list_eq_iff_nth_eq nth_append less_Suc_eq numeral_eq_Suc nth_Cons split: nat.split)

lemma ext_bits_field:
  assumes "length data = 16" and "lsb \<le> msb" "msb < 128" "msb - lsb < 32"
  shows "ext_bits data (word_of_nat msb) (word_of_nat lsb) = Some (field data msb lsb)"
proof -
  have u: "unat (word_of_nat msb :: u32) = msb" "unat (word_of_nat lsb :: u32) = lsb"
    using assms(2,3) by (simp_all add: unsigned_of_nat take_bit_nat_eq_self_iff)
  then have "(word_of_nat lsb :: u32) \<le> word_of_nat msb" "(word_of_nat msb :: u32) < 128"
    "word_of_nat msb - word_of_nat lsb < (32 :: u32)"
    using assms by (simp_all add: word_le_nat_alt word_less_nat_alt unat_sub)
  from ext_bits_eq [OF assms(1) this] u show ?thesis by (simp add: field_def)
qed

context sd_port
begin

lemma identify_wp:
  assumes "ready s" "obeys slave wait reply" "bit ocr 7"
    and r9: "reply 9 = 0 # replicate k 0xff @ 0xfe # csd" "k < unat SD_READ_TIMEOUT" "length csd = 16"
    and r10: "reply 10 = 0 # replicate m 0xff @ 0xfe # cid" "m < unat SD_READ_TIMEOUT" "length cid = 16"
    and buf: "length buf = 16"
  shows "returns (SD_identify b buf ocr sd_cleared s) (\<lambda>(e, st, t).
    e = SD_SUCCESS \<and> st = sd_described ocr csd cid \<and> parked s t)"
proof -
  let ?s = "SPI2_init b SD_FAST s"
  have s: "ready ?s" "rest ?s = rest s" "pin ?s = pin s"
    using speed_store [OF assms(1)] by (auto simp: SPI2_init_def)
  obtain t where t: "SD_CMD910 b 9 buf ?s = Some (SD_SUCCESS, csd, t)" "parked ?s t"
    using CMD910_wp [OF s(1) assms(2) _ _ _ r9 buf] by (auto simp: returns_ex init_commands_def sd_arg_def sd_crc_def)
  obtain u where u: "SD_CMD910 b 10 csd t = Some (SD_SUCCESS, cid, u)" "parked t u"
    using CMD910_wp [OF parked_ready [OF t(2)] assms(2) _ _ _ r10 r9(3)]
    by (auto simp: returns_ex init_commands_def sd_arg_def sd_crc_def)
  have "parked s u" using parked_trans [OF t(2) u(2)] s by (simp add: parked_def)
  moreover have "set_csd csd (set_ocr ocr sd_cleared) = Some ((set_ocr ocr sd_cleared)
      \<lparr> csd_version := field csd 127 126 + 1, csd_capacity := field csd 69 48 + 1, csd_speed := ucast (field csd 103 96) \<rparr>)"
    using ext_bits_field [OF r9(3), of 126 127] ext_bits_field [OF r9(3), of 48 69] ext_bits_field [OF r9(3), of 96 103]
    by (simp add: set_csd_def)
  moreover have "set_cid cid st = Some (st \<lparr> cid_mid := ucast (cid ! 0), cid_oid := take 2 (drop 1 cid) @ [0],
      cid_pnm := take 5 (drop 3 cid) @ [0], cid_prv := cid ! 8, cid_psn := field cid 55 24,
      cid_mdt := ucast (field cid 19 8) \<rparr>)" for st
    using ext_bits_field [OF r10(3), of 24 55] ext_bits_field [OF r10(3), of 8 19] sixteen [OF r10(3)]
    by (simp add: set_cid_def)
  ultimately show ?thesis
    using t(1) u(1) assms(3)
    by (simp add: SD_identify_def Let_def ocr_bits set_ocr_def sd_described_def sd_cleared_def)
qed

lemma initialize_wp:
  assumes "ready s" and ob: "obeys slave wait reply"
    and "reply 0 = [r0]" "r0 \<le> 1" and "reply 8 = [r8, e1, e2, e3, e4]" "r8 \<le> 1"
    and "reply 55 = [r55]" "r55 \<le> 1" and "reply 41 = [0]"
    and "reply 58 = [r58, ocr, o2, o3, o4]" "r58 \<le> 1" "bit ocr 7"
    and "reply 9 = 0 # replicate k 0xff @ 0xfe # csd" "k < unat SD_READ_TIMEOUT" "length csd = 16"
    and "reply 10 = 0 # replicate m 0xff @ 0xfe # cid" "m < unat SD_READ_TIMEOUT" "length cid = 16"
    and "length buf = 16"
  shows "returns (SD_initialize b buf st s) (\<lambda>(e, st', t).
    e = SD_SUCCESS \<and> st' = sd_described ocr csd cid \<and> parked s t)"
proof -
  let ?s = "SPI2_init b SD_SLOW s"
  have s: "ready ?s" "rest ?s = rest s" "pin ?s = pin s"
    using speed_store [OF assms(1)] by (auto simp: SPI2_init_def)
  obtain t where t: "SD_powerup b ?s = Some t" "parked s t"
    using powerup_wp [OF s(1)] s(2,3) by (auto simp: returns_ex parked_def)
  obtain u where u: "SD_CMD0 b t = Some (r0, u)" "parked t u"
    using sd_small_commands(1) [OF parked_ready [OF t(2)] ob r1_not_idle [OF assms(4)] assms(3)]
    by (auto simp: returns_ex)
  obtain v where v: "SD_CMD8 b [r0, 0, 0, 0, 0, 0] u = Some ([r8, e1, e2, e3, e4, 0], v)" "parked u v"
    using sd_long_commands(1) [OF parked_ready [OF u(2)] ob assms(6) _ assms(5), of "[r0, 0, 0, 0, 0, 0]"]
    by (auto simp: returns_ex)
  obtain w where w: "acmd_loop b 100 v = Some (Inr 100, w)" "parked v w"
    using acmd_ready [OF parked_ready [OF v(2)] ob assms(7-9), of 100] by (auto simp: returns_ex)
  obtain x where x: "SD_CMD58 b [r8, e1, e2, e3, e4, 0] w = Some ([r58, ocr, o2, o3, o4, 0], x)" "parked w x"
    using sd_long_commands(2) [OF parked_ready [OF w(2)] ob assms(11) _ assms(10), of "[r8, e1, e2, e3, e4, 0]"]
    by (auto simp: returns_ex)
  obtain y where y: "SD_identify b buf ocr sd_cleared x = Some (SD_SUCCESS, sd_described ocr csd cid, y)" "parked x y"
    using identify_wp [OF parked_ready [OF x(2)] ob assms(12-19)] by (auto simp: returns_ex)
  have "parked s y"
    using t(2) u(2) v(2) w(2) x(2) y(2) by (blast intro: parked_trans)
  then show ?thesis
    using t(1) u(1) v(1) w(1) x(1) y(1) leD [OF assms(4)] leD [OF assms(6)] leD [OF assms(11)]
    by (simp add: SD_initialize_def setb_def six_zeros)
qed

lemma initialize_busy:
  assumes "ready s" and ob: "obeys slave wait reply"
    and "reply 0 = [r0]" "r0 \<le> 1" and "reply 8 = [r8, e1, e2, e3, e4]" "r8 \<le> 1"
    and "reply 55 = [r55]" "r55 \<le> 1" and "reply 41 = [1]"
  shows "returns (SD_initialize b buf st s) (\<lambda>(e, st', t). e = SD_ERROR \<and> st' = sd_cleared)"
proof -
  let ?s = "SPI2_init b SD_SLOW s"
  have s: "ready ?s" using speed_store [OF assms(1)] by (auto simp: SPI2_init_def)
  obtain t where t: "SD_powerup b ?s = Some t" "ready t"
    using powerup_wp [OF s] by (auto simp: returns_ex parked_def)
  obtain u where u: "SD_CMD0 b t = Some (r0, u)" "parked t u"
    using sd_small_commands(1) [OF t(2) ob r1_not_idle [OF assms(4)] assms(3)] by (auto simp: returns_ex)
  obtain v where v: "SD_CMD8 b [r0, 0, 0, 0, 0, 0] u = Some ([r8, e1, e2, e3, e4, 0], v)" "parked u v"
    using sd_long_commands(1) [OF parked_ready [OF u(2)] ob assms(6) _ assms(5), of "[r0, 0, 0, 0, 0, 0]"]
    by (auto simp: returns_ex)
  obtain w where "acmd_loop b 100 v = Some (Inr 0, w)"
    using acmd_busy [OF ob assms(7-9) parked_ready [OF v(2)], of 100] by (auto simp: returns_ex)
  then show ?thesis
    using t(1) u(1) v(1) leD [OF assms(4)] leD [OF assms(6)]
    by (simp add: SD_initialize_def setb_def six_zeros)
qed

end

end
