(* ===== verification/I2c.thy ===== *)
theory I2c
  imports Hw
begin

text \<open>
  The drivers of the two I2C units, \<^verbatim>\<open>sw/lib/i2c\<close>: the same code at two base addresses. The
  functions with a unit number are the ones of the source; the others carry the base address.
  A buffer is \<open>None\<close> for \<^verbatim>\<open>NULL\<close>, or the bytes of the caller's array.
\<close>

section \<open>The driver\<close>

definition i2c_init :: "u32 \<Rightarrow> 'd bus \<Rightarrow> u32 \<Rightarrow> 'd \<Rightarrow> 'd" where
  "i2c_init base b value s = st32 b (base + CTRL_offset) value s"

definition i2c_wait :: "u32 \<Rightarrow> 'd bus \<Rightarrow> 'd \<Rightarrow> 'd option" where
  "i2c_wait base b s = poll (ld32 b (base + STAT_offset)) (\<lambda>v. v AND I2C_TC \<noteq> 0) s"

definition i2c_nack :: "u32 \<Rightarrow> 'd bus \<Rightarrow> 'd \<Rightarrow> u32 \<times> 'd" where
  "i2c_nack base b s = (let (v, s) = ld32 b (base + STAT_offset) s in (v AND I2C_AF, s))"

definition i2c_transmit_byte :: "u32 \<Rightarrow> 'd bus \<Rightarrow> u8 \<Rightarrow> 'd \<Rightarrow> (u32 \<times> 'd) option" where
  "i2c_transmit_byte base b data s =
     do { let s = st32 b (base + DATA_offset) (ucast data) s;
          s \<leftarrow> i2c_wait base b s;
          Some (i2c_nack base b s) }"

definition i2c_transmit_address :: "u32 \<Rightarrow> 'd bus \<Rightarrow> u8 \<Rightarrow> 'd \<Rightarrow> (u32 \<times> 'd) option" where
  "i2c_transmit_address base b address s =
     do { let s = rmw b (base + CTRL_offset) (\<lambda>v. v OR I2C_START) s;
          let s = st32 b (base + DATA_offset) (ucast address) s;
          s \<leftarrow> i2c_wait base b s;
          Some (i2c_nack base b s) }"

definition i2c_transmit_address_only :: "u32 \<Rightarrow> 'd bus \<Rightarrow> u8 \<Rightarrow> 'd \<Rightarrow> (u32 \<times> 'd) option" where
  "i2c_transmit_address_only base b address s =
     do { let s = rmw b (base + CTRL_offset) (\<lambda>v. v OR (I2C_START OR I2C_STOP)) s;
          let s = st32 b (base + DATA_offset) (ucast address) s;
          s \<leftarrow> i2c_wait base b s;
          Some (i2c_nack base b s) }"

definition i2c_receive_byte :: "u32 \<Rightarrow> 'd bus \<Rightarrow> 'd \<Rightarrow> (u8 \<times> 'd) option" where
  "i2c_receive_byte base b s =
     do { let s = st32 b (base + DATA_offset) 0xff s;
          s \<leftarrow> i2c_wait base b s;
          let (v, s) = ld32 b (base + DATA_offset) s;
          Some (ucast v, s) }"

text \<open>After a byte that was not acknowledged: end the transfer with a STOP condition.\<close>

definition i2c_hardstop :: "u32 \<Rightarrow> 'd bus \<Rightarrow> 'd \<Rightarrow> 'd option" where
  "i2c_hardstop base b s =
     do { let s = rmw b (base + CTRL_offset) (\<lambda>v. v OR I2C_HARDSTOP) s; i2c_wait base b s }"

text \<open>The loop of \<^verbatim>\<open>i2c1_transmit\<close>: \<open>k\<close> bytes are left, so \<open>i == len-1\<close> is \<open>k = 1\<close>.\<close>

fun i2c_transmit_loop :: "u32 \<Rightarrow> 'd bus \<Rightarrow> nat \<Rightarrow> u8 list \<Rightarrow> 'd \<Rightarrow> (u32 \<times> 'd) option" where
  "i2c_transmit_loop base b 0 buf s = Some (0, s)"
| "i2c_transmit_loop base b (Suc k) [] s = None"
| "i2c_transmit_loop base b (Suc k) (c # buf) s =
     do { let s = (if k = 0 then rmw b (base + CTRL_offset) (\<lambda>v. v OR I2C_STOP) s else s);
          (ret, s) \<leftarrow> i2c_transmit_byte base b c s;
          if ret \<noteq> 0 then
            do { s \<leftarrow> (if k \<noteq> 0 then i2c_hardstop base b s else Some s); Some (ret, s) }
          else i2c_transmit_loop base b k buf s }"

definition i2c_transmit ::
    "u32 \<Rightarrow> 'd bus \<Rightarrow> u8 \<Rightarrow> u8 list option \<Rightarrow> u32 \<Rightarrow> 'd \<Rightarrow> (u32 \<times> 'd) option" where
  "i2c_transmit base b address buf len s =
     (if len = 0 \<or> buf = None then i2c_transmit_address_only base b address s
      else
        do { (ret, s) \<leftarrow> i2c_transmit_address base b address s;
             if ret \<noteq> 0 then do { s \<leftarrow> i2c_hardstop base b s; Some (ret, s) }
             else i2c_transmit_loop base b (unat len) (the buf) s })"

text \<open>The loop of \<^verbatim>\<open>i2c1_receive\<close> stores byte \<open>i\<close> and has \<open>k\<close> turns left.\<close>

fun i2c_receive_loop ::
    "u32 \<Rightarrow> 'd bus \<Rightarrow> nat \<Rightarrow> nat \<Rightarrow> u8 list \<Rightarrow> 'd \<Rightarrow> (u8 list \<times> 'd) option" where
  "i2c_receive_loop base b 0 i buf s = Some (buf, s)"
| "i2c_receive_loop base b (Suc k) i buf s =
     do { let s = (if k = 0 then rmw b (base + CTRL_offset) (\<lambda>v. v OR I2C_STOP) s else s);
          (v, s) \<leftarrow> i2c_receive_byte base b s;
          buf \<leftarrow> setb buf i v;
          i2c_receive_loop base b k (Suc i) buf s }"

definition i2c_receive ::
    "u32 \<Rightarrow> 'd bus \<Rightarrow> u8 \<Rightarrow> u8 list option \<Rightarrow> u32 \<Rightarrow> 'd \<Rightarrow> (u32 \<times> u8 list option \<times> 'd) option" where
  "i2c_receive base b address buf len s =
     (if len = 0 \<or> buf = None then
        do { (ret, s) \<leftarrow> i2c_transmit_address_only base b address s; Some (ret, buf, s) }
      else
        do { (ret, s) \<leftarrow> i2c_transmit_address base b address s;
             if ret \<noteq> 0 then Some (ret, buf, s)
             else
               do { let s = rmw b (base + CTRL_offset) (\<lambda>v. v OR I2C_MACK) s;
                    (bytes, s) \<leftarrow> i2c_receive_loop base b (unat len) 0 (the buf) s;
                    let s = rmw b (base + CTRL_offset) (\<lambda>v. v AND NOT I2C_MACK) s;
                    Some (0, Some bytes, s) } })"

definition i2c1_init :: "'d bus \<Rightarrow> u32 \<Rightarrow> 'd \<Rightarrow> 'd" where
  "i2c1_init = i2c_init I2C1_BASE"

definition i2c1_transmit_byte :: "'d bus \<Rightarrow> u8 \<Rightarrow> 'd \<Rightarrow> (u32 \<times> 'd) option" where
  "i2c1_transmit_byte = i2c_transmit_byte I2C1_BASE"

definition i2c1_transmit_address :: "'d bus \<Rightarrow> u8 \<Rightarrow> 'd \<Rightarrow> (u32 \<times> 'd) option" where
  "i2c1_transmit_address = i2c_transmit_address I2C1_BASE"

definition i2c1_transmit_address_only :: "'d bus \<Rightarrow> u8 \<Rightarrow> 'd \<Rightarrow> (u32 \<times> 'd) option" where
  "i2c1_transmit_address_only = i2c_transmit_address_only I2C1_BASE"

definition i2c1_receive_byte :: "'d bus \<Rightarrow> 'd \<Rightarrow> (u8 \<times> 'd) option" where
  "i2c1_receive_byte = i2c_receive_byte I2C1_BASE"

definition i2c1_transmit ::
    "'d bus \<Rightarrow> u8 \<Rightarrow> u8 list option \<Rightarrow> u32 \<Rightarrow> 'd \<Rightarrow> (u32 \<times> 'd) option" where
  "i2c1_transmit = i2c_transmit I2C1_BASE"

definition i2c1_receive ::
    "'d bus \<Rightarrow> u8 \<Rightarrow> u8 list option \<Rightarrow> u32 \<Rightarrow> 'd \<Rightarrow> (u32 \<times> u8 list option \<times> 'd) option" where
  "i2c1_receive = i2c_receive I2C1_BASE"

definition i2c2_init :: "'d bus \<Rightarrow> u32 \<Rightarrow> 'd \<Rightarrow> 'd" where
  "i2c2_init = i2c_init I2C2_BASE"

definition i2c2_transmit_byte :: "'d bus \<Rightarrow> u8 \<Rightarrow> 'd \<Rightarrow> (u32 \<times> 'd) option" where
  "i2c2_transmit_byte = i2c_transmit_byte I2C2_BASE"

definition i2c2_transmit_address :: "'d bus \<Rightarrow> u8 \<Rightarrow> 'd \<Rightarrow> (u32 \<times> 'd) option" where
  "i2c2_transmit_address = i2c_transmit_address I2C2_BASE"

definition i2c2_transmit_address_only :: "'d bus \<Rightarrow> u8 \<Rightarrow> 'd \<Rightarrow> (u32 \<times> 'd) option" where
  "i2c2_transmit_address_only = i2c_transmit_address_only I2C2_BASE"

definition i2c2_receive_byte :: "'d bus \<Rightarrow> 'd \<Rightarrow> (u8 \<times> 'd) option" where
  "i2c2_receive_byte = i2c_receive_byte I2C2_BASE"

definition i2c2_transmit ::
    "'d bus \<Rightarrow> u8 \<Rightarrow> u8 list option \<Rightarrow> u32 \<Rightarrow> 'd \<Rightarrow> (u32 \<times> 'd) option" where
  "i2c2_transmit = i2c_transmit I2C2_BASE"

definition i2c2_receive ::
    "'d bus \<Rightarrow> u8 \<Rightarrow> u8 list option \<Rightarrow> u32 \<Rightarrow> 'd \<Rightarrow> (u32 \<times> u8 list option \<times> 'd) option" where
  "i2c2_receive = i2c_receive I2C2_BASE"

section \<open>The contract of a unit\<close>

text \<open>
  What happens on the two wires is a list of events: START and STOP conditions, and the transfer
  of nine bits, the byte \<open>c\<close> that the master drives and the level of its acknowledge bit
  (\<open>True\<close>: released). What the master then sees on the wires, the byte and the level of the
  acknowledge bit, is a function \<open>slave\<close> of the events so far. (\<^verbatim>\<open>rtl/thuas-riscv/i2c.vhd\<close>)
\<close>

datatype i2c_event = Start | Byte u8 bool | Stop

text \<open>The part of a unit's state that software can observe: the control register, the wires,
  the flags of the status register and the data register; and the rest of the machine.\<close>

record 'r i2c_view =
  ctrl :: u32
  wire :: "i2c_event list"
  tc :: bool
  reply :: "u8 \<times> bool"
  beside :: 'r

definition I2C_CTRL_MASK :: u32 where
  "I2C_CTRL_MASK = 0xffff0f0c"

text \<open>A write to the data register: a START condition first when asked for, the nine bits, and a
  STOP condition when asked for. The master acknowledges only when its \<^verbatim>\<open>MACK\<close> bit is set and
  neither a START nor a STOP is part of the transfer. Both requests are then cleared.\<close>

definition i2c_after ::
    "(i2c_event list \<Rightarrow> i2c_event \<Rightarrow> u8 \<times> bool) \<Rightarrow> u8 \<Rightarrow> 'r i2c_view \<Rightarrow> 'r i2c_view" where
  "i2c_after slave c v =
     (let h = wire v @ (if ctrl v AND I2C_START \<noteq> 0 then [Start] else []);
          e = Byte c (ctrl v AND (I2C_START OR I2C_STOP) \<noteq> 0 \<or> ctrl v AND I2C_MACK = 0)
      in v \<lparr> ctrl := ctrl v AND NOT (I2C_START OR I2C_STOP),
             wire := h @ [e] @ (if ctrl v AND I2C_STOP \<noteq> 0 then [Stop] else []),
             tc := True, reply := slave h e \<rparr>)"

text \<open>What the driver is to put on the wires: bytes up to the first one that the slave does not
  acknowledge, and bytes read with an acknowledge for all but the last.\<close>

fun written :: "(i2c_event list \<Rightarrow> i2c_event \<Rightarrow> u8 \<times> bool) \<Rightarrow> i2c_event list \<Rightarrow> u8 list \<Rightarrow> i2c_event list" where
  "written slave h [] = []"
| "written slave h (c # cs) =
     Byte c True # (if snd (slave h (Byte c True)) then [] else written slave (h @ [Byte c True]) cs)"

fun accepted :: "(i2c_event list \<Rightarrow> i2c_event \<Rightarrow> u8 \<times> bool) \<Rightarrow> i2c_event list \<Rightarrow> u8 list \<Rightarrow> bool" where
  "accepted slave h [] = True"
| "accepted slave h (c # cs) =
     (\<not> snd (slave h (Byte c True)) \<and> accepted slave (h @ [Byte c True]) cs)"

fun wanted :: "nat \<Rightarrow> i2c_event list" where
  "wanted 0 = []"
| "wanted (Suc k) = Byte 0xff (k = 0) # wanted k"

fun given :: "(i2c_event list \<Rightarrow> i2c_event \<Rightarrow> u8 \<times> bool) \<Rightarrow> i2c_event list \<Rightarrow> nat \<Rightarrow> u8 list" where
  "given slave h 0 = []"
| "given slave h (Suc k) =
     fst (slave h (Byte 0xff (k = 0))) # given slave (h @ [Byte 0xff (k = 0)]) k"

lemma length_given [simp]: "length (given slave h k) = k"
  by (induction k arbitrary: h) auto

text \<open>Between transfers no request is pending in the control register, and no bit outside it is
  set.\<close>

definition calm :: "u32 \<Rightarrow> bool" where
  "calm v \<longleftrightarrow> v AND I2C_CTRL_MASK = v \<and> v AND I2C_START = 0 \<and> v AND I2C_STOP = 0
     \<and> v AND I2C_HARDSTOP = 0"

lemma or_and: "(x OR y) AND a = (x AND a) OR (y AND a)" for x y a :: u32
  by (auto simp: bit_eq_iff bit_simps)

lemma and_or_zero: "x AND (a OR b) = 0 \<longleftrightarrow> x AND a = 0 \<and> x AND b = 0" for x a b :: u32
  by (auto simp: bit_eq_iff bit_simps)

lemma or_zero: "x OR y = 0 \<longleftrightarrow> x = 0 \<and> y = 0" for x y :: u32
  by (auto simp: bit_eq_iff bit_simps)

lemma clear_zero: "x AND a = 0 \<Longrightarrow> x AND NOT a = x" for x a :: u32
  by (simp add: bit_eq_iff bit_simps) blast

lemma and_nots: "x AND (NOT a AND NOT b) = (x AND NOT a) AND NOT b" for x a b :: u32
  by (simp add: and.assoc)

lemma mask_and: "x AND m = x \<Longrightarrow> (x AND y) AND m = x AND y" for x y m :: u32
  by (auto simp: bit_eq_iff bit_simps)

lemma i2c_masks:
  "I2C_START \<noteq> 0" "I2C_STOP \<noteq> 0" "I2C_HARDSTOP \<noteq> 0" "I2C_MACK \<noteq> 0"
  "I2C_START AND I2C_STOP = 0" "I2C_STOP AND I2C_START = 0" "I2C_START AND I2C_HARDSTOP = 0"
  "I2C_STOP AND I2C_HARDSTOP = 0" "I2C_MACK AND I2C_START = 0" "I2C_MACK AND I2C_STOP = 0"
  "I2C_MACK AND I2C_HARDSTOP = 0" "I2C_START AND I2C_MACK = 0" "I2C_STOP AND I2C_MACK = 0"
  "I2C_START AND I2C_CTRL_MASK = I2C_START" "I2C_STOP AND I2C_CTRL_MASK = I2C_STOP"
  "I2C_MACK AND I2C_CTRL_MASK = I2C_MACK"
  by (simp_all add: I2C_START_def I2C_STOP_def I2C_HARDSTOP_def I2C_MACK_def I2C_CTRL_MASK_def)

lemmas i2c_bits = calm_def or_and or_zero and_or_zero clear_zero and_nots i2c_masks

text \<open>The four ways in which the driver starts a transfer.\<close>

lemma after_address:
  "calm (ctrl v) \<Longrightarrow> i2c_after slave c (v \<lparr> ctrl := (ctrl v OR I2C_START) AND I2C_CTRL_MASK \<rparr>) =
    v \<lparr> wire := wire v @ [Start, Byte c True], tc := True,
       reply := slave (wire v @ [Start]) (Byte c True) \<rparr>"
  by (cases v) (simp add: i2c_after_def i2c_bits Let_def)

lemma after_address_only:
  "calm (ctrl v) \<Longrightarrow>
    i2c_after slave c (v \<lparr> ctrl := (ctrl v OR (I2C_START OR I2C_STOP)) AND I2C_CTRL_MASK \<rparr>) =
    v \<lparr> wire := wire v @ [Start, Byte c True, Stop], tc := True,
       reply := slave (wire v @ [Start]) (Byte c True) \<rparr>"
  by (cases v) (simp add: i2c_after_def i2c_bits Let_def)

lemma after_byte:
  "calm (ctrl v) \<Longrightarrow> i2c_after slave c v =
    v \<lparr> wire := wire v @ [Byte c (ctrl v AND I2C_MACK = 0)], tc := True,
       reply := slave (wire v) (Byte c (ctrl v AND I2C_MACK = 0)) \<rparr>"
  by (cases v) (simp add: i2c_after_def i2c_bits Let_def)

lemma after_last:
  "calm (ctrl v) \<Longrightarrow> i2c_after slave c (v \<lparr> ctrl := (ctrl v OR I2C_STOP) AND I2C_CTRL_MASK \<rparr>) =
    v \<lparr> wire := wire v @ [Byte c True, Stop], tc := True,
       reply := slave (wire v) (Byte c True) \<rparr>"
  by (cases v) (simp add: i2c_after_def i2c_bits Let_def)

lemma calm_MACK: "calm v \<Longrightarrow> calm (v OR I2C_MACK)"
  by (simp add: i2c_bits)

lemma clear_MACK: "calm v \<Longrightarrow> v AND I2C_MACK = 0 \<Longrightarrow> (v OR I2C_MACK) AND NOT I2C_MACK = v"
  by (simp add: i2c_bits)

text \<open>
  \<open>ready s\<close>: the unit is idle. \<open>stopping s\<close>: it was told to send a STOP condition by itself.
  The laws for \<^verbatim>\<open>STAT\<close> and \<^verbatim>\<open>DATA\<close> are those of the registers: reading \<^verbatim>\<open>DATA\<close> clears the flags,
  writing it starts a transfer and clears the flags, and nothing clears \<^verbatim>\<open>TC\<close> when a STOP is
  requested through \<^verbatim>\<open>CTRL\<close>.
\<close>

locale i2c_port =
  fixes b :: "'d bus"
    and base :: u32
    and ready :: "'d \<Rightarrow> bool"
    and stopping :: "'d \<Rightarrow> bool"
    and view :: "'d \<Rightarrow> 'r i2c_view"
    and slave :: "i2c_event list \<Rightarrow> i2c_event \<Rightarrow> u8 \<times> bool"
    and shifting :: "u8 \<Rightarrow> nat \<Rightarrow> 'd \<Rightarrow> 'd \<Rightarrow> bool"
  assumes ctrl_read: "ready s \<Longrightarrow> ld32 b (base + CTRL_offset) s = (v, s') \<Longrightarrow>
      v = ctrl (view s) \<and> ready s' \<and> view s' = view s"
    and ctrl_write: "ready s \<Longrightarrow> v AND I2C_HARDSTOP = 0 \<Longrightarrow>
      ready (st32 b (base + CTRL_offset) v s) \<and>
      view (st32 b (base + CTRL_offset) v s) = (view s) \<lparr> ctrl := v AND I2C_CTRL_MASK \<rparr>"
    and hard_stop: "ready s \<Longrightarrow> v AND I2C_HARDSTOP \<noteq> 0 \<Longrightarrow>
      stopping (st32 b (base + CTRL_offset) v s) \<and>
      tc (view (st32 b (base + CTRL_offset) v s)) = tc (view s) \<and>
      wire (view (st32 b (base + CTRL_offset) v s)) = wire (view s) @ [Stop] \<and>
      beside (view (st32 b (base + CTRL_offset) v s)) = beside (view s)"
    and stop_stat: "stopping s \<Longrightarrow> tc (view s) \<Longrightarrow> ld32 b (base + STAT_offset) s = (v, s') \<Longrightarrow>
      v AND I2C_TC \<noteq> 0 \<and> wire (view s') = wire (view s) \<and> beside (view s') = beside (view s)"
    and stat_read: "ready s \<Longrightarrow> ld32 b (base + STAT_offset) s = (v, s') \<Longrightarrow>
      (v AND I2C_TC \<noteq> 0) = tc (view s) \<and> v AND I2C_AF = (if snd (reply (view s)) then I2C_AF else 0)
        \<and> ready s' \<and> view s' = view s"
    and data_read: "ready s \<Longrightarrow> ld32 b (base + DATA_offset) s = (v, s') \<Longrightarrow>
      v = ucast (fst (reply (view s))) \<and> ready s' \<and>
      view s' = (view s) \<lparr> tc := False, reply := (fst (reply (view s)), False) \<rparr>"
    and data_write: "ready s \<Longrightarrow> \<exists>n. shifting (ucast v) n s (st32 b (base + DATA_offset) v s)"
    and shift_busy: "shifting c (Suc n) s t \<Longrightarrow> ld32 b (base + STAT_offset) t = (v, t') \<Longrightarrow>
      v AND I2C_TC = 0 \<and> shifting c n s t'"
    and shift_done: "shifting c 0 s t \<Longrightarrow> ld32 b (base + STAT_offset) t = (v, t') \<Longrightarrow>
      v AND I2C_TC \<noteq> 0 \<and> ready t' \<and> view t' = i2c_after slave c (view s)"
    and ctrl_bits: "ready s \<Longrightarrow> ctrl (view s) AND I2C_CTRL_MASK = ctrl (view s)"
begin

lemma shifting_wait:
  "shifting c n s t \<Longrightarrow>
    returns (i2c_wait base b t) (\<lambda>t'. ready t' \<and> view t' = i2c_after slave c (view s))"
proof (induction n arbitrary: t)
  case 0
  obtain v t' where "ld32 b (base + STAT_offset) t = (v, t')"
    by (cases "ld32 b (base + STAT_offset) t")
  with shift_done [OF 0 this] show ?case by (simp add: i2c_wait_def poll_step)
next
  case (Suc n)
  obtain v t' where "ld32 b (base + STAT_offset) t = (v, t')"
    by (cases "ld32 b (base + STAT_offset) t")
  with shift_busy [OF Suc.prems this] Suc.IH show ?case by (simp add: i2c_wait_def poll_step)
qed

lemma data_wait:
  assumes "ready s" and "\<And>t. ready t \<Longrightarrow> view t = i2c_after slave (ucast v) (view s) \<Longrightarrow> Q t"
  shows "returns (i2c_wait base b (st32 b (base + DATA_offset) v s)) Q"
proof -
  from data_write [OF assms(1)] obtain n
    where "shifting (ucast v) n s (st32 b (base + DATA_offset) v s)" by blast
  from shifting_wait [OF this] show ?thesis by (rule returns_mono) (simp add: assms(2))
qed

lemma nack_wp:
  assumes "ready s"
  shows "\<exists>s'. i2c_nack base b s = (if snd (reply (view s)) then I2C_AF else 0, s')
    \<and> ready s' \<and> view s' = view s"
proof -
  obtain v s' where "ld32 b (base + STAT_offset) s = (v, s')"
    by (cases "ld32 b (base + STAT_offset) s")
  with stat_read [OF assms this] show ?thesis by (simp add: i2c_nack_def)
qed

lemma rmw_ctrl:
  assumes "ready s" and "f (ctrl (view s)) AND I2C_HARDSTOP = 0"
  shows "ready (rmw b (base + CTRL_offset) f s) \<and> view (rmw b (base + CTRL_offset) f s)
    = (view s) \<lparr> ctrl := f (ctrl (view s)) AND I2C_CTRL_MASK \<rparr>"
proof -
  obtain v s' where ld: "ld32 b (base + CTRL_offset) s = (v, s')"
    by (cases "ld32 b (base + CTRL_offset) s")
  from ctrl_read [OF assms(1) ld] ctrl_write [of s' "f v"] assms(2)
  show ?thesis by (simp add: rmw_def ld)
qed

text \<open>The wait after a hard STOP sees the flag of the byte before and does not wait: when the
  function returns, the STOP condition is still being sent.\<close>

lemma hardstop_wp:
  assumes "ready s" and "tc (view s)"
    and "\<And>s'. wire (view s') = wire (view s) @ [Stop] \<Longrightarrow> beside (view s') = beside (view s) \<Longrightarrow> Q s'"
  shows "returns (i2c_hardstop base b s) Q"
proof -
  obtain v t where ld: "ld32 b (base + CTRL_offset) s = (v, t)"
    by (cases "ld32 b (base + CTRL_offset) s")
  with ctrl_read [OF assms(1)] have t: "ready t" "view t = view s" by blast+
  have "(v OR I2C_HARDSTOP) AND I2C_HARDSTOP = I2C_HARDSTOP"
    by (rule bit_word_eqI) (auto simp: bit_simps)
  then have nz: "(v OR I2C_HARDSTOP) AND I2C_HARDSTOP \<noteq> 0" by (simp add: I2C_HARDSTOP_def)
  let ?u = "st32 b (base + CTRL_offset) (v OR I2C_HARDSTOP) t"
  obtain w u where st: "ld32 b (base + STAT_offset) ?u = (w, u)"
    by (cases "ld32 b (base + STAT_offset) ?u")
  from hard_stop [OF t(1) nz] stop_stat [OF _ _ st] t(2) assms(2)
  have "w AND I2C_TC \<noteq> 0" "wire (view u) = wire (view s) @ [Stop]"
    "beside (view u) = beside (view s)" by auto
  with assms(3) show ?thesis by (simp add: i2c_hardstop_def rmw_def ld i2c_wait_def poll_step st)
qed


lemma byte_wp:
  assumes "ready s"
    and "\<And>t. ready t \<Longrightarrow> view t = i2c_after slave c (view s) \<Longrightarrow>
      Q (if snd (reply (view t)) then I2C_AF else 0, t)"
  shows "returns (i2c_transmit_byte base b c s) Q"
proof -
  have "returns (Some (i2c_nack base b t)) Q"
    if "ready t" "view t = i2c_after slave (ucast (ucast c :: u32)) (view s)" for t
    using nack_wp [OF that(1)] assms(2) that by force
  then show ?thesis unfolding i2c_transmit_byte_def Let_def
    by (intro returns_bind data_wait assms(1))
qed

lemma address_wp:
  assumes "ready s" and "calm (ctrl (view s))"
    and "\<And>t. ready t \<Longrightarrow> view t = (view s) \<lparr> wire := wire (view s) @ [Start, Byte c True],
        tc := True, reply := slave (wire (view s) @ [Start]) (Byte c True) \<rparr> \<Longrightarrow>
      Q (if snd (slave (wire (view s) @ [Start]) (Byte c True)) then I2C_AF else 0, t)"
  shows "returns (i2c_transmit_address base b c s) Q"
proof -
  let ?t = "rmw b (base + CTRL_offset) (\<lambda>v. v OR I2C_START) s"
  have t: "ready ?t" "view ?t = (view s) \<lparr> ctrl := (ctrl (view s) OR I2C_START) AND I2C_CTRL_MASK \<rparr>"
    using rmw_ctrl [OF assms(1), of "\<lambda>v. v OR I2C_START"] assms(2) by (simp_all add: i2c_bits)
  have "returns (i2c_transmit_byte base b c ?t) Q"
    by (rule byte_wp [OF t(1)]) (simp add: t(2) after_address assms(2,3))
  then show ?thesis by (simp add: i2c_transmit_address_def i2c_transmit_byte_def)
qed

lemma address_only_wp:
  assumes "ready s" and "calm (ctrl (view s))"
    and "\<And>t. ready t \<Longrightarrow> view t = (view s) \<lparr> wire := wire (view s) @ [Start, Byte c True, Stop],
        tc := True, reply := slave (wire (view s) @ [Start]) (Byte c True) \<rparr> \<Longrightarrow>
      Q (if snd (slave (wire (view s) @ [Start]) (Byte c True)) then I2C_AF else 0, t)"
  shows "returns (i2c_transmit_address_only base b c s) Q"
proof -
  let ?t = "rmw b (base + CTRL_offset) (\<lambda>v. v OR (I2C_START OR I2C_STOP)) s"
  have t: "ready ?t" "view ?t =
      (view s) \<lparr> ctrl := (ctrl (view s) OR (I2C_START OR I2C_STOP)) AND I2C_CTRL_MASK \<rparr>"
    using rmw_ctrl [OF assms(1), of "\<lambda>v. v OR (I2C_START OR I2C_STOP)"] assms(2)
    by (simp_all add: i2c_bits)
  have "returns (i2c_transmit_byte base b c ?t) Q"
    by (rule byte_wp [OF t(1)]) (simp add: t(2) after_address_only assms(2,3))
  then show ?thesis by (simp add: i2c_transmit_address_only_def i2c_transmit_byte_def)
qed

text \<open>The STOP request before the last byte.\<close>

lemma last_request:
  assumes "ready s" and "calm (ctrl (view s))"
  shows "ready (rmw b (base + CTRL_offset) (\<lambda>v. v OR I2C_STOP) s)"
    and "i2c_after slave c (view (rmw b (base + CTRL_offset) (\<lambda>v. v OR I2C_STOP) s)) =
      (view s) \<lparr> wire := wire (view s) @ [Byte c True, Stop], tc := True,
       reply := slave (wire (view s)) (Byte c True) \<rparr>"
proof -
  have "(ctrl (view s) OR I2C_STOP) AND I2C_HARDSTOP = 0"
    using assms(2) by (simp add: i2c_bits)
  note t = rmw_ctrl [OF assms(1), of "\<lambda>v. v OR I2C_STOP", OF this]
  from t show "ready (rmw b (base + CTRL_offset) (\<lambda>v. v OR I2C_STOP) s)" by blast
  from t assms(2) show "i2c_after slave c (view (rmw b (base + CTRL_offset) (\<lambda>v. v OR I2C_STOP) s)) =
      (view s) \<lparr> wire := wire (view s) @ [Byte c True, Stop], tc := True,
       reply := slave (wire (view s)) (Byte c True) \<rparr>" by (simp add: after_last)
qed

subsection \<open>Transactions\<close>

text \<open>\<open>sends evs ok s s'\<close>: the events \<open>evs\<close> were put on the wires and nothing else of the
  machine changed; when all went well the unit is idle again with its control register as
  before.\<close>

definition sends :: "i2c_event list \<Rightarrow> bool \<Rightarrow> 'd \<Rightarrow> 'd \<Rightarrow> bool" where
  "sends evs ok s s' \<longleftrightarrow> wire (view s') = wire (view s) @ evs \<and> beside (view s') = beside (view s)
     \<and> (ok \<longrightarrow> ready s' \<and> ctrl (view s') = ctrl (view s))"

lemma sends_prefix:
  "wire (view t) = wire (view s) @ evs \<Longrightarrow> beside (view t) = beside (view s) \<Longrightarrow>
    ctrl (view t) = ctrl (view s) \<Longrightarrow> sends evs' ok t s' \<Longrightarrow> sends (evs @ evs') ok s s'"
  by (simp add: sends_def)

lemma transmit_loop_wp:
  assumes "ready s" and "calm (ctrl (view s))" and "ctrl (view s) AND I2C_MACK = 0"
    and "cs \<noteq> []"
    and "\<And>s'. sends (written slave (wire (view s)) cs @ [Stop]) (accepted slave (wire (view s)) cs) s s'
      \<Longrightarrow> Q (if accepted slave (wire (view s)) cs then 0 else I2C_AF, s')"
  shows "returns (i2c_transmit_loop base b (length cs) (cs @ tail) s) Q"
  using assms
proof (induction cs arbitrary: s Q)
  case Nil
  then show ?case by simp
next
  case (Cons c cs)
  note facts = Cons.prems(1-3)
  show ?case
  proof (cases "cs = []")
    case True
    let ?h = "wire (view s)"
    have "returns (i2c_transmit_byte base b c (rmw b (base + CTRL_offset) (\<lambda>v. v OR I2C_STOP) s))
      (\<lambda>(r, t). r = (if accepted slave ?h [c] then 0 else I2C_AF)
        \<and> sends (written slave ?h [c] @ [Stop]) (accepted slave ?h [c]) s t)"
      by (rule byte_wp [OF last_request(1) [OF facts(1,2)]])
        (auto simp: last_request(2) [OF facts(1,2)] sends_def)
    then show ?thesis
      using True Cons.prems(5)
      by (auto simp: returns_bind_iff elim!: returns_mono)
  next
    case False
    let ?h = "wire (view s)"
    have "returns (i2c_transmit_byte base b c s) (\<lambda>(r, t).
      r = (if snd (slave ?h (Byte c True)) then I2C_AF else 0) \<and> ready t \<and>
      view t = (view s) \<lparr> wire := ?h @ [Byte c True], tc := True, reply := slave ?h (Byte c True) \<rparr>)"
      by (rule byte_wp [OF facts(1)]) (use facts in \<open>auto simp: after_byte\<close>)
    moreover have "returns (if r \<noteq> 0 then do { s \<leftarrow> i2c_hardstop base b t; Some (r, s) }
        else i2c_transmit_loop base b (length cs) (cs @ tail) t) Q"
      if r: "r = (if snd (slave ?h (Byte c True)) then I2C_AF else 0)" and "ready t"
        and t: "view t = (view s) \<lparr> wire := ?h @ [Byte c True], tc := True,
          reply := slave ?h (Byte c True) \<rparr>" for r t
    proof (cases "snd (slave ?h (Byte c True))")
      case True
      have "Q (I2C_AF, s')" if "wire (view s') = ?h @ [Byte c True, Stop]"
        "beside (view s') = beside (view s)" for s'
        using Cons.prems(5) [of s'] True that by (simp add: sends_def)
      with r True show ?thesis
        by (auto intro!: wp hardstop_wp \<open>ready t\<close> simp: t I2C_AF_def)
    next
      case False
      show ?thesis
        using Cons.IH [OF \<open>ready t\<close>, of Q] facts False r \<open>cs \<noteq> []\<close> Cons.prems(5)
          sends_prefix [of t s "[Byte c True]"] by (auto simp: t)
    qed
    ultimately show ?thesis
      using False by (auto simp: returns_bind_iff elim!: returns_mono)
  qed
qed

text \<open>\<^verbatim>\<open>i2c1_transmit\<close>: one transaction, with a START and a STOP condition, the address and the
  bytes up to the first that is not acknowledged.\<close>

lemma transmit_wp:
  assumes "ready s" and "calm (ctrl (view s))" and "ctrl (view s) AND I2C_MACK = 0"
    and "0 < unat len" "unat len \<le> length buf"
    and h: "h = wire (view s) @ [Start]" and cs: "cs = address # take (unat len) buf"
    and post: "\<And>s'. sends (Start # written slave h cs @ [Stop]) (accepted slave h cs) s s' \<Longrightarrow>
      Q (if accepted slave h cs then 0 else I2C_AF, s')"
  shows "returns (i2c_transmit base b address (Some buf) len s) Q"
proof -
  let ?n = "slave h (Byte address True)"
  have "returns (if r \<noteq> 0 then do { s \<leftarrow> i2c_hardstop base b t; Some (r, s) }
        else i2c_transmit_loop base b (unat len) buf t) Q"
    if "ready t" and t: "view t = (view s) \<lparr> wire := wire (view s) @ [Start, Byte address True],
        tc := True, reply := ?n \<rparr>" and r: "r = (if snd ?n then I2C_AF else 0)" for r t
  proof (cases "snd ?n")
    case True
    have "Q (I2C_AF, s')" if "wire (view s') = wire (view s) @ [Start, Byte address True, Stop]"
      "beside (view s') = beside (view s)" for s'
      using post [of s'] True that by (simp add: sends_def cs h)
    with r True show ?thesis
      by (auto intro!: wp hardstop_wp \<open>ready t\<close> simp: t I2C_AF_def)
  next
    case False
    have "length (take (unat len) buf) = unat len" "buf \<noteq> []" using assms(4,5) by auto
    with False r show ?thesis
      using transmit_loop_wp [OF \<open>ready t\<close>, of "take (unat len) buf" Q "drop (unat len) buf"]
        assms(2-4) post sends_prefix [of t s "[Start, Byte address True]"]
      by (auto simp: t cs h)
  qed
  then have "returns (i2c_transmit_address base b address s) (\<lambda>(r, t).
      returns (if r \<noteq> 0 then do { s \<leftarrow> i2c_hardstop base b t; Some (r, s) }
        else i2c_transmit_loop base b (unat len) buf t) Q)"
    by (intro address_wp assms) (auto simp: h)
  moreover have "len \<noteq> 0" using assms(4) by auto
  ultimately show ?thesis
    by (auto simp: i2c_transmit_def returns_bind_iff elim!: returns_mono)
qed

lemma transmit_address_only_wp:
  assumes "ready s" and "calm (ctrl (view s))" and "len = 0 \<or> buf = None"
    and "\<And>s'. sends [Start, Byte address True, Stop] True s s' \<Longrightarrow>
      Q (if snd (slave (wire (view s) @ [Start]) (Byte address True)) then I2C_AF else 0, s')"
  shows "returns (i2c_transmit base b address buf len s) Q"
  using assms by (auto simp: i2c_transmit_def sends_def intro!: address_only_wp)


text \<open>Reading: the bytes the slave gives are stored from index \<open>i\<close> on; all but the last are
  acknowledged.\<close>

lemma receive_byte_wp:
  assumes "ready s"
    and "\<And>t. ready t \<Longrightarrow> view t = (i2c_after slave 0xff (view s)) \<lparr> tc := False,
        reply := (fst (reply (i2c_after slave 0xff (view s))), False) \<rparr> \<Longrightarrow>
      Q (fst (reply (i2c_after slave 0xff (view s))), t)"
  shows "returns (i2c_receive_byte base b s) Q"
proof -
  have "returns (let (v, s) = ld32 b (base + DATA_offset) t in Some (ucast v :: u8, s)) Q"
    if t: "ready t" "view t = i2c_after slave 0xff (view s)" for t
  proof -
    obtain v u where ld: "ld32 b (base + DATA_offset) t = (v, u)"
      by (cases "ld32 b (base + DATA_offset) t")
    from data_read [OF t(1) ld] assms(2) [of u] t(2) show ?thesis by (simp add: ld)
  qed
  then show ?thesis unfolding i2c_receive_byte_def Let_def
    by (intro returns_bind data_wait assms(1)) simp
qed

lemma receive_loop_wp:
  assumes "ready s" and "calm (ctrl (view s))" and "ctrl (view s) AND I2C_MACK \<noteq> 0"
    and "0 < k" and "i + k \<le> length buf"
    and "\<And>s'. sends (wanted k @ [Stop]) True s s' \<Longrightarrow>
      Q (take i buf @ given slave (wire (view s)) k @ drop (i + k) buf, s')"
  shows "returns (i2c_receive_loop base b k i buf s) Q"
  using assms
proof (induction k arbitrary: i buf s Q)
  case 0
  then show ?case by simp
next
  case (Suc k)
  note facts = Suc.prems(1-3)
  let ?h = "wire (view s)"
  show ?case
  proof (cases "k = 0")
    case True
    have "returns (i2c_receive_byte base b (rmw b (base + CTRL_offset) (\<lambda>v. v OR I2C_STOP) s))
      (\<lambda>(v, t). v = fst (slave ?h (Byte 0xff True)) \<and> sends [Byte 0xff True, Stop] True s t)"
      by (rule receive_byte_wp [OF last_request(1) [OF facts(1,2)]])
        (auto simp: last_request(2) [OF facts(1,2)] sends_def)
    then show ?thesis
      using True Suc.prems(5,6)
      by (auto simp: returns_bind_iff setb_def take_Suc_conv_app_nth upd_conv_take_nth_drop
          elim!: returns_mono)
  next
    case False
    have "returns (i2c_receive_byte base b s) (\<lambda>(v, t). v = fst (slave ?h (Byte 0xff False)) \<and>
      ready t \<and> sends [Byte 0xff False] True s t)"
      by (rule receive_byte_wp [OF facts(1)]) (use facts in \<open>auto simp: after_byte sends_def\<close>)
    moreover have "returns (i2c_receive_loop base b k (Suc i) (buf[i := v]) t) Q"
      if v: "v = fst (slave ?h (Byte 0xff False))" and t: "sends [Byte 0xff False] True s t" for v t
    proof (rule Suc.IH)
      show "ready t" "calm (ctrl (view t))" "ctrl (view t) AND I2C_MACK \<noteq> 0"
        using t facts by (simp_all add: sends_def)
      show "0 < k" "Suc i + k \<le> length (buf[i := v])" using False Suc.prems(5) by simp_all
      show "Q (take (Suc i) (buf[i := v]) @ given slave (wire (view t)) k
          @ drop (Suc i + k) (buf[i := v]), u)" if "sends (wanted k @ [Stop]) True t u" for u
        using Suc.prems(6) [of u] that t Suc.prems(5) False v
        by (simp add: take_Suc_conv_app_nth sends_def)
    qed
    ultimately show ?thesis
      using False Suc.prems(5) by (auto simp: returns_bind_iff setb_def elim!: returns_mono)
  qed
qed

text \<open>\<^verbatim>\<open>i2c1_receive\<close>: one transaction when the slave answers its address. When it does not, the
  function returns with the bus still held: no STOP condition is sent.\<close>

lemma receive_wp:
  assumes "ready s" and "calm (ctrl (view s))" and "ctrl (view s) AND I2C_MACK = 0"
    and "0 < unat len" "unat len \<le> length buf"
    and h: "h = wire (view s) @ [Start]"
    and ok: "\<And>s'. \<not> snd (slave h (Byte address True)) \<Longrightarrow>
      sends ([Start, Byte address True] @ wanted (unat len) @ [Stop]) True s s' \<Longrightarrow>
      Q (0, Some (given slave (h @ [Byte address True]) (unat len) @ drop (unat len) buf), s')"
    and nack: "\<And>s'. snd (slave h (Byte address True)) \<Longrightarrow>
      sends [Start, Byte address True] True s s' \<Longrightarrow> Q (I2C_AF, Some buf, s')"
  shows "returns (i2c_receive base b address (Some buf) len s) Q"
proof -
  let ?n = "slave h (Byte address True)"
  have "len \<noteq> 0" using assms(4) by auto
  let ?set = "rmw b (base + CTRL_offset) (\<lambda>v. v OR I2C_MACK)"
  let ?clr = "rmw b (base + CTRL_offset) (\<lambda>v. v AND NOT I2C_MACK)"
  have main: "returns (i2c_receive_loop base b (unat len) 0 buf (?set t)) (\<lambda>(bytes, u).
      Q (0, Some bytes, ?clr u))" if "\<not> snd ?n" and "ready t" and
      t: "view t = (view s) \<lparr> wire := wire (view s) @ [Start, Byte address True],
        tc := True, reply := ?n \<rparr>" for t
  proof -
    have "(ctrl (view t) OR I2C_MACK) AND I2C_HARDSTOP = 0"
      "(ctrl (view t) OR I2C_MACK) AND I2C_CTRL_MASK = ctrl (view t) OR I2C_MACK"
      using assms(2) by (simp_all add: t i2c_bits)
    with rmw_ctrl [OF \<open>ready t\<close>, of "\<lambda>v. v OR I2C_MACK"]
    have m: "ready (?set t)" "view (?set t) = (view t) \<lparr> ctrl := ctrl (view s) OR I2C_MACK \<rparr>"
      by (simp_all add: t)
    have nz: "(ctrl (view s) OR I2C_MACK) AND I2C_MACK \<noteq> 0"
      using assms(3) by (simp add: or_and i2c_masks)
    have "Q (0, Some (given slave (h @ [Byte address True]) (unat len) @ drop (unat len) buf), ?clr u)"
      if u: "sends (wanted (unat len) @ [Stop]) True (?set t) u" for u
    proof (rule ok [OF \<open>\<not> snd ?n\<close>])
      have cu: "ctrl (view u) = ctrl (view s) OR I2C_MACK" and "ready u"
        using u by (simp_all add: sends_def m(2))
      moreover have "ctrl (view u) AND NOT I2C_MACK = ctrl (view s)"
        using assms(2,3) by (simp add: cu clear_MACK)
      moreover have "ctrl (view s) AND I2C_HARDSTOP = 0" "ctrl (view s) AND I2C_CTRL_MASK = ctrl (view s)"
        using assms(2) by (simp_all add: calm_def)
      ultimately have "ready (?clr u)" "view (?clr u) = (view u) \<lparr> ctrl := ctrl (view s) \<rparr>"
        using rmw_ctrl [of u "\<lambda>v. v AND NOT I2C_MACK"] by simp_all
      with u show "sends ([Start, Byte address True] @ wanted (unat len) @ [Stop]) True s (?clr u)"
        by (simp add: sends_def m(2) t)
    qed
    then show ?thesis
      using assms(2,4,5) nz by (intro receive_loop_wp) (auto simp: m t h calm_MACK)
  qed
  have "returns (i2c_transmit_address base b address s) (\<lambda>(r, t).
      r = (if snd ?n then I2C_AF else 0) \<and> ready t \<and>
      view t = (view s) \<lparr> wire := wire (view s) @ [Start, Byte address True], tc := True, reply := ?n \<rparr>)"
    by (intro address_wp assms) (auto simp: h)
  then show ?thesis
    using \<open>len \<noteq> 0\<close> nack
    by (auto simp: i2c_receive_def returns_bind_iff sends_def I2C_AF_def Let_def
        elim!: returns_mono intro!: returns_mono [OF main] split: if_splits)
qed

end

end
