(* ===== verification/Soc.thy ===== *)
theory Soc
  imports Boot Monitor Startup Syscalls Spi Sdlaws I2c Periph
begin

text \<open>
  The machine the firmware runs on, as far as software can tell: byte-addressed memory, the
  registers of the units (\<^verbatim>\<open>rtl/thuas-riscv/{uart,spi,i2c}.vhd\<close>) and a clock. It instantiates
  the \<open>bus\<close> of the firmware and every contract of the drivers. Each access takes time: first
  the clock advances and every unit makes one step of its pending work, then the register is
  accessed. How long work takes, when characters arrive, and what the devices at the other end
  answer are fields of the state that no access changes, so the results hold for all of them.

  The UART is modelled for eight data bits, the SPI units for transfers of one byte. A character
  arrives only when the one before has been read: overruns are outside the model.
\<close>

section \<open>The units\<close>

record uart_unit =
  u_ctrl :: u32
  u_shift :: "(u8 \<times> nat) option"
  u_tc :: bool
  u_sent :: "u8 list"
  u_rx :: "u8 option"
  u_old :: u8
  u_line :: "u8 list"
  u_gap :: nat
  u_gaps :: "nat \<Rightarrow> nat"
  u_lat :: nat

definition uart_tick :: "uart_unit \<Rightarrow> uart_unit" where
  "uart_tick u =
     (let u = (case u_shift u of
                 None \<Rightarrow> u
               | Some (c, 0) \<Rightarrow> u \<lparr> u_shift := None, u_tc := True, u_sent := u_sent u @ [c] \<rparr>
               | Some (c, Suc n) \<Rightarrow> u \<lparr> u_shift := Some (c, n) \<rparr>)
      in case (u_rx u, u_line u) of
           (None, c # cs) \<Rightarrow>
             (case u_gap u of 0 \<Rightarrow> u \<lparr> u_rx := Some c, u_line := cs \<rparr> | Suc n \<Rightarrow> u \<lparr> u_gap := n \<rparr>)
         | _ \<Rightarrow> u)"

definition uart_stat :: "uart_unit \<Rightarrow> u32" where
  "uart_stat u = (if u_tc u then UART_STAT_TC else 0) OR (if u_rx u \<noteq> None then UART_STAT_RC else 0)"

definition uart_load :: "u32 \<Rightarrow> uart_unit \<Rightarrow> u32 \<times> uart_unit" where
  "uart_load off u =
     (if off = 0 then (u_ctrl u, u)
      else if off = 4 then (uart_stat u, u)
      else if off = 8 then
        (case u_rx u of
           None \<Rightarrow> (ucast (u_old u), u)
         | Some c \<Rightarrow> (ucast c, u \<lparr> u_rx := None, u_old := c, u_gap := u_gaps u (length (u_line u)) \<rparr>))
      else (0, u))"

definition uart_store :: "u32 \<Rightarrow> u32 \<Rightarrow> uart_unit \<Rightarrow> uart_unit" where
  "uart_store off v u =
     (if off = 0 then u \<lparr> u_ctrl := v AND 0x1ff \<rparr>
      else if off = 4 then
        u \<lparr> u_tc := (v AND UART_STAT_TC \<noteq> 0),
           u_rx := (if v AND UART_STAT_RC = 0 then None
                    else Some (case u_rx u of None \<Rightarrow> u_old u | Some c \<Rightarrow> c)) \<rparr>
      else if off = 8 then
        (if u_ctrl u AND UART_CTRL_EN \<noteq> 0 \<and> u_shift u = None
         then u \<lparr> u_tc := False, u_shift := Some (ucast v, u_lat u) \<rparr>
         else u \<lparr> u_tc := False \<rparr>)
      else u)"

record spi_unit =
  s_ctrl :: u32
  s_tc :: bool
  s_data :: u8
  s_shift :: "(u32 \<times> u8 \<times> nat) option"
  s_sent :: "(u32 \<times> u8) list"
  s_slave :: "(u32 \<times> u8) list \<Rightarrow> u32 \<times> u8 \<Rightarrow> u8"
  s_lat :: nat

definition spi_tick :: "spi_unit \<Rightarrow> spi_unit" where
  "spi_tick u =
     (case s_shift u of
        None \<Rightarrow> u
      | Some (p, c, 0) \<Rightarrow>
          u \<lparr> s_shift := None, s_tc := True, s_data := s_slave u (s_sent u) (p, c),
             s_sent := s_sent u @ [(p, c)] \<rparr>
      | Some (p, c, Suc n) \<Rightarrow> u \<lparr> s_shift := Some (p, c, n) \<rparr>)"

definition spi_load :: "u32 \<Rightarrow> spi_unit \<Rightarrow> u32 \<times> spi_unit" where
  "spi_load off u =
     (if off = CTRL_offset then (s_ctrl u, u)
      else if off = STAT_offset then (if s_tc u then SPI_TC else 0, u)
      else if off = DATA_offset then (ucast (s_data u), u \<lparr> s_tc := False \<rparr>)
      else (0, u))"

text \<open>\<open>p\<close> is the level of the output port, whose pins select the slave.\<close>

definition spi_store :: "u32 \<Rightarrow> u32 \<Rightarrow> u32 \<Rightarrow> spi_unit \<Rightarrow> spi_unit" where
  "spi_store p off v u =
     (if off = CTRL_offset then u \<lparr> s_ctrl := v AND 0x73e \<rparr>
      else if off = STAT_offset then u \<lparr> s_tc := (v AND SPI_TC \<noteq> 0) \<rparr>
      else if off = DATA_offset then
        (if s_shift u = None then u \<lparr> s_tc := False, s_data := 0, s_shift := Some (p, ucast v, s_lat u) \<rparr>
         else u \<lparr> s_tc := False, s_data := 0 \<rparr>)
      else u)"

text \<open>An I2C unit is shifting nine bits (with the START and STOP conditions around them), or
  sending a STOP condition by itself. The events are recorded when the work starts, and the
  flags set when it ends.\<close>

datatype i2c_work = Shift u8 bool nat | Stopping nat

record i2c_unit =
  i_ctrl :: u32
  i_tc :: bool
  i_reply :: "u8 \<times> bool"
  i_work :: "i2c_work option"
  i_wire :: "i2c_event list"
  i_slave :: "i2c_event list \<Rightarrow> i2c_event \<Rightarrow> u8 \<times> bool"
  i_lat :: nat

definition i2c_view_of :: "'r \<Rightarrow> i2c_unit \<Rightarrow> 'r i2c_view" where
  "i2c_view_of r u =
     \<lparr> ctrl = i_ctrl u, wire = i_wire u, tc = i_tc u, reply = i_reply u, beside = r \<rparr>"

definition i2c_tick :: "i2c_unit \<Rightarrow> i2c_unit" where
  "i2c_tick u =
     (case i_work u of
        None \<Rightarrow> u
      | Some (Shift d a 0) \<Rightarrow> u \<lparr> i_work := None, i_tc := True, i_reply := (d, a) \<rparr>
      | Some (Shift d a (Suc n)) \<Rightarrow> u \<lparr> i_work := Some (Shift d a n) \<rparr>
      | Some (Stopping 0) \<Rightarrow>
          u \<lparr> i_work := None, i_tc := True,
             i_ctrl := i_ctrl u AND NOT (I2C_HARDSTOP OR I2C_STOP) \<rparr>
      | Some (Stopping (Suc n)) \<Rightarrow> u \<lparr> i_work := Some (Stopping n) \<rparr>)"

definition i2c_load :: "u32 \<Rightarrow> i2c_unit \<Rightarrow> u32 \<times> i2c_unit" where
  "i2c_load off u =
     (if off = CTRL_offset then (i_ctrl u, u)
      else if off = STAT_offset then
        ((if i_tc u then I2C_TC else 0) OR (if snd (i_reply u) then I2C_AF else 0), u)
      else if off = DATA_offset then
        (ucast (fst (i_reply u)), u \<lparr> i_tc := False, i_reply := (fst (i_reply u), False) \<rparr>)
      else (0, u))"

definition i2c_store :: "u32 \<Rightarrow> u32 \<Rightarrow> i2c_unit \<Rightarrow> i2c_unit" where
  "i2c_store off v u =
     (if off = CTRL_offset then
        (if v AND I2C_HARDSTOP \<noteq> 0 \<and> i_work u = None
         then u \<lparr> i_ctrl := v AND (I2C_CTRL_MASK OR I2C_HARDSTOP), i_work := Some (Stopping (i_lat u)),
                  i_wire := i_wire u @ [Stop] \<rparr>
         else u \<lparr> i_ctrl := v AND (I2C_CTRL_MASK OR I2C_HARDSTOP) \<rparr>)
      else if off = STAT_offset then
        u \<lparr> i_tc := (v AND I2C_TC \<noteq> 0), i_reply := (fst (i_reply u), v AND I2C_AF \<noteq> 0) \<rparr>
      else if off = DATA_offset then
        (if i_work u = None
         then (let w = i2c_after (i_slave u) (ucast v) (i2c_view_of () u)
               in u \<lparr> i_ctrl := ctrl w, i_wire := wire w, i_tc := False,
                     i_reply := (fst (i_reply u), False),
                     i_work := Some (Shift (fst (reply w)) (snd (reply w)) (i_lat u)) \<rparr>)
         else u \<lparr> i_tc := False, i_reply := (fst (i_reply u), False) \<rparr>)
      else u)"

text \<open>The CRC unit: how a byte is shifted into the register, given the control register and the
  polynomial, is a field of the state.\<close>

record crc_unit =
  c_ctrl :: u32
  c_poly :: u32
  c_sreg :: u32
  c_tc :: bool
  c_work :: "(u8 \<times> nat) option"
  c_shift :: "u32 \<Rightarrow> u32 \<Rightarrow> u8 \<Rightarrow> u32 \<Rightarrow> u32"
  c_lat :: nat

definition crc_tick :: "crc_unit \<Rightarrow> crc_unit" where
  "crc_tick u =
     (case c_work u of
        None \<Rightarrow> u
      | Some (d, 0) \<Rightarrow> u \<lparr> c_work := None, c_tc := True,
          c_sreg := c_shift u (c_ctrl u) (c_poly u) d (c_sreg u) \<rparr>
      | Some (d, Suc n) \<Rightarrow> u \<lparr> c_work := Some (d, n) \<rparr>)"

definition crc_load :: "u32 \<Rightarrow> crc_unit \<Rightarrow> u32" where
  "crc_load a u =
     (if a = CRC_CTRL then c_ctrl u
      else if a = CRC_STAT then (if c_tc u then CRC_TC else 0)
      else if a = CRC_POLY then c_poly u
      else if a = CRC_SREG then c_sreg u
      else 0)"

definition crc_store :: "u32 \<Rightarrow> u32 \<Rightarrow> crc_unit \<Rightarrow> crc_unit" where
  "crc_store a v u =
     (if a = CRC_CTRL then u \<lparr> c_ctrl := v \<rparr>
      else if a = CRC_STAT then u \<lparr> c_tc := (v AND CRC_TC \<noteq> 0) \<rparr>
      else if a = CRC_POLY then u \<lparr> c_poly := v \<rparr>
      else if a = CRC_SREG then u \<lparr> c_sreg := v \<rparr>
      else if a = CRC_DATA then u \<lparr> c_tc := False, c_work := Some (ucast v, c_lat u) \<rparr>
      else u)"

section \<open>The machine\<close>

record soc =
  now :: nat
  pace :: "nat \<Rightarrow> nat"
  mem :: "u32 \<Rightarrow> u8"
  io :: "u32 \<Rightarrow> u32"
  csrs :: "u32 \<Rightarrow> u32"
  uart1 :: uart_unit
  spi1 :: spi_unit
  spi2 :: spi_unit
  i2c1 :: i2c_unit
  i2c2 :: i2c_unit
  crc1 :: crc_unit

definition tick :: "soc \<Rightarrow> soc" where
  "tick s = s \<lparr> now := now s + Suc (pace s (now s)), uart1 := uart_tick (uart1 s),
     spi1 := spi_tick (spi1 s), spi2 := spi_tick (spi2 s),
     i2c1 := i2c_tick (i2c1 s), i2c2 := i2c_tick (i2c2 s), crc1 := crc_tick (crc1 s) \<rparr>"

text \<open>The clock in the counter registers: the low and the high half.\<close>

definition low_half :: "nat \<Rightarrow> u32" where
  "low_half t = word_of_nat t"

definition high_half :: "nat \<Rightarrow> u32" where
  "high_half t = word_of_nat (t div 2 ^ 32)"

definition soc_ld32 :: "u32 \<Rightarrow> soc \<Rightarrow> u32 \<times> soc" where
  "soc_ld32 a s =
     (let s = tick s in
      if a < IO_BASE then (mem_word (mem s) a, s)
      else if a AND 0xffffff00 = UART1_BASE \<and> a \<noteq> UART1_BAUD then
        (let (v, u) = uart_load (a - UART1_BASE) (uart1 s) in (v, s \<lparr> uart1 := u \<rparr>))
      else if a AND 0xffffff00 = I2C1_BASE then
        (let (v, u) = i2c_load (a - I2C1_BASE) (i2c1 s) in (v, s \<lparr> i2c1 := u \<rparr>))
      else if a AND 0xffffff00 = I2C2_BASE then
        (let (v, u) = i2c_load (a - I2C2_BASE) (i2c2 s) in (v, s \<lparr> i2c2 := u \<rparr>))
      else if a AND 0xffffff00 = SPI1_BASE then
        (let (v, u) = spi_load (a - SPI1_BASE) (spi1 s) in (v, s \<lparr> spi1 := u \<rparr>))
      else if a AND 0xffffff00 = SPI2_BASE then
        (let (v, u) = spi_load (a - SPI2_BASE) (spi2 s) in (v, s \<lparr> spi2 := u \<rparr>))
      else if a AND 0xffffff00 = CRC_BASE then (crc_load a (crc1 s), s)
      else if a = MTIME then (low_half (now s), s)
      else if a = MTIMEH then (high_half (now s), s)
      else (io s a, s))"

definition soc_st32 :: "u32 \<Rightarrow> u32 \<Rightarrow> soc \<Rightarrow> soc" where
  "soc_st32 a v s =
     (let s = tick s in
      if a < IO_BASE then s \<lparr> mem := put_word a v (mem s) \<rparr>
      else if a AND 0xffffff00 = UART1_BASE \<and> a \<noteq> UART1_BAUD then
        s \<lparr> uart1 := uart_store (a - UART1_BASE) v (uart1 s) \<rparr>
      else if a AND 0xffffff00 = I2C1_BASE then
        s \<lparr> i2c1 := i2c_store (a - I2C1_BASE) v (i2c1 s) \<rparr>
      else if a AND 0xffffff00 = I2C2_BASE then
        s \<lparr> i2c2 := i2c_store (a - I2C2_BASE) v (i2c2 s) \<rparr>
      else if a AND 0xffffff00 = SPI1_BASE then
        s \<lparr> spi1 := spi_store (io s GPIOA_POUT) (a - SPI1_BASE) v (spi1 s) \<rparr>
      else if a AND 0xffffff00 = SPI2_BASE then
        s \<lparr> spi2 := spi_store (io s GPIOA_POUT) (a - SPI2_BASE) v (spi2 s) \<rparr>
      else if a AND 0xffffff00 = CRC_BASE then s \<lparr> crc1 := crc_store a v (crc1 s) \<rparr>
      else s \<lparr> io := (io s)(a := v) \<rparr>)"

text \<open>The units answer only word accesses; a byte or halfword load there gives 0.\<close>

definition soc_ld16 :: "u32 \<Rightarrow> soc \<Rightarrow> u16 \<times> soc" where
  "soc_ld16 a s = (let s = tick s in (if a < IO_BASE then mem_half (mem s) a else 0, s))"

definition soc_st16 :: "u32 \<Rightarrow> u16 \<Rightarrow> soc \<Rightarrow> soc" where
  "soc_st16 a v s =
     (let s = tick s in if a < IO_BASE then s \<lparr> mem := put_half a v (mem s) \<rparr> else s)"

definition soc_ld8 :: "u32 \<Rightarrow> soc \<Rightarrow> u8 \<times> soc" where
  "soc_ld8 a s = (let s = tick s in (if a < IO_BASE then mem s a else 0, s))"

definition soc_st8 :: "u32 \<Rightarrow> u8 \<Rightarrow> soc \<Rightarrow> soc" where
  "soc_st8 a v s =
     (let s = tick s in if a < IO_BASE then s \<lparr> mem := (mem s)(a := v) \<rparr> else s)"

definition soc_csrr :: "u32 \<Rightarrow> soc \<Rightarrow> u32 \<times> soc" where
  "soc_csrr a s =
     (let s = tick s in
      (if a = rdtime \<or> a = rdcycle then low_half (now s)
       else if a = rdtimeh \<or> a = rdcycleh then high_half (now s)
       else csrs s a, s))"

definition soc_csrw :: "u32 \<Rightarrow> u32 \<Rightarrow> soc \<Rightarrow> soc" where
  "soc_csrw a v s = (let s = tick s in s \<lparr> csrs := (csrs s)(a := v) \<rparr>)"

definition soc_bus :: "soc bus" where
  "soc_bus = \<lparr> ld32 = soc_ld32, st32 = soc_st32, ld16 = soc_ld16, st16 = soc_st16,
     ld8 = soc_ld8, st8 = soc_st8, csrr = soc_csrr, csrw = soc_csrw \<rparr>"

lemma soc_bus_simps [simp]:
  "ld32 soc_bus = soc_ld32" "st32 soc_bus = soc_st32" "ld16 soc_bus = soc_ld16"
  "st16 soc_bus = soc_st16" "ld8 soc_bus = soc_ld8" "st8 soc_bus = soc_st8"
  "csrr soc_bus = soc_csrr" "csrw soc_bus = soc_csrw"
  by (simp_all add: soc_bus_def)

lemma tick_simps [simp]:
  "now (tick s) = now s + Suc (pace s (now s))" "pace (tick s) = pace s" "mem (tick s) = mem s"
  "io (tick s) = io s" "csrs (tick s) = csrs s" "uart1 (tick s) = uart_tick (uart1 s)"
  "spi1 (tick s) = spi_tick (spi1 s)" "spi2 (tick s) = spi_tick (spi2 s)"
  "i2c1 (tick s) = i2c_tick (i2c1 s)" "i2c2 (tick s) = i2c_tick (i2c2 s)"
  "crc1 (tick s) = crc_tick (crc1 s)"
  by (simp_all add: tick_def)

section \<open>The machine keeps the contracts of the drivers\<close>

definition aside :: "soc \<Rightarrow> (u32 \<Rightarrow> u8) \<times> (u32 \<Rightarrow> u32) \<times> (u32 \<Rightarrow> u32)" where
  "aside s = (mem s, io s, csrs s)"

text \<open>Accesses to each unit.\<close>

lemma soc_uart [simp]:
  "soc_ld32 UART1_STAT s =
     (let (v, u) = uart_load 4 (uart_tick (uart1 s)) in (v, (tick s) \<lparr> uart1 := u \<rparr>))"
  "soc_ld32 UART1_DATA s =
     (let (v, u) = uart_load 8 (uart_tick (uart1 s)) in (v, (tick s) \<lparr> uart1 := u \<rparr>))"
  "soc_st32 UART1_DATA v s = (tick s) \<lparr> uart1 := uart_store 8 v (uart_tick (uart1 s)) \<rparr>"
  "soc_st32 UART1_STAT v s = (tick s) \<lparr> uart1 := uart_store 4 v (uart_tick (uart1 s)) \<rparr>"
  "soc_st32 UART1_CTRL v s = (tick s) \<lparr> uart1 := uart_store 0 v (uart_tick (uart1 s)) \<rparr>"
  "soc_st32 UART1_BAUD v s = (tick s) \<lparr> io := (io s)(UART1_BAUD := v) \<rparr>"
  by (simp_all add: soc_ld32_def soc_st32_def addr_defs Let_def)

lemma soc_spi [simp]:
  assumes "off = CTRL_offset \<or> off = STAT_offset \<or> off = DATA_offset"
  shows "soc_ld32 (SPI1_BASE + off) s =
      (let (v, u) = spi_load off (spi_tick (spi1 s)) in (v, (tick s) \<lparr> spi1 := u \<rparr>))"
    and "soc_st32 (SPI1_BASE + off) v s =
      (tick s) \<lparr> spi1 := spi_store (io s GPIOA_POUT) off v (spi_tick (spi1 s)) \<rparr>"
    and "soc_ld32 (SPI2_BASE + off) s =
      (let (v, u) = spi_load off (spi_tick (spi2 s)) in (v, (tick s) \<lparr> spi2 := u \<rparr>))"
    and "soc_st32 (SPI2_BASE + off) v s =
      (tick s) \<lparr> spi2 := spi_store (io s GPIOA_POUT) off v (spi_tick (spi2 s)) \<rparr>"
  using assms
  by (elim disjE; simp add: soc_ld32_def soc_st32_def addr_defs Let_def)+

lemma soc_i2c [simp]:
  assumes "off = CTRL_offset \<or> off = STAT_offset \<or> off = DATA_offset"
  shows "soc_ld32 (I2C1_BASE + off) s =
      (let (v, u) = i2c_load off (i2c_tick (i2c1 s)) in (v, (tick s) \<lparr> i2c1 := u \<rparr>))"
    and "soc_st32 (I2C1_BASE + off) v s = (tick s) \<lparr> i2c1 := i2c_store off v (i2c_tick (i2c1 s)) \<rparr>"
    and "soc_ld32 (I2C2_BASE + off) s =
      (let (v, u) = i2c_load off (i2c_tick (i2c2 s)) in (v, (tick s) \<lparr> i2c2 := u \<rparr>))"
    and "soc_st32 (I2C2_BASE + off) v s = (tick s) \<lparr> i2c2 := i2c_store off v (i2c_tick (i2c2 s)) \<rparr>"
  using assms
  by (elim disjE; simp add: soc_ld32_def soc_st32_def addr_defs Let_def)+

subsection \<open>The serial port\<close>

definition uart_ready :: "soc \<Rightarrow> bool" where
  "uart_ready s \<longleftrightarrow> u_ctrl (uart1 s) AND UART_CTRL_EN \<noteq> 0 \<and> u_shift (uart1 s) = None"

definition uart_inp :: "uart_unit \<Rightarrow> u8 list" where
  "uart_inp u = (case u_rx u of None \<Rightarrow> [] | Some c \<Rightarrow> [c]) @ u_line u"

definition uart_sending :: "u8 \<Rightarrow> nat \<Rightarrow> soc \<Rightarrow> soc \<Rightarrow> bool" where
  "uart_sending c n s t \<longleftrightarrow>
     u_ctrl (uart1 t) AND UART_CTRL_EN \<noteq> 0 \<and> u_shift (uart1 t) = Some (c, n) \<and> \<not> u_tc (uart1 t)
     \<and> u_sent (uart1 t) = u_sent (uart1 s) \<and> uart_inp (uart1 t) = uart_inp (uart1 s)
     \<and> aside t = aside s"

definition uart_rxwait :: "uart_unit \<Rightarrow> nat" where
  "uart_rxwait u = (if u_rx u = None then Suc (u_gap u) else 0)"

text \<open>One step of the unit, with the flags of the transmitter and of the receiver apart.\<close>

lemma uart_tick_cases:
  "u_ctrl (uart_tick u) = u_ctrl u"
  "uart_inp (uart_tick u) = uart_inp u"
  "u_shift u = None \<Longrightarrow> u_shift (uart_tick u) = None \<and> u_tc (uart_tick u) = u_tc u
     \<and> u_sent (uart_tick u) = u_sent u"
  "u_shift u = Some (c, 0) \<Longrightarrow> u_shift (uart_tick u) = None \<and> u_tc (uart_tick u)
     \<and> u_sent (uart_tick u) = u_sent u @ [c]"
  "u_shift u = Some (c, Suc n) \<Longrightarrow> u_shift (uart_tick u) = Some (c, n)
     \<and> u_tc (uart_tick u) = u_tc u \<and> u_sent (uart_tick u) = u_sent u"
  "u_rx (uart_tick u) = None \<Longrightarrow> u_rx u = None \<and> (u_line u \<noteq> [] \<longrightarrow> u_gap (uart_tick u) < u_gap u)"
  by (auto simp: uart_tick_def uart_inp_def Let_def split: option.splits prod.splits list.splits nat.splits)

lemma uart_stat_bits:
  "uart_stat u AND UART_STAT_TC = (if u_tc u then UART_STAT_TC else 0)"
  "uart_stat u AND UART_STAT_RC = (if u_rx u = None then 0 else UART_STAT_RC)"
  by (simp_all add: uart_stat_def UART_STAT_TC_def UART_STAT_RC_def)

lemma uart_masks: "UART_STAT_TC \<noteq> 0" "UART_STAT_RC \<noteq> 0"
  by (simp_all add: UART_STAT_TC_def UART_STAT_RC_def)

lemma uart_inp_data: "uart_inp (u \<lparr> u_tc := b, u_shift := x \<rparr>) = uart_inp u"
  by (simp add: uart_inp_def)

lemma uart_load_stat: "uart_load 4 u = (uart_stat u, u)"
  by (simp add: uart_load_def)

lemma uart_load_data:
  "u_rx u = Some c \<Longrightarrow> uart_load 8 u =
    (ucast c, u \<lparr> u_rx := None, u_old := c, u_gap := u_gaps u (length (u_line u)) \<rparr>)"
  by (simp add: uart_load_def)

lemma ucast_and_255: "(ucast (c :: u8) :: u32) AND 255 = ucast c"
proof -
  have "(ucast c :: u32) AND mask 8 = ucast c"
    by (rule bit_word_eqI) (auto simp: bit_simps dest: bit_imp_le_length)
  then show ?thesis by (simp add: mask_eq_exp_minus_1)
qed

interpretation soc_uart: uart_port soc_bus uart_ready "\<lambda>s. u_sent (uart1 s)"
  "\<lambda>s. uart_inp (uart1 s)" aside uart_sending "\<lambda>s. u_rx (uart1 s) \<noteq> None"
  "\<lambda>s. uart_rxwait (uart1 s)"
proof unfold_locales
  fix s v assume "uart_ready s"
  then show "\<exists>n. uart_sending (ucast v) n s (st32 soc_bus UART1_DATA v s)"
    by (auto simp: uart_ready_def uart_sending_def uart_store_def uart_tick_cases aside_def
        uart_inp_data)
next
  fix c n s t v t' assume "uart_sending c (Suc n) s t" "ld32 soc_bus UART1_STAT t = (v, t')"
  then show "v AND UART_STAT_TC = 0 \<and> uart_sending c n s t'"
    by (auto simp: uart_sending_def uart_stat_bits uart_tick_cases aside_def uart_load_stat)
next
  fix c s t v t' assume "uart_sending c 0 s t" "ld32 soc_bus UART1_STAT t = (v, t')"
  then show "v AND UART_STAT_TC \<noteq> 0 \<and> uart_ready t' \<and> u_sent (uart1 t') = u_sent (uart1 s) @ [c]
      \<and> uart_inp (uart1 t') = uart_inp (uart1 s) \<and> aside t' = aside s"
    by (auto simp: uart_sending_def uart_ready_def uart_stat_bits uart_tick_cases aside_def
        uart_load_stat uart_masks)
next
  fix s v s' assume "uart_ready s" "ld32 soc_bus UART1_STAT s = (v, s')"
  then show "uart_ready s' \<and> u_sent (uart1 s') = u_sent (uart1 s)
      \<and> uart_inp (uart1 s') = uart_inp (uart1 s) \<and> aside s' = aside s"
    by (auto simp: uart_ready_def uart_tick_cases aside_def uart_load_stat)
next
  fix s v s' assume "uart_ready s" "ld32 soc_bus UART1_STAT s = (v, s')" "v AND UART_STAT_RC \<noteq> 0"
  then show "u_rx (uart1 s') \<noteq> None \<and> uart_inp (uart1 s) \<noteq> []"
    using uart_tick_cases(2) [of "uart1 s"]
    by (auto simp: uart_stat_bits uart_inp_def uart_load_stat split: if_splits option.splits)
next
  fix s v s' assume "uart_ready s" "ld32 soc_bus UART1_STAT s = (v, s')" "v AND UART_STAT_RC = 0"
    "uart_inp (uart1 s) \<noteq> []"
  then show "uart_rxwait (uart1 s') < uart_rxwait (uart1 s)"
    using uart_tick_cases(6) [of "uart1 s"]
    by (auto simp: uart_stat_bits uart_rxwait_def uart_inp_def uart_load_stat uart_masks split: if_splits)
next
  fix s c cs v s' assume "uart_ready s" "u_rx (uart1 s) \<noteq> None" "uart_inp (uart1 s) = c # cs"
    "ld32 soc_bus UART1_DATA s = (v, s')"
  then show "v AND 255 = ucast c \<and> uart_ready s' \<and> u_sent (uart1 s') = u_sent (uart1 s)
      \<and> uart_inp (uart1 s') = cs \<and> aside s' = aside s"
    using uart_tick_cases(1-3) [of "uart1 s"]  uart_tick_cases(6) [of "uart1 s"]
    by (cases "u_rx (uart_tick (uart1 s))")
      (auto simp: uart_load_data uart_ready_def uart_inp_def aside_def ucast_and_255)
qed

subsection \<open>The SPI units\<close>

definition spi_ready :: "((u32 \<times> u8) list \<Rightarrow> u32 \<times> u8 \<Rightarrow> u8) \<Rightarrow> spi_unit \<Rightarrow> bool" where
  "spi_ready slave u \<longleftrightarrow> s_shift u = None \<and> s_slave u = slave"

definition spi_shifting ::
    "((u32 \<times> u8) list \<Rightarrow> u32 \<times> u8 \<Rightarrow> u8) \<Rightarrow> u32 \<Rightarrow> u8 \<Rightarrow> nat \<Rightarrow> spi_unit \<Rightarrow> spi_unit \<Rightarrow> bool" where
  "spi_shifting slave p c n u w \<longleftrightarrow> s_shift w = Some (p, c, n) \<and> \<not> s_tc w
     \<and> s_sent w = s_sent u \<and> s_slave w = slave"

definition spi_shifted ::
    "((u32 \<times> u8) list \<Rightarrow> u32 \<times> u8 \<Rightarrow> u8) \<Rightarrow> u32 \<Rightarrow> u8 \<Rightarrow> spi_unit \<Rightarrow> spi_unit \<Rightarrow> bool" where
  "spi_shifted slave p c u w \<longleftrightarrow> s_shift w = None \<and> s_data w = slave (s_sent u) (p, c)
     \<and> s_sent w = s_sent u @ [(p, c)] \<and> s_slave w = slave"

lemma spi_start:
  "spi_ready slave u \<Longrightarrow>
    \<exists>n. spi_shifting slave p (ucast v) n u (spi_store p DATA_offset v (spi_tick u))"
  by (simp add: spi_ready_def spi_shifting_def spi_store_def spi_tick_def addr_defs)

lemma spi_busy:
  "spi_shifting slave p c (Suc n) u w \<Longrightarrow> spi_load STAT_offset (spi_tick w) = (v, w') \<Longrightarrow>
    v AND 8 = 0 \<and> spi_shifting slave p c n u w'"
  by (auto simp: spi_shifting_def spi_load_def spi_tick_def addr_defs)

lemma spi_done:
  "spi_shifting slave p c 0 u w \<Longrightarrow> spi_load STAT_offset (spi_tick w) = (v, w') \<Longrightarrow>
    v AND 8 \<noteq> 0 \<and> spi_shifted slave p c u w'"
  by (auto simp: spi_shifting_def spi_shifted_def spi_load_def spi_tick_def addr_defs)

lemma spi_data:
  "spi_shifted slave p c u w \<Longrightarrow> spi_load DATA_offset (spi_tick w) = (v, w') \<Longrightarrow>
    v = ucast (slave (s_sent u) (p, c)) \<and> spi_ready slave w' \<and> s_sent w' = s_sent u @ [(p, c)]"
  by (auto simp: spi_shifted_def spi_ready_def spi_load_def spi_tick_def addr_defs)

interpretation soc_spi1: spi_port soc_bus SPI1_BASE "\<lambda>s. spi_ready slave (spi1 s)"
  "\<lambda>s. s_sent (spi1 s)" "\<lambda>s. io s GPIOA_POUT" slave aside
  "\<lambda>c n s t. spi_shifting slave (io s GPIOA_POUT) c n (spi1 s) (spi1 t) \<and> aside t = aside s"
  "\<lambda>c s t. spi_shifted slave (io s GPIOA_POUT) c (spi1 s) (spi1 t) \<and> aside t = aside s"
  for slave
  by unfold_locales
    (auto simp: aside_def spi_start dest: spi_busy spi_done spi_data split: prod.splits)

interpretation soc_spi2: spi_port soc_bus SPI2_BASE "\<lambda>s. spi_ready slave (spi2 s)"
  "\<lambda>s. s_sent (spi2 s)" "\<lambda>s. io s GPIOA_POUT" slave aside
  "\<lambda>c n s t. spi_shifting slave (io s GPIOA_POUT) c n (spi2 s) (spi2 t) \<and> aside t = aside s"
  "\<lambda>c s t. spi_shifted slave (io s GPIOA_POUT) c (spi2 s) (spi2 t) \<and> aside t = aside s"
  for slave
  by unfold_locales
    (auto simp: aside_def spi_start dest: spi_busy spi_done spi_data split: prod.splits)

subsection \<open>The I2C units\<close>

definition i2c_ready :: "(i2c_event list \<Rightarrow> i2c_event \<Rightarrow> u8 \<times> bool) \<Rightarrow> i2c_unit \<Rightarrow> bool" where
  "i2c_ready slave u \<longleftrightarrow> i_work u = None \<and> i_slave u = slave \<and> i_ctrl u AND I2C_CTRL_MASK = i_ctrl u"

definition i2c_stopping :: "i2c_unit \<Rightarrow> bool" where
  "i2c_stopping u \<longleftrightarrow> (\<exists>n. i_work u = Some (Stopping n))"

definition i2c_shifting ::
    "(i2c_event list \<Rightarrow> i2c_event \<Rightarrow> u8 \<times> bool) \<Rightarrow> u8 \<Rightarrow> nat \<Rightarrow> i2c_unit \<Rightarrow> i2c_unit \<Rightarrow> bool" where
  "i2c_shifting slave c n u w \<longleftrightarrow>
     (let v = i2c_after slave c (i2c_view_of () u)
      in i_ctrl w = ctrl v \<and> i_wire w = wire v \<and> \<not> i_tc w \<and> i_slave w = slave
        \<and> i_work w = Some (Shift (fst (reply v)) (snd (reply v)) n)
        \<and> i_ctrl w AND I2C_CTRL_MASK = i_ctrl w)"

lemma i2c_after_view:
  "i2c_after slave c (i2c_view_of r u) =
    (let v = i2c_after slave c (i2c_view_of () u)
     in \<lparr> ctrl = ctrl v, wire = wire v, tc = tc v, reply = reply v, beside = r \<rparr>)"
  by (simp add: i2c_after_def i2c_view_of_def Let_def)

lemma i2c_after_tc: "tc (i2c_after slave c v)"
  by (simp add: i2c_after_def Let_def)

lemma i2c_after_ctrl:
  "ctrl v AND I2C_CTRL_MASK = ctrl v \<Longrightarrow>
    ctrl (i2c_after slave c v) AND I2C_CTRL_MASK = ctrl (i2c_after slave c v)"
  by (simp add: i2c_after_def Let_def mask_and)

lemma i2c_start:
  "i2c_ready slave u \<Longrightarrow>
    \<exists>n. i2c_shifting slave (ucast v) n u (i2c_store DATA_offset v (i2c_tick u))"
  using i2c_after_ctrl [of "i2c_view_of () u" slave "ucast v"]
  by (simp add: i2c_ready_def i2c_shifting_def i2c_store_def i2c_tick_def addr_defs i2c_view_of_def
      Let_def)

lemma i2c_busy:
  "i2c_shifting slave c (Suc n) u w \<Longrightarrow> i2c_load STAT_offset (i2c_tick w) = (v, w') \<Longrightarrow>
    v AND I2C_TC = 0 \<and> i2c_shifting slave c n u w'"
  by (auto simp: i2c_shifting_def i2c_load_def i2c_tick_def addr_defs Let_def)

lemma i2c_done:
  "i2c_shifting slave c 0 u w \<Longrightarrow> i2c_load STAT_offset (i2c_tick w) = (v, w') \<Longrightarrow>
    v AND I2C_TC \<noteq> 0 \<and> i2c_ready slave w' \<and>
    i2c_view_of r w' = i2c_after slave c (i2c_view_of r u)"
  by (auto simp: i2c_shifting_def i2c_ready_def i2c_load_def i2c_tick_def addr_defs Let_def
      i2c_after_view [of _ _ r] i2c_after_tc) (simp add: i2c_view_of_def)

lemma i2c_tick_ready [simp]: "i2c_ready slave u \<Longrightarrow> i2c_tick u = u"
  by (simp add: i2c_ready_def i2c_tick_def)

lemma i2c_read_ctrl:
  "i2c_load CTRL_offset u = (v, w) \<Longrightarrow> v = i_ctrl u \<and> w = u"
  by (auto simp: i2c_load_def)

lemma i2c_read_stat:
  "i2c_load STAT_offset u = (v, w) \<Longrightarrow>
    (v AND I2C_TC \<noteq> 0) = i_tc u \<and> v AND I2C_AF = (if snd (i_reply u) then I2C_AF else 0) \<and> w = u"
  by (auto simp: i2c_load_def addr_defs split: if_splits)

lemma i2c_read_data:
  "i2c_ready slave u \<Longrightarrow> i2c_load DATA_offset u = (v, w) \<Longrightarrow>
    v = ucast (fst (i_reply u)) \<and> i2c_ready slave w \<and>
    i2c_view_of r w = (i2c_view_of r u) \<lparr> tc := False, reply := (fst (i_reply u), False) \<rparr>"
  by (auto simp: i2c_load_def i2c_ready_def i2c_view_of_def addr_defs)

lemma hardstop_mask: "v AND I2C_HARDSTOP = 0 \<Longrightarrow>
    v AND (I2C_CTRL_MASK OR I2C_HARDSTOP) = v AND I2C_CTRL_MASK"
  by (metis bit.conj_disj_distrib or.right_neutral)

lemma i2c_write_ctrl:
  "i2c_ready slave u \<Longrightarrow> v AND I2C_HARDSTOP = 0 \<Longrightarrow>
    i2c_ready slave (i2c_store CTRL_offset v u) \<and>
    i2c_view_of r (i2c_store CTRL_offset v u) = (i2c_view_of r u) \<lparr> ctrl := v AND I2C_CTRL_MASK \<rparr>"
  by (simp add: i2c_store_def i2c_ready_def i2c_view_of_def hardstop_mask and.assoc)

lemma i2c_write_hardstop:
  "i2c_ready slave u \<Longrightarrow> v AND I2C_HARDSTOP \<noteq> 0 \<Longrightarrow>
    i2c_stopping (i2c_store CTRL_offset v u) \<and> i_tc (i2c_store CTRL_offset v u) = i_tc u \<and>
    i_wire (i2c_store CTRL_offset v u) = i_wire u @ [Stop]"
  by (simp add: i2c_store_def i2c_ready_def i2c_stopping_def)

lemma i2c_stop_stat:
  "i2c_stopping u \<Longrightarrow> i_tc u \<Longrightarrow> i2c_load STAT_offset (i2c_tick u) = (v, w) \<Longrightarrow>
    v AND I2C_TC \<noteq> 0 \<and> i_wire w = i_wire u"
  by (auto simp: i2c_stopping_def i2c_load_def i2c_tick_def addr_defs split: nat.splits)

lemma i2c_view_of_simps [simp]:
  "ctrl (i2c_view_of r u) = i_ctrl u" "wire (i2c_view_of r u) = i_wire u"
  "tc (i2c_view_of r u) = i_tc u" "reply (i2c_view_of r u) = i_reply u"
  "beside (i2c_view_of r u) = r"
  by (simp_all add: i2c_view_of_def)

lemma i2c_view_of_eq:
  "i2c_view_of r u = i2c_view_of r' u' \<longleftrightarrow> i_ctrl u = i_ctrl u' \<and> i_wire u = i_wire u' \<and> i_tc u = i_tc u'
     \<and> i_reply u = i_reply u' \<and> r = r'"
  by (simp add: i2c_view_of_def)

lemmas i2c_laws = i2c_start i2c_busy i2c_done i2c_read_ctrl i2c_read_stat i2c_read_data
  i2c_write_ctrl i2c_write_hardstop i2c_stop_stat

interpretation soc_i2c1: i2c_port soc_bus I2C1_BASE "\<lambda>s. i2c_ready slave (i2c1 s)"
  "\<lambda>s. i2c_stopping (i2c1 s)" "\<lambda>s. i2c_view_of (aside s) (i2c1 s)" slave
  "\<lambda>c n s t. i2c_shifting slave c n (i2c1 s) (i2c1 t) \<and> aside t = aside s"
  for slave
  apply unfold_locales
  subgoal by (auto simp: aside_def dest: i2c_read_ctrl split: prod.splits)
  subgoal for s v using i2c_write_ctrl [of slave "i2c1 s" v "aside s"] by (simp add: aside_def)
  subgoal using i2c_write_hardstop by (simp add: aside_def)
  subgoal by (auto simp: aside_def dest: i2c_stop_stat split: prod.splits)
  subgoal by (auto simp: aside_def dest: i2c_read_stat split: prod.splits)
  subgoal for s v s' using i2c_read_data [of slave "i2c1 s" _ _ "aside s"]
    by (auto simp: aside_def split: prod.splits)
  subgoal using i2c_start by (auto simp: aside_def)
  subgoal by (auto simp: aside_def dest: i2c_busy split: prod.splits)
  subgoal for c s t v t' using i2c_done [of slave c "i2c1 s" "i2c1 t" _ _ "aside s"]
    by (auto simp: aside_def split: prod.splits)
  subgoal by (simp add: i2c_ready_def)
  done

interpretation soc_i2c2: i2c_port soc_bus I2C2_BASE "\<lambda>s. i2c_ready slave (i2c2 s)"
  "\<lambda>s. i2c_stopping (i2c2 s)" "\<lambda>s. i2c_view_of (aside s) (i2c2 s)" slave
  "\<lambda>c n s t. i2c_shifting slave c n (i2c2 s) (i2c2 t) \<and> aside t = aside s"
  for slave
  apply unfold_locales
  subgoal by (auto simp: aside_def dest: i2c_read_ctrl split: prod.splits)
  subgoal for s v using i2c_write_ctrl [of slave "i2c2 s" v "aside s"] by (simp add: aside_def)
  subgoal using i2c_write_hardstop by (simp add: aside_def)
  subgoal by (auto simp: aside_def dest: i2c_stop_stat split: prod.splits)
  subgoal by (auto simp: aside_def dest: i2c_read_stat split: prod.splits)
  subgoal for s v s' using i2c_read_data [of slave "i2c2 s" _ _ "aside s"]
    by (auto simp: aside_def split: prod.splits)
  subgoal using i2c_start by (auto simp: aside_def)
  subgoal by (auto simp: aside_def dest: i2c_busy split: prod.splits)
  subgoal for c s t v t' using i2c_done [of slave c "i2c2 s" "i2c2 t" _ _ "aside s"]
    by (auto simp: aside_def split: prod.splits)
  subgoal by (simp add: i2c_ready_def)
  done

subsection \<open>The CRC unit\<close>

lemma soc_crc [simp]:
  "soc_ld32 CRC_STAT s = (crc_load CRC_STAT (crc_tick (crc1 s)), tick s)"
  "soc_ld32 CRC_SREG s = (crc_load CRC_SREG (crc_tick (crc1 s)), tick s)"
  "soc_st32 CRC_DATA v s = (tick s) \<lparr> crc1 := crc_store CRC_DATA v (crc_tick (crc1 s)) \<rparr>"
  "soc_st32 CRC_CTRL v s = (tick s) \<lparr> crc1 := crc_store CRC_CTRL v (crc_tick (crc1 s)) \<rparr>"
  "soc_st32 CRC_POLY v s = (tick s) \<lparr> crc1 := crc_store CRC_POLY v (crc_tick (crc1 s)) \<rparr>"
  "soc_st32 CRC_SREG v s = (tick s) \<lparr> crc1 := crc_store CRC_SREG v (crc_tick (crc1 s)) \<rparr>"
  by (simp_all add: soc_ld32_def soc_st32_def addr_defs Let_def)

definition crc_ready :: "(u8 \<Rightarrow> u32 \<Rightarrow> u32) \<Rightarrow> crc_unit \<Rightarrow> bool" where
  "crc_ready f u \<longleftrightarrow> c_work u = None \<and> c_shift u (c_ctrl u) (c_poly u) = f"

definition crc_busy :: "(u8 \<Rightarrow> u32 \<Rightarrow> u32) \<Rightarrow> u8 \<Rightarrow> nat \<Rightarrow> crc_unit \<Rightarrow> crc_unit \<Rightarrow> bool" where
  "crc_busy f d n u w \<longleftrightarrow> c_work w = Some (d, n) \<and> \<not> c_tc w \<and> c_sreg w = c_sreg u
     \<and> c_shift w (c_ctrl w) (c_poly w) = f"

lemma crc_registers:
  "crc_load CRC_STAT u = (if c_tc u then CRC_TC else 0)" "crc_load CRC_SREG u = c_sreg u"
  "crc_store CRC_DATA v u = u \<lparr> c_tc := False, c_work := Some (ucast v, c_lat u) \<rparr>"
  "CRC_TC \<noteq> 0"
  by (simp_all add: crc_load_def crc_store_def addr_defs)

interpretation soc_crc: crc_port soc_bus "\<lambda>s. crc_ready f (crc1 s)" "\<lambda>s. c_sreg (crc1 s)" f aside
  "\<lambda>d n s t. crc_busy f d n (crc1 s) (crc1 t) \<and> aside t = aside s"
  for f
  by unfold_locales
    (auto simp: aside_def crc_ready_def crc_busy_def crc_tick_def crc_registers)

subsection \<open>The counters\<close>

text \<open>An access takes at most \<^verbatim>\<open>2^28\<close> cycles.\<close>

definition brisk :: "soc \<Rightarrow> bool" where
  "brisk s \<longleftrightarrow> (\<forall>n. pace s n < 2 ^ 28)"

lemma soc_csrr_clock:
  "soc_csrr rdcycleh s = (high_half (now (tick s)), tick s)"
  "soc_csrr rdcycle s = (low_half (now (tick s)), tick s)"
  "soc_csrr rdtimeh s = (high_half (now (tick s)), tick s)"
  "soc_csrr rdtime s = (low_half (now (tick s)), tick s)"
  by (simp_all add: soc_csrr_def addr_defs Let_def)

lemma brisk_tick:
  "brisk s \<Longrightarrow> brisk (tick s) \<and> now s \<le> now (tick s) \<and> now (tick s) \<le> now s + 2 ^ 28"
  by (simp add: brisk_def Suc_le_eq)

interpretation soc_cycle: counter soc_bus rdcycleh rdcycle brisk now aside "2 ^ 28"
  apply unfold_locales
  subgoal for s using brisk_tick [of s]
    by (auto simp: soc_csrr_clock aside_def high_half_def simp del: tick_simps(1))
  subgoal for s using brisk_tick [of s]
    by (auto simp: soc_csrr_clock aside_def low_half_def simp del: tick_simps(1))
  subgoal by simp
  done

interpretation soc_time: counter soc_bus rdtimeh rdtime brisk now aside "2 ^ 28"
  apply unfold_locales
  subgoal for s using brisk_tick [of s]
    by (auto simp: soc_csrr_clock aside_def high_half_def simp del: tick_simps(1))
  subgoal for s using brisk_tick [of s]
    by (auto simp: soc_csrr_clock aside_def low_half_def simp del: tick_simps(1))
  subgoal by simp
  done

subsection \<open>Memory and the board\<close>

text \<open>What the lamps share their state with: the plain registers and the control and status
  registers.\<close>

definition soc_lamps :: "soc \<Rightarrow> (u32 \<Rightarrow> u32) \<times> (u32 \<Rightarrow> u32)" where
  "soc_lamps s = (io s, csrs s)"

lemma aside_lamps: "aside = (\<lambda>s. (mem s, soc_lamps s))"
  by (simp add: aside_def soc_lamps_def fun_eq_iff)

lemma soc_ram:
  "a < IO_BASE \<Longrightarrow> soc_ld8 a s = (mem s a, tick s)"
  "a < IO_BASE \<Longrightarrow> soc_st8 a v8 s = (tick s) \<lparr> mem := (mem s)(a := v8) \<rparr>"
  "a < IO_BASE \<Longrightarrow> soc_ld16 a s = (mem_half (mem s) a, tick s)"
  "a < IO_BASE \<Longrightarrow> soc_st16 a v16 s = (tick s) \<lparr> mem := put_half a v16 (mem s) \<rparr>"
  "a < IO_BASE \<Longrightarrow> soc_ld32 a s = (mem_word (mem s) a, tick s)"
  "a < IO_BASE \<Longrightarrow> soc_st32 a v32 s = (tick s) \<lparr> mem := put_word a v32 (mem s) \<rparr>"
  by (simp_all add: soc_ld8_def soc_st8_def soc_ld16_def soc_st16_def soc_ld32_def soc_st32_def Let_def)

lemma soc_gpio:
  "soc_ld32 GPIOA_POUT s = (io s GPIOA_POUT, tick s)"
  "soc_st32 GPIOA_POUT v s = (tick s) \<lparr> io := (io s)(GPIOA_POUT := v) \<rparr>"
  by (simp_all add: soc_ld32_def soc_st32_def addr_defs Let_def)

lemma uart_word_enable: "(w AND 511) AND UART_CTRL_EN = w AND UART_CTRL_EN"
  by (simp add: UART_CTRL_EN_def and.assoc)

interpretation soc_board: board soc_bus uart_ready "\<lambda>s. u_sent (uart1 s)" "\<lambda>s. uart_inp (uart1 s)"
  mem soc_lamps uart_sending "\<lambda>s. u_rx (uart1 s) \<noteq> None" "\<lambda>s. uart_rxwait (uart1 s)" IO_BASE
  "\<lambda>l. fst l GPIOA_POUT" "\<lambda>w l. ((fst l)(GPIOA_POUT := w), snd l)"
  "\<lambda>s. u_shift (uart1 s) = None"
proof (intro board.intro board_axioms.intro)
  show "uart_port soc_bus uart_ready (\<lambda>s. u_sent (uart1 s)) (\<lambda>s. uart_inp (uart1 s))
      (\<lambda>s. (mem s, soc_lamps s)) uart_sending (\<lambda>s. u_rx (uart1 s) \<noteq> None)
      (\<lambda>s. uart_rxwait (uart1 s))"
    using soc_uart.uart_port_axioms by (simp add: aside_lamps)
  show "ram_port soc_bus IO_BASE uart_ready mem
      (\<lambda>s. (u_sent (uart1 s), uart_inp (uart1 s), soc_lamps s))"
    by unfold_locales (auto simp: soc_ram soc_csrw_def uart_ready_def uart_tick_cases soc_lamps_def
        Let_def)
qed (auto simp: uart_store_def uart_word_enable soc_ram soc_gpio soc_csrr_def soc_csrw_def uart_ready_def
    uart_tick_cases soc_lamps_def Let_def)

subsection \<open>The SD card\<close>

text \<open>What the SD card driver leaves alone: everything but the second SPI unit and the output port.\<close>

definition sd_aside :: "soc \<Rightarrow> (u32 \<Rightarrow> u8) \<times> (u32 \<Rightarrow> u32) \<times> (u32 \<Rightarrow> u32)" where
  "sd_aside s = (mem s, (io s)(GPIOA_POUT := 0), csrs s)"

lemma spi_idle:
  "spi_ready slave u \<Longrightarrow> spi_ready slave (spi_tick u) \<and> s_sent (spi_tick u) = s_sent u"
  "spi_ready slave u \<Longrightarrow> spi_ready slave (spi_store p CTRL_offset v u)"
  "s_sent (spi_store p CTRL_offset v u) = s_sent u"
  by (auto simp: spi_ready_def spi_tick_def spi_store_def)

interpretation soc_sd: sd_port soc_bus "\<lambda>s. spi_ready slave (spi2 s)"
  "\<lambda>s. s_sent (spi2 s)" "\<lambda>s. io s GPIOA_POUT" slave sd_aside
  "\<lambda>c n s t. spi_shifting slave (io s GPIOA_POUT) c n (spi2 s) (spi2 t) \<and> aside t = aside s"
  "\<lambda>c s t. spi_shifted slave (io s GPIOA_POUT) c (spi2 s) (spi2 t) \<and> aside t = aside s"
  for slave
  by unfold_locales
    (auto simp: aside_def sd_aside_def spi_start soc_gpio spi_idle
      dest: spi_busy spi_done spi_data split: prod.splits)

section \<open>The contracts in terms of the machine\<close>

lemma soc_talks:
  "soc_uart.talks xs ys s t \<longleftrightarrow> uart_ready t \<and> u_sent (uart1 t) = u_sent (uart1 s) @ xs
    \<and> uart_inp (uart1 s) = ys @ uart_inp (uart1 t) \<and> aside t = aside s"
  by (simp add: soc_uart.talks_def)

lemma soc_started:
  "soc_board.started m out t \<longleftrightarrow> u_shift (uart1 t) = None \<and> mem t = m \<and> u_sent (uart1 t) = out"
  by (simp add: soc_board.started_def)

lemma soc_does:
  "soc_board.does m xs ys s t \<longleftrightarrow> uart_ready t \<and> u_sent (uart1 t) = u_sent (uart1 s) @ xs
    \<and> uart_inp (uart1 s) = ys @ uart_inp (uart1 t) \<and> mem t = m"
  by (simp add: soc_board.does_def)

lemma soc_speed: "soc_csrr 0xfc1 s = (csrs s 0xfc1, tick s)"
  by (simp add: soc_csrr_def addr_defs Let_def)

text \<open>Short lists in the examples.\<close>

lemma replicate_2 [simp]: "replicate 2 x = [x, x]"
  by (simp add: numeral_2_eq_2)

text \<open>A machine just after the serial port was enabled, with characters on the line and devices on
  the buses. An example of everything the contracts speak about.\<close>

definition demo_uart :: "u8 list \<Rightarrow> uart_unit" where
  "demo_uart cs = \<lparr> u_ctrl = UART_CTRL_EN, u_shift = None, u_tc = False, u_sent = [], u_rx = None,
     u_old = 0, u_line = cs, u_gap = 2, u_gaps = (\<lambda>n. n + 3), u_lat = 4 \<rparr>"

definition demo_spi :: "((u32 \<times> u8) list \<Rightarrow> u32 \<times> u8 \<Rightarrow> u8) \<Rightarrow> spi_unit" where
  "demo_spi f = \<lparr> s_ctrl = 0, s_tc = False, s_data = 0, s_shift = None, s_sent = [], s_slave = f, s_lat = 2 \<rparr>"

definition demo_i2c :: "(i2c_event list \<Rightarrow> i2c_event \<Rightarrow> u8 \<times> bool) \<Rightarrow> i2c_unit" where
  "demo_i2c f = \<lparr> i_ctrl = 0, i_tc = False, i_reply = (0, False), i_work = None, i_wire = [],
     i_slave = f, i_lat = 3 \<rparr>"

definition demo_soc ::
    "u8 list \<Rightarrow> ((u32 \<times> u8) list \<Rightarrow> u32 \<times> u8 \<Rightarrow> u8) \<Rightarrow> (i2c_event list \<Rightarrow> i2c_event \<Rightarrow> u8 \<times> bool) \<Rightarrow> soc"
    where
  "demo_soc cs f g = \<lparr> now = 0, pace = (\<lambda>t. t mod 5), mem = (\<lambda>_. 0), io = (\<lambda>_. 0), csrs = (\<lambda>_. 0),
     uart1 = demo_uart cs, spi1 = demo_spi f, spi2 = demo_spi f, i2c1 = demo_i2c g, i2c2 = demo_i2c g,
     crc1 = \<lparr> c_ctrl = 0, c_poly = 7, c_sreg = 0, c_tc = False, c_work = None,
       c_shift = (\<lambda>c p d r. (r XOR ucast d) + p), c_lat = 8 \<rparr> \<rparr>"

text \<open>A slave that echoes, and one that acknowledges everything and answers with the number of
  events so far.\<close>

definition echo_slave :: "(u32 \<times> u8) list \<Rightarrow> u32 \<times> u8 \<Rightarrow> u8" where
  "echo_slave h c = snd c"

definition count_slave :: "i2c_event list \<Rightarrow> i2c_event \<Rightarrow> u8 \<times> bool" where
  "count_slave h e = (word_of_nat (length h), False)"

definition absent_slave :: "i2c_event list \<Rightarrow> i2c_event \<Rightarrow> u8 \<times> bool" where
  "absent_slave h e = (0xff, True)"

definition demo :: "u8 list \<Rightarrow> soc" where
  "demo cs = demo_soc cs echo_slave count_slave"

lemma demo_simps [simp]:
  "uart_ready (demo_soc cs f g)" "u_sent (uart1 (demo_soc cs f g)) = []"
  "uart_inp (uart1 (demo_soc cs f g)) = cs" "mem (demo_soc cs f g) = (\<lambda>_. 0)"
  "io (demo_soc cs f g) = (\<lambda>_. 0)" "now (demo_soc cs f g) = 0" "brisk (demo_soc cs f g)"
  "spi_ready f (spi1 (demo_soc cs f g))" "s_sent (spi1 (demo_soc cs f g)) = []"
  "spi_ready f (spi2 (demo_soc cs f g))" "s_sent (spi2 (demo_soc cs f g)) = []"
  "i2c_ready g (i2c1 (demo_soc cs f g))" "i_wire (i2c1 (demo_soc cs f g)) = []"
  "i_ctrl (i2c1 (demo_soc cs f g)) = 0"
  "uart_rxwait (uart1 (demo_soc cs f g)) = 3"
  by (simp_all add: demo_soc_def demo_uart_def demo_spi_def demo_i2c_def uart_ready_def uart_inp_def
      spi_ready_def i2c_ready_def brisk_def uart_rxwait_def UART_CTRL_EN_def
      order.strict_trans1 [OF less_imp_le [OF mod_less_divisor]])

end
