(* ===== verification/Srec.thy ===== *)
theory Srec
  imports Records
begin

text \<open>
  The table generators of the tool chain, \<^verbatim>\<open>sw/srec2vhdl/srec2vhdl.c\<close> and
  \<^verbatim>\<open>sw/srec2mif/srec2mif.c\<close>: they read a file of S-records into an array of bytes and write it as a
  table of words. The two programs share their reading part line for line. The host is a record:
  the result of \<^verbatim>\<open>getopt\<close> and the remaining arguments, the files that can be opened, the date, and
  the bytes that happen to be in the line buffer at the start, since \<^verbatim>\<open>hex2\<close> can read behind the
  end of a line. \<^verbatim>\<open>unsigned long\<close> has 64 bits and \<^verbatim>\<open>char\<close> is signed, as on the Linux hosts.
\<close>

section \<open>Hexadecimal fields\<close>

definition LEN_BUFFER :: nat where "LEN_BUFFER = 1000"
definition LEN_CODE :: nat where "LEN_CODE = 10000000"

text \<open>\<^verbatim>\<open>buffer[k] - efkes\<close> for a character that has been converted to upper case.\<close>

definition hex_digit :: "u8 \<Rightarrow> u64" where
  "hex_digit c = (let efkes = (if 65 \<le> sint c then 65 - 10 else 48) in scast c - efkes)"

text \<open>The value of two characters at position \<open>p\<close>, and the buffer with them in upper case.\<close>

definition hex2 :: "u8 list \<Rightarrow> nat \<Rightarrow> (u64 \<times> u8 list) option" where
  "hex2 buffer p =
     (if p + 1 < length buffer then
        let buffer = buffer[p := toupper (buffer ! p)];
            buffer = buffer[p + 1 := toupper (buffer ! (p + 1))];
            val = push_bit 4 (hex_digit (buffer ! p)) + hex_digit (buffer ! (p + 1))
        in Some (val, buffer)
      else None)"

definition hex4 :: "u8 list \<Rightarrow> nat \<Rightarrow> (u64 \<times> u8 list) option" where
  "hex4 buffer p =
     do { (v0, buffer) \<leftarrow> hex2 buffer p;
          (v1, buffer) \<leftarrow> hex2 buffer (p + 2);
          Some (push_bit 8 v0 + v1, buffer) }"

definition hex6 :: "u8 list \<Rightarrow> nat \<Rightarrow> (u64 \<times> u8 list) option" where
  "hex6 buffer p =
     do { (v0, buffer) \<leftarrow> hex2 buffer p;
          (v1, buffer) \<leftarrow> hex2 buffer (p + 2);
          (v2, buffer) \<leftarrow> hex2 buffer (p + 4);
          Some (push_bit 16 v0 + push_bit 8 v1 + v2, buffer) }"

definition hex8 :: "u8 list \<Rightarrow> nat \<Rightarrow> (u64 \<times> u8 list) option" where
  "hex8 buffer p =
     do { (v0, buffer) \<leftarrow> hex2 buffer p;
          (v1, buffer) \<leftarrow> hex2 buffer (p + 2);
          (v2, buffer) \<leftarrow> hex2 buffer (p + 4);
          (v3, buffer) \<leftarrow> hex2 buffer (p + 6);
          Some (push_bit 24 v0 + push_bit 16 v1 + push_bit 8 v2 + v3, buffer) }"

section \<open>Formats\<close>

text \<open>\<^verbatim>\<open>%4d\<close>, \<^verbatim>\<open>%0nlx\<close> and \<^verbatim>\<open>%0nX\<close> for numbers that are not negative.\<close>

fun hexdigits :: "nat \<Rightarrow> nat" where
  "hexdigits v = (if v < 16 then 1 else Suc (hexdigits (v div 16)))"

declare hexdigits.simps [simp del]

definition fmt_d :: "nat \<Rightarrow> nat \<Rightarrow> u8 list" where
  "fmt_d n v = replicate (n - length (decstr v)) 32 @ decstr v"

definition fmt_x :: "nat \<Rightarrow> nat \<Rightarrow> u8 list" where
  "fmt_x n v = hexstr (max n (hexdigits v)) v"

definition fmt_X :: "nat \<Rightarrow> nat \<Rightarrow> u8 list" where
  "fmt_X n v = map toupper (fmt_x n v)"

section \<open>Reading\<close>

text \<open>The variables of the reading loop: \<^verbatim>\<open>line\<close>, \<^verbatim>\<open>address\<close>, \<^verbatim>\<open>offset\<close>, \<^verbatim>\<open>first\<close>, the array \<^verbatim>\<open>code\<close> of
  \<open>LEN_CODE\<close> bytes, the line buffer, and what has been written to \<^verbatim>\<open>stderr\<close>.\<close>

record reader =
  r_line :: nat
  r_address :: u64
  r_offset :: u64
  r_first :: bool
  r_code :: "nat \<Rightarrow> u8"
  r_buffer :: "u8 list"
  r_err :: "u8 list"

definition say :: "u8 list \<Rightarrow> reader \<Rightarrow> reader" where
  "say t r = r \<lparr> r_err := r_err r @ t \<rparr>"

definition say_if :: "bool \<Rightarrow> u8 list \<Rightarrow> reader \<Rightarrow> reader" where
  "say_if verbose t r = (if verbose then say t r else r)"

text \<open>\<^verbatim>\<open>for (i = 0; i < val; i++)\<close> over the bytes of a record, \<open>k\<close> turns left, at position \<open>p\<close>. A
  store outside of \<^verbatim>\<open>code\<close> is undefined.\<close>

fun code_loop :: "nat \<Rightarrow> nat \<Rightarrow> reader \<Rightarrow> reader option" where
  "code_loop 0 p r = Some r"
| "code_loop (Suc k) p r =
     do { (byte, buf) \<leftarrow> hex2 (r_buffer r) p;
          let a = unat (r_address r - r_offset r);
          r \<leftarrow> (if a < LEN_CODE then Some (r \<lparr> r_buffer := buf, r_code := (r_code r)(a := ucast byte) \<rparr>)
                else None);
          code_loop k (p + 2) (r \<lparr> r_address := r_address r + 1 \<rparr>) }"

text \<open>A data record with an address of \<open>w\<close> bytes: cases 1, 2 and 3 of the switch.\<close>

definition code_record :: "bool \<Rightarrow> nat \<Rightarrow> reader \<Rightarrow> reader option" where
  "code_record verbose w r =
     do { (val, buf) \<leftarrow> hex2 (r_buffer r) 2;
          let val = val - word_of_nat (w + 1);
          (address, buf) \<leftarrow> (if w = 2 then hex4 buf 4 else if w = 3 then hex6 buf 4 else hex8 buf 4);
          let r = r \<lparr> r_buffer := buf, r_address := address \<rparr>;
          let r = (if r_first r then
                     say_if verbose (str ''Offset: 0x'' @ fmt_x 8 (unat address) @ [10])
                       (r \<lparr> r_offset := address, r_first := False \<rparr>)
                   else r);
          code_loop (unat val) (4 + 2 * w) r }"

fun vendor_loop :: "nat \<Rightarrow> nat \<Rightarrow> reader \<Rightarrow> reader option" where
  "vendor_loop 0 p r = Some r"
| "vendor_loop (Suc k) p r =
     do { (c, buf) \<leftarrow> hex2 (r_buffer r) p;
          vendor_loop k (p + 2) (say [ucast c] (r \<lparr> r_buffer := buf \<rparr>)) }"

definition vendor_record :: "bool \<Rightarrow> reader \<Rightarrow> reader option" where
  "vendor_record verbose r =
     do { (val, buf) \<leftarrow> hex2 (r_buffer r) 2;
          let val = val - 3;
          let r = r \<lparr> r_buffer := buf \<rparr>;
          if verbose then
            do { r \<leftarrow> vendor_loop (unat val) 8 (say (str ''Vendor text: '') r); Some (say [10] r) }
          else Some r }"

text \<open>What is done with the line in the buffer.\<close>

definition read_line_record :: "bool \<Rightarrow> reader \<Rightarrow> reader option" where
  "read_line_record verbose r =
     (let r = r \<lparr> r_line := r_line r + 1 \<rparr>;
          c = r_buffer r ! 1
      in if r_buffer r ! 0 \<noteq> ch (CHR ''S'') then
           Some (say (str ''Not an S-record in line '' @ decstr (r_line r) @ str ''!'' @ [10]) r)
         else if c = ch (CHR ''0'') then vendor_record verbose r
         else if c = ch (CHR ''1'') then code_record verbose 2 r
         else if c = ch (CHR ''2'') then code_record verbose 3 r
         else if c = ch (CHR ''3'') then code_record verbose 4 r
         else if c = ch (CHR ''4'') then Some (say_if verbose (str ''Reserved S-record'' @ [10]) r)
         else if c = ch (CHR ''5'') \<or> c = ch (CHR ''6'') then
           Some (say_if verbose (str ''Optional count record skipped'' @ [10]) r)
         else if c = ch (CHR ''7'') \<or> c = ch (CHR ''8'') \<or> c = ch (CHR ''9'') then
           Some (say_if verbose (str ''Termination record'' @ [10]) r)
         else Some (say_if verbose (str ''Invalid S-record in line '' @ decstr (r_line r) @ [10]) r))"

text \<open>\<^verbatim>\<open>fgets\<close>: at most \<open>n\<close> characters, up to and with the first line feed.\<close>

fun chunk :: "nat \<Rightarrow> u8 list \<Rightarrow> u8 list \<times> u8 list" where
  "chunk 0 cs = ([], cs)"
| "chunk (Suc n) [] = ([], [])"
| "chunk (Suc n) (c # cs) = (if c = 10 then ([c], cs) else let (l, rest) = chunk n cs in (c # l, rest))"

definition fill :: "u8 list \<Rightarrow> u8 list \<Rightarrow> u8 list" where
  "fill l buffer = l @ 0 # drop (length l + 1) buffer"

lemma chunk_length: "chunk n cs = (l, rest) \<Longrightarrow> length rest = length cs - length l \<and> length l \<le> n"
  by (induction n cs arbitrary: l rule: chunk.induct) (auto split: if_splits prod.splits)

lemma chunk_nonempty: "chunk n cs = (l, rest) \<Longrightarrow> 0 < n \<Longrightarrow> cs \<noteq> [] \<Longrightarrow> l \<noteq> []"
  by (induction n cs arbitrary: l rule: chunk.induct) (auto split: if_splits prod.splits)

text \<open>\<^verbatim>\<open>while (fgets(buffer, LEN_BUFFER, fp) != NULL)\<close>\<close>

function read_file :: "bool \<Rightarrow> u8 list \<Rightarrow> reader \<Rightarrow> reader option" where
  "read_file verbose [] r = Some r"
| "read_file verbose (c # cs) r =
     (let (l, rest) = chunk (LEN_BUFFER - 1) (c # cs)
      in do { r \<leftarrow> read_line_record verbose (r \<lparr> r_buffer := fill l (r_buffer r) \<rparr>);
              read_file verbose rest r })"
  by pat_completeness auto
termination
proof (relation "measure (\<lambda>(v, cs, r). length cs)", goal_cases)
  case 1
  then show ?case by simp
next
  case (2 verbose c cs r x l rest r')
  then have "chunk (LEN_BUFFER - 1) (c # cs) = (l, rest)" by simp
  from chunk_length [OF this] chunk_nonempty [OF this] show ?case
    by (cases l) (auto simp: LEN_BUFFER_def)
qed

declare read_file.simps [simp del]

section \<open>Writing\<close>

text \<open>Reading \<^verbatim>\<open>code\<close> outside of the array is undefined.\<close>

definition getc :: "(nat \<Rightarrow> u8) \<Rightarrow> nat \<Rightarrow> u8 option" where
  "getc code a = (if a < LEN_CODE then Some (code a) else None)"

text \<open>The options of both programs; \<^verbatim>\<open>srec2mif\<close> has only \<open>o_verbose\<close>, \<open>o_rev\<close> and \<open>o_size\<close>.\<close>

record options =
  o_full :: bool
  o_indent :: bool
  o_indentarg :: int
  o_verbose :: bool
  o_rev :: bool
  o_size :: nat
  o_unused :: u8
  o_writeunused :: bool
  o_asboot :: bool

definition BYTE :: nat where "BYTE = 1"
definition HALFWORD :: nat where "HALFWORD = 2"
definition WORD :: nat where "WORD = 4"
definition DWORD :: nat where "DWORD = 8"

definition sizes :: "nat list" where
  "sizes = [BYTE, HALFWORD, WORD, DWORD]"

text \<open>The bytes of the word at \<open>i\<close> in the order in which they are printed.\<close>

definition cells :: "options \<Rightarrow> (nat \<Rightarrow> u8) \<Rightarrow> nat \<Rightarrow> u8 list option" where
  "cells opts code i =
     do { bs \<leftarrow> those (map (getc code) [i ..< i + o_size opts]);
          Some (if o_rev opts then rev bs else bs) }"

definition spaces :: "options \<Rightarrow> u8 list" where
  "spaces opts = (if o_indent opts then replicate (nat (o_indentarg opts)) 32 else [])"

text \<open>One row of the table: what goes to the output and what goes to \<^verbatim>\<open>stderr\<close>.\<close>

definition vhdl_row :: "options \<Rightarrow> (nat \<Rightarrow> u8) \<Rightarrow> nat \<Rightarrow> u64 \<Rightarrow> (u8 list \<times> u8 list) option" where
  "vhdl_row opts code i address =
     do { (t, e) \<leftarrow> (if o_size opts \<in> set sizes then
                     do { bs \<leftarrow> cells opts code i;
                          Some (fmt_d 4 (i div o_size opts) @ str '' => x'' @ [34]
                            @ concat (map (\<lambda>c. fmt_x 2 (unat c)) bs) @ [34], []) }
                   else Some ([], str ''BUG:: size unknown'' @ [10]));
          Some (spaces opts @ t
            @ (if word_of_nat i < address - word_of_nat (o_size opts) \<or> o_writeunused opts
               then str '','' else []) @ [10], e) }"

definition mif_row :: "options \<Rightarrow> (nat \<Rightarrow> u8) \<Rightarrow> nat \<Rightarrow> u64 \<Rightarrow> (u8 list \<times> u8 list) option" where
  "mif_row opts code i address =
     do { (t, e) \<leftarrow> (if o_size opts \<in> set sizes then
                     do { bs \<leftarrow> cells opts code i;
                          Some (fmt_X 4 (i div o_size opts) @ str '' : ''
                            @ concat (map (\<lambda>c. fmt_X 2 (unat c)) bs) @ str '';'', []) }
                   else Some ([], str ''BUG:: size unknown'' @ [10]));
          Some (t @ [10], e) }"

text \<open>\<^verbatim>\<open>for (i = 0; i < address; i = i + size)\<close> with \<open>k\<close> turns left: \<open>address\<close> is a multiple of the
  size.\<close>

fun table_loop :: "(nat \<Rightarrow> (u8 list \<times> u8 list) option) \<Rightarrow> nat \<Rightarrow> nat \<Rightarrow> nat \<Rightarrow> (u8 list \<times> u8 list) option" where
  "table_loop row sz 0 i = Some ([], [])"
| "table_loop row sz (Suc k) i =
     do { (t, e) \<leftarrow> row i; (t', e') \<leftarrow> table_loop row sz k (i + sz); Some (t @ t', e @ e') }"

text \<open>The length of the data, cut to the size of the array, and aligned to the word size.\<close>

definition data_length :: "reader \<Rightarrow> u64 \<times> u8 list" where
  "data_length r =
     (let address = r_address r - r_offset r
      in if word_of_nat LEN_CODE < address then
           (word_of_nat LEN_CODE, str ''Warning: internal buffer too small, not exporting all data!'' @ [10])
         else (address, []))"

definition align :: "nat \<Rightarrow> u64 \<Rightarrow> u64" where
  "align sz address = (address + word_of_nat sz - 1) AND NOT (word_of_nat sz - 1)"

section \<open>Options\<close>

text \<open>\<^verbatim>\<open>atoi\<close>: white space, a sign, digits. A number that does not fit has no defined value; the model
  gives it unbounded.\<close>

definition atoi :: "u8 list \<Rightarrow> int" where
  "atoi t =
     (let t = dropWhile isspace t;
          neg = (t \<noteq> [] \<and> hd t = ch (CHR ''-''));
          t = (if t \<noteq> [] \<and> (hd t = ch (CHR ''-'') \<or> hd t = ch (CHR ''+'')) then tl t else t);
          v = int (decval (takeWhile isdigit t))
      in if neg then - v else v)"

definition vhdl_defaults :: options where
  "vhdl_defaults = \<lparr> o_full = False, o_indent = False, o_indentarg = 0, o_verbose = False,
     o_rev = False, o_size = BYTE, o_unused = ch (CHR ''-''), o_writeunused = False, o_asboot = False \<rparr>"

definition vhdl_option :: "u8 \<times> u8 list \<Rightarrow> options \<Rightarrow> options option" where
  "vhdl_option oa p =
     (case oa of (opt, optarg) \<Rightarrow>
      if opt = ch (CHR ''f'') then Some (p \<lparr> o_full := True, o_indent := True, o_indentarg := 8 \<rparr>)
      else if opt = ch (CHR ''i'') then Some (p \<lparr> o_indentarg := atoi optarg, o_indent := True \<rparr>)
      else if opt = ch (CHR ''v'') then Some (p \<lparr> o_verbose := True \<rparr>)
      else if opt = ch (CHR ''r'') then Some (p \<lparr> o_rev := True \<rparr>)
      else if opt = ch (CHR ''b'') then Some (p \<lparr> o_size := BYTE \<rparr>)
      else if opt = ch (CHR ''h'') then Some (p \<lparr> o_size := HALFWORD \<rparr>)
      else if opt = ch (CHR ''w'') then Some (p \<lparr> o_size := WORD \<rparr>)
      else if opt = ch (CHR ''d'') then Some (p \<lparr> o_size := DWORD \<rparr>)
      else if opt = ch (CHR ''q'') then
        Some (p \<lparr> o_verbose := False, o_writeunused := True, o_unused := ch (CHR ''-'') \<rparr>)
      else if opt = ch (CHR ''x'') then Some (p \<lparr> o_writeunused := True, o_unused := ch (CHR ''-'') \<rparr>)
      else if opt = ch (CHR ''0'') then Some (p \<lparr> o_writeunused := True, o_unused := ch (CHR ''0'') \<rparr>)
      else if opt = ch (CHR ''B'') then Some (p \<lparr> o_asboot := True \<rparr>)
      else None)"

definition mif_defaults :: options where
  "mif_defaults = vhdl_defaults \<lparr> o_full := True \<rparr>"

definition mif_option :: "u8 \<times> u8 list \<Rightarrow> options \<Rightarrow> options option" where
  "mif_option oa p =
     (case oa of (opt, optarg) \<Rightarrow>
      if opt = ch (CHR ''r'') then Some (p \<lparr> o_rev := True \<rparr>)
      else if opt = ch (CHR ''v'') then Some (p \<lparr> o_verbose := True \<rparr>)
      else if opt = ch (CHR ''b'') then Some (p \<lparr> o_size := BYTE \<rparr>)
      else if opt = ch (CHR ''h'') then Some (p \<lparr> o_size := HALFWORD \<rparr>)
      else if opt = ch (CHR ''w'') then Some (p \<lparr> o_size := WORD \<rparr>)
      else if opt = ch (CHR ''d'') then Some (p \<lparr> o_size := DWORD \<rparr>)
      else None)"

text \<open>The loop over the options; \<open>None\<close> is the exit with a failure.\<close>

fun parse_options ::
    "(u8 \<times> u8 list \<Rightarrow> 'p \<Rightarrow> 'p option) \<Rightarrow> (u8 \<times> u8 list) list \<Rightarrow> 'p \<Rightarrow> 'p option" where
  "parse_options step [] p = Some p"
| "parse_options step (oa # oas) p = do { p \<leftarrow> step oa p; parse_options step oas p }"

section \<open>The programs\<close>

text \<open>
  The host: \<^verbatim>\<open>argc\<close>, the options as \<^verbatim>\<open>getopt\<close> returns them with their arguments (a question mark for
  an unknown one), the other arguments, \<^verbatim>\<open>argv[1]\<close>, whether \<^verbatim>\<open>calloc\<close> succeeds, the files that can be
  read and written, \<^verbatim>\<open>ctime\<close>'s text, and the initial bytes of the line buffer.
\<close>

record host =
  h_argc :: nat
  h_opts :: "(u8 \<times> u8 list) list"
  h_names :: "u8 list list"
  h_argv1 :: "u8 list"
  h_memory :: bool
  h_file :: "u8 list \<Rightarrow> u8 list option"
  h_writable :: "u8 list \<Rightarrow> bool"
  h_date :: "u8 list"
  h_stack :: "u8 list"

text \<open>What a run leaves: the exit status, \<^verbatim>\<open>stdout\<close>, \<^verbatim>\<open>stderr\<close>, and the file written.\<close>

record run =
  exit_status :: int
  to_stdout :: "u8 list"
  to_stderr :: "u8 list"
  to_file :: "(u8 list \<times> u8 list) option"

definition failed :: "u8 list \<Rightarrow> run" where
  "failed e = \<lparr> exit_status = 1, to_stdout = [], to_stderr = e, to_file = None \<rparr>"

definition ended :: "u8 list option \<Rightarrow> u8 list \<Rightarrow> u8 list \<Rightarrow> run" where
  "ended out t e = (case out of
      None \<Rightarrow> \<lparr> exit_status = 0, to_stdout = t, to_stderr = e, to_file = None \<rparr>
    | Some f \<Rightarrow> \<lparr> exit_status = 0, to_stdout = [], to_stderr = e, to_file = Some (f, t) \<rparr>)"

definition ln :: "string \<Rightarrow> u8 list" where
  "ln t = str t @ [10]"

text \<open>The array is allocated and the files are opened: the message of the failure, or the name and the
  contents of the input, the name of the output, and a message.\<close>

definition open_files ::
    "host \<Rightarrow> bool \<Rightarrow> u8 list + (u8 list \<times> u8 list \<times> u8 list option \<times> u8 list)" where
  "open_files h verbose =
     (if \<not> h_memory h then Inl (ln ''Cannot allocate memory'')
      else case h_names h of
        [] \<Rightarrow> Inl (ln ''Please supply an input filename'')
      | iname # outs \<Rightarrow>
          (case h_file h iname of
             None \<Rightarrow> Inl (str ''Cannot open input file '' @ h_argv1 h @ [10])
           | Some text \<Rightarrow>
               (case outs of
                  [] \<Rightarrow> Inr (iname, text, None, if verbose then ln ''Using stdout'' else [])
                | oname # _ \<Rightarrow>
                    if iname = oname then Inl (ln ''Input filename and output filename cannot be the same'')
                    else if \<not> h_writable h oname then Inl (str ''Cannot open output file '' @ oname @ [10])
                    else Inr (iname, text, Some oname, []))))"

definition start_reader :: "host \<Rightarrow> u8 list \<Rightarrow> reader" where
  "start_reader h e = \<lparr> r_line = 0, r_address = 0, r_offset = 0, r_first = True, r_code = (\<lambda>_. 0),
     r_buffer = h_stack h, r_err = e \<rparr>"

definition transformed :: "options \<Rightarrow> u64 \<Rightarrow> u8 list" where
  "transformed p address =
     (if o_verbose p then str ''Transformed '' @ decstr (unat address) @ str '' bytes.'' @ [10] else [])"

subsection \<open>srec2vhdl\<close>

definition vhdl_usage :: "u8 list" where
  "vhdl_usage = ln ''srec2vhdl v0.5.2 -- an S-record to VHDL table converter''
     @ ln ''Usage: srec2vhdl [-fvqbhwd0xB] [-i <arg>] inputfile [outputfile]''
     @ ln ''   -f        Full table output''
     @ ln ''   -i <arg>  Indent by <arg> spaces''
     @ ln ''   -v        Verbose''
     @ ln ''   -q        Quiet. Only errors are reported''
     @ ln ''   -b        Byte output (default)''
     @ ln ''   -h        Halfword output (16 bits, Little Endian)''
     @ ln ''   -w        Word output (32 bits, Little Endian)''
     @ ln ''   -d        Double word output (64 bits, Little Endian)''
     @ str ''   -0        Output unused data as 0'' @ [39] @ ln ''s''
     @ str ''   -x        Output unused data as don'' @ [39] @ ln ''t care''
     @ ln ''   -B        Output as bootloader ROM''
     @ ln ''   -r        Reverse output (half word, word and double word only)'' @ [10]
     @ ln ''If outputfile is omitted, stdout is used''
     @ str ''Program size must be less then '' @ decstr (LEN_CODE div 1000000) @ ln '' MB'' @ [10]
     @ ln ''The address of the first record is used as an offset''
     @ ln ''so that the first record starts at vector element 0.''"

definition vhdl_head :: "options \<Rightarrow> u8 list \<Rightarrow> u8 list \<Rightarrow> u8 list" where
  "vhdl_head p name date =
     (if o_full p then
        ln ''-- srec2vhdl table generator''
        @ str ''-- for input file '' @ [39] @ name @ [39, 10]
        @ str ''-- date: '' @ date @ [10, 10]
        @ ln ''library ieee;'' @ ln ''use ieee.std_logic_1164.all;'' @ [10]
        @ ln ''library work;'' @ ln ''use work.processor_common.all;'' @ [10]
        @ (if o_asboot p then
             ln ''package bootrom_image is'' @ ln ''    constant bootrom_contents : memory_type := (''
           else ln ''package rom_image is'' @ ln ''    constant rom_contents : memory_type := ('')
      else [])"

definition vhdl_foot :: "options \<Rightarrow> u8 list" where
  "vhdl_foot p = spaces p
     @ (if o_writeunused p then str ''others => (others => '' @ [39, o_unused p, 39] @ ln '')'' else [])
     @ ln ''    );''
     @ (if o_full p then
          (if o_asboot p then ln ''end package bootrom_image;'' else ln ''end package rom_image;'')
        else [])"

text \<open>Everything after the reading loop: the output after the head, and what goes to \<^verbatim>\<open>stderr\<close>.\<close>

definition vhdl_table :: "options \<Rightarrow> reader \<Rightarrow> (u8 list \<times> u8 list) option" where
  "vhdl_table p r =
     (let (address, w) = data_length r;
          address = align (o_size p) address
      in do { (t, e) \<leftarrow> table_loop (\<lambda>i. vhdl_row p (r_code r) i address) (o_size p)
                          (unat address div o_size p) 0;
              Some (t @ vhdl_foot p, w @ e @ transformed p address) })"

definition srec2vhdl :: "host \<Rightarrow> run option" where
  "srec2vhdl h =
     (if h_argc h = 1 then Some (ended None vhdl_usage [])
      else case parse_options vhdl_option (h_opts h) vhdl_defaults of
        None \<Rightarrow> Some (failed [])
      | Some p \<Rightarrow>
          (let banner = (if o_verbose p then ln ''srec2vhdl v0.5.2 '' @ ln ''S-record to VHDL converter'' else [])
           in case open_files h (o_verbose p) of
             Inl e \<Rightarrow> Some (failed (banner @ e))
           | Inr (name, text, out, e) \<Rightarrow>
               do { r \<leftarrow> read_file (o_verbose p) text (start_reader h (banner @ e));
                    (t, e) \<leftarrow> vhdl_table p r;
                    Some (ended out (vhdl_head p name (h_date h) @ t) (r_err r @ e)) }))"

subsection \<open>srec2mif\<close>

definition mif_usage :: "u8 list" where
  "mif_usage = ln ''srec2mif v0.2.1 -- an S-record to MIF table converter''
     @ ln ''Usage: srec2mif [-vqbhwd] inputfile [outputfile]''
     @ ln ''   -v        Verbose''
     @ ln ''   -q        Quiet. Only errors are reported''
     @ ln ''   -b        Byte output (default)''
     @ ln ''   -h        Halfword output (16 bits, Little Endian)''
     @ ln ''   -w        Word output (32 bits, Little Endian)''
     @ ln ''   -d        Double word output (64 bits, Little Endian)''
     @ ln ''   -r        Reverse output (half word, word and double word only)'' @ [10]
     @ ln ''If outputfile is omitted, stdout is used''
     @ str ''Program size must be less then '' @ decstr (LEN_CODE div 1000000) @ ln '' MB'' @ [10]
     @ ln ''The address of the first record is used as an offset''
     @ ln ''so that the first record starts at address 0.''"

definition mif_head :: "options \<Rightarrow> u8 list \<Rightarrow> u8 list \<Rightarrow> u64 \<Rightarrow> u8 list" where
  "mif_head p name date address =
     (if o_full p then
        ln ''-- srec2mif table generator''
        @ str ''-- for input file '' @ [39] @ name @ [39, 10]
        @ str ''-- date: '' @ date @ [10, 10]
      else [])
     @ str ''DEPTH = '' @ decstr (unat (address div word_of_nat (o_size p))) @ ln '';''
     @ str ''WIDTH = '' @ decstr (o_size p * 8) @ ln '';''
     @ ln ''ADDRESS_RADIX = HEX;'' @ ln ''DATA_RADIX = HEX;'' @ [10] @ ln ''CONTENT'' @ ln ''BEGIN''"

definition mif_table :: "options \<Rightarrow> u8 list \<Rightarrow> u8 list \<Rightarrow> reader \<Rightarrow> (u8 list \<times> u8 list) option" where
  "mif_table p name date r =
     (let (len, w) = data_length r;
          address = align (o_size p) len
      in do { (t, e) \<leftarrow> table_loop (\<lambda>i. mif_row p (r_code r) i address) (o_size p)
                          (unat address div o_size p) 0;
              Some (mif_head p name date len @ t @ (if o_full p then ln ''END;'' else []),
                w @ e @ transformed p address) })"

definition srec2mif :: "host \<Rightarrow> run option" where
  "srec2mif h =
     (if h_argc h = 1 then Some (ended None mif_usage [])
      else case parse_options mif_option (h_opts h) mif_defaults of
        None \<Rightarrow> Some (failed [])
      | Some p \<Rightarrow>
          (let banner = (if o_verbose p then ln ''srec2mif v0.2.1 '' @ ln ''S-record to MIF converter'' else [])
           in case open_files h (o_verbose p) of
             Inl e \<Rightarrow> Some (failed (banner @ e))
           | Inr (name, text, out, e) \<Rightarrow>
               do { r \<leftarrow> read_file (o_verbose p) text (start_reader h (banner @ e));
                    (t, e) \<leftarrow> mif_table p name (h_date h) r;
                    Some (ended out t (r_err r @ e)) }))"

lemma chunk_line: "10 \<notin> set body \<Longrightarrow> length body < n \<Longrightarrow> chunk n (body @ 10 # rest) = (body @ [10], rest)"
  by (induction body arbitrary: n) (auto simp: Suc_less_eq2 gr0_conv_Suc)

end
