(* ===== verification/Tables.thy ===== *)
theory Tables
  imports Srec
begin

text \<open>
  What the table generators of theory \<open>Srec\<close> produce: for a file whose lines are well formed, each
  row of the table holds one word of the memory that the records of the file describe
  (theory \<open>Records\<close>), whatever the case of the digits, the order of the records and their types.
\<close>

section \<open>Fields in the line buffer\<close>

lemma hex_digit_table:
  "list_all (\<lambda>c. hex_digit (toupper c) = word_of_nat (hexval c))
    (map word_of_nat ([48..<58] @ [65..<71] @ [97..<103]))"
  by code_simp

lemma hex_digit:
  assumes "isxdigit c" shows "hex_digit (toupper c) = word_of_nat (hexval c)"
proof -
  have "unat c \<in> set ([48..<58] @ [65..<71] @ [97..<103])"
    using assms by (auto simp: isxdigit_def word_le_nat_alt simp del: upt_rec_numeral)
  then have "word_of_nat (unat c) \<in> set (map word_of_nat ([48..<58] @ [65..<71] @ [97..<103]) :: u8 list)"
    unfolding set_map by (rule imageI)
  from bspec [OF hex_digit_table [unfolded list_all_iff] this] show ?thesis by simp
qed

text \<open>The buffer holds a text up to upper and lower case.\<close>

definition similar :: "u8 list \<Rightarrow> u8 list \<Rightarrow> bool" where
  "similar L buf \<longleftrightarrow> length buf = LEN_BUFFER \<and> length L \<le> LEN_BUFFER \<and>
     (\<forall>i < length L. toupper (buf ! i) = toupper (L ! i))"

lemma similar_digits:
  assumes "similar L buf" "p < length L"
  shows "isxdigit (buf ! p) = isxdigit (L ! p)" "hexval (buf ! p) = hexval (L ! p)"
    "isxdigit (L ! p) \<Longrightarrow> hex_digit (toupper (buf ! p)) = word_of_nat (hexval (L ! p))"
proof -
  have e: "toupper (buf ! p) = toupper (L ! p)" using assms by (simp add: similar_def)
  show "isxdigit (buf ! p) = isxdigit (L ! p)" "hexval (buf ! p) = hexval (L ! p)"
    by (metis e isxdigit_toupper) (metis e toupper_facts(2))
  show "isxdigit (L ! p) \<Longrightarrow> hex_digit (toupper (buf ! p)) = word_of_nat (hexval (L ! p))"
    unfolding e by (rule hex_digit)
qed

lemma hex2_wp:
  assumes "similar L buf" "L = pre @ [x, y] @ post" "isxdigit x" "isxdigit y" "p = length pre"
  shows "returns (hex2 buf p) (\<lambda>(v, buf'). v = word_of_nat (hexnum [x, y]) \<and> similar L buf')"
proof -
  have p: "p + 1 < length buf" "p < length L" "Suc p < length L" using assms by (auto simp: similar_def)
  have L: "L ! p = x" "L ! Suc p = y" using assms(2,5) by (auto simp: nth_append)
  show ?thesis
    using p assms(1,3,4) similar_digits(3) [OF assms(1) p(2)] similar_digits(3) [OF assms(1) p(3)]
    by (auto simp: hex2_def Let_def L hexnum_Cons push_bit_eq_mult similar_def nth_list_update mult.commute)
qed

lemma shift_add: "push_bit n (word_of_nat a :: u64) + word_of_nat b = word_of_nat (a * 2 ^ n + b)"
  by (simp add: push_bit_eq_mult mult.commute)

lemma hex4_wp:
  assumes "similar L buf" "L = pre @ [a, b, c, d] @ post" "list_all isxdigit [a, b, c, d]" "p = length pre"
  shows "returns (hex4 buf p) (\<lambda>(v, buf'). v = word_of_nat (hexnum [a, b, c, d]) \<and> similar L buf')"
proof -
  have h: "returns (hex2 u p) (\<lambda>(v, buf'). v = word_of_nat (hexnum [a, b]) \<and> similar L buf')"
    "returns (hex2 u (p + 2)) (\<lambda>(v, buf'). v = word_of_nat (hexnum [c, d]) \<and> similar L buf')"
    if "similar L u" for u
    using hex2_wp [OF that, of pre a b "[c, d] @ post"] hex2_wp [OF that, of "pre @ [a, b]" c d post]
      assms by simp_all
  show ?thesis unfolding hex4_def
    by (rule returns_bind_pair [OF h(1) [OF assms(1)]], rule returns_bind_pair [OF h(2)])
      (use hexnum_append [of "[a, b]" "[c, d]"] in \<open>auto simp: push_bit_eq_mult mult.commute\<close>)
qed

lemma hex6_wp:
  assumes "similar L buf" "L = pre @ [a, b, c, d, e, f] @ post" "list_all isxdigit [a, b, c, d, e, f]"
    "p = length pre"
  shows "returns (hex6 buf p) (\<lambda>(v, buf'). v = word_of_nat (hexnum [a, b, c, d, e, f]) \<and> similar L buf')"
proof -
  have h: "returns (hex2 u p) (\<lambda>(v, buf'). v = word_of_nat (hexnum [a, b]) \<and> similar L buf')"
    "returns (hex2 u (p + 2)) (\<lambda>(v, buf'). v = word_of_nat (hexnum [c, d]) \<and> similar L buf')"
    "returns (hex2 u (p + 4)) (\<lambda>(v, buf'). v = word_of_nat (hexnum [e, f]) \<and> similar L buf')"
    if "similar L u" for u
    using hex2_wp [OF that, of pre a b "[c, d, e, f] @ post" p]
      hex2_wp [OF that, of "pre @ [a, b]" c d "[e, f] @ post" "p + 2"]
      hex2_wp [OF that, of "pre @ [a, b, c, d]" e f post "p + 4"] assms by simp_all
  show ?thesis unfolding hex6_def
    by (rule returns_bind_pair [OF h(1) [OF assms(1)]], rule returns_bind_pair [OF h(2)], simp,
        rule returns_bind_pair [OF h(3)])
      (use hexnum_append [of "[a, b]" "[c, d]"] hexnum_append [of "[a, b, c, d]" "[e, f]"]
        in \<open>auto simp: push_bit_eq_mult mult.commute\<close>)
qed

lemma hex8_wp:
  assumes "similar L buf" "L = pre @ [a, b, c, d, e, f, g, h] @ post"
    "list_all isxdigit [a, b, c, d, e, f, g, h]" "p = length pre"
  shows "returns (hex8 buf p)
    (\<lambda>(v, buf'). v = word_of_nat (hexnum [a, b, c, d, e, f, g, h]) \<and> similar L buf')"
proof -
  have h: "returns (hex2 u p) (\<lambda>(v, buf'). v = word_of_nat (hexnum [a, b]) \<and> similar L buf')"
    "returns (hex2 u (p + 2)) (\<lambda>(v, buf'). v = word_of_nat (hexnum [c, d]) \<and> similar L buf')"
    "returns (hex2 u (p + 4)) (\<lambda>(v, buf'). v = word_of_nat (hexnum [e, f]) \<and> similar L buf')"
    "returns (hex2 u (p + 6)) (\<lambda>(v, buf'). v = word_of_nat (hexnum [g, h]) \<and> similar L buf')"
    if "similar L u" for u
    using hex2_wp [OF that, of pre a b "[c, d, e, f, g, h] @ post" p]
      hex2_wp [OF that, of "pre @ [a, b]" c d "[e, f, g, h] @ post" "p + 2"]
      hex2_wp [OF that, of "pre @ [a, b, c, d]" e f "[g, h] @ post" "p + 4"]
      hex2_wp [OF that, of "pre @ [a, b, c, d, e, f]" g h post "p + 6"] assms by simp_all
  show ?thesis unfolding hex8_def
    by (rule returns_bind_pair [OF h(1) [OF assms(1)]], rule returns_bind_pair [OF h(2)], simp,
        rule returns_bind_pair [OF h(3)], simp, rule returns_bind_pair [OF h(4)])
      (use hexnum_append [of "[a, b]" "[c, d]"] hexnum_append [of "[a, b, c, d]" "[e, f]"]
        hexnum_append [of "[a, b, c, d, e, f]" "[g, h]"]
        in \<open>auto simp: push_bit_eq_mult mult.commute\<close>)
qed

text \<open>The address field of a data record.\<close>

lemma record_address_wp:
  assumes "similar L buf" "L = pre @ cs @ post" "list_all isxdigit cs" "length cs = 2 * w" "w \<in> {2, 3, 4}"
    and "p = length pre"
  shows "returns (if w = 2 then hex4 buf p else if w = 3 then hex6 buf p else hex8 buf p)
    (\<lambda>(v, buf'). v = word_of_nat (hexnum cs) \<and> similar L buf')"
proof -
  consider "w = 2" | "w = 3" | "w = 4" using assms(5) by blast
  then show ?thesis
  proof cases
    case 1
    with assms(4) obtain a b c d where cs: "cs = [a, b, c, d]"
      by (auto simp: length_Suc_conv eval_nat_numeral)
    then show ?thesis using hex4_wp [OF assms(1), of pre a b c d post p] assms 1 by simp
  next
    case 2
    with assms(4) obtain a b c d e f where cs: "cs = [a, b, c, d, e, f]"
      by (auto simp: length_Suc_conv eval_nat_numeral)
    then show ?thesis using hex6_wp [OF assms(1), of pre a b c d e f post p] assms 2 by simp
  next
    case 3
    with assms(4) obtain a b c d e f g h where cs: "cs = [a, b, c, d, e, f, g, h]"
      by (auto simp: length_Suc_conv eval_nat_numeral)
    then show ?thesis using hex8_wp [OF assms(1), of pre a b c d e f g h post p] assms 3 by simp
  qed
qed

section \<open>What a file means\<close>

text \<open>The address and the length of the data records, the address of the first one, and the end of the
  last one.\<close>

fun spans :: "line list \<Rightarrow> (nat \<times> nat) list" where
  "spans [] = []"
| "spans (Data w n a ds rest # ls) = (hexnum a, length ds) # spans ls"
| "spans (l # ls) = spans ls"

definition file_offset :: "line list \<Rightarrow> nat" where
  "file_offset ls = (if spans ls = [] then 0 else fst (hd (spans ls)))"

definition file_end :: "line list \<Rightarrow> nat" where
  "file_end ls = (if spans ls = [] then 0 else fst (last (spans ls)) + snd (last (spans ls)))"

text \<open>A line of a file: hexadecimal fields where they are used, not too long for the buffer, the bytes
  in reach of the array that starts at address \<open>off\<close>.\<close>

fun file_line :: "nat \<Rightarrow> line \<Rightarrow> bool" where
  "file_line off (Data w n a ds rest) \<longleftrightarrow>
     w \<in> {2, 3, 4} \<and> length n = 2 \<and> length a = 2 * w \<and> (\<forall>d\<in>set ds. length d = 2 \<and> list_all isxdigit d)
     \<and> list_all isxdigit n \<and> list_all isxdigit a \<and> hexnum n = w + length ds + 1 \<and> 10 \<notin> set rest
     \<and> off \<le> hexnum a \<and> hexnum a + length ds \<le> off + LEN_CODE \<and> hexnum a + length ds \<le> 2 ^ 32
     \<and> length (line_chars (Data w n a ds rest)) < LEN_BUFFER"
| "file_line off (End w n a rest) \<longleftrightarrow>
     w \<in> {2, 3, 4} \<and> 10 \<notin> set n \<and> 10 \<notin> set a \<and> 10 \<notin> set rest
     \<and> length (line_chars (End w n a rest)) < LEN_BUFFER"
| "file_line off (Other c rest) \<longleftrightarrow>
     c \<notin> {49, 50, 51, 10} \<and> 10 \<notin> set rest \<and> length (line_chars (Other c rest)) < LEN_BUFFER"
| "file_line off (Skip c) \<longleftrightarrow> False"

section \<open>Reading a file\<close>

text \<open>The array holds what memory \<open>m\<close> holds from address \<open>off\<close> on, and the address is \<open>a\<close>.\<close>

definition holds :: "nat \<Rightarrow> nat \<Rightarrow> (u32 \<Rightarrow> u8) \<Rightarrow> reader \<Rightarrow> bool" where
  "holds a off m r \<longleftrightarrow> r_address r = word_of_nat a \<and> r_offset r = word_of_nat off
     \<and> (\<forall>i < LEN_CODE. r_code r i = m (word_of_nat (off + i)))"

definition quiet :: "reader \<Rightarrow> reader \<Rightarrow> bool" where
  "quiet r r' \<longleftrightarrow> r_first r' = r_first r \<and> r_err r' = r_err r"

lemma ucast_hexnum: "ucast (word_of_nat k :: u64) = (word_of_nat k :: u8)"
  by (rule bit_word_eqI) (simp add: bit_simps)

lemma code_store:
  assumes "a < off + LEN_CODE" "off \<le> a" "a < 2 ^ 32"
    and "\<forall>i < LEN_CODE. code i = m (word_of_nat (off + i) :: u32)" and "i < LEN_CODE"
  shows "(code(a - off := v)) i = (m(word_of_nat a := v)) (word_of_nat (off + i))"
proof -
  have "(word_of_nat (off + i) :: u32) = word_of_nat a \<longleftrightarrow> i = a - off"
  proof
    assume "(word_of_nat (off + i) :: u32) = word_of_nat a"
    then have "(off + i) mod 2 ^ 32 = a mod 2 ^ 32"
      unfolding word_eq_unat_iff unsigned_of_nat take_bit_eq_mod by simp
    moreover have "(off + i) mod 2 ^ 32 = (if off + i < 2 ^ 32 then off + i else off + i - 2 ^ 32)"
      using assms(1-3,5) by (simp add: LEN_CODE_def mod_if [of "off + i"] mod_if [of "off + i - 2 ^ 32"])
    ultimately show "i = a - off"
      using assms(1-3,5) by (simp add: LEN_CODE_def split: if_splits)
  next
    assume "i = a - off" with assms(2) show "(word_of_nat (off + i) :: u32) = word_of_nat a" by simp
  qed
  with assms show ?thesis by auto
qed

lemma code_loop_wp:
  assumes "similar L (r_buffer r)" "L = pre @ concat ds @ post" "p = length pre"
    and "\<forall>d\<in>set ds. length d = 2 \<and> list_all isxdigit d" "holds a off m r"
    and "off \<le> a" "a + length ds \<le> off + LEN_CODE" "a + length ds \<le> 2 ^ 32"
  shows "returns (code_loop (length ds) p r) (\<lambda>r'. similar L (r_buffer r') \<and> quiet r r'
    \<and> holds (a + length ds) off (put_bytes (word_of_nat a) (map byte_of ds) m) r')"
  using assms
proof (induction ds arbitrary: pre p r a m)
  case Nil
  then show ?case by (simp add: quiet_def)
next
  case (Cons d ds)
  obtain x y where d: "d = [x, y]" "isxdigit x" "isxdigit y"
    using Cons.prems(4) by (auto simp: numeral_2_eq_2 length_Suc_conv)
  have "unat (r_address r - r_offset r) = a - off"
  proof -
    have "r_address r - r_offset r = word_of_nat (a - off)"
      using Cons.prems(5,6) by (simp add: holds_def of_nat_diff)
    then show ?thesis using Cons.prems(7,8) by (simp add: unsigned_of_nat take_bit_nat_eq_self_iff)
  qed
  then have a: "unat (r_address r - r_offset r) = a - off" "a - off < LEN_CODE"
    using Cons.prems(6,7) by (auto simp: LEN_CODE_def)
  show ?case
    unfolding length_Cons code_loop.simps a(1) Let_def
  proof (rule returns_bind_pair [OF hex2_wp [OF Cons.prems(1) _ d(2,3) Cons.prems(3)]])
    show "L = pre @ [x, y] @ (concat ds @ post)" using Cons.prems(2) by (simp add: d)
    fix v :: u64 and buf assume v: "v = word_of_nat (hexnum [x, y]) \<and> similar L buf"
    define u where "u = r \<lparr> r_buffer := buf, r_code := (r_code r)(a - off := ucast v),
      r_address := r_address r + 1 \<rparr>"
    have u: "holds (Suc a) off (m(word_of_nat a := byte_of d)) u"
      using Cons.prems(5-8) code_store [of a off "r_code r" m]
      by (simp add: holds_def u_def v ucast_hexnum byte_of_def d add.commute)
    have "returns (code_loop (length ds) (p + 2) u) (\<lambda>r'. similar L (r_buffer r') \<and> quiet u r'
      \<and> holds (Suc a + length ds) off (put_bytes (word_of_nat (Suc a)) (map byte_of ds)
          (m(word_of_nat a := byte_of d))) r')"
      by (rule Cons.IH [where pre = "pre @ d"]) (use Cons.prems v u in \<open>simp_all add: u_def d fun_upd_def\<close>)
    then show "returns ((if a - off < LEN_CODE then Some (r \<lparr>r_buffer := buf,
          r_code := (r_code r)(a - off := ucast v)\<rparr>) else None) \<bind>
        (\<lambda>r. code_loop (length ds) (p + 2) (r\<lparr>r_address := r_address r + 1\<rparr>)))
      (\<lambda>r'. similar L (r_buffer r') \<and> quiet r r' \<and> holds (a + Suc (length ds)) off
        (put_bytes (word_of_nat a) (map byte_of (d # ds)) m) r')"
      using a(2) by (auto simp: u_def quiet_def add.commute elim!: returns_mono)
  qed
qed

definition reading :: "line list \<Rightarrow> reader \<Rightarrow> bool" where
  "reading ls r \<longleftrightarrow> r_first r = (spans ls = []) \<and> length (r_buffer r) = LEN_BUFFER
     \<and> holds (file_end ls) (file_offset ls) (fold line_store ls (\<lambda>_. 0)) r"

lemma spans_append [simp]: "spans (ls @ ls') = spans ls @ spans ls'"
  by (induction ls rule: spans.induct) simp_all

lemma no_spans: "spans ls = [] \<Longrightarrow> fold line_store ls m = m"
  by (induction ls arbitrary: m rule: spans.induct) simp_all

lemma other_line:
  assumes "spans [l] = []" "reading ls r" "r_err r' = r_err r" "length (r_buffer r') = LEN_BUFFER"
    and "r_first r' = r_first r" "r_address r' = r_address r" "r_offset r' = r_offset r" "r_code r' = r_code r"
  shows "reading (ls @ [l]) r' \<and> r_err r' = r_err r"
proof -
  have "fold line_store [l] m = m" for m using no_spans [OF assms(1)] .
  with assms show ?thesis by (simp add: reading_def holds_def file_end_def file_offset_def)
qed

lemma code_record_wp:
  assumes "reading ls r" and l: "l = Data w n a ds rest" and "file_line (file_offset (ls @ [l])) l"
    and "similar (line_chars l) (r_buffer r)"
  shows "returns (code_record False w r) (\<lambda>r'. reading (ls @ [l]) r' \<and> r_err r' = r_err r)"
proof -
  let ?off = "file_offset (ls @ [l])" and ?m = "fold line_store ls (\<lambda>_. 0)"
  have f: "w \<in> {2, 3, 4}" "length n = 2" "length a = 2 * w"
    "\<forall>d\<in>set ds. length d = 2 \<and> list_all isxdigit d" "list_all isxdigit n" "list_all isxdigit a"
    "hexnum n = w + length ds + 1" "?off \<le> hexnum a" "hexnum a + length ds \<le> ?off + LEN_CODE"
    "hexnum a + length ds \<le> 2 ^ 32"
    using assms(3) unfolding l file_line.simps by blast+
  obtain x y where n: "n = [x, y]" using f(2) by (auto simp: numeral_2_eq_2 length_Suc_conv)
  have "returns (hex2 (r_buffer r) 2)
      (\<lambda>(v, buf). v = word_of_nat (hexnum [x, y]) \<and> similar (line_chars l) buf)"
    by (rule hex2_wp [OF assms(4), where pre = "[83, word_of_nat (47 + w)]"]) (use f(5) in \<open>simp_all add: l n\<close>)
  moreover have "returns (if w = 2 then hex4 buf 4 else if w = 3 then hex6 buf 4 else hex8 buf 4)
      (\<lambda>(v, buf). v = word_of_nat (hexnum a) \<and> similar (line_chars l) buf)"
    if "similar (line_chars l) buf" for buf
    by (rule record_address_wp [OF that, where pre = "[83, word_of_nat (47 + w)] @ n" and post = "concat ds @ rest @ [10]"])
      (use f(1-6) in \<open>simp_all add: l\<close>)
  moreover have "returns (code_loop (unat (word_of_nat (hexnum [x, y]) - word_of_nat (w + 1) :: u64)) (4 + 2 * w)
      (if r_first r then say_if False t (r \<lparr> r_buffer := buf, r_address := word_of_nat (hexnum a),
         r_offset := word_of_nat (hexnum a), r_first := False \<rparr>)
       else r \<lparr> r_buffer := buf, r_address := word_of_nat (hexnum a) \<rparr>))
      (\<lambda>r'. reading (ls @ [l]) r' \<and> r_err r' = r_err r)" (is "returns (code_loop ?k ?p ?r) ?Q")
    if buf: "similar (line_chars l) buf" for buf t
  proof -
    have "hexnum n < 256" using f(2) by (rule hexnum_2)
    then have "?k = length ds"
      using f(7) by (simp add: n [symmetric] unsigned_of_nat take_bit_nat_eq_self_iff)
    moreover have "holds (hexnum a) ?off ?m ?r"
      using assms(1) no_spans [of ls "\<lambda>_. 0"]
      by (auto simp: reading_def holds_def file_offset_def say_if_def l)
    ultimately have "returns (code_loop ?k ?p ?r) (\<lambda>r'. similar (line_chars l) (r_buffer r') \<and> quiet ?r r'
        \<and> holds (hexnum a + length ds) ?off (put_bytes (word_of_nat (hexnum a)) (map byte_of ds) ?m) r')"
      using f buf
      by (simp only:) (rule code_loop_wp [where pre = "[83, word_of_nat (47 + w)] @ n @ a" and post = "rest @ [10]"],
        simp_all add: say_if_def l)
    then show ?thesis
      by (rule returns_mono) (use assms(1) in \<open>auto simp: reading_def quiet_def say_if_def l file_end_def
        similar_def addr_of_def\<close>)
  qed
  ultimately show ?thesis
    unfolding code_record_def Let_def by (fastforce intro: returns_bind_pair)
qed

lemma vendor_record_wp:
  "3 < length (r_buffer r) \<Longrightarrow> returns (vendor_record False r) (\<lambda>r'. r_err r' = r_err r
    \<and> length (r_buffer r') = length (r_buffer r) \<and> r_first r' = r_first r \<and> r_address r' = r_address r
    \<and> r_offset r' = r_offset r \<and> r_code r' = r_code r)"
  by (auto simp: vendor_record_def hex2_def Let_def)

lemma type_codes [simp]: "ch (CHR ''S'') = 83" "ch (CHR ''0'') = 48" "ch (CHR ''1'') = 49" "ch (CHR ''2'') = 50"
  "ch (CHR ''3'') = 51" "ch (CHR ''4'') = 52" "ch (CHR ''5'') = 53" "ch (CHR ''6'') = 54"
  "ch (CHR ''7'') = 55" "ch (CHR ''8'') = 56" "ch (CHR ''9'') = 57"
  by (simp_all add: ch_def)

lemma read_line_record_wp:
  assumes "reading ls r" "file_line (file_offset (ls @ [l])) l" "r_buffer r = line_chars l @ tail"
  shows "returns (read_line_record False r) (\<lambda>r'. reading (ls @ [l]) r' \<and> r_err r' = r_err r)"
proof (cases l)
  case (Data w n a ds rest)
  let ?r = "r \<lparr> r_line := r_line r + 1 \<rparr>"
  have "reading ls ?r" using assms(1) by (simp add: reading_def holds_def)
  moreover have "similar (line_chars l) (r_buffer ?r)"
    using assms(1,3) by (auto simp: similar_def reading_def nth_append)
  ultimately have "returns (code_record False w ?r) (\<lambda>r'. reading (ls @ [l]) r' \<and> r_err r' = r_err ?r)"
    using code_record_wp Data assms(2) by blast
  moreover have "w = 2 \<or> w = 3 \<or> w = 4" using assms(2) by (simp add: Data)
  ultimately show ?thesis
    by (auto simp: read_line_record_def Let_def assms(3) Data)
next
  case (End w n a rest)
  with assms(2) have "w = 2 \<or> w = 3 \<or> w = 4" by simp
  then show ?thesis
    using other_line [of l ls r "r \<lparr> r_line := r_line r + 1 \<rparr>"] assms(1)
    by (auto simp: read_line_record_def Let_def assms(3) End say_if_def reading_def)
next
  case (Other c rest)
  let ?r = "r \<lparr> r_line := r_line r + 1 \<rparr>"
  have "3 < length (r_buffer ?r)" using assms(1) by (simp add: reading_def LEN_BUFFER_def)
  from vendor_record_wp [OF this]
  have "returns (vendor_record False ?r) (\<lambda>r'. reading (ls @ [l]) r' \<and> r_err r' = r_err r)"
    by (rule returns_mono) (use other_line [of l ls r] assms(1) Other in \<open>auto simp: reading_def\<close>)
  then show ?thesis
    using other_line [of l ls r ?r] assms(1,2)
    by (auto simp: read_line_record_def Let_def assms(3) Other say_if_def reading_def)
qed (use assms(2) in simp)

lemma xdigits_no_newline: "list_all isxdigit cs \<Longrightarrow> 10 \<notin> set cs"
  by (auto simp: list_all_iff isxdigit_def)

lemma file_line_body:
  assumes "file_line off l"
  obtains body where "line_chars l = body @ [10]" "10 \<notin> set body" "length body < LEN_BUFFER - 1"
proof -
  have "\<exists>body. line_chars l = body @ [10] \<and> 10 \<notin> set body" using assms
    by (cases l) (auto dest: xdigits_no_newline)
  moreover have "length (line_chars l) < LEN_BUFFER" using assms by (cases l) simp_all
  ultimately show ?thesis using that by fastforce
qed

lemma file_offset_prefix:
  "file_offset (done @ [l] @ ls) = file_offset (done @ [l]) \<or> spans (done @ [l]) = []"
  by (cases l) (auto simp: file_offset_def hd_append)

lemma read_file_wp:
  assumes "reading done r" "\<forall>l\<in>set ls. file_line (file_offset (done @ ls)) l"
  shows "returns (read_file False (concat (map line_chars ls)) r)
    (\<lambda>r'. reading (done @ ls) r' \<and> r_err r' = r_err r)"
  using assms
proof (induction ls arbitrary: "done" r)
  case Nil
  then show ?case by (simp add: read_file.simps)
next
  case (Cons l ls)
  let ?rest = "concat (map line_chars ls)"
  have l: "file_line (file_offset (done @ l # ls)) l" using Cons.prems(2) by simp
  then obtain body where body: "line_chars l = body @ [10]" "10 \<notin> set body" "length body < LEN_BUFFER - 1"
    by (rule file_line_body)
  let ?r = "r \<lparr> r_buffer := fill (line_chars l) (r_buffer r) \<rparr>"
  have "reading done ?r"
    using Cons.prems(1) body(3) by (auto simp: reading_def holds_def fill_def body(1))
  moreover have "file_line (file_offset (done @ [l])) l"
    using l file_offset_prefix [of "done" l ls] by (cases l) auto
  ultimately have "returns (read_line_record False ?r) (\<lambda>r'. reading (done @ [l]) r' \<and> r_err r' = r_err ?r)"
    by (rule read_line_record_wp) (simp add: fill_def)
  moreover have "returns (read_file False ?rest r') (\<lambda>r''. reading (done @ l # ls) r'' \<and> r_err r'' = r_err r)"
    if "reading (done @ [l]) r' \<and> r_err r' = r_err r" for r'
    using Cons.IH [of "done @ [l]" r'] Cons.prems(2) that by simp
  ultimately have "returns (read_line_record False ?r \<bind> read_file False ?rest)
      (\<lambda>r''. reading (done @ l # ls) r'' \<and> r_err r'' = r_err r)"
    by (auto simp: returns_bind_iff elim!: returns_mono)
  moreover have "read_file False (concat (map line_chars (l # ls))) r
      = read_line_record False ?r \<bind> read_file False ?rest"
    using chunk_line [OF body(2,3), of ?rest] body(1)
    by (cases body) (simp_all add: read_file.simps body(1))
  ultimately show ?case by simp
qed

section \<open>The tables\<close>

text \<open>The bytes of word \<open>j\<close> of a memory from address \<open>off\<close> on, in the order of printing, and the rows of
  the two tables.\<close>

definition word_cells :: "options \<Rightarrow> (u32 \<Rightarrow> u8) \<Rightarrow> nat \<Rightarrow> nat \<Rightarrow> u8 list" where
  "word_cells p m off j =
     (let bs = map (\<lambda>i. m (word_of_nat (off + i))) [j * o_size p ..< j * o_size p + o_size p]
      in if o_rev p then rev bs else bs)"


definition mif_entry :: "options \<Rightarrow> (u32 \<Rightarrow> u8) \<Rightarrow> nat \<Rightarrow> nat \<Rightarrow> u8 list" where
  "mif_entry p m off j = fmt_X 4 j @ str '' : ''
     @ concat (map (\<lambda>c. map toupper (hexstr 2 (unat c))) (word_cells p m off j)) @ str '';'' @ [10]"

definition rows :: "nat \<Rightarrow> nat \<Rightarrow> nat" where
  "rows sz len = (len + sz - 1) div sz"

lemma fmt_byte: "fmt_x 2 (unat c) = hexstr 2 (unat (c :: u8))"
proof -
  have "hexdigits (unat c) \<le> 2"
    using unat_lt_256 [of c] less_mult_imp_div_less [of "unat c" 16 16]
    by (simp add: hexdigits.simps [of "unat c"] hexdigits.simps [of "unat c div 16"])
  then show ?thesis by (simp add: fmt_x_def max_def)
qed

lemma cells_eq:
  assumes "holds a off m r" "j * o_size p + o_size p \<le> LEN_CODE"
  shows "cells p (r_code r) (j * o_size p) = Some (word_cells p m off j)"
proof -
  have "those (map (getc (r_code r)) [j * o_size p ..< j * o_size p + o_size p])
      = Some (map (\<lambda>i. m (word_of_nat (off + i))) [j * o_size p ..< j * o_size p + o_size p])"
    using assms by (intro those_map) (simp add: getc_def holds_def)
  then show ?thesis by (simp add: cells_def word_cells_def Let_def)
qed

lemma table_loop_eq:
  "(\<And>j. j < k \<Longrightarrow> row (i + j * sz) = Some (e j, [])) \<Longrightarrow>
    table_loop row sz k i = Some (concat (map e [0 ..< k]), [])"
proof (induction k arbitrary: i e)
  case 0
  then show ?case by simp
next
  case (Suc k)
  have "row (i + sz + j * sz) = Some (e (Suc j), [])" if "j < k" for j
    using Suc.prems [of "Suc j"] that by (simp add: algebra_simps)
  then have "table_loop row sz k (i + sz) = Some (concat (map (\<lambda>j. e (Suc j)) [0 ..< k]), [])"
    by (rule Suc.IH)
  moreover have "row i = Some (e 0, [])" using Suc.prems [of 0] by simp
  ultimately show ?case by (simp add: upt_rec [of 0] map_Suc_upt [symmetric] comp_def del: upt_Suc)
qed

lemma align_eq:
  assumes "sz \<in> set sizes" "len \<le> LEN_CODE"
  shows "align sz (word_of_nat len) = word_of_nat (rows sz len * sz)"
proof -
  obtain k where k: "sz = 2 ^ k" "k \<le> 3"
    using assms(1) that [of 0] that [of 1] that [of 2] that [of 3]
    by (auto simp: sizes_def BYTE_def HALFWORD_def WORD_def DWORD_def)
  have m: "(word_of_nat sz - 1 :: u64) = mask k" by (simp add: k mask_eq_exp_minus_1)
  have "1 \<le> len + sz" using k by (simp add: Suc_leI trans_le_add2)
  then have "(word_of_nat len + word_of_nat sz - 1 :: u64) = word_of_nat (len + sz - 1)"
    using of_nat_diff [of 1 "len + sz", where 'a = u64] by (simp only: of_nat_add of_nat_1)
  moreover have "len + sz - 1 < 2 ^ 64"
    using assms(2) k(2) power_increasing [OF k(2), of "2 :: nat"] by (simp add: k(1) LEN_CODE_def)
  ultimately have "align sz (word_of_nat len) = push_bit k (drop_bit k (word_of_nat (len + sz - 1)))"
    by (simp only: align_def m and_not_mask)
  also have "drop_bit k (word_of_nat (len + sz - 1) :: u64) = word_of_nat (rows sz len)"
  proof -
    have "rows sz len \<le> len + sz - 1" by (simp add: rows_def)
    with \<open>len + sz - 1 < 2 ^ 64\<close> have "rows sz len < 2 ^ 64" by simp
    with \<open>len + sz - 1 < 2 ^ 64\<close> show ?thesis
      unfolding word_eq_unat_iff unat_drop_div
      by (simp add: unsigned_of_nat take_bit_nat_eq_self rows_def k)
  qed
  finally show ?thesis by (simp add: push_bit_eq_mult k)
qed

text \<open>The length of the data in the array, and the table it gives.\<close>

definition data_size :: "line list \<Rightarrow> nat" where
  "data_size ls = file_end ls - file_offset ls"

lemma file_extent:
  assumes "\<forall>l\<in>set ls. file_line off l" "off = file_offset ls"
  shows "off \<le> file_end ls \<and> file_end ls \<le> off + LEN_CODE \<and> file_end ls \<le> 2 ^ 32"
proof -
  have "\<forall>(a, n)\<in>set (spans ls). off \<le> a \<and> a + n \<le> off + LEN_CODE \<and> a + n \<le> 2 ^ 32"
    using assms(1) by (induction ls rule: spans.induct) simp_all
  then have "spans ls \<noteq> [] \<Longrightarrow> off \<le> fst (last (spans ls))
      \<and> fst (last (spans ls)) + snd (last (spans ls)) \<le> off + LEN_CODE
      \<and> fst (last (spans ls)) + snd (last (spans ls)) \<le> 2 ^ 32"
    by (drule_tac bspec [OF _ last_in_set]) (simp_all add: case_prod_beta)
  with assms(2) show ?thesis by (auto simp: file_end_def file_offset_def)
qed

lemma data_length_eq:
  assumes "reading ls r" "\<forall>l\<in>set ls. file_line (file_offset ls) l"
  shows "data_length r = (word_of_nat (data_size ls), [])" "data_size ls \<le> LEN_CODE"
proof -
  note e = file_extent [OF assms(2) refl]
  then show "data_size ls \<le> LEN_CODE" by (simp add: data_size_def le_diff_conv add.commute)
  then have "\<not> (word_of_nat LEN_CODE :: u64) < word_of_nat (data_size ls)"
    by (simp add: word_less_nat_alt unsigned_of_nat take_bit_nat_eq_self LEN_CODE_def)
  moreover have "r_address r - r_offset r = word_of_nat (data_size ls)"
    using assms(1) e by (simp add: reading_def holds_def data_size_def of_nat_diff)
  ultimately show "data_length r = (word_of_nat (data_size ls), [])"
    by (simp add: data_length_def Let_def)
qed

lemma rows_bound:
  assumes "sz \<in> set sizes" "len \<le> LEN_CODE"
  shows "rows sz len * sz \<le> LEN_CODE"
proof -
  have "rows sz len * sz < len + sz" using assms(1)
    by (auto simp: rows_def sizes_def BYTE_def HALFWORD_def WORD_def DWORD_def)
  moreover obtain q where q: "LEN_CODE = q * sz"
    using assms(1) that [of 10000000] that [of 5000000] that [of 2500000] that [of 1250000]
    by (auto simp: LEN_CODE_def sizes_def BYTE_def HALFWORD_def WORD_def DWORD_def)
  ultimately have "rows sz len * sz < Suc q * sz" using assms(2) by simp
  then show ?thesis by (simp only: q mult_less_cancel2 less_Suc_eq_le mult_le_mono1)
qed


lemma unat_code: "k \<le> LEN_CODE \<Longrightarrow> unat (word_of_nat k :: u64) = k"
  by (simp add: unsigned_of_nat take_bit_nat_eq_self LEN_CODE_def)


lemma mif_table_eq:
  assumes "reading ls r" "\<forall>l\<in>set ls. file_line (file_offset ls) l" "o_size p \<in> set sizes" "\<not> o_verbose p"
  shows "mif_table p name date r = Some (mif_head p name date (word_of_nat (data_size ls))
      @ concat (map (mif_entry p (fold line_store ls (\<lambda>_. 0)) (file_offset ls))
          [0 ..< rows (o_size p) (data_size ls)]) @ (if o_full p then ln ''END;'' else []), [])"
proof -
  let ?n = "rows (o_size p) (data_size ls)" and ?m = "fold line_store ls (\<lambda>_. 0 :: u8)"
  let ?stop = "word_of_nat (?n * o_size p) :: u64"
  note len = data_length_eq [OF assms(1,2)]
  have b: "?n * o_size p \<le> LEN_CODE" using rows_bound [OF assms(3) len(2)] .
  have sz: "0 < o_size p" using assms(3) by (auto simp: sizes_def BYTE_def HALFWORD_def WORD_def DWORD_def)
  have "mif_row p (r_code r) (j * o_size p) ?stop = Some (mif_entry p ?m (file_offset ls) j, [])"
    if j: "j < ?n" for j
  proof -
    have "Suc j * o_size p \<le> ?n * o_size p" using j by (intro mult_le_mono1) simp
    with b have "j * o_size p + o_size p \<le> LEN_CODE" by (simp add: add.commute)
    then show ?thesis
      using assms(1,3) cells_eq [of "file_end ls" "file_offset ls" ?m r j p] sz
      by (simp add: mif_row_def mif_entry_def reading_def fmt_X_def fmt_byte)
  qed
  then have "table_loop (\<lambda>i. mif_row p (r_code r) i ?stop) (o_size p) ?n 0
      = Some (concat (map (mif_entry p ?m (file_offset ls)) [0 ..< ?n]), [])"
    by (intro table_loop_eq) simp
  moreover have "unat ?stop div o_size p = ?n"
    using unat_code [OF b] sz by (simp del: of_nat_mult)
  ultimately show ?thesis
    using len assms(4) by (simp add: mif_table_def align_eq [OF assms(3)] transformed_def)
qed

section \<open>The programs on a file\<close>

lemma parse_options_size:
  assumes "\<And>oa p p'. step oa p = Some p' \<Longrightarrow> o_size p \<in> set sizes \<Longrightarrow> o_size p' \<in> set sizes"
    and "parse_options step oas p = Some p'" "o_size p \<in> set sizes"
  shows "o_size p' \<in> set sizes"
  using assms(2,3)
proof (induction oas arbitrary: p)
  case (Cons oa oas)
  then obtain q where "step oa p = Some q" "parse_options step oas q = Some p'"
    by (cases "step oa p") auto
  with Cons assms(1) show ?case by blast
qed simp

lemma option_sizes:
  "vhdl_option oa p = Some p' \<Longrightarrow> o_size p \<in> set sizes \<Longrightarrow> o_size p' \<in> set sizes"
  "mif_option oa p = Some p' \<Longrightarrow> o_size p \<in> set sizes \<Longrightarrow> o_size p' \<in> set sizes"
  by (auto simp: vhdl_option_def mif_option_def sizes_def split: prod.splits if_splits)

lemma default_sizes: "o_size vhdl_defaults \<in> set sizes" "o_size mif_defaults \<in> set sizes"
  by (simp_all add: vhdl_defaults_def mif_defaults_def sizes_def)

lemma start_reading: "length (h_stack h) = LEN_BUFFER \<Longrightarrow> reading [] (start_reader h e)"
  by (simp add: reading_def start_reader_def holds_def file_end_def file_offset_def)

lemma open_files_quiet: "open_files h False = Inr (name, text, out, e) \<Longrightarrow> e = []"
  by (auto simp: open_files_def split: if_splits list.splits option.splits)

definition file_text :: "line list \<Rightarrow> u8 list" where
  "file_text ls = concat (map line_chars ls)"

lemma read_file_start:
  assumes "length (h_stack h) = LEN_BUFFER" "\<forall>l\<in>set ls. file_line (file_offset ls) l"
  shows "returns (read_file False (file_text ls) (start_reader h [])) (\<lambda>r. reading ls r \<and> r_err r = [])"
proof -
  have "r_err (start_reader h []) = []" by (simp add: start_reader_def)
  with read_file_wp [of "[]" "start_reader h []" ls] start_reading [OF assms(1)] assms(2)
  show ?thesis by (simp add: file_text_def)
qed


lemma srec2mif_eq:
  assumes "h_argc h \<noteq> 1" "parse_options mif_option (h_opts h) mif_defaults = Some p" "\<not> o_verbose p"
    and "open_files h False = Inr (name, file_text ls, out, e)" "length (h_stack h) = LEN_BUFFER"
    and ls: "\<forall>l\<in>set ls. file_line (file_offset ls) l"
  shows "srec2mif h = Some (ended out (mif_head p name (h_date h) (word_of_nat (data_size ls))
    @ concat (map (mif_entry p (fold line_store ls (\<lambda>_. 0)) (file_offset ls))
        [0 ..< rows (o_size p) (data_size ls)]) @ (if o_full p then ln ''END;'' else [])) [])"
proof -
  have "o_size p \<in> set sizes"
    using parse_options_size [OF option_sizes(2) assms(2) default_sizes(2)] .
  with read_file_start [OF assms(5) ls] show ?thesis
    using assms(1-4) open_files_quiet [OF assms(4)]
    by (auto simp: srec2mif_def returns_ex mif_table_eq [OF _ ls])
qed

lemma rows_depth: "0 < sz \<Longrightarrow> rows sz len = len div sz + (if sz dvd len then 0 else 1)"
proof -
  assume sz: "0 < sz"
  define q r where "q = len div sz" and "r = len mod sz"
  have len: "len = q * sz + r" "r < sz" using sz by (simp_all add: q_def r_def)
  show ?thesis
  proof (cases "r = 0")
    case True
    then have "rows sz len = (q * sz + (sz - 1)) div sz" using sz by (simp add: rows_def len)
    also have "\<dots> = q + (sz - 1) div sz" using sz by (subst div_mult_self3) simp_all
    also have "\<dots> = q" using sz by simp
    finally show ?thesis using True by (simp add: q_def r_def dvd_eq_mod_eq_0)
  next
    case False
    then have "len + sz - 1 = Suc q * sz + (r - 1)" by (simp add: len)
    then have "rows sz len = (Suc q * sz + (r - 1)) div sz" by (simp only: rows_def)
    also have "\<dots> = Suc q" using len(2) sz by (subst div_mult_self3) auto
    finally show ?thesis using False by (simp add: q_def r_def dvd_eq_mod_eq_0)
  qed
qed


section \<open>Properties\<close>


definition demo_records :: "line list" where
  "demo_records = [Data 2 [48, 54] [48, 49, 48, 48] [[52, 65], [52, 98], [52, 67]] [48, 48, 13],
     End 2 [48, 51] [48, 49, 48, 49] [13]]"

definition demo_host :: "(u8 \<times> u8 list) list \<Rightarrow> host" where
  "demo_host opts = \<lparr> h_argc = 3, h_opts = opts, h_names = [[97]], h_argv1 = [45], h_memory = True,
     h_file = (\<lambda>_. Some (file_text demo_records)), h_writable = (\<lambda>_. True), h_date = [],
     h_stack = replicate LEN_BUFFER 7 \<rparr>"

lemma demo_records_ok: "\<forall>l\<in>set demo_records. file_line (file_offset demo_records) l"
  by (simp add: demo_records_def file_offset_def isxdigit_def isdigit_def hexnum_def hexval_def
      LEN_CODE_def LEN_BUFFER_def)

lemma demo_records_data: "file_offset demo_records = 256" "data_size demo_records = 3"
  "fold line_store demo_records (\<lambda>_. 0) = (\<lambda>_. 0)(0x100 := 0x4a, 0x101 := 0x4b, 0x102 := 0x4c)"
  by (simp_all add: demo_records_def file_offset_def data_size_def file_end_def hexnum_def hexval_def
      isdigit_def addr_of_def byte_of_def)


text \<open>C21. \<^verbatim>\<open>srec2mif\<close> on the same files: the head with the depth and the width, one row per word, and the
  last line. The depth is the length of the data divided by the size of a word, rounded down, before
  the length is aligned: when the data does not fill its last word, the table has a row more than its
  depth says.\<close>

theorem srec2mif_table:
  assumes "h_argc h \<noteq> 1" "parse_options mif_option (h_opts h) mif_defaults = Some p" "\<not> o_verbose p"
    and "open_files h False = Inr (name, file_text ls, out, e)" "length (h_stack h) = LEN_BUFFER"
    and ls: "\<forall>l\<in>set ls. file_line (file_offset ls) l"
  shows "srec2mif h = Some (ended out (mif_head p name (h_date h) (word_of_nat (data_size ls))
    @ concat (map (mif_entry p (fold line_store ls (\<lambda>_. 0)) (file_offset ls))
        [0 ..< rows (o_size p) (data_size ls)]) @ (if o_full p then ln ''END;'' else [])) [])
    \<and> unat (word_of_nat (data_size ls) div word_of_nat (o_size p) :: u64) = data_size ls div o_size p
    \<and> rows (o_size p) (data_size ls)
      = data_size ls div o_size p + (if o_size p dvd data_size ls then 0 else 1)"
proof -
  have "o_size p \<in> set sizes"
    using parse_options_size [OF option_sizes(2) assms(2) default_sizes(2)] .
  moreover have "data_size ls \<le> LEN_CODE"
    using file_extent [OF ls refl] by (simp add: data_size_def le_diff_conv add.commute)
  ultimately have "unat (word_of_nat (data_size ls) div word_of_nat (o_size p) :: u64) = data_size ls div o_size p"
    "rows (o_size p) (data_size ls) = data_size ls div o_size p + (if o_size p dvd data_size ls then 0 else 1)"
    by (auto simp: rows_depth unat_div_distrib unat_code sizes_def BYTE_def HALFWORD_def WORD_def DWORD_def
        LEN_CODE_def)
  with srec2mif_eq [OF assms] show ?thesis by simp
qed

theorem srec2mif_table_witness:
  "srec2mif (demo_host [(ch (CHR ''h''), [])]) = Some (ended None
    (mif_head (mif_defaults \<lparr> o_size := 2 \<rparr>) [97] [] 3
     @ str ''0000 : 4A4B;'' @ [10] @ str ''0001 : 4C00;'' @ [10] @ ln ''END;'') [])"
proof -
  have "srec2mif (demo_host [(ch (CHR ''h''), [])]) = Some (ended None
     (mif_head (mif_defaults \<lparr> o_size := 2 \<rparr>) [97] [] (word_of_nat (data_size demo_records))
      @ concat (map (mif_entry (mif_defaults \<lparr> o_size := 2 \<rparr>) (fold line_store demo_records (\<lambda>_. 0))
        (file_offset demo_records)) [0 ..< rows (o_size (mif_defaults \<lparr> o_size := 2 \<rparr>)) (data_size demo_records)])
      @ (if o_full (mif_defaults \<lparr> o_size := 2 \<rparr>) then ln ''END;'' else [])) [])"
    unfolding demo_host_def
    by (subst srec2mif_table [where ls = demo_records and name = "[97]" and out = None and e = "[]" and
        p = "mif_defaults \<lparr> o_size := 2 \<rparr>", THEN conjunct1])
      (simp_all add: demo_records_ok open_files_def mif_option_def mif_defaults_def vhdl_defaults_def
        HALFWORD_def ch_def)
  then show ?thesis
    unfolding demo_records_data rows_def
    by (simp add: mif_defaults_def vhdl_defaults_def mif_entry_def word_cells_def fmt_X_def fmt_x_def
        hexdigits.simps str_def ch_def hexdigit_def toupper_def upt_conv_Cons
        hexstr_digits)
qed

end
