(* ===== verification/Card.thy ===== *)
theory Card
  imports Soc
begin

text \<open>
  What the SD card driver promises on the machine: the theorems of \<^verbatim>\<open>Sdlaws\<close> over the contract of the
  second SPI unit, taken to the machine, with a scripted card and a card with a table of answers as
  examples.
\<close>

section \<open>The SD card\<close>

text \<open>What a call of the SD card driver did: the bytes \<open>xs\<close> went over the second SPI unit, each with the
  level of the output port, which is now at \<open>p\<close>; nothing else changed.\<close>

definition carded :: "u32 \<Rightarrow> (u32 \<times> u8) list \<Rightarrow> soc \<Rightarrow> soc \<Rightarrow> bool" where
  "carded p xs s t \<longleftrightarrow> io t GPIOA_POUT = p \<and> s_sent (spi2 t) = s_sent (spi2 s) @ xs \<and> sd_aside t = sd_aside s"

lemma moved_carded: "soc_sd.moved slave p xs s t \<Longrightarrow> carded p xs s t"
  by (simp add: soc_sd.moved_def carded_def)

abbreviation selected :: "soc \<Rightarrow> u32" where
  "selected s \<equiv> io s GPIOA_POUT AND NOT CS_PIN"

abbreviation deselected :: "soc \<Rightarrow> u32" where
  "deselected s \<equiv> selected s OR CS_PIN"

text \<open>C24. \<^verbatim>\<open>SD_readsector\<close>, when the card accepts the command (after at most nine bytes of waiting) and
  sends a token in time, stores exactly the sector the card sends, position by position, and leaves
  the card deselected; the command carries the sector number, most significant byte first.\<close>

theorem sd_reads_sector:
  assumes "spi_ready slave (spi2 s)" and "n \<le> 9" "r1 \<le> 1"
    and "k < unat SD_READ_TIMEOUT" "token \<noteq> 0xff"
    and "length data = unat (ocr_sectorsize st)" "length data \<le> length buf"
    and "says slave (selected s) (s_sent (spi2 s) @ sd_head (io s GPIOA_POUT) 17 sector 0xff)
      (replicate n 0xff @ [r1] @ replicate k 0xff @ [token] @ data)"
  shows "returns (SD_readsector soc_bus st sector buf s) (\<lambda>(e, buf', t).
    e = SD_SUCCESS \<and> buf' = data @ drop (length data) buf
    \<and> carded (deselected s) (sd_head (io s GPIOA_POUT) 17 sector 0xff
        @ polls (selected s) (n + k + length data + 5) @ [(deselected s, 0xff)]) s t)"
  by (rule returns_mono [OF soc_sd.readsector_wp [OF assms]]) (auto dest: moved_carded)

text \<open>A card that answers from a script, for the examples.\<close>

definition script_slave :: "u8 list \<Rightarrow> (u32 \<times> u8) list \<Rightarrow> u32 \<times> u8 \<Rightarrow> u8" where
  "script_slave rs h c = (if length h < length rs then rs ! length h else 0xff)"

lemma length_sd_head: "length (sd_head p cmd arg crc) = 8"
  by (simp add: sd_head_def command_bytes_def)

lemma timeouts: "unat SD_READ_TIMEOUT = 39062" "unat SD_WRITE_TIMEOUT = 97656"
  by (simp_all add: SD_READ_TIMEOUT_def SD_WRITE_TIMEOUT_def F_CPU_def SD_FAST_def)

theorem sd_reads_sector_witness:
  "returns (SD_readsector soc_bus (sd_cleared \<lparr> ocr_sectorsize := 2 \<rparr>) 5 [1, 2, 3]
      (demo_soc [] (script_slave (replicate 8 0xff @ [0xff, 0, 0xff, 0xfe, 0x61, 0x62])) count_slave))
    (\<lambda>(e, buf', t). e = SD_SUCCESS \<and> buf' = [0x61, 0x62, 3]
    \<and> carded CS_PIN (sd_head 0 17 5 0xff @ polls 0 9 @ [(CS_PIN, 0xff)])
        (demo_soc [] (script_slave (replicate 8 0xff @ [0xff, 0, 0xff, 0xfe, 0x61, 0x62])) count_slave) t)"
  using sd_reads_sector [of "script_slave (replicate 8 0xff @ [0xff, 0, 0xff, 0xfe, 0x61, 0x62])"
      "demo_soc [] (script_slave (replicate 8 0xff @ [0xff, 0, 0xff, 0xfe, 0x61, 0x62])) count_slave"
      1 0 1 "0xfe" "[0x61, 0x62]" "sd_cleared \<lparr> ocr_sectorsize := 2 \<rparr>" "[1, 2, 3]" 5]
  by (simp add: timeouts length_sd_head script_slave_def nth_append)

text \<open>C26. When the card accepts the command but sends no token within the time allowed,
  \<^verbatim>\<open>SD_readsector\<close> reports an error, has not touched the buffer, and leaves the card selected.\<close>

theorem sd_read_timeout:
  assumes "spi_ready slave (spi2 s)" and "n \<le> 9" "r1 \<le> 1"
    and "says slave (selected s) (s_sent (spi2 s) @ sd_head (io s GPIOA_POUT) 17 sector 0xff)
      (replicate n 0xff @ [r1] @ replicate (unat SD_READ_TIMEOUT) 0xff)"
  shows "returns (SD_readsector soc_bus st sector buf s) (\<lambda>(e, buf', t).
    e = SD_ERROR \<and> buf' = buf
    \<and> carded (selected s) (sd_head (io s GPIOA_POUT) 17 sector 0xff
        @ polls (selected s) (n + 1 + unat SD_READ_TIMEOUT)) s t)"
  by (rule returns_mono [OF soc_sd.readsector_late_wp [OF assms]]) (auto dest: moved_carded)

lemma says_mute: "(\<And>h'. slave (h @ h') (p, 0xff) = r) \<Longrightarrow> says slave p h (replicate n r)"
proof (induction n arbitrary: h)
  case (Suc n)
  have "slave ((h @ [(p, 0xff)]) @ h') (p, 0xff) = r" for h' using Suc.prems [of "(p, 0xff) # h'"] by simp
  from Suc.IH [OF this] Suc.prems [of "[]"] show ?case by simp
qed simp

theorem sd_read_timeout_witness:
  "returns (SD_readsector soc_bus sd_cleared 5 [1, 2] (demo_soc [] (script_slave (replicate 9 0)) count_slave))
    (\<lambda>(e, buf', t). e = SD_ERROR \<and> buf' = [1, 2]
    \<and> carded 0 (sd_head 0 17 5 0xff @ polls 0 39063) (demo_soc [] (script_slave (replicate 9 0)) count_slave) t)"
proof -
  let ?f = "script_slave (replicate 9 0)" and ?h = "sd_head 0 17 5 0xff"
  have "says ?f 0 (?h @ [(0, 0xff)]) (replicate (unat SD_READ_TIMEOUT) 0xff)"
    by (rule says_mute) (simp add: script_slave_def length_sd_head)
  moreover have "?f ?h (0, 0xff) = 0" by (simp add: script_slave_def length_sd_head)
  ultimately show ?thesis
    using sd_read_timeout [of ?f "demo_soc [] ?f count_slave" 0 0 5 sd_cleared "[1, 2]"] by (simp add: timeouts)
qed

text \<open>C25. \<^verbatim>\<open>SD_writesector\<close> sends the start token and exactly the bytes of the sector, waits while the card
  is busy, and reports success when the card accepted the data and finished in time.\<close>

theorem sd_writes_sector:
  assumes "spi_ready slave (spi2 s)" "n \<le> 9" "r1 \<le> 1" "k < unat SD_WRITE_TIMEOUT" "token \<noteq> 0xff"
    and "token AND 0x1f = 5" and "m < unat SD_WRITE_TIMEOUT" "idle \<noteq> 0"
    and "length data = unat (ocr_sectorsize st)"
    and "says slave (selected s) (s_sent (spi2 s) @ sd_head (io s GPIOA_POUT) 24 sector 0xff)
      (replicate n 0xff @ [r1])"
    and "says slave (selected s) (s_sent (spi2 s) @ sd_write_head (io s GPIOA_POUT) sector data n)
      (replicate k 0xff @ [token] @ replicate m 0 @ [idle])"
  shows "returns (SD_writesector soc_bus st sector (data @ tail) s) (\<lambda>(e, t). e = SD_SUCCESS
    \<and> carded (deselected s) (sd_write_head (io s GPIOA_POUT) sector data n
        @ polls (selected s) (k + m + 3) @ [(deselected s, 0xff)]) s t)"
  by (rule returns_mono [OF soc_sd.writesector_stored_wp [OF assms]]) (auto dest: moved_carded)

theorem sd_writes_sector_witness:
  "returns (SD_writesector soc_bus (sd_cleared \<lparr> ocr_sectorsize := 2 \<rparr>) 5 ([0x61, 0x62] @ [3])
      (demo_soc [] (script_slave (replicate 8 0xff @ [0] @ replicate 5 0xff @ [0xe5, 0, 0, 1])) count_slave))
    (\<lambda>(e, t). e = SD_SUCCESS \<and> carded CS_PIN (sd_write_head 0 5 [0x61, 0x62] 0 @ polls 0 5 @ [(CS_PIN, 0xff)])
      (demo_soc [] (script_slave (replicate 8 0xff @ [0] @ replicate 5 0xff @ [0xe5, 0, 0, 1])) count_slave) t)"
  using sd_writes_sector [of "script_slave (replicate 8 0xff @ [0] @ replicate 5 0xff @ [0xe5, 0, 0, 1])"
      "demo_soc [] (script_slave (replicate 8 0xff @ [0] @ replicate 5 0xff @ [0xe5, 0, 0, 1])) count_slave"
      0 0 0 "0xe5" 2 1 "[0x61, 0x62]" "sd_cleared \<lparr> ocr_sectorsize := 2 \<rparr>" 5 "[3]"]
  by (simp add: timeouts length_sd_head script_slave_def nth_append sd_write_head_def replicate_2)

text \<open>When the card answers the data with anything but the accept token, \<^verbatim>\<open>SD_writesector\<close> deselects the
  card at once and reports an error only for the token of a write error: a CRC error is a success.\<close>

theorem sd_write_judged:
  assumes "spi_ready slave (spi2 s)" "n \<le> 9" "r1 \<le> 1" "k < unat SD_WRITE_TIMEOUT" "token \<noteq> 0xff"
    and "token AND 0x1f \<noteq> 5" and "length data = unat (ocr_sectorsize st)"
    and "says slave (selected s) (s_sent (spi2 s) @ sd_head (io s GPIOA_POUT) 24 sector 0xff)
      (replicate n 0xff @ [r1])"
    and "says slave (selected s) (s_sent (spi2 s) @ sd_write_head (io s GPIOA_POUT) sector data n)
      (replicate k 0xff @ [token])"
  shows "returns (SD_writesector soc_bus st sector (data @ tail) s) (\<lambda>(e, t).
    e = (if token AND 0x1f = 0x0d then SD_ERROR else SD_SUCCESS)
    \<and> carded (deselected s) (sd_write_head (io s GPIOA_POUT) sector data n
        @ polls (selected s) (k + 2) @ [(deselected s, 0xff)]) s t)"
  by (rule returns_mono [OF soc_sd.writesector_judged_wp [OF assms]]) (auto dest: moved_carded)

theorem sd_write_judged_witness:
  "returns (SD_writesector soc_bus (sd_cleared \<lparr> ocr_sectorsize := 1 \<rparr>) 5 ([0x61] @ [3])
      (demo_soc [] (script_slave (replicate 8 0xff @ [0] @ replicate 4 0xff @ [0xeb])) count_slave))
    (\<lambda>(e, t). e = SD_SUCCESS \<and> carded CS_PIN (sd_write_head 0 5 [0x61] 0 @ [(0, 0xff), (0, 0xff), (CS_PIN, 0xff)])
      (demo_soc [] (script_slave (replicate 8 0xff @ [0] @ replicate 4 0xff @ [0xeb])) count_slave) t)"
  using sd_write_judged [of "script_slave (replicate 8 0xff @ [0] @ replicate 4 0xff @ [0xeb])"
      "demo_soc [] (script_slave (replicate 8 0xff @ [0] @ replicate 4 0xff @ [0xeb])) count_slave"
      0 0 0 "0xeb" "[0x61]" "sd_cleared \<lparr> ocr_sectorsize := 1 \<rparr>" 5 "[3]"]
  by (simp add: timeouts length_sd_head script_slave_def nth_append sd_write_head_def replicate_2)

text \<open>C23. \<^verbatim>\<open>SD_initialize\<close> succeeds on every card that answers each command of the sequence as a ready card
  does (after at most nine bytes of waiting, and with its register blocks in time), fills the static structs
  with the fields of the card's registers, and leaves the card deselected.\<close>

theorem sd_initializes:
  assumes "spi_ready slave (spi2 s)" and "obeys slave wait rsp"
    and "rsp 0 = [r0]" "r0 \<le> 1" and "rsp 8 = [r8, e1, e2, e3, e4]" "r8 \<le> 1"
    and "rsp 55 = [r55]" "r55 \<le> 1" and "rsp 41 = [0]"
    and "rsp 58 = [r58, ocr, o2, o3, o4]" "r58 \<le> 1" "bit ocr 7"
    and "rsp 9 = 0 # replicate k 0xff @ 0xfe # csd" "k < unat SD_READ_TIMEOUT" "length csd = 16"
    and "rsp 10 = 0 # replicate m 0xff @ 0xfe # cid" "m < unat SD_READ_TIMEOUT" "length cid = 16"
    and "length buf = 16"
  shows "returns (SD_initialize soc_bus buf st s) (\<lambda>(e, st', t). e = SD_SUCCESS \<and> st' = sd_described ocr csd cid
    \<and> io t GPIOA_POUT = io s GPIOA_POUT OR CS_PIN \<and> sd_aside t = sd_aside s)"
  by (rule returns_mono [OF soc_sd.initialize_wp [OF assms]]) (auto simp: soc_sd.parked_def)

text \<open>A card for the examples: it finds the last command in the history, whose argument does not end
  in \<^verbatim>\<open>0xff\<close>, by stepping back over the polls, and answers from a table.\<close>

definition demo_reply :: "u8 \<Rightarrow> u8 list" where
  "demo_reply c = (if c = 0x40 then [1] else if c = 0x48 then [1, 0, 0, 1, 0xaa] else if c = 0x77 then [1]
     else if c = 0x69 then [0] else if c = 0x7a then [0, 0xc0, 0xff, 0x80, 0]
     else if c = 0x49 then [0, 0xff, 0xfe] @ [0x40, 0, 0, 0x32, 0, 0, 0, 0, 0x3b, 0x37, 0, 0, 0, 0, 0, 0]
     else [0, 0xfe] @ [3, 0x53, 0x44, 0x53, 0x55, 0x30, 0x38, 0x47, 0x80, 0, 1, 2, 3, 1, 0x2a, 0])"

definition demo_card :: "(u8 \<Rightarrow> u8 list) \<Rightarrow> (u32 \<times> u8) list \<Rightarrow> u32 \<times> u8 \<Rightarrow> u8" where
  "demo_card tbl h c =
     (let n = length (takeWhile (\<lambda>x. snd x = 0xff) (rev h));
          frame = map snd (dropWhile (\<lambda>x. snd x = 0xff) (rev h));
          own = hd frame = 0x95 \<or> hd frame = 0x87;
          rsp = tbl (frame ! (if own then 5 else 4));
          i = (if own then n else n - 1)
      in if i < length rsp then rsp ! i else 0xff)"

lemma demo_obeys: "obeys (demo_card demo_reply) (\<lambda>_. 0) (\<lambda>cmd. demo_reply (cmd OR 0x40))"
  unfolding obeys_def init_commands_def
  by (auto simp: sd_head_def command_bytes_def sd_arg_def sd_crc_def demo_reply_def demo_card_def)

theorem sd_initializes_witness:
  "returns (SD_initialize soc_bus (replicate 16 0) sd_cleared (demo_soc [] (demo_card demo_reply) count_slave)) (\<lambda>(e, st', t).
    e = SD_SUCCESS
    \<and> st' = sd_described 0xc0 (drop 3 (demo_reply 0x49)) (drop 2 (demo_reply 0x4a))
    \<and> io t GPIOA_POUT = CS_PIN \<and> sd_aside t = sd_aside (demo_soc [] (demo_card demo_reply) count_slave))"
  using sd_initializes [of "demo_card demo_reply" "demo_soc [] (demo_card demo_reply) count_slave" "\<lambda>_. 0" "\<lambda>cmd. demo_reply (cmd OR 0x40)"
      1 1 0 0 1 "0xaa" 1 0 "0xc0" "0xff" "0x80" 0 1 "drop 3 (demo_reply 0x49)" 0 "drop 2 (demo_reply 0x4a)"
      "replicate 16 0" sd_cleared] demo_obeys
  by (simp add: timeouts demo_reply_def ocr_bits)

text \<open>C27. \<^verbatim>\<open>SD_CMD910\<close> never returns when the card accepts the command and then sends nothing: the timeout
  releases the card and goes on waiting.\<close>

theorem sd_register_read_hangs:
  assumes "spi_ready slave (spi2 s)" and "n \<le> 9"
    and "says slave (selected s) (s_sent (spi2 s) @ sd_head (io s GPIOA_POUT) cmd 0 0xff) (replicate n 0xff @ [0])"
    and "\<And>p h. slave (s_sent (spi2 s) @ sd_head (io s GPIOA_POUT) cmd 0 0xff @ polls (selected s) (n + 1) @ h)
      (p, 0xff) = 0xff"
  shows "SD_CMD910 soc_bus cmd buf s = None"
  using assms by (rule soc_sd.CMD910_mute)

theorem sd_register_read_hangs_witness:
  "SD_CMD910 soc_bus 9 (replicate 16 0) (demo_soc [] (script_slave (replicate 9 0)) count_slave) = None"
  using sd_register_read_hangs [of "script_slave (replicate 9 0)"
      "demo_soc [] (script_slave (replicate 9 0)) count_slave" 0 9 "replicate 16 0"]
  by (simp add: script_slave_def length_sd_head)

end
