(* ===== verification/Handlers.thy ===== *)
theory Handlers
  imports Ram Periph Util
begin

text \<open>
  The interrupt handlers of the two interrupt programs, \<^verbatim>\<open>sw/interrupt_direct/handlers_direct.c\<close> and
  \<^verbatim>\<open>sw/interrupt_vectored/handlers_vectored.c\<close>. The two files hold the same functions; they differ in the
  period of the system timer, which is a parameter here, and in who saves the registers.
\<close>

section \<open>The handlers\<close>

definition external_timer_delta_direct :: u64 where "external_timer_delta_direct = 1000000 div 10"
definition external_timer_delta_vectored :: u64 where "external_timer_delta_vectored = 1000000 div 1000"

text \<open>The trap frame is what the trap handler saves on the stack: the registers, \<^verbatim>\<open>mcause\<close>, \<^verbatim>\<open>mepc\<close>, the
  instruction and \<^verbatim>\<open>mtval\<close>, one word each.\<close>

definition frame_mcause :: u32 where [addr_defs]: "frame_mcause = 32 * 4"
definition frame_mepc :: u32 where [addr_defs]: "frame_mepc = 33 * 4"
definition frame_instr :: u32 where [addr_defs]: "frame_instr = 34 * 4"
definition frame_mtval :: u32 where [addr_defs]: "frame_mtval = 35 * 4"

text \<open>\<^verbatim>\<open>hex[val & 0xf]\<close>, and the loop that fills positions \<open>k - 1\<close> down to 0.\<close>

definition hex_of :: "u32 \<Rightarrow> u8" where
  "hex_of v = str ''0123456789abcdef'' ! unat (v AND 0xf)"

fun debugger_loop :: "nat \<Rightarrow> u32 \<Rightarrow> u8 list \<Rightarrow> u8 list" where
  "debugger_loop 0 val buf = buf"
| "debugger_loop (Suc i) val buf = debugger_loop i (drop_bit 4 val) (buf[i := hex_of val])"

definition debugger :: "'d bus \<Rightarrow> u32 \<Rightarrow> u8 list \<Rightarrow> 'd \<Rightarrow> 'd option" where
  "debugger b tf buf s =
     do { let (val, s) = ld32 b (tf + frame_mepc) s;
          s \<leftarrow> uart1_puts b (cstr (crlf @ str ''EBREAK! mepc = '')) s;
          let buf = debugger_loop 8 val buf;
          let buf = buf[8 := 0];
          s \<leftarrow> uart1_puts b (Some buf) s;
          s \<leftarrow> uart1_puts b (cstr (str '' insn = '')) s;
          let (val, s) = ld32 b (tf + frame_instr) s;
          let buf = debugger_loop 8 val buf;
          s \<leftarrow> uart1_puts b (Some buf) s;
          uart1_puts b (cstr crlf) s }"

definition timer1_handler :: "'d bus \<Rightarrow> 'd \<Rightarrow> 'd" where
  "timer1_handler b s =
     (let s = rmw b TIMER1_STAT (\<lambda>v. v AND NOT (push_bit 4 1)) s
      in rmw b GPIOA_POUT (\<lambda>v. v XOR 0x1) s)"

text \<open>\<^verbatim>\<open>while (1);\<close> is a poll for something that never happens.\<close>

definition default_handler :: "'d bus \<Rightarrow> 'd \<Rightarrow> 'd option" where
  "default_handler b s =
     (let s = rmw b GPIOA_POUT (\<lambda>v. v OR push_bit 9 1) s in poll (Pair 0) (\<lambda>_. False) s)"

text \<open>The loop that reads the clock.\<close>

partial_function (option) mtime_loop :: "'d bus \<Rightarrow> 'd \<Rightarrow> (u64 \<times> 'd) option" where
  "mtime_loop b s =
     (let (timeh, s) = ld32 b MTIMEH s;
          (time, s) = ld32 b MTIME s;
          (again, s) = ld32 b MTIMEH s
      in if timeh \<noteq> again then mtime_loop b s
         else Some (push_bit 32 (ucast timeh) OR ucast time, s))"

definition external_timer_handler :: "'d bus \<Rightarrow> u64 \<Rightarrow> 'd \<Rightarrow> 'd option" where
  "external_timer_handler b external_timer_delta s =
     do { (cur_time, s) \<leftarrow> mtime_loop b s;
          let cur_time = cur_time + external_timer_delta;
          let s = st32 b MTIMECMPH (- 1) s;
          let s = st32 b MTIMECMP (- 1) s;
          let s = st32 b MTIMECMP (ucast (cur_time AND 0xffffffff)) s;
          let s = st32 b MTIMECMPH (ucast (drop_bit 32 cur_time)) s;
          Some (rmw b GPIOA_POUT (\<lambda>v. v XOR 0x2) s) }"

definition uart1_handler :: "'d bus \<Rightarrow> 'd \<Rightarrow> 'd" where
  "uart1_handler b s =
     (let (stat, s) = ld32 b UART1_STAT s
      in if stat AND UART_STAT_RC \<noteq> 0 then
           (let s = rmw b GPIOA_POUT (\<lambda>v. v XOR 0x8) s in snd (ld32 b UART1_DATA s))
         else s)"

definition timer2_handler :: "'d bus \<Rightarrow> 'd \<Rightarrow> 'd" where
  "timer2_handler b s =
     (let s = rmw b TIMER2_STAT (\<lambda>v. v AND NOT (push_bit 4 0xf)) s
      in rmw b GPIOA_POUT (\<lambda>v. v XOR 0x4) s)"

definition spi1_handler :: "'d bus \<Rightarrow> 'd \<Rightarrow> 'd" where
  "spi1_handler b s =
     (let s = rmw b (SPI1_BASE + STAT_offset) (\<lambda>v. v AND NOT SPI_TC) s
      in rmw b GPIOA_POUT (\<lambda>v. v XOR 0x10) s)"

definition i2c1_handler :: "'d bus \<Rightarrow> 'd \<Rightarrow> 'd" where
  "i2c1_handler b s =
     (let s = rmw b (I2C1_BASE + STAT_offset) (\<lambda>v. v AND NOT I2C_TC) s
      in rmw b GPIOA_POUT (\<lambda>v. v XOR 0x20) s)"

definition i2c2_handler :: "'d bus \<Rightarrow> 'd \<Rightarrow> 'd" where
  "i2c2_handler b s =
     (let s = rmw b (I2C2_BASE + STAT_offset) (\<lambda>v. v AND NOT I2C_TC) s
      in rmw b GPIOA_POUT (\<lambda>v. v XOR 0x80) s)"

definition external_input_handler :: "'d bus \<Rightarrow> 'd \<Rightarrow> 'd" where
  "external_input_handler b s =
     (let s = st32 b GPIOA_EXTS 0 s in rmw b GPIOA_POUT (\<lambda>v. v XOR 0x40) s)"

definition external_msi_handler :: "'d bus \<Rightarrow> 'd \<Rightarrow> 'd" where
  "external_msi_handler b s =
     (let s = st32 b MSI_TRIG 0 s in rmw b GPIOA_POUT (\<lambda>v. v XOR 0x100) s)"

text \<open>The functions that a handler can be, by name, and what they do.\<close>

datatype handler = Timer1 | Timer2 | External_timer | Msi | Uart1 | Spi1 | I2c1 | I2c2 | External_input

definition run_handler :: "'d bus \<Rightarrow> u64 \<Rightarrow> handler \<Rightarrow> 'd \<Rightarrow> 'd option" where
  "run_handler b delta h s =
     (case h of
        External_timer \<Rightarrow> external_timer_handler b delta s
      | Msi \<Rightarrow> Some (external_msi_handler b s)
      | Spi1 \<Rightarrow> Some (spi1_handler b s)
      | I2c1 \<Rightarrow> Some (i2c1_handler b s)
      | I2c2 \<Rightarrow> Some (i2c2_handler b s)
      | Timer2 \<Rightarrow> Some (timer2_handler b s)
      | Uart1 \<Rightarrow> Some (uart1_handler b s)
      | Timer1 \<Rightarrow> Some (timer1_handler b s)
      | External_input \<Rightarrow> Some (external_input_handler b s))"

end
