(* ===== verification/Traps.thy ===== *)
theory Traps
  imports Handlers Syscalls
begin

text \<open>
  The trap handlers of the interrupt programs: \<^verbatim>\<open>sw/interrupt_direct/trap_handler_direct.c\<close>, through which
  every trap goes, and \<^verbatim>\<open>sw/interrupt_vectored/trap_handler_vectored.c\<close>, whose jump table sends the interrupts
  to their handlers. The assembler part works on the register file \<open>regs\<close>; what the C part leaves in the
  registers it may overwrite is the parameter \<open>junk\<close>.
\<close>

section \<open>The C library\<close>

text \<open>The numbers of the system calls and the layout of its structs are the library's.\<close>

datatype syscall = SYS_brk | SYS_read | SYS_write | SYS_gettimeofday | SYS_clock_gettime64 | SYS_exit
  | SYS_open | SYS_close | SYS_fstat | SYS_stat | SYS_fstatat | SYS_lstat | SYS_unlink | SYS_lseek
  | SYS_link | SYS_access

record libc =
  nr :: "syscall \<Rightarrow> u32"
  tv_usec_at :: u32
  st_mode_at :: u32

definition EBADF :: u32 where "EBADF = 9"
definition EACCES :: u32 where "EACCES = 13"
definition ENOSYS :: u32 where "ENOSYS = 88"

text \<open>\<^verbatim>\<open>__io_putchar\<close> and \<^verbatim>\<open>__io_getchar\<close> of the two programs.\<close>

definition uart_putchar :: "'d bus \<Rightarrow> u32 \<Rightarrow> 'd \<Rightarrow> 'd option" where
  "uart_putchar b c s = uart1_putc b c s"

definition uart_getchar :: "'d bus \<Rightarrow> 'd \<Rightarrow> (u32 \<times> 'd) option" where
  "uart_getchar b s = uart1_getc b s"

section \<open>System calls\<close>

definition st64 :: "'d bus \<Rightarrow> u32 \<Rightarrow> u64 \<Rightarrow> 'd \<Rightarrow> 'd" where
  "st64 b a v s = st32 b (a + 4) (ucast (drop_bit 32 v)) (st32 b a (ucast v) s)"

fun trap_read_loop :: "'d bus \<Rightarrow> nat \<Rightarrow> u32 \<Rightarrow> 'd \<Rightarrow> 'd option" where
  "trap_read_loop b 0 p s = Some s"
| "trap_read_loop b (Suc k) p s =
     do { (c, s) \<leftarrow> uart_getchar b s; trap_read_loop b k (p + 1) (st8 b p (ucast c) s) }"

fun trap_write_loop :: "'d bus \<Rightarrow> nat \<Rightarrow> u32 \<Rightarrow> 'd \<Rightarrow> 'd option" where
  "trap_write_loop b 0 p s = Some s"
| "trap_write_loop b (Suc k) p s =
     do { let (c, s) = ld8 b p s; s \<leftarrow> uart_putchar b (ucast c) s; trap_write_loop b k (p + 1) s }"

text \<open>The branch for system calls: the result, \<^verbatim>\<open>errno\<close> and the new state.\<close>

definition trap_syscall ::
    "'d bus \<Rightarrow> libc \<Rightarrow> linker \<Rightarrow> u32 \<Rightarrow> u32 \<Rightarrow> u32 \<Rightarrow> u32 \<Rightarrow> u32 \<Rightarrow> 'd \<Rightarrow> (u32 \<times> u32 \<times> 'd) option" where
  "trap_syscall b C L syscall_id a0 a1 a2 err s =
     (if syscall_id = nr C SYS_brk then
        (if a0 = 0 then Some (l_end L, err, s)
         else if a0 < l_stack_pointer L - l_stack_size L then Some (a0, err, s)
         else Some (- 1, ENOMEM, s))
      else if syscall_id = nr C SYS_read then
        do { s \<leftarrow> trap_read_loop b (nat (sint a2)) a1 s; Some (a2, err, s) }
      else if syscall_id = nr C SYS_write then
        do { s \<leftarrow> trap_write_loop b (nat (sint a2)) a1 s; Some (a2, err, s) }
      else if syscall_id = nr C SYS_gettimeofday then
        do { (thetime, s) \<leftarrow> csr_get b rdtimeh rdtime s;
             let s = st32 b (a0 + tv_usec_at C) (ucast (thetime mod 1000000)) s;
             let s = st64 b a0 (thetime div 1000000) s;
             Some (0, err, s) }
      else if syscall_id = nr C SYS_clock_gettime64 then
        do { (thetime, s) \<leftarrow> csr_get b rdtimeh rdtime s;
             let s = st32 b (a1 + 8) (ucast (thetime mod 1000000 * 1000)) s;
             let s = st64 b a1 (thetime div 1000000) s;
             Some (0, err, s) }
      else if syscall_id = nr C SYS_exit then Some (0, err, s)
      else if syscall_id = nr C SYS_open then Some (- 1, EBADF, s)
      else if syscall_id = nr C SYS_close then Some (- 1, EBADF, s)
      else if syscall_id = nr C SYS_fstat then Some (0, err, st32 b (a1 + st_mode_at C) S_IFCHR s)
      else if syscall_id = nr C SYS_stat then Some (0, err, st32 b (a1 + st_mode_at C) S_IFCHR s)
      else if syscall_id = nr C SYS_fstatat then Some (0, err, st32 b (a1 + st_mode_at C) S_IFCHR s)
      else if syscall_id = nr C SYS_lstat then Some (0, err, st32 b (a1 + st_mode_at C) S_IFCHR s)
      else if syscall_id = nr C SYS_unlink then Some (- 1, ENOENT, s)
      else if syscall_id = nr C SYS_lseek then Some (0, err, s)
      else if syscall_id = nr C SYS_link then Some (- 1, EMLINK, s)
      else if syscall_id = nr C SYS_access then Some (- 1, EACCES, s)
      else Some (- 1, ENOSYS, s))"

section \<open>The C part of the handlers\<close>

definition interrupt :: "u32 \<Rightarrow> u32" where "interrupt n = push_bit 31 1 + n"

definition MTIME_IN_MCAUSE :: u32 where "MTIME_IN_MCAUSE = interrupt 7"
definition MSI_IN_MCAUSE :: u32 where "MSI_IN_MCAUSE = interrupt 3"
definition SPI1_IN_MCAUSE :: u32 where "SPI1_IN_MCAUSE = interrupt 27"
definition I2C1_IN_MCAUSE :: u32 where "I2C1_IN_MCAUSE = interrupt 26"
definition I2C2_IN_MCAUSE :: u32 where "I2C2_IN_MCAUSE = interrupt 24"
definition UART1_IN_MCAUSE :: u32 where "UART1_IN_MCAUSE = interrupt 23"
definition TIMER2_IN_MCAUSE :: u32 where "TIMER2_IN_MCAUSE = interrupt 21"
definition TIMER1_IN_MCAUSE :: u32 where "TIMER1_IN_MCAUSE = interrupt 20"
definition EXTI_IN_MCAUSE :: u32 where "EXTI_IN_MCAUSE = interrupt 18"
definition EBREAK_IN_MCAUSE :: u32 where "EBREAK_IN_MCAUSE = 3"
definition ECALL_IN_MCAUSE :: u32 where "ECALL_IN_MCAUSE = 11"

text \<open>The exceptions; the other causes have empty branches. \<open>buf\<close> is the debugger's array.\<close>

definition trap_exception ::
    "'d bus \<Rightarrow> libc \<Rightarrow> linker \<Rightarrow> u8 list \<Rightarrow> u32 \<Rightarrow> (nat \<Rightarrow> u32) \<Rightarrow> u32 \<Rightarrow> 'd \<Rightarrow> (u32 \<times> u32 \<times> 'd) option" where
  "trap_exception b C L buf cause regs err s =
     (if cause = ECALL_IN_MCAUSE then trap_syscall b C L (regs 17) (regs 10) (regs 11) (regs 12) err s
      else if cause = EBREAK_IN_MCAUSE then do { s \<leftarrow> debugger b (regs 16) buf s; Some (0, err, s) }
      else Some (0, err, s))"

text \<open>The handler that an interrupt goes to; the order of the tests is that of the code.\<close>

definition direct_handler :: "u32 \<Rightarrow> handler option" where
  "direct_handler cause =
     (if cause = MTIME_IN_MCAUSE then Some External_timer
      else if cause = MSI_IN_MCAUSE then Some Msi
      else if cause = SPI1_IN_MCAUSE then Some Spi1
      else if cause = I2C1_IN_MCAUSE then Some I2c1
      else if cause = I2C2_IN_MCAUSE then Some I2c2
      else if cause = TIMER2_IN_MCAUSE then Some Timer2
      else if cause = UART1_IN_MCAUSE then Some Uart1
      else if cause = TIMER1_IN_MCAUSE then Some Timer1
      else if cause = EXTI_IN_MCAUSE then Some External_input
      else None)"

text \<open>\<^verbatim>\<open>__trap_handler_execute\<close>: its arguments are the registers \<^verbatim>\<open>a0\<close> to \<^verbatim>\<open>a7\<close>, which are \<open>x10\<close> to \<open>x17\<close>.\<close>

definition trap_execute_direct ::
    "'d bus \<Rightarrow> libc \<Rightarrow> linker \<Rightarrow> u8 list \<Rightarrow> (nat \<Rightarrow> u32) \<Rightarrow> u32 \<Rightarrow> 'd \<Rightarrow> (u32 \<times> u32 \<times> 'd) option" where
  "trap_execute_direct b C L buf regs err s =
     (let (cause, s) = csrr b mcause s
      in case direct_handler cause of
           Some h \<Rightarrow> do { s \<leftarrow> run_handler b external_timer_delta_direct h s; Some (0, err, s) }
         | None \<Rightarrow> trap_exception b C L buf cause regs err s)"

definition trap_execute_vectored ::
    "'d bus \<Rightarrow> libc \<Rightarrow> linker \<Rightarrow> u8 list \<Rightarrow> (nat \<Rightarrow> u32) \<Rightarrow> u32 \<Rightarrow> 'd \<Rightarrow> (u32 \<times> u32 \<times> 'd) option" where
  "trap_execute_vectored b C L buf regs err s =
     (let (cause, s) = csrr b mcause s in trap_exception b C L buf cause regs err s)"

section \<open>The assembler part\<close>

definition save_reg :: "'d bus \<Rightarrow> (nat \<Rightarrow> u32) \<Rightarrow> nat \<Rightarrow> 'd \<Rightarrow> 'd" where
  "save_reg b regs n s = st32 b (regs 2 + word_of_nat n * 4) (regs n) s"

definition load_reg :: "'d bus \<Rightarrow> nat \<Rightarrow> (nat \<Rightarrow> u32) \<times> 'd \<Rightarrow> (nat \<Rightarrow> u32) \<times> 'd" where
  "load_reg b n = (\<lambda>(regs, s). let (v, s) = ld32 b (regs 2 + word_of_nat n * 4) s in (regs(n := v), s))"

text \<open>Up to the call of the C part: make room, save \<open>x1\<close> to \<open>x31\<close>, and fill in the rest of the frame
  through \<^verbatim>\<open>t0\<close> (\<open>x5\<close>); \<^verbatim>\<open>a6\<close> (\<open>x16\<close>) points to the frame.\<close>

definition trap_entry :: "'d bus \<Rightarrow> (nat \<Rightarrow> u32) \<Rightarrow> 'd \<Rightarrow> (nat \<Rightarrow> u32) \<times> 'd" where
  "trap_entry b regs s =
     (let regs = regs(2 := regs 2 - 36 * 4);
          s = fold (save_reg b regs) [1..<32] s;
          (t0, s) = csrr b mcause s;
          s = st32 b (regs 2 + frame_mcause) t0 s;
          (t0, s) = csrr b mepc s;
          s = st32 b (regs 2 + frame_mepc) t0 s;
          (t0, s) = ld32 b t0 s;
          s = st32 b (regs 2 + frame_instr) t0 s;
          (t0, s) = csrr b mtval s;
          s = st32 b (regs 2 + frame_mtval) t0 s
      in (regs(5 := t0, 16 := regs 2), s))"

text \<open>The registers after the call: the result in \<^verbatim>\<open>a0\<close>, and the ones a callee keeps.\<close>

definition callee_saved :: "nat set" where
  "callee_saved = {2, 3, 4, 8, 9} \<union> {18..27}"

definition after_call :: "(nat \<Rightarrow> u32) \<Rightarrow> (nat \<Rightarrow> u32) \<Rightarrow> u32 \<Rightarrow> nat \<Rightarrow> u32" where
  "after_call junk regs r = (\<lambda>n. if n = 10 then r else if n \<in> callee_saved \<union> {0} then regs n else junk n)"

text \<open>From there to \<^verbatim>\<open>mret\<close>.\<close>

definition trap_exit :: "'d bus \<Rightarrow> (nat \<Rightarrow> u32) \<Rightarrow> 'd \<Rightarrow> (nat \<Rightarrow> u32) \<times> 'd" where
  "trap_exit b regs s =
     (let (t0, s) = ld32 b (regs 2 + frame_mcause) s;
          regs = regs(5 := t0);
          (regs, s) =
            (if sint t0 < 0 then (regs, s)
             else (let (t1, s) = csrr b mepc s; t1 = t1 + 4 in (regs(6 := t1), csrw b mepc t1 s)));
          regs = regs(6 := 0x0b);
          (regs, s) = (if t0 = 0x0b then (regs, s) else load_reg b 10 (regs, s));
          (regs, s) = fold (load_reg b) (rev [11..<32] @ rev [1..<10]) (regs, s)
      in (regs(2 := regs 2 + 36 * 4), s))"

definition trap_handler ::
    "'d bus \<Rightarrow> ((nat \<Rightarrow> u32) \<Rightarrow> u32 \<Rightarrow> 'd \<Rightarrow> (u32 \<times> u32 \<times> 'd) option) \<Rightarrow> (nat \<Rightarrow> u32) \<Rightarrow> (nat \<Rightarrow> u32) \<Rightarrow> u32 \<Rightarrow> 'd
      \<Rightarrow> ((nat \<Rightarrow> u32) \<times> u32 \<times> 'd) option" where
  "trap_handler b exec junk regs err s =
     do { let (regs, s) = trap_entry b regs s;
          (r, err, s) \<leftarrow> exec regs err s;
          let (regs, s) = trap_exit b (after_call junk regs r) s;
          Some (regs, err, s) }"

definition trap_handler_direct where
  "trap_handler_direct b C L buf = trap_handler b (trap_execute_direct b C L buf)"

definition trap_handler_vectored where
  "trap_handler_vectored b C L buf = trap_handler b (trap_execute_vectored b C L buf)"

section \<open>The jump table\<close>

datatype target = Exception | Default | Handler handler

definition trap_handler_jump_table :: "target list" where
  "trap_handler_jump_table =
     [Exception, Default, Default, Handler Msi, Default, Default, Default, Handler External_timer,
      Default, Default, Default, Default, Default, Default, Default, Default,
      Default, Default, Handler External_input, Default, Handler Timer1, Handler Timer2, Default, Handler Uart1,
      Handler I2c2, Default, Handler I2c1, Handler Spi1, Default, Default, Default, Default]"

text \<open>What the processor does in vectored mode: an interrupt goes to the entry of its number, an
  exception to the first entry. The handlers that the table names save the registers they use.\<close>

definition vectored_trap ::
    "'d bus \<Rightarrow> libc \<Rightarrow> linker \<Rightarrow> u8 list \<Rightarrow> (nat \<Rightarrow> u32) \<Rightarrow> (nat \<Rightarrow> u32) \<Rightarrow> u32 \<Rightarrow> 'd
      \<Rightarrow> ((nat \<Rightarrow> u32) \<times> u32 \<times> 'd) option" where
  "vectored_trap b C L buf junk regs err s =
     (let (cause, s) = csrr b mcause s;
          entry = (if sint cause < 0 then unat (cause AND 0x1f) else 0)
      in case trap_handler_jump_table ! entry of
           Exception \<Rightarrow> trap_handler_vectored b C L buf junk regs err s
         | Default \<Rightarrow> do { s \<leftarrow> default_handler b s; Some (regs, err, s) }
         | Handler h \<Rightarrow> do { s \<leftarrow> run_handler b external_timer_delta_vectored h s; Some (regs, err, s) })"

end
