(* ===== verification/Traplaws.thy ===== *)
theory Traplaws
  imports Traps
begin

text \<open>
  What the assembler of the trap handlers does with the registers: the trap frame is a block of 36 words
  under the stack pointer, and everything outside it is left alone.
\<close>

section \<open>The frame\<close>

definition slot :: "u32 \<Rightarrow> nat \<Rightarrow> u32" where
  "slot sp n = sp + word_of_nat n * 4"

definition frame_word :: "(u32 \<Rightarrow> u8) \<Rightarrow> u32 \<Rightarrow> nat \<Rightarrow> u32" where
  "frame_word m sp n = mem_word m (slot sp n)"

definition outside :: "u32 \<Rightarrow> u32 \<Rightarrow> bool" where
  "outside sp x \<longleftrightarrow> unat x < unat sp \<or> unat sp + 144 \<le> unat x"

text \<open>The stack has room for a frame at \<open>sp\<close>, and is aligned.\<close>

definition room :: "u32 \<Rightarrow> u32 \<Rightarrow> bool" where
  "room limit sp \<longleftrightarrow> sp AND 3 = 0 \<and> unat sp + 144 \<le> unat limit"

lemma frame_addr:
  assumes "room limit sp" "k < 144"
  shows "unat (sp + word_of_nat k) = unat sp + k"
proof -
  have "unat limit < 2 ^ 32" using unsigned_less [of limit] by simp
  with assms have "unat sp + k < 2 ^ 32" by (simp add: room_def)
  moreover have "unat (word_of_nat k :: u32) = k" using assms(2) by (simp add: unsigned_of_nat take_bit_nat_eq_self_iff)
  ultimately show ?thesis by (simp add: unat_word_ariths)
qed

lemma slot_nat: "slot sp n + word_of_nat i = sp + word_of_nat (4 * n + i)"
  by (simp add: slot_def algebra_simps)

lemma slot_addr:
  assumes "room limit sp" "n < 36" "i < 4"
  shows "unat (slot sp n + word_of_nat i) = unat sp + 4 * n + i"
  using frame_addr [OF assms(1), of "4 * n + i"] assms(2,3) by (simp add: slot_nat del: of_nat_add of_nat_mult)

lemma slot_low: "room limit sp \<Longrightarrow> n < 36 \<Longrightarrow> slot sp n < limit"
  using slot_addr [of limit sp n 0] by (simp add: word_less_nat_alt room_def)

lemma aligned_nat: "a AND 3 = 0 \<longleftrightarrow> unat a mod 4 = 0" for a :: u32
  using unat_and_mask [of a 2] by (simp add: mask_eq_exp_minus_1 word_eq_unat_iff)

lemma slot_aligned: "room limit sp \<Longrightarrow> n < 36 \<Longrightarrow> slot sp n AND 3 = 0"
  using slot_addr [of limit sp n 0] by (simp add: aligned_nat room_def mod_add_eq [symmetric])

lemma put_word_other: "x \<noteq> a \<Longrightarrow> x \<noteq> a + 1 \<Longrightarrow> x \<noteq> a + 2 \<Longrightarrow> x \<noteq> a + 3 \<Longrightarrow> put_word a v m x = m x"
  by (simp add: put_word_def)

lemma slot_byte_neq:
  assumes "room limit sp" "k < 36" "i < 4" "unat x < unat sp + 4 * k \<or> unat sp + 4 * k + 4 \<le> unat x"
  shows "x \<noteq> slot sp k + word_of_nat i"
  using slot_addr [OF assms(1-3)] assms(3,4) by auto

lemma put_slot_other:
  assumes "room limit sp" "k < 36" "unat x < unat sp + 4 * k \<or> unat sp + 4 * k + 4 \<le> unat x"
  shows "put_word (slot sp k) v m x = m x"
  using slot_byte_neq [OF assms(1,2) _ assms(3), of 0] slot_byte_neq [OF assms(1,2) _ assms(3), of 1]
    slot_byte_neq [OF assms(1,2) _ assms(3), of 2] slot_byte_neq [OF assms(1,2) _ assms(3), of 3]
  by (intro put_word_other) simp_all

lemma put_slot_outside: "room limit sp \<Longrightarrow> k < 36 \<Longrightarrow> outside sp x \<Longrightarrow> put_word (slot sp k) v m x = m x"
  by (rule put_slot_other) (auto simp: outside_def)

lemma put_slot_word:
  assumes "room limit sp" "k < 36" "n < 36"
  shows "frame_word (put_word (slot sp k) v m) sp n = (if n = k then v else frame_word m sp n)"
proof (cases "n = k")
  case True
  then show ?thesis by (simp add: frame_word_def mem_word_put_word)
next
  case False
  have same: "put_word (slot sp k) v m (slot sp n + word_of_nat i) = m (slot sp n + word_of_nat i)" if "i < 4" for i
    using False that slot_addr [OF assms(1,3) that] by (intro put_slot_other [OF assms(1,2)]) auto
  show ?thesis
    using False same [of 0] same [of 1] same [of 2] same [of 3] by (simp add: frame_word_def mem_word_def)
qed

lemma frame_word_cong:
  assumes "room limit sp" "n < 36" "\<And>x. \<not> outside sp x \<Longrightarrow> m x = m' x"
  shows "frame_word m sp n = frame_word m' sp n"
proof -
  have same: "m (slot sp n + word_of_nat i) = m' (slot sp n + word_of_nat i)" if "i < 4" for i
    using slot_addr [OF assms(1,2) that] assms(2) that by (intro assms(3)) (auto simp: outside_def)
  show ?thesis
    using same [of 0] same [of 1] same [of 2] same [of 3] by (simp add: frame_word_def mem_word_def)
qed

section \<open>Entry and exit\<close>

text \<open>The contract: memory, and the control and status registers that the handler reads and writes.\<close>

locale trap_port = ram_port b limit ready memory "\<lambda>s. (csr s, aux s)"
  for b :: "'d bus" and limit and ready and memory and csr :: "'d \<Rightarrow> u32 \<Rightarrow> u32" and aux :: "'d \<Rightarrow> 'x" +
  assumes csr_read: "ready s \<Longrightarrow> n = mcause \<or> n = mepc \<or> n = mtval \<Longrightarrow> csrr b n s = (v, t) \<Longrightarrow>
      v = csr s n \<and> ready t \<and> memory t = memory s \<and> csr t = csr s \<and> aux t = aux s"
    and csr_write: "ready s \<Longrightarrow> t = csrw b mepc v s \<Longrightarrow>
      ready t \<and> memory t = memory s \<and> csr t = (csr s)(mepc := v) \<and> aux t = aux s"
begin

text \<open>Since \<open>s\<close> only the frame at \<open>sp\<close> has been written.\<close>

definition kept :: "u32 \<Rightarrow> 'd \<Rightarrow> 'd \<Rightarrow> bool" where
  "kept sp s t \<longleftrightarrow> ready t \<and> csr t = csr s \<and> aux t = aux s \<and> (\<forall>x. outside sp x \<longrightarrow> memory t x = memory s x)"

lemma kept_refl [simp]: "ready s \<Longrightarrow> kept sp s s"
  by (simp add: kept_def)

lemma store_slot:
  assumes "room limit sp" "k < 36" "kept sp s u"
  shows "kept sp s (st32 b (slot sp k) v u)"
    and "n < 36 \<Longrightarrow> frame_word (memory (st32 b (slot sp k) v u)) sp n
      = (if n = k then v else frame_word (memory u) sp n)"
  using store32 [OF _ slot_low [OF assms(1,2)] slot_aligned [OF assms(1,2)] refl, of u v] assms(3)
    put_slot_outside [OF assms(1,2)] put_slot_word [OF assms(1,2)]
  by (auto simp: kept_def)

lemma read_csr:
  assumes "kept sp s u" "n = mcause \<or> n = mepc \<or> n = mtval" "csrr b n u = (v, t)"
  shows "v = csr s n \<and> kept sp s t \<and> memory t = memory u"
  using csr_read [OF _ assms(2,3)] assms(1) by (auto simp: kept_def)

lemma save_regs:
  assumes "room limit sp" "regs 2 = sp" "set ns \<subseteq> {..<36}" "kept sp s u"
  shows "kept sp s (fold (save_reg b regs) ns u) \<and> (\<forall>n<36. frame_word (memory (fold (save_reg b regs) ns u)) sp n
    = (if n \<in> set ns then regs n else frame_word (memory u) sp n))"
  using assms(3,4)
proof (induction ns arbitrary: u)
  case (Cons k ns)
  then have k: "k < 36" by simp
  have save: "save_reg b regs k u = st32 b (slot sp k) (regs k) u"
    by (simp add: save_reg_def slot_def assms(2))
  show ?case
    using Cons.IH [OF _ store_slot(1) [OF assms(1) k Cons.prems(2)], of "regs k"] Cons.prems(1)
      store_slot(2) [OF assms(1) k Cons.prems(2), of _ "regs k"]
    by (auto simp: save)
qed simp

lemma entry_wp:
  assumes "ready s" "room limit (regs 2 - 144)" and pc: "csr s mepc < limit" "csr s mepc AND 3 = 0"
  obtains t t0 where
    "trap_entry b regs s = (regs(2 := regs 2 - 144, 5 := t0, 16 := regs 2 - 144), t)"
    "kept (regs 2 - 144) s t"
    "\<And>n. 0 < n \<Longrightarrow> n < 32 \<Longrightarrow> frame_word (memory t) (regs 2 - 144) n = (regs(2 := regs 2 - 144)) n"
    "frame_word (memory t) (regs 2 - 144) 32 = csr s mcause"
proof -
  define sp where "sp = regs 2 - 144"
  define rs where "rs = regs(2 := sp)"
  have room: "room limit sp" using assms(2) by (simp add: sp_def)
  let ?u = "fold (save_reg b rs) [1..<32] s"
  have u: "kept sp s ?u" "n < 36 \<Longrightarrow> frame_word (memory ?u) sp n = (if n \<in> {1..<32} then rs n else frame_word (memory s) sp n)" for n
  proof -
    have "rs 2 = sp" "set [1..<32] \<subseteq> {..<36}" by (auto simp: rs_def)
    from save_regs [of sp rs "[1..<32]" s s, OF room this kept_refl [OF assms(1)]] show "kept sp s ?u"
      "n < 36 \<Longrightarrow> frame_word (memory ?u) sp n = (if n \<in> {1..<32} then rs n else frame_word (memory s) sp n)"
      by simp_all
  qed
  obtain c1 v1 where c1: "csrr b mcause ?u = (v1, c1)" by (cases "csrr b mcause ?u")
  note r1 = read_csr [OF u(1) _ c1, simplified]
  let ?u1 = "st32 b (slot sp 32) v1 c1"
  have k1: "kept sp s ?u1" using store_slot(1) [OF room, of 32] r1 by simp
  obtain c2 v2 where c2: "csrr b mepc ?u1 = (v2, c2)" by (cases "csrr b mepc ?u1")
  note r2 = read_csr [OF k1 _ c2, simplified]
  let ?u2 = "st32 b (slot sp 33) v2 c2"
  have k2: "kept sp s ?u2" using store_slot(1) [OF room, of 33] r2 by simp
  obtain c3 v3 where c3: "ld32 b v2 ?u2 = (v3, c3)" by (cases "ld32 b v2 ?u2")
  have r3: "kept sp s c3" "memory c3 = memory ?u2"
    using load32 [of ?u2 v2 v3 c3] k2 c3 r2 pc by (auto simp: kept_def)
  let ?u3 = "st32 b (slot sp 34) v3 c3"
  have k3: "kept sp s ?u3" using store_slot(1) [OF room, of 34] r3 by simp
  obtain c4 v4 where c4: "csrr b mtval ?u3 = (v4, c4)" by (cases "csrr b mtval ?u3")
  note r4 = read_csr [OF k3 _ c4, simplified]
  let ?u4 = "st32 b (slot sp 35) v4 c4"
  have k4: "kept sp s ?u4" using store_slot(1) [OF room, of 35] r4 by simp
  have entry: "trap_entry b regs s = (rs(5 := v4, 16 := sp), ?u4)"
    using c1 c2 c3 c4
    by (simp add: trap_entry_def Let_def sp_def [symmetric] rs_def [symmetric] slot_def frame_mcause_def
        frame_mepc_def frame_instr_def frame_mtval_def) (simp add: rs_def)
  have word: "frame_word (memory ?u4) sp n = (if n = 32 then csr s mcause else frame_word (memory ?u) sp n)" if "n < 33" for n
    using that store_slot(2) [OF room, of 35 s c4 n v4] store_slot(2) [OF room, of 34 s c3 n v3]
      store_slot(2) [OF room, of 33 s c2 n v2] store_slot(2) [OF room, of 32 s c1 n v1] r1 r2 r3 r4 by simp
  show ?thesis
  proof (rule that)
    show "trap_entry b regs s = (regs(2 := regs 2 - 144, 5 := v4, 16 := regs 2 - 144), ?u4)"
      using entry by (simp add: rs_def sp_def)
    show "kept (regs 2 - 144) s ?u4" using k4 by (simp add: sp_def)
    show "frame_word (memory ?u4) (regs 2 - 144) n = (regs(2 := regs 2 - 144)) n" if "0 < n" "n < 32" for n
      using that word [of n] u(2) [of n] unfolding sp_def [symmetric] rs_def [symmetric] by simp
    show "frame_word (memory ?u4) (regs 2 - 144) 32 = csr s mcause"
      using word [of 32] unfolding sp_def [symmetric] by simp
  qed
qed

lemma load_regs:
  assumes "room limit sp" "regs 2 = sp" "set ns \<subseteq> {..<36}" "ready u" "frame_word (memory u) sp 2 = sp"
  obtains v where "fold (load_reg b) ns (regs, u)
      = ((\<lambda>n. if n \<in> set ns then frame_word (memory u) sp n else regs n), v)"
    "ready v" "memory v = memory u" "csr v = csr u" "aux v = aux u"
proof -
  have "\<exists>v. fold (load_reg b) ns (regs, u) = ((\<lambda>n. if n \<in> set ns then frame_word (memory u) sp n else regs n), v)
      \<and> ready v \<and> memory v = memory u \<and> csr v = csr u \<and> aux v = aux u"
    using assms(2-5)
  proof (induction ns arbitrary: regs u)
    case (Cons k ns)
    then have k: "k < 36" by simp
    obtain w t where t: "ld32 b (slot sp k) u = (w, t)" by (cases "ld32 b (slot sp k) u")
    have w: "w = frame_word (memory u) sp k" "ready t" "memory t = memory u" "csr t = csr u" "aux t = aux u"
      using load32 [OF Cons.prems(3) slot_low [OF assms(1) k] slot_aligned [OF assms(1) k] t]
      by (auto simp: frame_word_def)
    have ld: "load_reg b k (regs, u) = (regs(k := w), t)"
      using t Cons.prems(1) by (simp add: load_reg_def slot_def)
    have "(regs(k := w)) 2 = sp" "set ns \<subseteq> {..<36}" "frame_word (memory t) sp 2 = sp"
      using Cons.prems(1,2,4) w(1,3) by simp_all
    from Cons.IH [of "regs(k := w)" t, OF this(1,2) w(2) this(3)] obtain v where
      v: "fold (load_reg b) ns (regs(k := w), t)
        = ((\<lambda>n. if n \<in> set ns then frame_word (memory t) sp n else (regs(k := w)) n), v)"
        "ready v" "memory v = memory t" "csr v = csr t" "aux v = aux t" by blast
    have "(\<lambda>n. if n \<in> set ns then frame_word (memory t) sp n else (regs(k := w)) n)
        = (\<lambda>n. if n \<in> set (k # ns) then frame_word (memory u) sp n else regs n)"
      by (rule ext) (simp add: w(1,3))
    with v w(3-5) show ?case by (simp only: fold_simps o_apply ld) blast
  qed simp
  with that show ?thesis by blast
qed


lemma exit_wp:
  assumes "room limit sp" "regs 2 = sp" "ready u"
    and words: "frame_word (memory u) sp 2 = sp"
  obtains regs' v where "trap_exit b regs u = (regs', v)"
    "ready v" "memory v = memory u" "aux v = aux u"
    "csr v = (if sint (frame_word (memory u) sp 32) < 0 then csr u else (csr u)(mepc := csr u mepc + 4))"
    "\<And>n. n < 32 \<Longrightarrow> regs' n = (if n = 2 then sp + 144
      else if n = 0 \<or> n = 10 \<and> frame_word (memory u) sp 32 = 11 then regs n else frame_word (memory u) sp n)"
proof -
  define cause where "cause = frame_word (memory u) sp 32"
  obtain w1 t0 where l: "ld32 b (slot sp 32) u = (t0, w1)" by (cases "ld32 b (slot sp 32) u")
  have w1: "t0 = cause" "ready w1" "memory w1 = memory u" "csr w1 = csr u" "aux w1 = aux u"
    using load32 [OF assms(3) slot_low [OF assms(1), of 32] slot_aligned [OF assms(1), of 32] l]
    by (auto simp: frame_word_def cause_def)
  obtain pc w2 where c: "csrr b mepc w1 = (pc, w2)" by (cases "csrr b mepc w1")
  have w2: "pc = csr u mepc" "ready w2" "memory w2 = memory u" "csr w2 = csr u" "aux w2 = aux u"
    using csr_read [OF w1(2) _ c] w1 by auto
  define w3 where "w3 = (if sint cause < 0 then w1 else csrw b mepc (pc + 4) w2)"
  have w3: "ready w3" "memory w3 = memory u" "aux w3 = aux u"
    "csr w3 = (if sint cause < 0 then csr u else (csr u)(mepc := csr u mepc + 4))"
    using csr_write [OF w2(2) refl, of "pc + 4"] w1 w2 by (auto simp: w3_def)
  define r3 where "r3 = regs(5 := cause, 6 := 0x0b)"
  have r3: "r3 2 = sp" using assms(2) by (simp add: r3_def)
  define most where "most = rev [11..<32] @ rev [1..<10 :: nat]"
  have most: "set most = {1..<32} - {10}" by (auto simp only: most_def set_append set_rev set_upt) auto
  define ns where "ns = (if cause = 11 then [] else [10]) @ most"
  have ns: "set ns = {1..<32} - (if cause = 11 then {10} else {})" by (auto simp: ns_def most)
  have fw3: "frame_word (memory w3) sp 2 = sp" using words w3(2) by simp
  have sub: "set ns \<subseteq> {..<36}" by (auto simp: ns)
  obtain v where v: "fold (load_reg b) ns (r3, w3)
      = ((\<lambda>n. if n \<in> set ns then frame_word (memory w3) sp n else r3 n), v)"
    "ready v" "memory v = memory w3" "csr v = csr w3" "aux v = aux w3"
    by (rule load_regs [of sp r3 ns w3, OF assms(1) r3 sub w3(1) fw3])
  let ?r = "\<lambda>n. if n \<in> set ns then frame_word (memory w3) sp n else r3 n"
  have "trap_exit b regs u = (let (rs, s) = fold (load_reg b) ns (r3, w3) in (rs(2 := rs 2 + 36 * 4), s))"
    using l unfolding trap_exit_def most_def [symmetric]
    by (simp add: slot_def frame_mcause_def assms(2) w1(1) c Let_def ns_def r3_def w3_def)
  then have "trap_exit b regs u = (?r(2 := ?r 2 + 144), v)" by (simp only: v(1) Let_def case_prod_conv) simp
  then show ?thesis
  proof (rule that)
    show "(?r(2 := ?r 2 + 144)) n = (if n = 2 then sp + 144
      else if n = 0 \<or> n = 10 \<and> frame_word (memory u) sp 32 = 11 then regs n else frame_word (memory u) sp n)"
      if "n < 32" for n
      using that words by (auto simp: ns r3_def w3(2) cause_def [symmetric])
  qed (use v w3 in \<open>simp_all add: cause_def\<close>)
qed


text \<open>The whole handler: the C part runs with the frame in place, and when it leaves the frame alone every
  register comes back, but for the result of a system call.\<close>

lemma trap_handler_wp:
  assumes "ready s" "room limit (regs 2 - 144)" and pc: "csr s mepc < limit" "csr s mepc AND 3 = 0"
    and exec: "\<And>t t0. kept (regs 2 - 144) s t \<Longrightarrow>
      returns (exec (regs(2 := regs 2 - 144, 5 := t0, 16 := regs 2 - 144)) err t) (\<lambda>(r, err', u).
        P t r err' u \<and> ready u \<and> (\<forall>x. \<not> outside (regs 2 - 144) x \<longrightarrow> memory u x = memory t x))"
  shows "returns (trap_handler b exec junk regs err s) (\<lambda>(regs', err', v). \<exists>t r u.
    kept (regs 2 - 144) s t \<and> P t r err' u
    \<and> (\<forall>n<32. regs' n = (if n = 10 \<and> csr s mcause = 11 then r else regs n))
    \<and> ready v \<and> memory v = memory u \<and> aux v = aux u
    \<and> csr v = (if sint (csr s mcause) < 0 then csr u else (csr u)(mepc := csr u mepc + 4)))"
proof -
  let ?sp = "regs 2 - 144"
  obtain t t0 where t: "trap_entry b regs s = (regs(2 := ?sp, 5 := t0, 16 := ?sp), t)" "kept ?sp s t"
    and w: "\<And>n. 0 < n \<Longrightarrow> n < 32 \<Longrightarrow> frame_word (memory t) ?sp n = (regs(2 := ?sp)) n"
    "frame_word (memory t) ?sp 32 = csr s mcause"
    by (rule entry_wp [of s regs, OF assms(1-4)]) blast
  from exec [OF t(2), of t0] obtain r err' u where e:
    "exec (regs(2 := ?sp, 5 := t0, 16 := ?sp)) err t = Some (r, err', u)" "P t r err' u" "ready u"
    "\<And>x. \<not> outside ?sp x \<Longrightarrow> memory u x = memory t x"
    by (auto simp: returns_ex)
  have fw: "frame_word (memory u) ?sp n = frame_word (memory t) ?sp n" if "n < 36" for n
    using e(4) that by (intro frame_word_cong [OF assms(2)])
  let ?q = "after_call junk (regs(2 := ?sp, 5 := t0, 16 := ?sp)) r"
  have q: "?q 2 = ?sp" "?q 10 = r" "?q 0 = regs 0" by (simp_all add: after_call_def callee_saved_def)
  have fw2: "frame_word (memory u) ?sp 2 = ?sp" using fw [of 2] w(1) [of 2] by simp
  obtain regs' v where v: "trap_exit b ?q u = (regs', v)" "ready v" "memory v = memory u" "aux v = aux u"
    "csr v = (if sint (frame_word (memory u) ?sp 32) < 0 then csr u else (csr u)(mepc := csr u mepc + 4))"
    and regs': "\<And>n. n < 32 \<Longrightarrow> regs' n = (if n = 2 then ?sp + 144
      else if n = 0 \<or> n = 10 \<and> frame_word (memory u) ?sp 32 = 11 then ?q n else frame_word (memory u) ?sp n)"
    by (rule exit_wp [of ?sp ?q u, OF assms(2) q(1) e(3) fw2]) blast
  have "regs' n = (if n = 10 \<and> csr s mcause = 11 then r else regs n)" if "n < 32" for n
    using regs' [OF that] fw [of n] w(1) [of n] w(2) fw [of 32] that q by auto
  moreover have "trap_handler b exec junk regs err s = Some (regs', err', v)"
    by (simp add: trap_handler_def t(1) e(1) v(1))
  ultimately show ?thesis
    using t(2) e(2) v(2-5) w(2) fw [of 32]
    by (simp only: returns_Some_iff case_prod_conv) (rule exI [of _ t], rule exI [of _ r], rule exI [of _ u], simp)
qed

end
end
