(* ===== verification/Interrupts.thy ===== *)
theory Interrupts
  imports Soc Traplaws
begin

text \<open>
  What the interrupt programs promise on the machine: the laws of \<^verbatim>\<open>Traplaws\<close> taken to the machine, whose
  units run on while a handler works, and the theorems on the program that is interrupted, on a call to
  extend the heap, on the vector table and on the system timer.
\<close>

section \<open>The machine keeps the contract\<close>

text \<open>What a trap handler shares the machine with.\<close>

definition trap_aux :: "soc \<Rightarrow> u8 list \<times> u8 list \<times> (u32 \<Rightarrow> u32)" where
  "trap_aux s = (u_sent (uart1 s), uart_inp (uart1 s), io s)"

text \<open>The clock runs and the serial port is enabled and idle.\<close>

definition clocked :: "soc \<Rightarrow> bool" where
  "clocked s \<longleftrightarrow> brisk s \<and> uart_ready s"

lemma clocked_tick: "clocked s \<Longrightarrow> clocked (tick s) \<and> now s \<le> now (tick s) \<and> now (tick s) \<le> now s + 2 ^ 28"
  using brisk_tick [of s] by (auto simp: clocked_def uart_ready_def uart_tick_cases)

lemma tick_trap_aux: "clocked s \<Longrightarrow> trap_aux (tick s) = trap_aux s"
  by (simp add: clocked_def trap_aux_def uart_ready_def uart_tick_cases)

lemma clocked_fields [simp]: "clocked (s \<lparr> mem := m \<rparr>) = clocked s" "clocked (s \<lparr> csrs := c \<rparr>) = clocked s"
  by (simp_all add: clocked_def brisk_def uart_ready_def)

interpretation soc_trap: trap_port soc_bus IO_BASE clocked mem csrs trap_aux
proof (intro trap_port.intro trap_port_axioms.intro)
  show "ram_port soc_bus IO_BASE clocked mem (\<lambda>s. (csrs s, trap_aux s))"
    by unfold_locales
      (auto simp: soc_ram soc_csrw_def clocked_tick trap_aux_def clocked_def uart_ready_def uart_tick_cases
        brisk_def Let_def)
qed (auto simp: soc_csrr_def soc_csrw_def addr_defs clocked_def uart_ready_def uart_tick_cases trap_aux_def
    brisk_def Let_def)

subsection \<open>The clock in memory\<close>

lemma mtime_loop_csr_get:
  assumes "csr_get (b\<lparr>csrr := ld32 b\<rparr>) MTIMEH MTIME s = Some r"
  shows "mtime_loop b s = Some r"
proof -
  have "b\<lparr>csrr := ld32 b\<rparr> = b\<lparr>csrr := ld32 b\<rparr> \<and> MTIMEH = MTIMEH \<and> MTIME = MTIME \<longrightarrow> mtime_loop b s = Some r"
  proof (rule csr_get.raw_induct [OF _ assms, where P = "\<lambda>b' hi lo s r.
      b' = b\<lparr>csrr := ld32 b\<rparr> \<and> hi = MTIMEH \<and> lo = MTIME \<longrightarrow> mtime_loop b s = Some r"])
    fix loop b' hi lo s r
    assume IH: "\<And>b' hi lo s r. loop b' hi lo s = Some r \<Longrightarrow>
        b' = b\<lparr>csrr := ld32 b\<rparr> \<and> hi = MTIMEH \<and> lo = MTIME \<longrightarrow> mtime_loop b s = Some r"
      and eq: "(let (th, s) = csrr b' hi s; (lo32, s) = csrr b' lo s; (tt, s) = csrr b' hi s
        in if th \<noteq> tt then loop b' hi lo s else Some (join th lo32, s)) = Some r"
    show "b' = b\<lparr>csrr := ld32 b\<rparr> \<and> hi = MTIMEH \<and> lo = MTIME \<longrightarrow> mtime_loop b s = Some r"
    proof
      assume b: "b' = b\<lparr>csrr := ld32 b\<rparr> \<and> hi = MTIMEH \<and> lo = MTIME"
      obtain v1 s1 where 1: "ld32 b MTIMEH s = (v1, s1)" by (cases "ld32 b MTIMEH s")
      obtain v2 s2 where 2: "ld32 b MTIME s1 = (v2, s2)" by (cases "ld32 b MTIME s1")
      obtain v3 s3 where 3: "ld32 b MTIMEH s2 = (v3, s3)" by (cases "ld32 b MTIMEH s2")
      show "mtime_loop b s = Some r"
        using eq IH [of b' hi lo s3 r] b by (subst mtime_loop.simps) (simp add: 1 2 3 join_def split: if_splits)
    qed
  qed
  then show ?thesis by simp
qed

lemma soc_ld32_clock:
  "soc_ld32 MTIMEH s = (high_half (now (tick s)), tick s)" "soc_ld32 MTIME s = (low_half (now (tick s)), tick s)"
  by (simp_all add: soc_ld32_def addr_defs Let_def)

interpretation soc_mtime: counter "soc_bus\<lparr>csrr := soc_ld32\<rparr>" MTIMEH MTIME clocked now
  "\<lambda>s. (mem s, csrs s, trap_aux s)" "2 ^ 28"
proof unfold_locales
  fix s v s'
  assume s: "clocked s" and "csrr (soc_bus\<lparr>csrr := soc_ld32\<rparr>) MTIMEH s = (v, s')"
  then have "s' = tick s" "v = high_half (now s')" by (auto simp: soc_ld32_clock simp del: tick_simps(1))
  with clocked_tick [OF s] tick_trap_aux [OF s]
  show "clocked s' \<and> (mem s', csrs s', trap_aux s') = (mem s, csrs s, trap_aux s) \<and> now s' \<le> now s + 2 ^ 28
      \<and> (\<exists>t\<ge>now s. t \<le> now s' \<and> v = word_of_nat (t div 2 ^ 32))"
    by (auto simp: high_half_def simp del: tick_simps(1))
next
  fix s v s'
  assume s: "clocked s" and "csrr (soc_bus\<lparr>csrr := soc_ld32\<rparr>) MTIME s = (v, s')"
  then have "s' = tick s" "v = low_half (now s')" by (auto simp: soc_ld32_clock simp del: tick_simps(1))
  with clocked_tick [OF s] tick_trap_aux [OF s]
  show "clocked s' \<and> (mem s', csrs s', trap_aux s') = (mem s, csrs s, trap_aux s) \<and> now s' \<le> now s + 2 ^ 28
      \<and> (\<exists>t\<ge>now s. t \<le> now s' \<and> v = word_of_nat t)"
    by (auto simp: low_half_def simp del: tick_simps(1))
qed simp

lemma mtime_wp:
  assumes "clocked s"
  shows "returns (mtime_loop soc_bus s) (soc_mtime.observes s)"
proof -
  obtain r where r: "csr_get (soc_bus\<lparr>csrr := soc_ld32\<rparr>) MTIMEH MTIME s = Some r" "soc_mtime.observes s r"
    using soc_mtime.get_wp [OF assms] unfolding returns_ex by blast
  have "mtime_loop soc_bus s = Some r"
  proof (rule mtime_loop_csr_get)
    show "csr_get (soc_bus\<lparr>csrr := ld32 soc_bus\<rparr>) MTIMEH MTIME s = Some r"
      unfolding soc_bus_simps(1) by (rule r(1))
  qed
  with r(2) have "\<exists>r. mtime_loop soc_bus s = Some r \<and> soc_mtime.observes s r" by (intro exI conjI)
  then show ?thesis unfolding returns_ex .
qed

subsection \<open>The handlers\<close>


text \<open>A plain register, which the units do not change.\<close>

lemma soc_plain:
  assumes "a \<in> {GPIOA_POUT, GPIOA_EXTS, TIMER1_STAT, TIMER2_STAT, MSI_TRIG, MTIMECMP, MTIMECMPH}"
  shows "soc_ld32 a s = (io s a, tick s)" "soc_st32 a v s = (tick s) \<lparr> io := (io s)(a := v) \<rparr>"
  using assms by (elim insertE emptyE; simp add: soc_ld32_def soc_st32_def addr_defs Let_def)+

definition unit_ready :: "uart_unit \<Rightarrow> bool" where
  "unit_ready u \<longleftrightarrow> u_ctrl u AND UART_CTRL_EN \<noteq> 0 \<and> u_shift u = None"

lemma uart_ready_unit: "uart_ready s = unit_ready (uart1 s)"
  by (simp add: uart_ready_def unit_ready_def)

lemma unit_ready_step: "unit_ready u \<Longrightarrow> unit_ready (uart_tick u)" "unit_ready (snd (uart_load 8 u)) = unit_ready u"
  by (auto simp: unit_ready_def uart_tick_cases uart_load_def split: option.split)

lemma lamp_registers: "GPIOA_POUT \<noteq> TIMER1_STAT" "GPIOA_POUT \<noteq> TIMER2_STAT" "GPIOA_POUT \<noteq> MSI_TRIG"
    "GPIOA_POUT \<noteq> GPIOA_EXTS" "GPIOA_POUT \<noteq> MTIMECMP" "GPIOA_POUT \<noteq> MTIMECMPH" "MTIMECMP \<noteq> MTIMECMPH"
  by (simp_all add: addr_defs)

lemma join_parts: "join (ucast (drop_bit 32 w)) (ucast (w AND 0xffffffff)) = w"
proof -
  have m: "0xffffffff = (mask 32 :: u64)" by (simp add: mask_eq_exp_minus_1)
  show ?thesis unfolding join_def m
    by (rule bit_word_eqI) (auto simp: bit_simps)
qed



section \<open>Traps on the machine\<close>

text \<open>Memory outside the frame at \<open>sp\<close>.\<close>

definition beyond :: "u32 \<Rightarrow> (u32 \<Rightarrow> u8) \<Rightarrow> u32 \<Rightarrow> u8" where
  "beyond sp m = (\<lambda>x. if outside sp x then m x else 0)"

lemma kept_beyond: "soc_trap.kept sp s t \<Longrightarrow> beyond sp (mem t) = beyond sp (mem s)"
  by (auto simp: soc_trap.kept_def beyond_def)

lemma kept_parts: "soc_trap.kept sp s t \<Longrightarrow> clocked t \<and> csrs t = csrs s \<and> io t = io s"
  by (simp add: soc_trap.kept_def trap_aux_def)

lemma csrr_cause: "soc_csrr mcause t = (csrs t mcause, tick t)"
  by (simp add: soc_csrr_def addr_defs Let_def)



text \<open>The state of the examples: a trap with the given cause, and registers with a stack.\<close>

definition trap_soc :: "u32 \<Rightarrow> soc" where
  "trap_soc cause = (demo []) \<lparr> csrs := (\<lambda>a. if a = mcause then cause else if a = mepc then 0x100 else 0) \<rparr>"

definition demo_regs :: "nat \<Rightarrow> u32" where
  "demo_regs n = (if n = 2 then 0x20001000 else if n = 10 then 0x20000500 else word_of_nat n)"

lemma trap_soc_simps [simp]:
  "clocked (trap_soc c)" "csrs (trap_soc c) mcause = c" "csrs (trap_soc c) mepc = 0x100"
  "io (trap_soc c) = (\<lambda>_. 0)" "mem (trap_soc c) = (\<lambda>_. 0)"
  "room IO_BASE 0x20000f70" "0x100 < IO_BASE" "demo_regs 2 = 0x20001000" "demo_regs 10 = 0x20000500"
  using demo_simps(1,7) [of "[]" echo_slave count_slave]
  by (simp_all add: trap_soc_def clocked_def brisk_def uart_ready_def addr_defs demo_def room_def demo_regs_def
      word_less_nat_alt)


text \<open>C29. The system call \<^verbatim>\<open>brk\<close> through the trap handler: it asks for the end of the program with 0, grants an
  address below the reserved stack, and refuses any other with \<^verbatim>\<open>ENOMEM\<close>; \<^verbatim>\<open>a0\<close> holds the result, every
  other register is as before, and the program goes on behind the \<^verbatim>\<open>ecall\<close>.\<close>

theorem brk_call:
  assumes "clocked s" and "room IO_BASE (regs 2 - 144)"
    and "csrs s mepc < IO_BASE" "csrs s mepc AND 3 = 0"
    and "csrs s mcause = ECALL_IN_MCAUSE" and "regs 17 = nr C SYS_brk"
  shows "returns (trap_handler_direct soc_bus C L buf junk regs err s) (\<lambda>(regs', err', t).
    (regs' 10, err') = (if regs 10 = 0 then (l_end L, err)
       else if regs 10 < stack_limit L then (regs 10, err) else (- 1, ENOMEM))
    \<and> map regs' ([0..<10] @ [11..<32]) = map regs ([0..<10] @ [11..<32])
    \<and> csrs t = (csrs s)(mepc := csrs s mepc + 4)
    \<and> beyond (regs 2 - 144) (mem t) = beyond (regs 2 - 144) (mem s) \<and> io t = io s)"
proof -
  let ?res = "if regs 10 = 0 then (l_end L, err)
       else if regs 10 < stack_limit L then (regs 10, err) else (- 1, ENOMEM)"
  let ?P = "\<lambda>t r err' u. (r, err') = ?res \<and> csrs u = csrs t \<and> mem u = mem t \<and> io u = io t"
  have none: "direct_handler ECALL_IN_MCAUSE = None"
    by (simp add: direct_handler_def interrupt_def MTIME_IN_MCAUSE_def MSI_IN_MCAUSE_def SPI1_IN_MCAUSE_def
      I2C1_IN_MCAUSE_def I2C2_IN_MCAUSE_def UART1_IN_MCAUSE_def TIMER2_IN_MCAUSE_def TIMER1_IN_MCAUSE_def
      EXTI_IN_MCAUSE_def ECALL_IN_MCAUSE_def)
  have "returns (trap_execute_direct soc_bus C L buf (regs(2 := regs 2 - 144, 5 := t0, 16 := regs 2 - 144)) err t)
      (\<lambda>(r, err', u). ?P t r err' u \<and> clocked u
      \<and> (\<forall>x. \<not> outside (regs 2 - 144) x \<longrightarrow> mem u x = mem t x))"
    if t: "soc_trap.kept (regs 2 - 144) s t" for t t0
    using kept_parts [OF t] clocked_tick assms(5,6)
    by (simp add: trap_execute_direct_def csrr_cause none trap_exception_def trap_syscall_def stack_limit_def)
  from soc_trap.trap_handler_wp [where s = s and exec = "trap_execute_direct soc_bus C L buf" and regs = regs and junk = junk
      and err = err and P = ?P, OF assms(1-4) this]
  show ?thesis
    unfolding trap_handler_direct_def
    by (rule returns_mono)
      (auto simp: assms(5) ECALL_IN_MCAUSE_def trap_aux_def dest: kept_parts kept_beyond)
qed

theorem brk_call_witness:
  "returns (trap_handler_direct soc_bus \<lparr> nr = (\<lambda>_. 17), tv_usec_at = 8, st_mode_at = 4 \<rparr>
      \<lparr> l_end = 0x20000100, l_stack_pointer = 0x20001000, l_stack_size = 0xc00 \<rparr> [] (\<lambda>_. 7) demo_regs 0
      (trap_soc ECALL_IN_MCAUSE))
    (\<lambda>(regs', err', t). regs' 10 = - 1 \<and> err' = ENOMEM \<and> csrs t mepc = 0x104
      \<and> map regs' ([0..<10] @ [11..<32]) = map demo_regs ([0..<10] @ [11..<32]))"
proof -
  have "demo_regs 17 = 17" by (simp add: demo_regs_def)
  with brk_call [of "trap_soc ECALL_IN_MCAUSE" demo_regs "\<lparr> nr = (\<lambda>_. 17), tv_usec_at = 8, st_mode_at = 4 \<rparr>"
      "\<lparr> l_end = 0x20000100, l_stack_pointer = 0x20001000, l_stack_size = 0xc00 \<rparr>" "[]" "\<lambda>_. 7" 0]
  show ?thesis by (auto simp: stack_limit_def elim!: returns_mono)
qed


text \<open>The handler of the system timer sets the compare register to a time the clock had during the call,
  plus the period, also when the low half of the clock wraps around while it is read.\<close>

theorem timer_rearmed:
  assumes "clocked s"
  shows "returns (external_timer_handler soc_bus delta s) (\<lambda>t. clocked t \<and> mem t = mem s
    \<and> io t GPIOA_POUT = io s GPIOA_POUT XOR 2
    \<and> (now t < 2 ^ 64 \<longrightarrow> (\<exists>n. now s \<le> n \<and> n \<le> now t
        \<and> join (io t MTIMECMPH) (io t MTIMECMP) = word_of_nat n + delta)))"
proof -
  obtain r where r: "mtime_loop soc_bus s = Some r" "soc_mtime.observes s r"
    using mtime_wp [OF assms] unfolding returns_ex by blast
  obtain c t where r_eq: "r = (c, t)" by (cases r)
  note t = r(1) [unfolded r_eq] and o = r(2) [unfolded r_eq]
  define w where "w = c + delta"
  have aux: "trap_aux t = trap_aux s" and t': "clocked t" "mem t = mem s" and le: "now s \<le> now t"
    and obs: "now t < 2 ^ 64 \<Longrightarrow> \<exists>n. now s \<le> n \<and> n \<le> now t \<and> c = word_of_nat n"
    using o by (auto simp: soc_mtime.observes_def)
  have io: "io t = io s" using aux by (simp add: trap_aux_def)
  obtain u where ext: "external_timer_handler soc_bus delta s = Some u"
    by (simp add: external_timer_handler_def t Let_def)
  note step = ext [unfolded external_timer_handler_def t Let_def rmw_def, simplified,
      unfolded w_def [symmetric]]
  have u: "now t \<le> now u" "mem u = mem t"
    using step by (auto simp: soc_plain)
  have "unit_ready (uart1 t)" "brisk t" using t'(1) by (simp_all add: clocked_def uart_ready_unit)
  then have "unit_ready (uart1 u)" "brisk u"
    using step by (auto simp: soc_plain unit_ready_step brisk_def)
  then have u': "clocked u" by (simp add: clocked_def uart_ready_unit)
  have "io u = (io t)(MTIMECMP := ucast (w AND 0xffffffff), MTIMECMPH := ucast (drop_bit 32 w),
      GPIOA_POUT := io t GPIOA_POUT XOR 2)"
    using step by (auto simp: soc_plain lamp_registers)
  then have v: "io u GPIOA_POUT = io s GPIOA_POUT XOR 2" "io u MTIMECMP = ucast (w AND 0xffffffff)"
      "io u MTIMECMPH = ucast (drop_bit 32 w)"
    using lamp_registers [THEN not_sym] by (simp_all add: io)
  have j: "join (io u MTIMECMPH) (io u MTIMECMP) = w"
    unfolding v(2,3) by (rule join_parts)
  have "\<exists>n. now s \<le> n \<and> n \<le> now u \<and> w = word_of_nat n + delta" if "now u < 2 ^ 64"
  proof -
    from that u(1) have "now t < 2 ^ 64" by simp
    then obtain n where "now s \<le> n" "n \<le> now t" "c = word_of_nat n" using obs by blast
    with u(1) show ?thesis unfolding w_def by (intro exI [of _ n]) simp
  qed
  then show ?thesis
    unfolding ext by (simp only: returns_Some_iff j v(1) u' u(2) t'(2) simp_thms) blast
qed

theorem timer_rearmed_witness:
  "returns (external_timer_handler soc_bus 100000 (trap_soc (interrupt 7))) (\<lambda>t. io t GPIOA_POUT = 2
    \<and> (2 ^ 64 \<le> now t \<or> (\<exists>n. n \<le> now t
        \<and> join (io t MTIMECMPH) (io t MTIMECMP) = word_of_nat n + 100000)))"
  using timer_rearmed [of "trap_soc (interrupt 7)" 100000] by (auto elim!: returns_mono simp: not_le)

end
