(* ===== verification/Bounded.thy ===== *)
theory Bounded
  imports Soc
begin

text \<open>
  The producer and the consumer of \<^verbatim>\<open>sw/FreeRTOSbb/boundedbuffer.c\<close> with the helpers of \<^verbatim>\<open>sw/FreeRTOSbb/main.c\<close>.
  The kernel is not in the repository: its semaphores are the parameter \<open>kernel\<close>, and what the tasks rely
  on are the laws of the locale \<open>semaphores\<close>. The tasks are interleaved statement by statement, in any
  order; the statements that print are one step, since both tasks print under the mutex only.
\<close>

section \<open>The tasks\<close>

text \<open>The kernel. Taking a semaphore is \<open>None\<close> while the task has to wait, which with \<^verbatim>\<open>portMAX_DELAY\<close> it does
  for ever. A semaphore or task may not be created for lack of memory.\<close>

record 's kernel =
  xSemaphoreTake :: "'s \<Rightarrow> 's option"
  xSemaphoreGive :: "'s \<Rightarrow> 's"
  xSemaphoreCreateCounting :: "nat \<Rightarrow> nat \<Rightarrow> 's option"
  xSemaphoreCreateMutex :: "'s option"
  xTaskCreate :: "u8 list \<Rightarrow> bool"

definition BUFFER_SIZE :: nat where [simp]: "BUFFER_SIZE = 8"

text \<open>Where a task is: the statement it does next. A task that was not created is \<open>Absent\<close>.\<close>

datatype place = Item | Wait | Lock | Move | Show | Advance | Unlock | Signal | Delay | Absent

record ('s, 'd) world =
  shared_buffer :: "u32 list"
  in_at :: u32
  out_at :: u32
  empty :: 's
  full :: 's
  mutex :: 's
  p_at :: place
  p_item :: u32
  c_at :: place
  c_item :: u32
  machine :: 'd

definition vToggleLED :: "'d bus \<Rightarrow> 'd \<Rightarrow> 'd" where
  "vToggleLED b s = rmw b GPIOA_POUT (\<lambda>v. v XOR 0x01) s"

definition vSendString :: "'d bus \<Rightarrow> u8 list option \<Rightarrow> 'd \<Rightarrow> 'd option" where
  "vSendString b pcString s = uart1_puts b pcString s"

definition tell :: "'d bus \<Rightarrow> string \<Rightarrow> u32 \<Rightarrow> u32 \<Rightarrow> 'd \<Rightarrow> 'd option" where
  "tell b verb item at s =
     do { s \<leftarrow> vSendString b (cstr (str verb)) s;
          s \<leftarrow> printdec b item s;
          s \<leftarrow> vSendString b (cstr (str '' at index '')) s;
          s \<leftarrow> printdec b at s;
          vSendString b (cstr crlf) s }"

text \<open>One statement of \<^verbatim>\<open>vProducer\<close>. The indices are never negative, so \<^verbatim>\<open>%\<close> is that of unsigned numbers;
  counting past the largest \<^verbatim>\<open>int\<close> has no defined result.\<close>

definition vProducer :: "'s kernel \<Rightarrow> 'd bus \<Rightarrow> ('s, 'd) world \<Rightarrow> ('s, 'd) world option" where
  "vProducer K b w =
     (case p_at w of
        Item \<Rightarrow> if p_item w = 0x7fffffff then None else Some (w \<lparr> p_item := p_item w + 1, p_at := Wait \<rparr>)
      | Wait \<Rightarrow> do { e \<leftarrow> xSemaphoreTake K (empty w); Some (w \<lparr> empty := e, p_at := Lock \<rparr>) }
      | Lock \<Rightarrow> do { m \<leftarrow> xSemaphoreTake K (mutex w); Some (w \<lparr> mutex := m, p_at := Move \<rparr>) }
      | Move \<Rightarrow> do { xs \<leftarrow> setb (shared_buffer w) (unat (in_at w)) (p_item w); Some (w \<lparr> shared_buffer := xs, p_at := Show \<rparr>) }
      | Show \<Rightarrow> do { s \<leftarrow> tell b ''Produced '' (p_item w) (in_at w) (machine w);
                     Some (w \<lparr> machine := vToggleLED b s, p_at := Advance \<rparr>) }
      | Advance \<Rightarrow> Some (w \<lparr> in_at := (in_at w + 1) mod word_of_nat BUFFER_SIZE, p_at := Unlock \<rparr>)
      | Unlock \<Rightarrow> Some (w \<lparr> mutex := xSemaphoreGive K (mutex w), p_at := Signal \<rparr>)
      | Signal \<Rightarrow> Some (w \<lparr> full := xSemaphoreGive K (full w), p_at := Delay \<rparr>)
      | Delay \<Rightarrow> Some (w \<lparr> p_at := Item \<rparr>)
      | Absent \<Rightarrow> None)"

text \<open>One statement of \<^verbatim>\<open>vConsumer\<close>, whose loop starts with \<open>Wait\<close>.\<close>

definition vConsumer :: "'s kernel \<Rightarrow> 'd bus \<Rightarrow> ('s, 'd) world \<Rightarrow> ('s, 'd) world option" where
  "vConsumer K b w =
     (case c_at w of
        Wait \<Rightarrow> do { f \<leftarrow> xSemaphoreTake K (full w); Some (w \<lparr> full := f, c_at := Lock \<rparr>) }
      | Lock \<Rightarrow> do { m \<leftarrow> xSemaphoreTake K (mutex w); Some (w \<lparr> mutex := m, c_at := Move \<rparr>) }
      | Move \<Rightarrow> if unat (out_at w) < length (shared_buffer w)
                then Some (w \<lparr> c_item := shared_buffer w ! unat (out_at w), c_at := Show \<rparr>) else None
      | Show \<Rightarrow> do { s \<leftarrow> tell b ''Consumed '' (c_item w) (out_at w) (machine w);
                     Some (w \<lparr> machine := s, c_at := Advance \<rparr>) }
      | Advance \<Rightarrow> Some (w \<lparr> out_at := (out_at w + 1) mod word_of_nat BUFFER_SIZE, c_at := Unlock \<rparr>)
      | Unlock \<Rightarrow> Some (w \<lparr> mutex := xSemaphoreGive K (mutex w), c_at := Signal \<rparr>)
      | Signal \<Rightarrow> Some (w \<lparr> empty := xSemaphoreGive K (empty w), c_at := Delay \<rparr>)
      | Delay \<Rightarrow> Some (w \<lparr> c_at := Wait \<rparr>)
      | _ \<Rightarrow> None)"

text \<open>Up to the start of the scheduler. The answers of \<^verbatim>\<open>xTaskCreate\<close> are not looked at; without a semaphore the
  program says so and hangs. \<^verbatim>\<open>buffer\<close> is a global array, \<open>junk\<close> the first value of the consumer's variable.\<close>

definition boundedbuffer :: "'s kernel \<Rightarrow> 'd bus \<Rightarrow> u32 \<Rightarrow> 'd \<Rightarrow> ('s, 'd) world option" where
  "boundedbuffer K b junk s =
     (case (xSemaphoreCreateCounting K BUFFER_SIZE BUFFER_SIZE, xSemaphoreCreateCounting K BUFFER_SIZE 0,
            xSemaphoreCreateMutex K) of
        (Some e, Some f, Some m) \<Rightarrow>
          Some \<lparr> shared_buffer = replicate BUFFER_SIZE 0, in_at = 0, out_at = 0, empty = e, full = f, mutex = m,
            p_at = (if xTaskCreate K (str ''Producer'') then Item else Absent), p_item = 0,
            c_at = (if xTaskCreate K (str ''Consumer'') then Wait else Absent), c_item = junk, machine = s \<rparr>
      | _ \<Rightarrow> do { s \<leftarrow> vSendString b (cstr (str ''Semaphore creation failed!'' @ crlf)) s;
                 poll (Pair 0) (\<lambda>_. False) s;
                 None })"

text \<open>The scheduler lets any task that does not wait do its next statement.\<close>

inductive schedule :: "'s kernel \<Rightarrow> 'd bus \<Rightarrow> ('s, 'd) world \<Rightarrow> ('s, 'd) world \<Rightarrow> bool" for K b where
  produce: "vProducer K b w = Some w' \<Longrightarrow> schedule K b w w'"
| consume: "vConsumer K b w = Some w' \<Longrightarrow> schedule K b w w'"

inductive_simps schedule_iff: "schedule K b w w'"

section \<open>The main program\<close>

definition configCPU_CLOCK_HZ :: u32 where "configCPU_CLOCK_HZ = 1000000"

definition prvSetupHardware :: "'d bus \<Rightarrow> u32 \<Rightarrow> 'd \<Rightarrow> 'd option" where
  "prvSetupHardware b freertos_risc_v_trap_handler s =
     do { let s = set_mtvec b freertos_risc_v_trap_handler s;
          let s = st32 b GPIOA_POUT 0 s;
          let s = uart1_init b BAUD_RATE UART_CTRL_EN s;
          if configCPU_CLOCK_HZ \<noteq> 1000000 then
            uart1_puts b (cstr (str ''Warning! Incorrect configCPU_CLOCK_HZ configuration! Must be 1000000UL.''
              @ crlf @ str '' '')) s
          else Some s }"

text \<open>\<^verbatim>\<open>main\<close>, to the start of the scheduler. The version is a string of the kernel.\<close>

definition bounded_main :: "'s kernel \<Rightarrow> 'd bus \<Rightarrow> u32 \<Rightarrow> u8 list \<Rightarrow> u32 \<Rightarrow> 'd \<Rightarrow> ('s, 'd) world option" where
  "bounded_main K b freertos_risc_v_trap_handler tskKERNEL_VERSION_NUMBER junk s =
     do { s \<leftarrow> prvSetupHardware b freertos_risc_v_trap_handler s;
          s \<leftarrow> uart1_puts b (cstr (crlf @ str ''FreeRTOS '')) s;
          s \<leftarrow> uart1_puts b (cstr tskKERNEL_VERSION_NUMBER) s;
          s \<leftarrow> uart1_puts b (cstr (str '' running on THUASRV32!'' @ crlf @ [10])) s;
          boundedbuffer K b junk s }"

text \<open>The handlers that the kernel calls for what it does not know.\<close>

definition SystemIrqHandler :: "'d bus \<Rightarrow> u32 \<Rightarrow> 'd \<Rightarrow> 'd option" where
  "SystemIrqHandler b cause s =
     do { s \<leftarrow> uart1_puts b (cstr (str ''FreeRTOS: SystemIrqHandler: Unknown interrupt: mcause = '')) s;
          s \<leftarrow> printhex b cause 8 s;
          uart1_puts b (cstr crlf) s }"

definition freertos_risc_v_application_interrupt_handler :: "'d bus \<Rightarrow> 'd \<Rightarrow> 'd option" where
  "freertos_risc_v_application_interrupt_handler b s =
     do { s \<leftarrow> uart1_puts b (cstr (str ''FreeRTOS: Unknown interrupt: mcause = '')) s;
          let (cause, s) = csr_read b mcause s;
          s \<leftarrow> printhex b cause 8 s;
          uart1_puts b (cstr crlf) s }"

definition freertos_risc_v_application_exception_handler :: "'d bus \<Rightarrow> 'd \<Rightarrow> 'd option" where
  "freertos_risc_v_application_exception_handler b s =
     do { s \<leftarrow> uart1_puts b (cstr (str ''FreeRTOS: Unknown exception: mcause = '')) s;
          let (cause, s) = csr_read b mcause s;
          s \<leftarrow> printhex b cause 8 s;
          uart1_puts b (cstr crlf) s }"

section \<open>What the kernel promises\<close>

locale semaphores =
  fixes K :: "'s kernel" and count :: "'s \<Rightarrow> nat" and most :: "'s \<Rightarrow> nat"
  assumes counting: "xSemaphoreCreateCounting K m n = Some x \<Longrightarrow> n \<le> m \<Longrightarrow> count x = n \<and> most x = m"
    and mutual: "xSemaphoreCreateMutex K = Some x \<Longrightarrow> count x = 1 \<and> most x = 1"
    and waits: "xSemaphoreTake K x = None \<longleftrightarrow> count x = 0"
    and takes: "xSemaphoreTake K x = Some y \<Longrightarrow> Suc (count y) = count x \<and> most y = most x"
    and gives: "count x < most x \<Longrightarrow> count (xSemaphoreGive K x) = Suc (count x) \<and> most (xSemaphoreGive K x) = most x"

section \<open>The log\<close>

text \<open>What the tasks print, as events with the number of the item.\<close>

datatype event = Produced nat | Consumed nat

fun log_line :: "event \<Rightarrow> u8 list" where
  "log_line (Produced i) = str ''Produced '' @ decstr i @ str '' at index '' @ decstr ((i - 1) mod BUFFER_SIZE) @ crlf"
| "log_line (Consumed i) = str ''Consumed '' @ decstr i @ str '' at index '' @ decstr ((i - 1) mod BUFFER_SIZE) @ crlf"

text \<open>A log in which, after \<open>p\<close> items produced and \<open>k\<close> consumed, each task goes through the items in order, and
  no item is consumed before it is produced or overwritten before it is consumed.\<close>

fun orderly :: "nat \<Rightarrow> nat \<Rightarrow> event list \<Rightarrow> bool" where
  "orderly p k [] \<longleftrightarrow> True"
| "orderly p k (Produced i # es) \<longleftrightarrow> i = p + 1 \<and> i \<le> k + BUFFER_SIZE \<and> orderly (p + 1) k es"
| "orderly p k (Consumed i # es) \<longleftrightarrow> i = k + 1 \<and> i \<le> p \<and> orderly p (k + 1) es"

fun made :: "event list \<Rightarrow> nat" where
  "made [] = 0" | "made (Produced i # es) = Suc (made es)" | "made (Consumed i # es) = made es"

fun used :: "event list \<Rightarrow> nat" where
  "used [] = 0" | "used (Produced i # es) = used es" | "used (Consumed i # es) = Suc (used es)"

lemma made_append [simp]: "made (xs @ ys) = made xs + made ys"
  by (induction xs rule: made.induct) auto

lemma used_append [simp]: "used (xs @ ys) = used xs + used ys"
  by (induction xs rule: used.induct) auto

lemma orderly_append [simp]:
  "orderly p k (xs @ ys) \<longleftrightarrow> orderly p k xs \<and> orderly (p + made xs) (k + used xs) ys"
  by (induction p k xs rule: orderly.induct) auto

section \<open>The invariant\<close>

text \<open>Where a task stands between its steps.\<close>

fun early :: "place \<Rightarrow> nat" where
  "early Wait = 1" | "early Lock = 1" | "early Move = 1" | "early _ = 0"

fun entered :: "place \<Rightarrow> nat" where
  "entered Lock = 1" | "entered Move = 1" | "entered _ = 0"

fun unshown :: "place \<Rightarrow> nat" where
  "unshown Show = 1" | "unshown _ = 0"

fun behind :: "place \<Rightarrow> nat" where
  "behind Show = 1" | "behind Advance = 1" | "behind _ = 0"

fun owing :: "place \<Rightarrow> nat" where
  "owing Show = 1" | "owing Advance = 1" | "owing Unlock = 1" | "owing Signal = 1" | "owing _ = 0"

fun critical :: "place \<Rightarrow> nat" where
  "critical Move = 1" | "critical Show = 1" | "critical Advance = 1" | "critical Unlock = 1" | "critical _ = 0"

lemma unshown_owing: "unshown a \<le> owing a"
  by (cases a) simp_all

text \<open>\<open>p\<close> items are in the buffer or were, \<open>k\<close> of them have been taken out.\<close>

definition indices :: "('s, 'd) world \<Rightarrow> nat \<Rightarrow> nat \<Rightarrow> bool" where
  "indices w p k \<longleftrightarrow> behind (p_at w) \<le> p \<and> behind (c_at w) \<le> k
     \<and> unat (in_at w) = (p - behind (p_at w)) mod BUFFER_SIZE
     \<and> unat (out_at w) = (k - behind (c_at w)) mod BUFFER_SIZE"

definition stored :: "('s, 'd) world \<Rightarrow> nat \<Rightarrow> nat \<Rightarrow> bool" where
  "stored w p k \<longleftrightarrow> length (shared_buffer w) = BUFFER_SIZE
     \<and> (\<forall>i. k \<le> i \<and> i < p \<longrightarrow> shared_buffer w ! (i mod BUFFER_SIZE) = word_of_nat (i + 1))"

definition numbered :: "('s, 'd) world \<Rightarrow> nat \<Rightarrow> nat \<Rightarrow> bool" where
  "numbered w p k \<longleftrightarrow> p + early (p_at w) < 2 ^ 31 \<and> p_item w = word_of_nat (p + early (p_at w))
     \<and> c_at w \<noteq> Item \<and> (c_at w = Show \<longrightarrow> c_item w = word_of_nat k)"

definition logged :: "('s, 'd) world \<Rightarrow> nat \<Rightarrow> nat \<Rightarrow> event list \<Rightarrow> bool" where
  "logged w p k es \<longleftrightarrow> orderly 0 0 es \<and> made es + unshown (p_at w) = p \<and> used es + unshown (c_at w) = k"

text \<open>A slot of the ring.\<close>

lemma ring_next: "unat x = q mod 8 \<Longrightarrow> unat ((x + 1) mod word_of_nat 8 :: u32) = Suc q mod 8"
proof -
  assume x: "unat x = q mod 8"
  then have "unat x < 8" by simp
  then have "unat (x + 1) = unat x + 1" using unat_Suc_below [of x 8] by (simp add: word_less_nat_alt)
  then have "unat ((x + 1) mod word_of_nat 8) = (unat x + 1) mod 8" by (simp add: unat_mod)
  then show ?thesis by (simp add: x mod_Suc_eq)
qed

lemma ring_other:
  fixes i p :: nat
  assumes "i < p" "p < i + 8"
  shows "i mod 8 \<noteq> p mod 8"
proof
  assume "i mod 8 = p mod 8"
  then have "8 dvd p - i" using assms(1) by (simp add: mod_eq_dvd_iff_nat [symmetric] less_imp_le)
  then show False using assms by (auto dest: dvd_imp_le)
qed

lemma intstr_small: "n < 2 ^ 31 \<Longrightarrow> intstr (sint (word_of_nat n :: u32)) = decstr n"
proof -
  assume n: "n < 2 ^ 31"
  then have "sint (word_of_nat n :: u32) = int n"
    by (simp add: signed_of_nat signed_take_bit_int_eq_self)
  then show ?thesis by (simp add: intstr_def)
qed

context board
begin

lemma tell_wp:
  assumes "does m sent got s t" and "0 \<notin> set (str verb)"
  shows "returns (tell b verb item at t)
    (does m (sent @ str verb @ intstr (sint item) @ str '' at index '' @ intstr (sint at) @ crlf) got s)"
proof -
  have "returns (tell b verb item at t)
      (talks (str verb @ intstr (sint item) @ str '' at index '' @ intstr (sint at) @ crlf) [] t)"
    unfolding tell_def vSendString_def using assms(2) does_ready [OF assms(1)]
    by (intro wp) (auto simp: str_def ch_def talks_def)
  then show ?thesis by (rule returns_mono) (use does_talks [OF assms(1)] in force)
qed

end

section \<open>The invariant holds\<close>

locale tasks = board + semaphores
begin

definition permits :: "('c, 'a) world \<Rightarrow> nat \<Rightarrow> nat \<Rightarrow> bool" where
  "permits w p k \<longleftrightarrow>
     count (empty w) + p + entered (p_at w) + owing (c_at w) = BUFFER_SIZE + k \<and> most (empty w) = BUFFER_SIZE
     \<and> count (full w) + k + entered (c_at w) + owing (p_at w) = p \<and> most (full w) = BUFFER_SIZE
     \<and> count (mutex w) + critical (p_at w) + critical (c_at w) = 1 \<and> most (mutex w) = 1"

definition bounded_inv :: "'a \<Rightarrow> ('c, 'a) world \<Rightarrow> nat \<Rightarrow> nat \<Rightarrow> event list \<Rightarrow> bool" where
  "bounded_inv s w p k es \<longleftrightarrow> indices w p k \<and> stored w p k \<and> permits w p k \<and> numbered w p k \<and> logged w p k es
     \<and> does (memory s) (concat (map log_line es)) [] s (machine w)"

lemmas inv_defs = bounded_inv_def indices_def stored_def permits_def numbered_def logged_def

lemma produce_move:
  assumes "vProducer K b w = Some w'" and inv: "bounded_inv s w p k es" and Move: "p_at w = Move"
  shows "bounded_inv s w' (p + 1) k es"
proof -
  from assms(1) inv Move have w': "w' = w\<lparr>shared_buffer := (shared_buffer w)[p mod 8 := word_of_nat (p + 1)], p_at := Show\<rparr>"
    by (simp add: vProducer_def setb_def inv_defs)
  from inv Move have p: "p < k + 8" "length (shared_buffer w) = 8"
    and old: "\<And>i. k \<le> i \<Longrightarrow> i < p \<Longrightarrow> shared_buffer w ! (i mod 8) = word_of_nat (i + 1)"
    by (simp_all add: inv_defs)
  have "((shared_buffer w)[p mod 8 := word_of_nat (p + 1)]) ! (i mod 8) = word_of_nat (i + 1)"
    if "k \<le> i" "i < p + 1" for i
  proof (cases "i = p")
    case False
    with that(2) have i: "i < p" by simp
    with ring_other [of i p] that p(1) have "p mod 8 \<noteq> i mod 8" by (simp add: eq_commute)
    with old [OF that(1) i] show ?thesis by simp
  qed (simp add: p(2))
  then have "stored w' (p + 1) k"
    using p(2) by (simp add: stored_def w')
  then show ?thesis
    using inv Move by (simp add: w' inv_defs)
qed

lemma produce_show:
  assumes "vProducer K b w = Some w'" and inv: "bounded_inv s w p k es" and Show: "p_at w = Show"
  shows "bounded_inv s w' p k (es @ [Produced p])"
proof -
  from inv Show have p: "1 \<le> p" "p < 2 ^ 31" "p_item w = word_of_nat p" "unat (in_at w) = (p - 1) mod 8"
    and out: "does (memory s) (concat (map log_line es)) [] s (machine w)"
    by (simp_all add: inv_defs)
  have "in_at w = word_of_nat ((p - 1) mod 8)" unfolding p(4) [symmetric] by simp
  then have "returns (tell b ''Produced '' (p_item w) (in_at w) (machine w))
      (does (memory s) (concat (map log_line (es @ [Produced p]))) [] s)"
    using tell_wp [OF out, of "''Produced ''" "p_item w" "in_at w"] p(2,3)
    by (simp add: str_def ch_def intstr_small)
  then obtain t where t: "tell b ''Produced '' (p_item w) (in_at w) (machine w) = Some t"
    "does (memory s) (concat (map log_line (es @ [Produced p]))) [] s t"
    unfolding returns_ex by blast
  then have w': "w' = w\<lparr>machine := vToggleLED b t, p_at := Advance\<rparr>"
    using assms(1) Show by (simp add: vProducer_def)
  have "does (memory s) (concat (map log_line (es @ [Produced p]))) [] s (vToggleLED b t)"
    using does_trans [OF t(2) rmw_pout_does [OF does_ready [OF t(2)]]] does_memory [OF t(2)]
    by (simp add: vToggleLED_def)
  then show ?thesis
    using inv Show unshown_owing [of "c_at w"] by (simp add: w' inv_defs)
qed

lemma produce_inv:
  assumes "vProducer K b w = Some w'" and inv: "bounded_inv s w p k es"
  shows "\<exists>p k es. bounded_inv s w' p k es"
proof (cases "p_at w")
  case Item
  with assms(1) have w': "p_item w \<noteq> 0x7fffffff" "w' = w\<lparr>p_item := p_item w + 1, p_at := Wait\<rparr>"
    by (auto simp: vProducer_def split: if_splits)
  from inv Item have p: "p_item w = word_of_nat p" "p < 2 ^ 31"
    by (simp_all add: bounded_inv_def numbered_def)
  with w'(1) have "p \<noteq> 0x7fffffff" by auto
  with p(2) have "Suc p < 2 ^ 31" by simp
  then have "bounded_inv s w' p k es"
    using inv Item p(1) by (simp add: w'(2) inv_defs)
  then show ?thesis by blast
next
  case Wait
  with assms(1) obtain e where e: "xSemaphoreTake K (empty w) = Some e" "w' = w\<lparr>empty := e, p_at := Lock\<rparr>"
    by (auto simp: vProducer_def split: bind_splits)
  from takes [OF e(1)] inv Wait have "bounded_inv s w' p k es"
    by (simp add: e(2) inv_defs)
  then show ?thesis by blast
next
  case Lock
  with assms(1) obtain m where m: "xSemaphoreTake K (mutex w) = Some m" "w' = w\<lparr>mutex := m, p_at := Move\<rparr>"
    by (auto simp: vProducer_def split: bind_splits)
  from takes [OF m(1)] inv Lock have "bounded_inv s w' p k es"
    by (simp add: m(2) inv_defs)
  then show ?thesis by blast
next
  case Move
  from produce_move [OF assms this] show ?thesis by blast
next
  case Show
  from produce_show [OF assms this] show ?thesis by blast
next
  case Advance
  with assms(1) have w': "w' = w\<lparr>in_at := (in_at w + 1) mod word_of_nat 8, p_at := Unlock\<rparr>"
    by (simp add: vProducer_def)
  have "unat (in_at w') = p mod 8"
    using inv Advance ring_next [of "in_at w" "p - 1"] by (simp add: w' inv_defs)
  then have "bounded_inv s w' p k es"
    using inv Advance by (simp add: w' inv_defs)
  then show ?thesis by blast
next
  case Unlock
  with inv have "count (mutex w) < most (mutex w)" by (simp add: inv_defs)
  note give = gives [OF this]
  from assms(1) Unlock have w': "w' = w\<lparr>mutex := xSemaphoreGive K (mutex w), p_at := Signal\<rparr>"
    by (simp add: vProducer_def)
  from give inv Unlock have "bounded_inv s w' p k es" by (simp add: w' inv_defs)
  then show ?thesis by blast
next
  case Signal
  with inv have "count (full w) < most (full w)" by (simp add: inv_defs)
  note give = gives [OF this]
  from assms(1) Signal have w': "w' = w\<lparr>full := xSemaphoreGive K (full w), p_at := Delay\<rparr>"
    by (simp add: vProducer_def)
  from give inv Signal have "bounded_inv s w' p k es" by (simp add: w' inv_defs)
  then show ?thesis by blast
next
  case Delay
  with assms(1) have w': "w' = w\<lparr>p_at := Item\<rparr>" by (simp add: vProducer_def)
  from inv Delay have "bounded_inv s w' p k es" by (simp add: w' inv_defs)
  then show ?thesis by blast
qed (use assms in \<open>simp add: vProducer_def\<close>)

lemma consume_show:
  assumes "vConsumer K b w = Some w'" and inv: "bounded_inv s w p k es" and Show: "c_at w = Show"
  shows "bounded_inv s w' p k (es @ [Consumed k])"
proof -
  from inv Show have k: "1 \<le> k" "k \<le> p" "p < 2 ^ 31" "c_item w = word_of_nat k"
    "unat (out_at w) = (k - 1) mod 8"
    and out: "does (memory s) (concat (map log_line es)) [] s (machine w)"
    by (simp_all add: inv_defs)
  have "out_at w = word_of_nat ((k - 1) mod 8)" unfolding k(5) [symmetric] by simp
  then have "returns (tell b ''Consumed '' (c_item w) (out_at w) (machine w))
      (does (memory s) (concat (map log_line (es @ [Consumed k]))) [] s)"
    using tell_wp [OF out, of "''Consumed ''" "c_item w" "out_at w"] k(2,3,4)
    by (simp add: str_def ch_def intstr_small)
  then obtain t where t: "tell b ''Consumed '' (c_item w) (out_at w) (machine w) = Some t"
    "does (memory s) (concat (map log_line (es @ [Consumed k]))) [] s t"
    unfolding returns_ex by blast
  then have w': "w' = w\<lparr>machine := t, c_at := Advance\<rparr>"
    using assms(1) Show by (simp add: vConsumer_def)
  show ?thesis
    using inv Show t(2) unshown_owing [of "p_at w"] by (simp add: w' inv_defs)
qed

lemma consume_inv:
  assumes "vConsumer K b w = Some w'" and inv: "bounded_inv s w p k es"
  shows "\<exists>p k es. bounded_inv s w' p k es"
proof (cases "c_at w")
  case Wait
  with assms(1) obtain f where f: "xSemaphoreTake K (full w) = Some f" "w' = w\<lparr>full := f, c_at := Lock\<rparr>"
    by (auto simp: vConsumer_def split: bind_splits)
  from takes [OF f(1)] inv Wait have "bounded_inv s w' p k es"
    by (simp add: f(2) inv_defs)
  then show ?thesis by blast
next
  case Lock
  with assms(1) obtain m where m: "xSemaphoreTake K (mutex w) = Some m" "w' = w\<lparr>mutex := m, c_at := Move\<rparr>"
    by (auto simp: vConsumer_def split: bind_splits)
  from takes [OF m(1)] inv Lock have "bounded_inv s w' p k es"
    by (simp add: m(2) inv_defs)
  then show ?thesis by blast
next
  case Move
  from inv Move have k: "k < p" "unat (out_at w) = k mod 8" "length (shared_buffer w) = 8"
    by (simp_all add: inv_defs)
  with inv have item: "shared_buffer w ! unat (out_at w) = word_of_nat (k + 1)"
    by (simp add: bounded_inv_def stored_def)
  have w': "w' = w\<lparr>c_item := word_of_nat (k + 1), c_at := Show\<rparr>"
    using assms(1) Move item k(2,3) by (simp add: vConsumer_def)
  have "bounded_inv s w' p (k + 1) es"
    using inv Move k(1) by (simp add: w' inv_defs)
  then show ?thesis by blast
next
  case Show
  from consume_show [OF assms this] show ?thesis by blast
next
  case Advance
  with assms(1) have w': "w' = w\<lparr>out_at := (out_at w + 1) mod word_of_nat 8, c_at := Unlock\<rparr>"
    by (simp add: vConsumer_def)
  have "unat (out_at w') = k mod 8"
    using inv Advance ring_next [of "out_at w" "k - 1"] by (simp add: w' inv_defs)
  then have "bounded_inv s w' p k es"
    using inv Advance by (simp add: w' inv_defs)
  then show ?thesis by blast
next
  case Unlock
  with inv have "count (mutex w) < most (mutex w)" by (simp add: inv_defs)
  note give = gives [OF this]
  from assms(1) Unlock have w': "w' = w\<lparr>mutex := xSemaphoreGive K (mutex w), c_at := Signal\<rparr>"
    by (simp add: vConsumer_def)
  from give inv Unlock have "bounded_inv s w' p k es" by (simp add: w' inv_defs)
  then show ?thesis by blast
next
  case Signal
  with inv have "count (empty w) < most (empty w)" by (simp add: inv_defs)
  note give = gives [OF this]
  from assms(1) Signal have w': "w' = w\<lparr>empty := xSemaphoreGive K (empty w), c_at := Delay\<rparr>"
    by (simp add: vConsumer_def)
  from give inv Signal have "bounded_inv s w' p k es" by (simp add: w' inv_defs)
  then show ?thesis by blast
next
  case Delay
  with assms(1) have w': "w' = w\<lparr>c_at := Wait\<rparr>" by (simp add: vConsumer_def)
  from inv Delay have "bounded_inv s w' p k es" by (simp add: w' inv_defs)
  then show ?thesis by blast
qed (use assms in \<open>simp_all add: vConsumer_def\<close>)

lemma start_inv:
  assumes "ready s" and "boundedbuffer K b junk s = Some w"
  shows "bounded_inv s w 0 0 []"
proof -
  obtain e f m where sems: "xSemaphoreCreateCounting K 8 8 = Some e" "xSemaphoreCreateCounting K 8 0 = Some f"
      "xSemaphoreCreateMutex K = Some m"
    using assms(2) by (auto simp: boundedbuffer_def split: option.splits bind_splits)
  then show ?thesis
    using assms counting [OF sems(1)] counting [OF sems(2)] mutual [OF sems(3)]
    by (auto simp: boundedbuffer_def inv_defs split: if_splits)
qed

lemma schedule_inv:
  assumes "(schedule K b)\<^sup>*\<^sup>* w0 w" and "\<exists>p k es. bounded_inv s w0 p k es"
  shows "\<exists>p k es. bounded_inv s w p k es"
  using assms
proof (induction rule: rtranclp_induct)
  case (step w w')
  then obtain p k es where "bounded_inv s w p k es" by blast
  with step.hyps(2) show ?case
    by (elim schedule.cases) (blast intro: produce_inv consume_inv)+
qed

text \<open>A task that does not wait can go on, and not both wait.\<close>

lemma producer_moves:
  assumes inv: "bounded_inv s w p k es" and "p_at w \<noteq> Absent" "p_item w \<noteq> 0x7fffffff"
    and "p_at w = Wait \<Longrightarrow> count (empty w) \<noteq> 0" "p_at w = Lock \<Longrightarrow> count (mutex w) \<noteq> 0"
  shows "\<exists>w'. vProducer K b w = Some w'"
proof (cases "p_at w")
  case Show
  have "does (memory s) (concat (map log_line es)) [] s (machine w)"
    using inv by (simp add: bounded_inv_def)
  from tell_wp [OF this, of "''Produced ''" "p_item w" "in_at w"] show ?thesis
    using Show by (auto simp: vProducer_def returns_ex str_def ch_def)
next
  case Wait
  with assms(4) waits [of "empty w"] show ?thesis by (auto simp: vProducer_def)
next
  case Lock
  with assms(5) waits [of "mutex w"] show ?thesis by (auto simp: vProducer_def)
next
  case Move
  with inv show ?thesis by (simp add: vProducer_def setb_def inv_defs)
qed (use assms(2,3) in \<open>simp_all add: vProducer_def\<close>)

lemma consumer_moves:
  assumes inv: "bounded_inv s w p k es" and "c_at w \<noteq> Absent"
    and "c_at w = Wait \<Longrightarrow> count (full w) \<noteq> 0" "c_at w = Lock \<Longrightarrow> count (mutex w) \<noteq> 0"
  shows "\<exists>w'. vConsumer K b w = Some w'"
proof (cases "c_at w")
  case Show
  have "does (memory s) (concat (map log_line es)) [] s (machine w)"
    using inv by (simp add: bounded_inv_def)
  from tell_wp [OF this, of "''Consumed ''" "c_item w" "out_at w"] show ?thesis
    using Show by (auto simp: vConsumer_def returns_ex str_def ch_def)
next
  case Wait
  with assms(3) waits [of "full w"] show ?thesis by (auto simp: vConsumer_def)
next
  case Lock
  with assms(4) waits [of "mutex w"] show ?thesis by (auto simp: vConsumer_def)
next
  case Move
  with inv show ?thesis by (simp add: vConsumer_def setb_def inv_defs)
next
  case Item
  with inv show ?thesis by (simp add: bounded_inv_def numbered_def)
qed (use assms(2) in \<open>simp_all add: vConsumer_def\<close>)

lemma critical_waits: "critical Wait = 0" "critical Lock = 0" "critical a \<noteq> 0 \<Longrightarrow> a \<notin> {Wait, Lock, Absent}"
  by (cases a; simp)+

lemma progress:
  assumes inv: "bounded_inv s w p k es" and "p_at w \<noteq> Absent" "c_at w \<noteq> Absent" "p_item w \<noteq> 0x7fffffff"
  shows "\<exists>w'. schedule K b w w'"
proof (cases "p_at w = Wait \<and> count (empty w) = 0 \<or> p_at w = Lock \<and> count (mutex w) = 0")
  case True
  have permits: "permits w p k" using inv by (simp add: bounded_inv_def)
  have "\<exists>w'. vConsumer K b w = Some w'"
  proof (rule consumer_moves [OF inv assms(3)])
    have "owing (c_at w) \<le> 1" "entered (c_at w) \<le> 1" by (cases "c_at w"; simp)+
    moreover assume "c_at w = Wait"
    ultimately show "count (full w) \<noteq> 0" using True permits by (auto simp: permits_def)
  next
    assume "c_at w = Lock"
    then show "count (mutex w) \<noteq> 0" using True permits by (auto simp: permits_def)
  qed
  then show ?thesis by (auto intro: schedule.consume)
next
  case False
  then have "\<exists>w'. vProducer K b w = Some w'" using producer_moves [OF inv assms(2,4)] by blast
  then show ?thesis by (auto intro: schedule.produce)
qed

end

section \<open>The program on the machine\<close>

lemma schedule_present:
  assumes "schedule K b w w'"
  shows "(p_at w' = Absent) = (p_at w = Absent)" "(c_at w' = Absent) = (c_at w = Absent)"
  using assms
  by (cases; cases "p_at w"; cases "c_at w";
      auto simp: vProducer_def vConsumer_def split: bind_splits if_splits)+

text \<open>What \<^verbatim>\<open>main\<close> prints before the tasks run.\<close>

definition banner :: "u8 list \<Rightarrow> u8 list" where
  "banner version = crlf @ str ''FreeRTOS '' @ version @ str '' running on THUASRV32!'' @ crlf @ [10]"

context board
begin

lemma main_runs:
  assumes "idle s" and "0 \<notin> set version"
  shows "\<exists>t. ready t \<and> outp t = outp s @ banner version
    \<and> bounded_main K b h version junk s = boundedbuffer K b junk t"
proof -
  let ?s = "uart1_init b BAUD_RATE UART_CTRL_EN (st32 b GPIOA_POUT 0 (set_mtvec b h s))"
  have "idle (st32 b GPIOA_POUT 0 (set_mtvec b h s)) \<and> outp (st32 b GPIOA_POUT 0 (set_mtvec b h s)) = outp s"
    using config_csrw [OF assms(1)] by (simp add: set_mtvec_def csr_write_def config)
  then have s: "ready ?s" "outp ?s = outp s"
    using uart_init_idle uart_init_ready by (auto simp: UART_CTRL_EN_def)
  have "returns (do { s \<leftarrow> uart1_puts b (cstr (crlf @ str ''FreeRTOS '')) ?s;
          s \<leftarrow> uart1_puts b (cstr version) s;
          uart1_puts b (cstr (str '' running on THUASRV32!'' @ crlf @ [10])) s }) (talks (banner version) [] ?s)"
    using s(1) assms(2) by (intro wp) (auto simp: str_def ch_def talks_def banner_def)
  then show ?thesis
    using s
    by (auto simp: returns_ex bounded_main_def prvSetupHardware_def configCPU_CLOCK_HZ_def talks_def bind_eq_Some_conv)
qed

end

lemma bounded_started:
  assumes "semaphores K count most" and "u_shift (uart1 s) = None" and "0 \<notin> set version"
    and "bounded_main K soc_bus h version junk s = Some w0" and "(schedule K soc_bus)\<^sup>*\<^sup>* w0 w"
  shows "\<exists>t p k es. u_sent (uart1 t) = u_sent (uart1 s) @ banner version
    \<and> tasks.bounded_inv uart_ready (\<lambda>s. u_sent (uart1 s)) (\<lambda>s. uart_inp (uart1 s)) mem count most t w p k es"
proof -
  note run = tasks.intro [OF soc_board.board_axioms assms(1)]
  obtain t where t: "uart_ready t" "u_sent (uart1 t) = u_sent (uart1 s) @ banner version"
      "boundedbuffer K soc_bus junk t = Some w0"
    using soc_board.main_runs [OF assms(2,3)] assms(4) by metis
  then show ?thesis
    using tasks.schedule_inv [OF run assms(5)] tasks.start_inv [OF run t(1,3)] by blast
qed

text \<open>Semaphores that count, for the examples.\<close>

definition counting_kernel :: "(nat \<times> nat) kernel" where
  "counting_kernel = \<lparr> xSemaphoreTake = (\<lambda>(n, m). if n = 0 then None else Some (n - 1, m)),
     xSemaphoreGive = (\<lambda>(n, m). (if n < m then Suc n else n, m)),
     xSemaphoreCreateCounting = (\<lambda>m n. Some (n, m)), xSemaphoreCreateMutex = Some (1, 1),
     xTaskCreate = (\<lambda>_. True) \<rparr>"

interpretation counted: semaphores counting_kernel fst snd
  by unfold_locales (auto simp: counting_kernel_def split: if_splits)

interpretation soc_tasks: tasks soc_bus uart_ready "\<lambda>s. u_sent (uart1 s)" "\<lambda>s. uart_inp (uart1 s)"
  mem soc_lamps uart_sending "\<lambda>s. u_rx (uart1 s) \<noteq> None" "\<lambda>s. uart_rxwait (uart1 s)" IO_BASE
  "\<lambda>l. fst l GPIOA_POUT" "\<lambda>w l. ((fst l)(GPIOA_POUT := w), snd l)"
  "\<lambda>s. u_shift (uart1 s) = None" counting_kernel fst snd
  by (rule tasks.intro [OF soc_board.board_axioms counted.semaphores_axioms])

lemma demo_idle: "u_shift (uart1 (demo cs)) = None"
  using demo_simps(1) [of cs echo_slave count_slave] by (simp only: uart_ready_def demo_def simp_thms)

lemma version_ok: "0 \<notin> set (str ''V10.4.4'')"
  by (simp add: str_def ch_def)

lemma counted_start:
  "\<exists>w. bounded_main counting_kernel soc_bus 0 (str ''V10.4.4'') 0 (demo []) = Some w
    \<and> p_at w = Item \<and> c_at w = Wait \<and> p_item w = 0"
  using soc_board.main_runs [OF demo_idle version_ok, of "[]" counting_kernel 0 0]
  by (auto simp: boundedbuffer_def counting_kernel_def)

text \<open>C31. In every order of their statements, the producer and the consumer print the items 1, 2, 3 and so on
  each in order and line by line, no item is consumed before it is produced or overwritten before it is
  consumed, and they are never both in the critical section.\<close>

theorem bounded_buffer_orderly:
  assumes "semaphores K count most" and "u_shift (uart1 s) = None" and "0 \<notin> set version"
    and "bounded_main K soc_bus h version junk s = Some w0" and "(schedule K soc_bus)\<^sup>*\<^sup>* w0 w"
  shows "\<exists>es. u_sent (uart1 (machine w)) = u_sent (uart1 s) @ banner version @ concat (map log_line es)
    \<and> orderly 0 0 es \<and> critical (p_at w) + critical (c_at w) \<le> 1"
proof -
  note run = tasks.intro [OF soc_board.board_axioms assms(1)]
  obtain t p k es where "u_sent (uart1 t) = u_sent (uart1 s) @ banner version"
    "tasks.bounded_inv uart_ready (\<lambda>s. u_sent (uart1 s)) (\<lambda>s. uart_inp (uart1 s)) mem count most t w p k es"
    using bounded_started [OF assms] by blast
  then show ?thesis
    unfolding tasks.bounded_inv_def [OF run] tasks.permits_def [OF run] logged_def soc_board.does_def
    by (intro exI [of _ es]) auto
qed

theorem bounded_buffer_orderly_witness:
  "\<exists>w w' es. bounded_main counting_kernel soc_bus 0 (str ''V10.4.4'') 0 (demo []) = Some w
    \<and> vProducer counting_kernel soc_bus w = Some w'
    \<and> u_sent (uart1 (machine w')) = banner (str ''V10.4.4'') @ concat (map log_line es)
    \<and> orderly 0 0 es \<and> critical (p_at w') + critical (c_at w') \<le> 1"
proof -
  obtain w where w: "bounded_main counting_kernel soc_bus 0 (str ''V10.4.4'') 0 (demo []) = Some w"
      "p_at w = Item" "p_item w = 0"
    using counted_start by blast
  then obtain w' where w': "vProducer counting_kernel soc_bus w = Some w'"
    by (simp add: vProducer_def)
  then have "(schedule counting_kernel soc_bus)\<^sup>*\<^sup>* w w'" by (intro r_into_rtranclp produce)
  from bounded_buffer_orderly [OF counted.semaphores_axioms demo_idle version_ok w(1) this] w(1) w'
  show ?thesis by (auto simp: demo_def)
qed

text \<open>C32. The tasks never deadlock: whatever has happened, one of them can do its next statement, until the
  producer has counted to the largest number.\<close>

theorem bounded_buffer_progress:
  assumes "semaphores K count most" and "u_shift (uart1 s) = None" and "0 \<notin> set version"
    and "bounded_main K soc_bus h version junk s = Some w0" and "(schedule K soc_bus)\<^sup>*\<^sup>* w0 w"
    and "p_at w \<noteq> Absent" "c_at w \<noteq> Absent" "p_item w \<noteq> 0x7fffffff"
  shows "\<exists>w'. schedule K soc_bus w w'"
  using bounded_started [OF assms(1-5)]
    tasks.progress [OF tasks.intro [OF soc_board.board_axioms assms(1)] _ assms(6-8)] by blast

theorem bounded_buffer_progress_witness:
  "\<exists>w w'. bounded_main counting_kernel soc_bus 0 (str ''V10.4.4'') 0 (demo []) = Some w
    \<and> schedule counting_kernel soc_bus w w'"
proof -
  obtain w where w: "bounded_main counting_kernel soc_bus 0 (str ''V10.4.4'') 0 (demo []) = Some w"
      "p_at w = Item" "c_at w = Wait" "p_item w = 0"
    using counted_start by blast
  with bounded_buffer_progress [OF counted.semaphores_axioms demo_idle version_ok w(1) rtranclp.rtrancl_refl]
  show ?thesis by auto
qed

end
