(* ===== verification/Serial.thy ===== *)
theory Serial
  imports Soc
begin

text \<open>
  The serial port with interrupts, \<^verbatim>\<open>sw/uart1_interrupt/uart1_interrupt.c\<close>: the two functions that a program
  calls again and again until a string is sent or a line is read, the trap handler that does the work, and
  the main program, which echoes lines. Strings are in memory, since the handler and the program share them.
\<close>

section \<open>The driver\<close>

definition MCAUSE_IS_UART1 :: u32 where "MCAUSE_IS_UART1 = push_bit 31 1 + 23"
definition UART_CTRL_TCIE :: u32 where "UART_CTRL_TCIE = push_bit 4 1"

text \<open>The global variables, and the static variables of the two functions.\<close>

record serial =
  transmit_string :: u32
  receive_string :: u32
  current_length :: u32
  string_length :: u32
  still_sending :: u32
  still_receiving :: u32

definition serial_zero :: serial where
  "serial_zero = \<lparr> transmit_string = 0, receive_string = 0, current_length = 0, string_length = 0,
     still_sending = 0, still_receiving = 0 \<rparr>"

definition uart1_putsIT :: "'d bus \<Rightarrow> u32 \<Rightarrow> serial \<Rightarrow> 'd \<Rightarrow> u32 \<times> serial \<times> 'd" where
  "uart1_putsIT b p g s =
     (let (c, s) = (if p = 0 then (0, s) else ld8 b p s)
      in if c = 0 then
           (0, g \<lparr> transmit_string := 0, still_sending := 0 \<rparr>, rmw b UART1_CTRL (\<lambda>v. v AND NOT UART_CTRL_TCIE) s)
         else if transmit_string g \<noteq> 0 then (1, g, s)
         else if still_sending g = 1 then (0, g \<lparr> still_sending := 0 \<rparr>, s)
         else
           (let g = g \<lparr> transmit_string := p + 1, still_sending := 1 \<rparr>;
                (c, s) = ld8 b p s;
                s = st32 b UART1_DATA (ucast c) s
            in (1, g, rmw b UART1_CTRL (\<lambda>v. v OR UART_CTRL_TCIE) s)))"

definition uart1_getsIT :: "'d bus \<Rightarrow> u32 \<Rightarrow> u32 \<Rightarrow> serial \<Rightarrow> 'd \<Rightarrow> u32 \<times> serial \<times> 'd" where
  "uart1_getsIT b p len g s =
     (if p = 0 \<or> sint len < 1 then
        (0, g \<lparr> receive_string := 0, string_length := 0, still_receiving := 0 \<rparr>,
          rmw b UART1_CTRL (\<lambda>v. v AND NOT UART_CTRL_RCIE) s)
      else if sint len < 2 then
        (let s = st8 b p 0 s
         in (0, g \<lparr> receive_string := 0, string_length := 0, still_receiving := 0 \<rparr>,
              rmw b UART1_CTRL (\<lambda>v. v AND NOT UART_CTRL_RCIE) s))
      else if receive_string g \<noteq> 0 then (1, g, s)
      else if still_receiving g = 1 then (0, g \<lparr> still_receiving := 0 \<rparr>, s)
      else
        (1, g \<lparr> receive_string := p, string_length := len, still_receiving := 1 \<rparr>,
          rmw b UART1_CTRL (\<lambda>v. v OR UART_CTRL_RCIE) s))"

section \<open>The trap handler\<close>

text \<open>The two halves of the handler. Both pointers are read through twice where the code does.\<close>

definition transmit_done :: "'d bus \<Rightarrow> 'd \<Rightarrow> 'd" where
  "transmit_done b s =
     (let s = rmw b UART1_CTRL (\<lambda>v. v AND NOT UART_CTRL_TCIE) s in rmw b UART1_STAT (\<lambda>v. v AND NOT UART_STAT_TC) s)"

definition transmit_interrupt :: "'d bus \<Rightarrow> serial \<Rightarrow> 'd \<Rightarrow> serial \<times> 'd" where
  "transmit_interrupt b g s =
     (let (stat, s) = ld32 b UART1_STAT s
      in if stat AND UART_STAT_TC = 0 then (g, s)
         else
           (let s = gpioa_togglepin b GPIO_PIN_1 s
            in if transmit_string g = 0 then (g, transmit_done b s)
               else
                 (let (c, s) = ld8 b (transmit_string g) s
                  in if c \<noteq> 0 then
                       (let (c, s) = ld8 b (transmit_string g) s;
                            s = st32 b UART1_DATA (ucast c) s
                        in (g \<lparr> transmit_string := transmit_string g + 1 \<rparr>, s))
                     else (g \<lparr> transmit_string := 0 \<rparr>, transmit_done b s))))"

definition receive_interrupt :: "'d bus \<Rightarrow> serial \<Rightarrow> 'd \<Rightarrow> serial \<times> 'd" where
  "receive_interrupt b g s =
     (let (stat, s) = ld32 b UART1_STAT s
      in if stat AND UART_STAT_RC = 0 then (g, s)
         else
           (let (v, s) = ld32 b UART1_DATA s; chr = (ucast v :: u8);
                s = gpioa_togglepin b GPIO_PIN_0 s
            in if receive_string g = 0 then (g, rmw b UART1_CTRL (\<lambda>v. v AND NOT UART_CTRL_RCIE) s)
               else if current_length g = string_length g - 2 \<or> chr = 13 \<or> chr = 10 then
                 (let chr = (if chr = 13 then 10 else chr);
                      s = st8 b (receive_string g) chr s;
                      s = st8 b (receive_string g + 1) 0 s;
                      s = rmw b UART1_CTRL (\<lambda>v. v AND NOT UART_CTRL_RCIE) s
                  in (g \<lparr> receive_string := 0, string_length := 0, current_length := 0 \<rparr>, s))
               else
                 (g \<lparr> current_length := current_length g + 1, receive_string := receive_string g + 1 \<rparr>,
                   st8 b (receive_string g) chr s)))"

definition trap_handler_serial :: "'d bus \<Rightarrow> serial \<Rightarrow> 'd \<Rightarrow> (serial \<times> 'd) option" where
  "trap_handler_serial b g s =
     (let (cause, s) = csr_read b mcause s
      in if cause = MCAUSE_IS_UART1 then
           (let (g, s) = transmit_interrupt b g s in Some (receive_interrupt b g s))
         else do { s \<leftarrow> uart1_puts b (cstr (str ''BUG:'' @ crlf)) s; Some (g, s) })"

section \<open>The main program\<close>

text \<open>Where the program is: it calls one of the two functions until the answer is not 1.\<close>

datatype stage = Hello | Getting | Putting

record 'd echo =
  stage :: stage
  serial :: serial
  system :: 'd

definition echo_start :: "'d bus \<Rightarrow> u32 \<Rightarrow> 'd \<Rightarrow> 'd echo" where
  "echo_start b trap_handler s =
     (let s = uart1_init b BAUD_RATE UART_CTRL_EN s;
          s = set_mtvec b trap_handler s;
          s = csr_write b mstatus (push_bit 3 1 OR push_bit 11 3) s
      in \<lparr> stage = Hello, serial = serial_zero, system = s \<rparr>)"

text \<open>One call. \<open>hello\<close> is the address of the greeting, \<open>buf\<close> that of the local array of six characters.\<close>

definition echo_call :: "'d bus \<Rightarrow> u32 \<Rightarrow> u32 \<Rightarrow> 'd echo \<Rightarrow> 'd echo" where
  "echo_call b hello buf w =
     (let (r, g, s) = (case stage w of
              Hello \<Rightarrow> uart1_putsIT b hello (serial w) (system w)
            | Getting \<Rightarrow> uart1_getsIT b buf 6 (serial w) (system w)
            | Putting \<Rightarrow> uart1_putsIT b buf (serial w) (system w))
      in \<lparr> stage = (if r = 1 then stage w else if stage w = Getting then Putting else Getting),
           serial = g, system = s \<rparr>)"

definition greeting :: "u8 list" where
  "greeting = crlf @ str ''THUAS RV32 Serial Port Interrupt Test Program'' @ crlf @ [10]"

text \<open>Between two calls time passes and, at any moment, the trap handler may run for the serial port.\<close>

definition entered_trap :: "soc \<Rightarrow> soc" where
  "entered_trap s = s \<lparr> csrs := (csrs s)(mcause := MCAUSE_IS_UART1) \<rparr>"

inductive echo_step :: "u32 \<Rightarrow> u32 \<Rightarrow> soc echo \<Rightarrow> soc echo \<Rightarrow> bool" for hello buf where
  call: "echo_step hello buf w (echo_call soc_bus hello buf w)"
| trap: "trap_handler_serial soc_bus (serial w) (entered_trap (system w)) = Some (g, s) \<Longrightarrow>
    echo_step hello buf w (w \<lparr> serial := g, system := s \<rparr>)"
| pass: "echo_step hello buf w (w \<lparr> system := tick (system w) \<rparr>)"

end
