(* ===== verification/Seriallaws.thy ===== *)
theory Seriallaws
  imports Serial
begin

text \<open>
  The serial port with interrupts: what the handler and the calls of the program do to the port and to the
  two strings, an invariant of every interleaving of the two, and the properties of the echo program.
\<close>

section \<open>The accesses of the driver\<close>

text \<open>The characters that have been sent or are being sent.\<close>

definition flushed :: "uart_unit \<Rightarrow> u8 list" where
  "flushed u = u_sent u @ (case u_shift u of None \<Rightarrow> [] | Some (c, n) \<Rightarrow> [c])"

text \<open>The port is on, and its transmitter is idle once it has said so. \<open>silent\<close>: and it has nothing to say.\<close>

definition sane :: "soc \<Rightarrow> bool" where
  "sane s \<longleftrightarrow> u_ctrl (uart1 s) AND UART_CTRL_EN \<noteq> 0 \<and> (u_tc (uart1 s) \<longrightarrow> u_shift (uart1 s) = None)"

definition silent :: "soc \<Rightarrow> bool" where
  "silent s \<longleftrightarrow> u_shift (uart1 s) = None \<and> \<not> u_tc (uart1 s)"

text \<open>\<open>t\<close> comes after \<open>s\<close>: time has passed and registers have been touched that do not matter.\<close>

definition elapsed :: "soc \<Rightarrow> soc \<Rightarrow> bool" where
  "elapsed s t \<longleftrightarrow> mem t = mem s \<and> uart_inp (uart1 t) = uart_inp (uart1 s)
     \<and> flushed (uart1 t) = flushed (uart1 s) \<and> (sane s \<longrightarrow> sane t)
     \<and> (u_shift (uart1 s) = None \<longrightarrow> u_shift (uart1 t) = None \<and> u_tc (uart1 t) = u_tc (uart1 s))
     \<and> (u_rx (uart1 s) \<noteq> None \<longrightarrow> u_rx (uart1 t) = u_rx (uart1 s))"

lemma elapsed_refl [simp]: "elapsed s s"
  by (simp add: elapsed_def)

lemma elapsed_trans [trans]: "elapsed s t \<Longrightarrow> elapsed t u \<Longrightarrow> elapsed s u"
  by (auto simp: elapsed_def)

lemma elapsed_sane: "elapsed s t \<Longrightarrow> sane s \<Longrightarrow> sane t"
  by (simp add: elapsed_def)

lemma elapsed_silent: "elapsed s t \<Longrightarrow> silent s \<Longrightarrow> silent t"
  by (simp add: elapsed_def silent_def)

lemma uart_tick_flushed: "flushed (uart_tick u) = flushed u"
  by (auto simp: uart_tick_def flushed_def Let_def split: option.splits list.splits nat.splits)

lemma uart_tick_tc: "u_tc u \<longrightarrow> u_shift u = None \<Longrightarrow> u_tc (uart_tick u) \<longrightarrow> u_shift (uart_tick u) = None"
  by (auto simp: uart_tick_def Let_def split: option.splits list.splits nat.splits)

lemma uart_tick_rx: "u_rx u \<noteq> None \<Longrightarrow> u_rx (uart_tick u) = u_rx u"
  by (auto simp: uart_tick_def Let_def split: option.splits list.splits nat.splits)

lemma elapsed_tick: "elapsed s (tick s)"
  unfolding elapsed_def sane_def tick_simps
  using uart_tick_tc [of "uart1 s"] uart_tick_cases(1-3) [of "uart1 s"] uart_tick_rx [of "uart1 s"]
  by (intro conjI impI) (simp_all add: uart_tick_flushed)

lemma elapsed_fields: "elapsed s t \<Longrightarrow> elapsed s (t \<lparr> io := i \<rparr>)" "elapsed s t \<Longrightarrow> elapsed s (t \<lparr> csrs := c \<rparr>)"
  by (simp_all add: elapsed_def sane_def)

lemma elapsed_toggle: "elapsed s (gpioa_togglepin soc_bus pin s)"
proof -
  have "elapsed s (tick (tick s))" by (rule elapsed_trans [OF elapsed_tick elapsed_tick])
  then show ?thesis by (simp add: gpioa_togglepin_def rmw_def soc_gpio elapsed_fields)
qed

text \<open>The interrupt enables.\<close>

definition keeps_on :: "(u32 \<Rightarrow> u32) \<Rightarrow> bool" where
  "keeps_on f \<longleftrightarrow> (\<forall>v. v AND UART_CTRL_EN \<noteq> 0 \<longrightarrow> f v AND UART_CTRL_EN \<noteq> 0)"

lemma on_bit: "w AND UART_CTRL_EN \<noteq> 0 \<longleftrightarrow> bit w 0"
  by (simp add: UART_CTRL_EN_def and_one_eq bit_0 odd_iff_mod_2_eq_one)

lemma enables_on: "keeps_on (\<lambda>v. v OR m)" "\<not> bit m 0 \<Longrightarrow> keeps_on (\<lambda>v. v AND NOT m)"
  by (simp_all add: keeps_on_def on_bit bit_simps)

lemma enable_bits: "\<not> bit UART_CTRL_TCIE 0" "\<not> bit UART_CTRL_RCIE 0"
  by (simp_all add: UART_CTRL_TCIE_def UART_CTRL_RCIE_def bit_0)

lemma tick_same: "(tick s) \<lparr> uart1 := uart_tick (uart1 s) \<rparr> = tick s"
  by (simp add: tick_def)

lemma soc_ld_ctrl: "soc_ld32 UART1_CTRL s = (u_ctrl (uart1 s), tick s)"
  by (simp add: soc_ld32_def uart_load_def addr_defs uart_tick_cases Let_def)

lemma elapsed_ctrl:
  assumes "keeps_on f"
  shows "elapsed s (rmw soc_bus UART1_CTRL f s)"
proof -
  let ?t = "tick (tick s)"
  have "rmw soc_bus UART1_CTRL f s = ?t \<lparr> uart1 := (uart1 ?t) \<lparr> u_ctrl := f (u_ctrl (uart1 s)) AND 0x1ff \<rparr> \<rparr>"
    by (simp add: rmw_def soc_ld_ctrl uart_store_def)
  moreover have "elapsed s ?t" by (rule elapsed_trans [OF elapsed_tick elapsed_tick])
  ultimately show ?thesis
    using assms uart_word_enable [of "f (u_ctrl (uart1 s))"]
    by (simp add: elapsed_def sane_def flushed_def uart_inp_def keeps_on_def)
qed


text \<open>The other accesses.\<close>

lemma elapsed_stat:
  assumes "soc_ld32 UART1_STAT s = (v, t)"
  shows "elapsed s t" "v AND UART_STAT_TC = 0 \<longleftrightarrow> \<not> u_tc (uart1 t)" "v AND UART_STAT_RC = 0 \<longleftrightarrow> u_rx (uart1 t) = None"
  using assms elapsed_tick [of s] by (auto simp: uart_load_stat uart_stat_bits uart_masks tick_same split: if_splits)

lemma elapsed_load8: "a < IO_BASE \<Longrightarrow> soc_ld8 a s = (mem s a, tick s)"
  by (simp add: soc_ram)

lemma receive_data:
  assumes "u_rx (uart1 s) = Some c" and "soc_ld32 UART1_DATA s = (v, t)"
  shows "v = ucast c" "mem t = mem s" "flushed (uart1 t) = flushed (uart1 s)" "sane s \<Longrightarrow> sane t"
    "uart_inp (uart1 s) = c # uart_inp (uart1 t)" "silent s \<Longrightarrow> silent t"
proof -
  have l: "elapsed s (tick s)" by (rule elapsed_tick)
  then have rx: "u_rx (uart1 (tick s)) = Some c" using assms(1) by (simp add: elapsed_def)
  with assms(2) have t: "v = ucast c" "t = (tick s) \<lparr> uart1 := (uart1 (tick s)) \<lparr> u_rx := None, u_old := c,
      u_gap := u_gaps (uart1 (tick s)) (length (u_line (uart1 (tick s)))) \<rparr> \<rparr>"
    by (simp_all add: uart_load_data)
  show "v = ucast c" "mem t = mem s" "flushed (uart1 t) = flushed (uart1 s)" "sane s \<Longrightarrow> sane t" "silent s \<Longrightarrow> silent t"
    using t l elapsed_silent [OF l] by (simp_all add: elapsed_def flushed_def sane_def silent_def)
  show "uart_inp (uart1 s) = c # uart_inp (uart1 t)"
    using l rx t(2) assms(1) by (auto simp: elapsed_def uart_inp_def)
qed

lemma transmit_data:
  assumes "sane s" and "u_shift (uart1 s) = None" and "t = soc_st32 UART1_DATA (ucast c) s"
  shows "mem t = mem s" "flushed (uart1 t) = flushed (uart1 s) @ [c]" "sane t" "uart_inp (uart1 t) = uart_inp (uart1 s)"
proof -
  have l: "elapsed s (tick s)" by (rule elapsed_tick)
  with assms(1,2) have s: "sane (tick s)" "u_shift (uart1 (tick s)) = None"
    by (auto simp: elapsed_def)
  have t: "t = (tick s) \<lparr> uart1 := (uart1 (tick s)) \<lparr> u_tc := False, u_shift := Some (c, u_lat (uart1 (tick s))) \<rparr> \<rparr>"
    using s by (simp add: assms(3) uart_store_def sane_def)
  show "mem t = mem s" "flushed (uart1 t) = flushed (uart1 s) @ [c]" "sane t" "uart_inp (uart1 t) = uart_inp (uart1 s)"
    using l s by (simp_all add: t elapsed_def flushed_def sane_def uart_inp_data)
qed

lemma transmit_done_silent:
  assumes "sane s" and "u_shift (uart1 s) = None" and "t = transmit_done soc_bus s"
  shows "mem t = mem s" "flushed (uart1 t) = flushed (uart1 s)" "sane t" "silent t"
proof -
  let ?u = "rmw soc_bus UART1_CTRL (\<lambda>v. v AND NOT UART_CTRL_TCIE) s"
  have l: "elapsed s ?u" by (rule elapsed_ctrl [OF enables_on(2)]) (simp add: enable_bits)
  obtain v u' where u': "soc_ld32 UART1_STAT ?u = (v, u')" by (cases "soc_ld32 UART1_STAT ?u")
  let ?w = "tick u'"
  have w: "elapsed s ?w"
    using elapsed_trans [OF elapsed_trans [OF l elapsed_stat(1) [OF u']] elapsed_tick] .
  have t: "t = ?w \<lparr> uart1 := uart_store 4 (v AND NOT UART_STAT_TC) (uart1 ?w) \<rparr>"
    unfolding assms(3) transmit_done_def Let_def rmw_def [of soc_bus UART1_STAT] soc_bus_simps u' prod.case
    by (simp only: soc_uart tick_simps)
  have off: "(v AND NOT UART_STAT_TC) AND UART_STAT_TC = 0"
    by (rule bit_word_eqI) (auto simp: bit_simps)
  show "mem t = mem s" "flushed (uart1 t) = flushed (uart1 s)" "sane t" "silent t"
    using w assms(1,2) off by (auto simp: t uart_store_def elapsed_def flushed_def sane_def silent_def)
qed

section \<open>The halves of the handler\<close>

text \<open>Sending goes on with the next character, or ends. Nothing is lost as long as the transmitter has nothing
  to report.\<close>

lemma transmit_interrupt_cases:
  assumes "transmit_interrupt soc_bus g s = (g', s')" and "sane s" and "transmit_string g < IO_BASE"
  obtains "g' = g" "elapsed s s'"
  | "\<not> silent s" "transmit_string g = 0" "g' = g" "mem s' = mem s" "flushed (uart1 s') = flushed (uart1 s)" "sane s'" "silent s'"
  | "\<not> silent s" "transmit_string g \<noteq> 0" "mem s (transmit_string g) \<noteq> 0"
    "g' = g \<lparr> transmit_string := transmit_string g + 1 \<rparr>" "mem s' = mem s" "sane s'"
    "flushed (uart1 s') = flushed (uart1 s) @ [mem s (transmit_string g)]"
  | "\<not> silent s" "transmit_string g \<noteq> 0" "mem s (transmit_string g) = 0" "g' = g \<lparr> transmit_string := 0 \<rparr>"
    "mem s' = mem s" "flushed (uart1 s') = flushed (uart1 s)" "sane s'" "silent s'"
proof -
  obtain v t where ld: "soc_ld32 UART1_STAT s = (v, t)" by (cases "soc_ld32 UART1_STAT s")
  note t = elapsed_stat [OF ld]
  let ?u = "gpioa_togglepin soc_bus GPIO_PIN_1 t"
  have u: "elapsed s ?u" using elapsed_trans [OF t(1) elapsed_toggle] .
  note code = assms(1) [unfolded transmit_interrupt_def soc_bus_simps ld Let_def prod.case]
  show thesis
  proof (cases "v AND UART_STAT_TC = 0")
    case True
    with code t(1) that(1) show thesis by simp
  next
    case False
    with t have tc: "u_tc (uart1 t)" by simp
    have noisy: "\<not> silent s"
    proof
      assume "silent s"
      with elapsed_silent [OF t(1)] tc show False by (simp add: silent_def)
    qed
    have "sane t" using elapsed_sane [OF t(1) assms(2)] .
    then have "u_shift (uart1 t) = None" using tc by (simp add: sane_def)
    then have idle: "u_shift (uart1 ?u) = None" using elapsed_toggle [of t GPIO_PIN_1] by (simp add: elapsed_def)
    have su: "sane ?u" using elapsed_sane [OF u assms(2)] .
    have m: "mem ?u = mem s" "flushed (uart1 ?u) = flushed (uart1 s)" using u by (simp_all add: elapsed_def)
    show thesis
    proof (cases "transmit_string g = 0")
      case True
      with code False have "g' = g" "s' = transmit_done soc_bus ?u" by simp_all
      then show thesis using that(2) noisy True m transmit_done_silent [OF su idle] by simp
    next
      case p: False
      let ?c = "mem s (transmit_string g)"
      have tu: "elapsed ?u (tick ?u)" by (rule elapsed_tick)
      show thesis
      proof (cases "?c = 0")
        case True
        with code False p assms(3) m have "g' = g \<lparr> transmit_string := 0 \<rparr>" "s' = transmit_done soc_bus (tick ?u)"
          by (simp_all add: soc_ram)
        then show thesis
          using that(4) noisy p True m tu transmit_done_silent [of "tick ?u" s'] elapsed_sane [OF tu su] idle
          by (simp add: elapsed_def)
      next
        case c: False
        let ?w = "tick (tick ?u)"
        have tw: "elapsed ?u ?w" using elapsed_trans [OF tu elapsed_tick] .
        from code False p c assms(3) m have r: "g' = g \<lparr> transmit_string := transmit_string g + 1 \<rparr>"
          "s' = soc_st32 UART1_DATA (ucast ?c) ?w"
          by (simp_all add: soc_ram)
        have "u_shift (uart1 ?w) = None" "mem ?w = mem s" "flushed (uart1 ?w) = flushed (uart1 s)"
          using tw idle m by (simp_all add: elapsed_def del: tick_simps)
        with transmit_data [OF elapsed_sane [OF tw su] _ r(2)] show thesis
          using that(3) noisy p c r(1) by simp
      qed
    qed
  qed
qed

text \<open>The port is as before but for its memory and the character that has been read.\<close>

definition same_port :: "soc \<Rightarrow> soc \<Rightarrow> bool" where
  "same_port s t \<longleftrightarrow> flushed (uart1 t) = flushed (uart1 s) \<and> (sane s \<longrightarrow> sane t) \<and> (silent s \<longrightarrow> silent t)
     \<and> uart_inp (uart1 t) = uart_inp (uart1 s)"

lemma same_port_elapsed: "elapsed s t \<Longrightarrow> same_port s t"
  using elapsed_silent [of s t] by (simp add: same_port_def elapsed_def)

lemma same_port_trans: "same_port s t \<Longrightarrow> same_port t u \<Longrightarrow> same_port s u"
  by (simp add: same_port_def)

lemma same_port_store: "same_port s (soc_st8 p c s)"
  using same_port_elapsed [OF elapsed_tick [of s]]
  by (simp add: soc_st8_def Let_def same_port_def sane_def silent_def)

lemma store_mem: "p < IO_BASE \<Longrightarrow> mem (soc_st8 p c s) = (mem s)(p := c)"
  by (simp add: soc_ram)

lemma receive_interrupt_cases:
  assumes "receive_interrupt soc_bus g s = (g', s')"
    and "receive_string g \<noteq> 0 \<Longrightarrow> receive_string g < IO_BASE \<and> receive_string g + 1 < IO_BASE"
  obtains "g' = g" "elapsed s s'"
  | c t where "uart_inp (uart1 s) = c # uart_inp (uart1 t)" "same_port t s'" "sane s \<Longrightarrow> sane t" "silent s \<Longrightarrow> silent t"
    "flushed (uart1 t) = flushed (uart1 s)" "receive_string g = 0" "g' = g" "mem s' = mem s"
  | c t where "uart_inp (uart1 s) = c # uart_inp (uart1 t)" "same_port t s'" "sane s \<Longrightarrow> sane t" "silent s \<Longrightarrow> silent t"
    "flushed (uart1 t) = flushed (uart1 s)" "receive_string g \<noteq> 0"
    "current_length g = string_length g - 2 \<or> c = 13 \<or> c = 10"
    "g' = g \<lparr> receive_string := 0, string_length := 0, current_length := 0 \<rparr>"
    "mem s' = (mem s)(receive_string g := (if c = 13 then 10 else c), receive_string g + 1 := 0)"
  | c t where "uart_inp (uart1 s) = c # uart_inp (uart1 t)" "same_port t s'" "sane s \<Longrightarrow> sane t" "silent s \<Longrightarrow> silent t"
    "flushed (uart1 t) = flushed (uart1 s)" "receive_string g \<noteq> 0"
    "current_length g \<noteq> string_length g - 2" "c \<noteq> 13" "c \<noteq> 10"
    "g' = g \<lparr> current_length := current_length g + 1, receive_string := receive_string g + 1 \<rparr>"
    "mem s' = (mem s)(receive_string g := c)"
proof -
  obtain v x where ld: "soc_ld32 UART1_STAT s = (v, x)" by (cases "soc_ld32 UART1_STAT s")
  note x = elapsed_stat [OF ld]
  note code = assms(1) [unfolded receive_interrupt_def soc_bus_simps ld Let_def prod.case]
  show thesis
  proof (cases "v AND UART_STAT_RC = 0")
    case True
    with code x(1) that(1) show thesis by simp
  next
    case False
    with x obtain c where c: "u_rx (uart1 x) = Some c" by auto
    obtain d y where dat: "soc_ld32 UART1_DATA x = (d, y)" by (cases "soc_ld32 UART1_DATA x")
    note y = receive_data [OF c dat]
    let ?t = "gpioa_togglepin soc_bus GPIO_PIN_0 y"
    have yt: "elapsed y ?t" by (rule elapsed_toggle)
    have t: "uart_inp (uart1 s) = c # uart_inp (uart1 ?t)" "sane s \<Longrightarrow> sane ?t" "silent s \<Longrightarrow> silent ?t"
      "flushed (uart1 ?t) = flushed (uart1 s)" "mem ?t = mem s"
      using x(1) y yt elapsed_silent [OF x(1)] elapsed_silent [OF yt] by (auto simp: elapsed_def)
    have d: "(ucast d :: u8) = c" using y(1) by simp
    note code' = code [unfolded dat prod.case d]
    have rmw: "elapsed u (rmw soc_bus UART1_CTRL (\<lambda>v. v AND NOT UART_CTRL_RCIE) u)" for u
      by (rule elapsed_ctrl [OF enables_on(2)]) (simp add: enable_bits)
    show thesis
    proof (cases "receive_string g = 0")
      case True
      with code' False have "g' = g" "s' = rmw soc_bus UART1_CTRL (\<lambda>v. v AND NOT UART_CTRL_RCIE) ?t" by simp_all
      then show thesis using that(2) [OF t(1) _ t(2-4) True] rmw [of ?t] t(5) same_port_elapsed
        by (simp add: elapsed_def)
    next
      case p: False
      let ?p = "receive_string g"
      show thesis
      proof (cases "current_length g = string_length g - 2 \<or> c = 13 \<or> c = 10")
        case True
        let ?u = "soc_st8 (?p + 1) 0 (soc_st8 ?p (if c = 13 then 10 else c) ?t)"
        have r: "g' = g \<lparr> receive_string := 0, string_length := 0, current_length := 0 \<rparr>"
          "s' = rmw soc_bus UART1_CTRL (\<lambda>v. v AND NOT UART_CTRL_RCIE) ?u"
          using code' False p True by (simp_all split: if_splits)
        have "same_port ?t s'"
          using same_port_trans [OF same_port_trans [OF same_port_store same_port_store] same_port_elapsed [OF rmw]]
          unfolding r(2) .
        moreover have "mem s' = (mem s)(?p := (if c = 13 then 10 else c), ?p + 1 := 0)"
          using rmw [of ?u] assms(2) [OF p] t(5) by (simp add: r(2) elapsed_def store_mem)
        ultimately show thesis using that(3) [OF t(1) _ t(2-4) p True r(1)] by simp
      next
        case short: False
        then have r: "g' = g \<lparr> current_length := current_length g + 1, receive_string := ?p + 1 \<rparr>"
          "s' = soc_st8 ?p c ?t"
          using code' False p by simp_all
        have "mem s' = (mem s)(?p := c)" using assms(2) [OF p] t(5) by (simp add: r(2) store_mem)
        then show thesis
          using that(4) [OF t(1) _ t(2-4) p] short r(1) same_port_store [of ?t ?p c] by (simp add: r(2))
      qed
    qed
  qed
qed

section \<open>Sending a string\<close>

text \<open>A C string in memory.\<close>

definition string_at :: "(u32 \<Rightarrow> u8) \<Rightarrow> u32 \<Rightarrow> u8 list \<Rightarrow> bool" where
  "string_at m p cs \<longleftrightarrow> 0 \<notin> set cs \<and> p \<noteq> 0 \<and> unat p + length cs < unat IO_BASE
     \<and> (\<forall>i < length cs. m (p + word_of_nat i) = cs ! i) \<and> m (p + word_of_nat (length cs)) = 0"

lemma address_within:
  assumes "unat p + n < unat IO_BASE" and "k \<le> n"
  shows "unat (p + word_of_nat k) = unat p + k" "p + word_of_nat k < IO_BASE" "p \<noteq> 0 \<Longrightarrow> p + word_of_nat k \<noteq> 0"
proof -
  have "unat IO_BASE < 2 ^ 32" using unsigned_less [of IO_BASE] by simp
  then have "unat p + k < 2 ^ 32" using assms by linarith
  then show u: "unat (p + word_of_nat k) = unat p + k"
    by (simp add: unat_word_ariths unsigned_of_nat take_bit_nat_eq_self)
  then show "p + word_of_nat k < IO_BASE" using assms by (simp add: word_less_nat_alt)
  show "p + word_of_nat k \<noteq> 0" if "p \<noteq> 0"
  proof
    assume "p + word_of_nat k = 0"
    with u have "unat p = 0" by simp
    with that show False by (simp add: unat_eq_zero)
  qed
qed

definition sending :: "u32 \<Rightarrow> u8 list \<Rightarrow> u8 list \<Rightarrow> serial \<Rightarrow> soc \<Rightarrow> bool" where
  "sending p cs base g s \<longleftrightarrow> string_at (mem s) p cs \<and> cs \<noteq> [] \<and> sane s
     \<and> (transmit_string g = 0 \<and> silent s
          \<and> (still_sending g = 0 \<and> flushed (uart1 s) = base \<or> still_sending g = 1 \<and> flushed (uart1 s) = base @ cs)
        \<or> (\<exists>k. 1 \<le> k \<and> k \<le> length cs \<and> transmit_string g = p + word_of_nat k \<and> still_sending g = 1
             \<and> flushed (uart1 s) = base @ take k cs))"

text \<open>The fields of the other half, which the functions of one half leave alone.\<close>

definition rx_fields :: "serial \<Rightarrow> u32 \<times> u32 \<times> u32 \<times> u32" where
  "rx_fields g = (receive_string g, current_length g, string_length g, still_receiving g)"

definition tx_fields :: "serial \<Rightarrow> u32 \<times> u32" where
  "tx_fields g = (transmit_string g, still_sending g)"

lemma sending_tx:
  assumes "sending p cs base g s" and "transmit_interrupt soc_bus g s = (g', s')"
  shows "sending p cs base g' s'" "mem s' = mem s" "rx_fields g' = rx_fields g"
proof -
  have str: "string_at (mem s) p cs" and cs: "cs \<noteq> []" and s: "sane s"
    using assms(1) by (simp_all add: sending_def)
  have "sending p cs base g' s' \<and> mem s' = mem s \<and> rx_fields g' = rx_fields g"
  proof (cases "transmit_string g = 0")
    case True
    then have "silent s" using assms(1) address_within(3) [of p "length cs"] str
      by (auto simp: sending_def string_at_def)
    from assms(2) s show ?thesis
    proof (rule transmit_interrupt_cases)
      show "transmit_string g < IO_BASE" using True by (simp add: addr_defs)
    qed (use \<open>silent s\<close> assms(1) True elapsed_silent [of s s'] in \<open>auto simp: elapsed_def sending_def\<close>)
  next
    case False
    then obtain k where k: "1 \<le> k" "k \<le> length cs" "transmit_string g = p + word_of_nat k" "still_sending g = 1"
        "flushed (uart1 s) = base @ take k cs"
      using assms(1) by (auto simp: sending_def)
    have at: "mem s (transmit_string g) = (if k < length cs then cs ! k else 0)"
      using str k(2,3) by (auto simp: string_at_def)
    have nz: "cs ! k \<noteq> 0" if "k < length cs" using str nth_mem [OF that] by (metis string_at_def)
    from assms(2) s show ?thesis
    proof (rule transmit_interrupt_cases)
      show "transmit_string g < IO_BASE"
        using address_within(2) [of p "length cs" k] k str by (simp add: string_at_def)
    next
      assume "g' = g" "elapsed s s'"
      then show ?thesis using assms(1) False k by (auto simp: elapsed_def sending_def)
    next
      assume r: "mem s (transmit_string g) \<noteq> 0" "g' = g \<lparr>transmit_string := transmit_string g + 1\<rparr>"
        "mem s' = mem s" "sane s'" "flushed (uart1 s') = flushed (uart1 s) @ [mem s (transmit_string g)]"
      then have "k < length cs" using at by (auto split: if_splits)
      then show ?thesis
        using r at k str cs by (auto simp: sending_def rx_fields_def take_Suc_conv_app_nth intro!: exI [of _ "Suc k"])
    next
      assume r: "mem s (transmit_string g) = 0" "g' = g \<lparr>transmit_string := 0\<rparr>"
        "mem s' = mem s" "flushed (uart1 s') = flushed (uart1 s)" "sane s'" "silent s'"
      then have "k = length cs" using at nz k(2) by (auto split: if_splits)
      then show ?thesis using r k str cs by (auto simp: sending_def rx_fields_def)
    qed (use False in simp_all)
  qed
  then show "sending p cs base g' s'" "mem s' = mem s" "rx_fields g' = rx_fields g" by simp_all
qed

lemma sending_elapsed: "sending p cs base g s \<Longrightarrow> elapsed s t \<Longrightarrow> sending p cs base g t"
  using elapsed_silent [of s t] by (auto simp: sending_def elapsed_def)

lemma sending_rx:
  assumes "sending p cs base g s" and "receive_interrupt soc_bus g s = (g', s')" and "receive_string g = 0"
  shows "sending p cs base g' s'" "mem s' = mem s" "g' = g"
proof -
  have "sending p cs base g' s' \<and> mem s' = mem s \<and> g' = g"
    using assms(2)
  proof (rule receive_interrupt_cases)
    fix c t
    assume "same_port t s'" "sane s \<Longrightarrow> sane t" "silent s \<Longrightarrow> silent t" "flushed (uart1 t) = flushed (uart1 s)"
      "g' = g" "mem s' = mem s"
    then show ?thesis using assms(1) by (auto simp: sending_def same_port_def)
  next
    assume "g' = g" "elapsed s s'"
    then show ?thesis using sending_elapsed [OF assms(1)] by (simp add: elapsed_def)
  qed (use assms(3) in simp_all)
  then show "sending p cs base g' s'" "mem s' = mem s" "g' = g" by blast+
qed

text \<open>The whole handler, entered for the serial port.\<close>

lemma trap_parts:
  assumes "trap_handler_serial soc_bus g (entered_trap s) = Some (g', s')"
  obtains g1 s1 where "transmit_interrupt soc_bus g (tick (entered_trap s)) = (g1, s1)"
    "receive_interrupt soc_bus g1 s1 = (g', s')"
proof -
  have "csr_read soc_bus mcause (entered_trap s) = (MCAUSE_IS_UART1, tick (entered_trap s))"
    by (simp add: csr_read_def soc_csrr_def entered_trap_def addr_defs Let_def)
  with assms show thesis
    by (auto simp: trap_handler_serial_def Let_def split: prod.splits intro: that)
qed

lemma entered_elapsed: "elapsed s (tick (entered_trap s))"
  using elapsed_tick [of "entered_trap s"] by (simp add: elapsed_def entered_trap_def sane_def)

lemma sending_trap:
  assumes "sending p cs base g s" and "trap_handler_serial soc_bus g (entered_trap s) = Some (g', s')"
    and "receive_string g = 0"
  shows "sending p cs base g' s'" "mem s' = mem s" "rx_fields g' = rx_fields g"
proof -
  obtain g1 s1 where 1: "transmit_interrupt soc_bus g (tick (entered_trap s)) = (g1, s1)"
      "receive_interrupt soc_bus g1 s1 = (g', s')" by (rule trap_parts [OF assms(2)])
  note t = sending_tx [OF sending_elapsed [OF assms(1) entered_elapsed] 1(1)]
  have "receive_string g1 = 0" using t(3) assms(3) by (simp add: rx_fields_def)
  note r = sending_rx [OF t(1) 1(2) this]
  show "sending p cs base g' s'" "mem s' = mem s" "rx_fields g' = rx_fields g"
    using t r entered_elapsed [of s] by (simp_all add: elapsed_def)
qed

lemma sending_call:
  assumes "sending p cs base g s" and "uart1_putsIT soc_bus p g s = (r, g', s')"
  shows "mem s' = mem s" "rx_fields g' = rx_fields g"
    "r = 1 \<and> sending p cs base g' s'
      \<or> r = 0 \<and> tx_fields g' = (0, 0) \<and> sane s' \<and> silent s' \<and> flushed (uart1 s') = base @ cs"
proof -
  have str: "string_at (mem s) p cs" and cs: "cs \<noteq> []" and s: "sane s"
    using assms(1) by (simp_all add: sending_def)
  have first: "mem s p = hd cs" "hd cs \<noteq> 0" "p \<noteq> 0" "p < IO_BASE"
    using str cs address_within(2) [of p "length cs" 0]
    by (auto simp: string_at_def hd_conv_nth nth_mem dest: spec [of _ 0]) (metis hd_in_set hd_conv_nth)
  have "mem s' = mem s \<and> rx_fields g' = rx_fields g \<and> (r = 1 \<and> sending p cs base g' s'
      \<or> r = 0 \<and> tx_fields g' = (0, 0) \<and> sane s' \<and> silent s' \<and> flushed (uart1 s') = base @ cs)"
  proof (cases "transmit_string g = 0")
    case False
    then have "r = 1" "g' = g" "s' = tick s"
      using assms(2) first by (simp_all add: uart1_putsIT_def soc_ram Let_def)
    then show ?thesis using sending_elapsed [OF assms(1) elapsed_tick] by simp
  next
    case True
    then have t: "silent s" and base: "still_sending g = 0 \<and> flushed (uart1 s) = base
        \<or> still_sending g = 1 \<and> flushed (uart1 s) = base @ cs"
      using assms(1) address_within(3) [of p "length cs"] str by (auto simp: sending_def string_at_def)
    show ?thesis
    proof (cases "still_sending g = 1")
      case still: True
      then have "r = 0" "g' = g \<lparr>still_sending := 0\<rparr>" "s' = tick s"
        using assms(2) first True by (simp_all add: uart1_putsIT_def soc_ram Let_def)
      then show ?thesis
        using elapsed_tick [of s] elapsed_silent [OF elapsed_tick t] s base still True
        by (simp add: elapsed_def rx_fields_def tx_fields_def)
    next
      case fresh: False
      let ?t = "tick (tick s)" and ?u = "soc_st32 UART1_DATA (ucast (hd cs)) (tick (tick s))"
      have r: "r = 1" "g' = g \<lparr>transmit_string := p + 1, still_sending := 1\<rparr>"
        "s' = rmw soc_bus UART1_CTRL (\<lambda>v. v OR UART_CTRL_TCIE) ?u"
        using assms(2) first True fresh by (simp_all add: uart1_putsIT_def soc_ram Let_def)
      have l: "elapsed s ?t" by (rule elapsed_trans [OF elapsed_tick elapsed_tick])
      have "u_shift (uart1 ?t) = None" using elapsed_silent [OF l t] by (simp add: silent_def)
      from transmit_data [OF elapsed_sane [OF l s] this refl, of "hd cs"]
      have "mem ?u = mem s" "flushed (uart1 ?u) = base @ [hd cs]" "sane ?u"
        using l base fresh by (simp_all add: elapsed_def)
      moreover have "elapsed ?u s'" unfolding r(3) by (rule elapsed_ctrl [OF enables_on(1)])
      ultimately have "mem s' = mem s" "flushed (uart1 s') = base @ take 1 cs" "sane s'"
        using cs by (simp_all add: elapsed_def take_Suc hd_conv_nth)
      moreover have "1 \<le> length cs" using cs by (cases cs) simp_all
      ultimately show ?thesis
        using str cs r(1,2) by (auto simp: sending_def rx_fields_def intro!: exI [of _ 1])
    qed
  qed
  then show "mem s' = mem s" "rx_fields g' = rx_fields g" "r = 1 \<and> sending p cs base g' s'
      \<or> r = 0 \<and> tx_fields g' = (0, 0) \<and> sane s' \<and> silent s' \<and> flushed (uart1 s') = base @ cs"
    by blast+
qed

lemma empty_call:
  assumes "mem s p = 0" "p \<noteq> 0" "p < IO_BASE" "sane s" "silent s" and "uart1_putsIT soc_bus p g s = (r, g', s')"
  shows "r = 0" "tx_fields g' = (0, 0)" "rx_fields g' = rx_fields g" "sane s'" "silent s'" "mem s' = mem s"
    "flushed (uart1 s') = flushed (uart1 s)"
proof -
  have r: "r = 0" "g' = g \<lparr>transmit_string := 0, still_sending := 0\<rparr>"
    "s' = rmw soc_bus UART1_CTRL (\<lambda>v. v AND NOT UART_CTRL_TCIE) (tick s)"
    using assms by (simp_all add: uart1_putsIT_def soc_ram Let_def)
  have "elapsed s s'" unfolding r(3)
    by (rule elapsed_trans [OF elapsed_tick elapsed_ctrl [OF enables_on(2) [OF enable_bits(1)]]])
  with r assms(4,5) elapsed_silent [of s s'] elapsed_sane [of s s']
  show "r = 0" "tx_fields g' = (0, 0)" "rx_fields g' = rx_fields g" "sane s'" "silent s'" "mem s' = mem s"
    "flushed (uart1 s') = flushed (uart1 s)"
    by (simp_all add: elapsed_def rx_fields_def tx_fields_def)
qed

section \<open>Reading a line\<close>

text \<open>What came in for a line, which ends with a newline or because the array is full.\<close>

definition cr_nl :: "u8 \<Rightarrow> u8" where
  "cr_nl c = (if c = 13 then 10 else c)"

definition no_newline :: "u8 list \<Rightarrow> bool" where
  "no_newline cs \<longleftrightarrow> 10 \<notin> set cs \<and> 13 \<notin> set cs"

definition full_line :: "u8 list \<Rightarrow> bool" where
  "full_line cs \<longleftrightarrow> cs \<noteq> [] \<and> length cs \<le> 5 \<and> no_newline (butlast cs)
     \<and> (length cs = 5 \<or> last cs = 10 \<or> last cs = 13)"

definition filled :: "(u32 \<Rightarrow> u8) \<Rightarrow> u32 \<Rightarrow> u8 list \<Rightarrow> bool" where
  "filled m p cs \<longleftrightarrow> (\<forall>i < length cs. m (p + word_of_nat i) = cs ! i)"

lemma nat_words_eq: "a < 2 ^ 32 \<Longrightarrow> b < 2 ^ 32 \<Longrightarrow> (word_of_nat a :: u32) = word_of_nat b \<longleftrightarrow> a = b"
  by (simp add: word_eq_unat_iff unsigned_of_nat take_bit_nat_eq_self)

lemma filled_append:
  assumes "filled m p cs" and "length cs < 2 ^ 32"
  shows "filled (m(p + word_of_nat (length cs) := c)) p (cs @ [c])"
proof -
  have "(word_of_nat i :: u32) \<noteq> word_of_nat (length cs)" if "i < length cs" for i
    using that assms(2) nat_words_eq [of i "length cs"] by simp
  then show ?thesis using assms(1) by (auto simp: filled_def nth_append less_Suc_eq)
qed

definition outside_block :: "u32 \<Rightarrow> (u32 \<Rightarrow> u8) \<Rightarrow> (u32 \<Rightarrow> u8) \<Rightarrow> bool" where
  "outside_block p m m' \<longleftrightarrow> (\<forall>a. 6 \<le> unat (a - p) \<longrightarrow> m' a = m a)"

lemma outside_block_upd: "n < 6 \<Longrightarrow> outside_block p m m' \<Longrightarrow> outside_block p m (m'(p + word_of_nat n := c))"
  by (auto simp: outside_block_def unsigned_of_nat take_bit_nat_eq_self)

lemma outside_block_trans: "outside_block p m m' \<Longrightarrow> outside_block p m' m'' \<Longrightarrow> outside_block p m m''"
  by (simp add: outside_block_def)

definition reading :: "u32 \<Rightarrow> u8 list \<Rightarrow> serial \<Rightarrow> soc \<Rightarrow> bool" where
  "reading p inp g s \<longleftrightarrow> sane s \<and> silent s \<and> tx_fields g = (0, 0) \<and> still_receiving g = 1
     \<and> ((\<exists>cs. inp = cs @ uart_inp (uart1 s) \<and> length cs \<le> 4 \<and> no_newline cs \<and> filled (mem s) p cs
            \<and> receive_string g = p + word_of_nat (length cs) \<and> current_length g = word_of_nat (length cs)
            \<and> string_length g = 6)
        \<or> (\<exists>cs rest. inp = cs @ rest \<and> full_line cs \<and> rx_fields g = (0, 0, 0, 1)
            \<and> filled (mem s) p (map cr_nl cs @ [0])))"

lemma reading_elapsed: "reading p inp g s \<Longrightarrow> elapsed s t \<Longrightarrow> reading p inp g t"
  using elapsed_silent [of s t] by (auto simp: reading_def elapsed_def)

text \<open>The character that completes a line, and the null character behind it.\<close>

lemma completed_line:
  assumes "filled m p cs" "no_newline cs" "length cs \<le> 4"
    and m: "m' = m (p + word_of_nat (length cs) := cr_nl c, p + word_of_nat (Suc (length cs)) := 0)"
  shows "filled m' p (map cr_nl (cs @ [c]) @ [0])" and "outside_block p m m'"
proof -
  have "map cr_nl cs = cs" using assms(2) by (auto simp: no_newline_def cr_nl_def intro!: map_idI)
  moreover have "filled (m (p + word_of_nat (length cs) := cr_nl c)) p (cs @ [cr_nl c])"
    using filled_append [OF assms(1)] assms(3) by simp
  from filled_append [OF this, of 0] have "filled m' p ((cs @ [cr_nl c]) @ [0])"
    using assms(3) unfolding m by simp
  ultimately show "filled m' p (map cr_nl (cs @ [c]) @ [0])" by simp
  show "outside_block p m m'"
    unfolding m using assms(3) by (intro outside_block_upd) (simp_all add: outside_block_def)
qed

lemma reading_rx:
  assumes "reading p inp g s" and "receive_interrupt soc_bus g s = (g', s')"
    and p: "p \<noteq> 0" "unat p + 5 < unat IO_BASE"
  shows "reading p inp g' s' \<and> outside_block p (mem s) (mem s')"
proof (cases "receive_string g = 0")
  case True
  show ?thesis
    using assms(2)
  proof (rule receive_interrupt_cases)
    assume "g' = g" "elapsed s s'"
    then show ?thesis using reading_elapsed [OF assms(1)] by (simp add: elapsed_def outside_block_def)
  next
    fix c t
    assume r: "same_port t s'" "sane s \<Longrightarrow> sane t" "silent s \<Longrightarrow> silent t" "g' = g" "mem s' = mem s"
    from assms(1) True obtain cs rest where "inp = cs @ rest" "full_line cs" "rx_fields g = (0, 0, 0, 1)"
        "filled (mem s) p (map cr_nl cs @ [0])" "sane s" "silent s" "tx_fields g = (0, 0)" "still_receiving g = 1"
      using address_within(3) [OF p(2) _ p(1)] by (auto simp: reading_def)
    with r True show ?thesis by (auto simp: reading_def same_port_def outside_block_def)
  qed (use True in simp_all)
next
  case False
  then obtain cs where cs: "inp = cs @ uart_inp (uart1 s)" "length cs \<le> 4" "no_newline cs" "filled (mem s) p cs"
      "receive_string g = p + word_of_nat (length cs)" "current_length g = word_of_nat (length cs)" "string_length g = 6"
    and base: "sane s" "silent s" "tx_fields g = (0, 0)" "still_receiving g = 1"
    using assms(1) by (auto simp: reading_def rx_fields_def)
  let ?n = "length cs"
  have next_at: "receive_string g + 1 = p + word_of_nat (Suc ?n)" using cs(5) by simp
  have four: "current_length g = string_length g - 2 \<longleftrightarrow> ?n = 4"
  proof -
    have "current_length g = string_length g - 2 \<longleftrightarrow> (word_of_nat ?n :: u32) = word_of_nat 4" by (simp add: cs(6,7))
    also have "\<dots> \<longleftrightarrow> ?n = 4" using cs(2) nat_words_eq [of ?n 4] by simp
    finally show ?thesis .
  qed
  show ?thesis
    using assms(2)
  proof (rule receive_interrupt_cases)
    show "receive_string g < IO_BASE \<and> receive_string g + 1 < IO_BASE"
    proof -
      have "?n \<le> 5" "Suc ?n \<le> 5" using cs(2) by simp_all
      then show ?thesis unfolding next_at unfolding cs(5) using address_within(2) [OF p(2)] by blast
    qed
  next
    assume "g' = g" "elapsed s s'"
    then show ?thesis using reading_elapsed [OF assms(1)] by (simp add: elapsed_def outside_block_def)
  next
    fix c t
    assume r: "uart_inp (uart1 s) = c # uart_inp (uart1 t)" "same_port t s'" "sane s \<Longrightarrow> sane t" "silent s \<Longrightarrow> silent t"
      "current_length g = string_length g - 2 \<or> c = 13 \<or> c = 10"
      "g' = g \<lparr>receive_string := 0, string_length := 0, current_length := 0\<rparr>"
      "mem s' = (mem s)(receive_string g := (if c = 13 then 10 else c), receive_string g + 1 := 0)"
    have m: "mem s' = (mem s)(p + word_of_nat ?n := cr_nl c, p + word_of_nat (Suc ?n) := 0)"
      using r(7) unfolding next_at unfolding cs(5) by (simp only: cr_nl_def)
    note f = completed_line(1) [OF cs(4,3,2) m]
    have l: "full_line (cs @ [c])" using r(5) four cs(2,3) by (auto simp: full_line_def)
    note completed_line(2) [OF cs(4,3,2) m]
    moreover have "\<exists>cs rest. inp = cs @ rest \<and> full_line cs \<and> filled (mem s') p (map cr_nl cs @ [0])"
      by (rule exI [of _ "cs @ [c]"], rule exI [of _ "uart_inp (uart1 t)"]) (use f l r(1) cs(1) in simp)
    then have "reading p inp g' s'"
      using r(2-4) base by (auto simp: reading_def r(6) same_port_def tx_fields_def rx_fields_def)
    ultimately show ?thesis by simp
  next
    fix c t
    assume r: "uart_inp (uart1 s) = c # uart_inp (uart1 t)" "same_port t s'" "sane s \<Longrightarrow> sane t" "silent s \<Longrightarrow> silent t"
      "current_length g \<noteq> string_length g - 2" "c \<noteq> 13" "c \<noteq> 10"
      "g' = g \<lparr>current_length := current_length g + 1, receive_string := receive_string g + 1\<rparr>"
      "mem s' = (mem s)(receive_string g := c)"
    have "outside_block p (mem s) (mem s')"
      unfolding r(9) cs(5) using cs(2) by (intro outside_block_upd) (simp_all add: outside_block_def)
    moreover have "filled (mem s') p (cs @ [c])"
      unfolding r(9) cs(5) using filled_append [OF cs(4)] cs(2) by simp
    moreover have "no_newline (cs @ [c])" using cs(3) r(6,7) by (simp add: no_newline_def)
    moreover have "length (cs @ [c]) \<le> 4" using r(5) four cs(2) by simp
    ultimately show ?thesis
      using r(1-4) base cs(1,5,6,7)
      by (auto simp: reading_def r(8) same_port_def tx_fields_def intro!: exI [of _ "cs @ [c]"])
  qed (use False in simp_all)
qed

lemma reading_tx:
  assumes "reading p inp g s" and "transmit_interrupt soc_bus g s = (g', s')"
  shows "g' = g" "elapsed s s'"
proof -
  have g: "sane s" "silent s" "transmit_string g = 0" using assms(1) by (auto simp: reading_def tx_fields_def)
  from assms(2) g(1) have "g' = g \<and> elapsed s s'"
    by (rule transmit_interrupt_cases) (use g in \<open>simp_all add: addr_defs\<close>)
  then show "g' = g" "elapsed s s'" by blast+
qed

lemma reading_trap:
  assumes "reading p inp g s" and "trap_handler_serial soc_bus g (entered_trap s) = Some (g', s')"
    and p: "p \<noteq> 0" "unat p + 5 < unat IO_BASE"
  shows "reading p inp g' s'" "outside_block p (mem s) (mem s')"
proof -
  obtain g1 s1 where 1: "transmit_interrupt soc_bus g (tick (entered_trap s)) = (g1, s1)"
      "receive_interrupt soc_bus g1 s1 = (g', s')" by (rule trap_parts [OF assms(2)])
  note t = reading_tx [OF reading_elapsed [OF assms(1) entered_elapsed] 1(1)]
  have e: "elapsed s s1" using elapsed_trans [OF entered_elapsed t(2)] .
  with reading_rx [OF reading_elapsed [OF assms(1) this] 1(2) [unfolded t(1)] p]
  show "reading p inp g' s'" "outside_block p (mem s) (mem s')"
    by (simp_all add: elapsed_def)
qed

lemma reading_call:
  assumes "reading p inp g s" and "uart1_getsIT soc_bus p 6 g s = (r, g', s')"
    and p: "p \<noteq> 0" "unat p + 5 < unat IO_BASE"
  shows "s' = s" "r = 1 \<and> g' = g \<or> r = 0 \<and> tx_fields g' = (0, 0) \<and> rx_fields g' = (0, 0, 0, 0)
    \<and> (\<exists>cs rest. inp = cs @ rest \<and> full_line cs \<and> filled (mem s) p (map cr_nl cs @ [0]))"
proof -
  have "s' = s \<and> (r = 1 \<and> g' = g \<or> r = 0 \<and> tx_fields g' = (0, 0) \<and> rx_fields g' = (0, 0, 0, 0)
    \<and> (\<exists>cs rest. inp = cs @ rest \<and> full_line cs \<and> filled (mem s) p (map cr_nl cs @ [0])))"
  proof (cases "receive_string g = 0")
    case False
    then show ?thesis using assms(2) p(1) by (simp add: uart1_getsIT_def)
  next
    case True
    have "p + word_of_nat (length cs) \<noteq> 0" if "length cs \<le> 4" for cs :: "u8 list"
      using address_within(3) [OF p(2) _ p(1), of "length cs"] that by simp
    with assms(1) True have "rx_fields g = (0, 0, 0, 1)" "tx_fields g = (0, 0)"
        "\<exists>cs rest. inp = cs @ rest \<and> full_line cs \<and> filled (mem s) p (map cr_nl cs @ [0])"
      by (auto simp: reading_def)
    then show ?thesis using assms(2) p(1) True
      by (auto simp: uart1_getsIT_def rx_fields_def tx_fields_def)
  qed
  then show "s' = s" "r = 1 \<and> g' = g \<or> r = 0 \<and> tx_fields g' = (0, 0) \<and> rx_fields g' = (0, 0, 0, 0)
    \<and> (\<exists>cs rest. inp = cs @ rest \<and> full_line cs \<and> filled (mem s) p (map cr_nl cs @ [0]))" by blast+
qed

text \<open>The call that starts to read.\<close>

lemma reading_start:
  assumes "sane s" "silent s" "tx_fields g = (0, 0)" "rx_fields g = (0, 0, 0, 0)"
    and "uart1_getsIT soc_bus p 6 g s = (r, g', s')" and p: "p \<noteq> 0"
  shows "r = 1" "reading p (uart_inp (uart1 s)) g' s'" "mem s' = mem s"
proof -
  have r: "r = 1" "g' = g \<lparr>receive_string := p, string_length := 6, still_receiving := 1\<rparr>"
    "s' = rmw soc_bus UART1_CTRL (\<lambda>v. v OR UART_CTRL_RCIE) s"
    using assms(4,5) p by (simp_all add: uart1_getsIT_def rx_fields_def)
  have e: "elapsed s s'" unfolding r(3) by (rule elapsed_ctrl [OF enables_on(1)])
  show "r = 1" "mem s' = mem s" using r(1) e by (simp_all add: elapsed_def)
  show "reading p (uart_inp (uart1 s)) g' s'"
    using e elapsed_silent [OF e] assms(1-4)
    by (auto simp: reading_def r(2) elapsed_def rx_fields_def tx_fields_def no_newline_def filled_def)
qed

section \<open>The program\<close>

definition laid :: "u32 \<Rightarrow> u32 \<Rightarrow> (u32 \<Rightarrow> u8) \<Rightarrow> bool" where
  "laid hello buf m \<longleftrightarrow> string_at m hello greeting \<and> buf \<noteq> 0 \<and> unat buf + 5 < unat IO_BASE
     \<and> (\<forall>i \<le> length greeting. 6 \<le> unat (hello + word_of_nat i - buf))"

definition at_rest :: "serial \<Rightarrow> soc \<Rightarrow> bool" where
  "at_rest g s \<longleftrightarrow> sane s \<and> silent s \<and> tx_fields g = (0, 0)"

definition stage_inv :: "u32 \<Rightarrow> u32 \<Rightarrow> stage \<Rightarrow> serial \<Rightarrow> soc \<Rightarrow> bool" where
  "stage_inv hello buf st g s = (case st of
     Hello \<Rightarrow> rx_fields g = (0, 0, 0, 0) \<and> (\<exists>base. sending hello greeting base g s)
   | Getting \<Rightarrow> rx_fields g = (0, 0, 0, 0) \<and> at_rest g s \<or> (\<exists>inp. reading buf inp g s)
   | Putting \<Rightarrow> rx_fields g = (0, 0, 0, 0)
       \<and> ((\<exists>cs base. length cs \<le> 5 \<and> sending buf cs base g s) \<or> mem s buf = 0 \<and> at_rest g s))"

definition echo_inv :: "u32 \<Rightarrow> u32 \<Rightarrow> (u32 \<Rightarrow> u8) \<Rightarrow> soc echo \<Rightarrow> bool" where
  "echo_inv hello buf m w \<longleftrightarrow> laid hello buf m \<and> outside_block buf m (mem (system w))
     \<and> stage_inv hello buf (stage w) (serial w) (system w)"

lemma laid_kept:
  assumes "laid hello buf m" "outside_block buf m m'"
  shows "laid hello buf m'"
proof -
  have "m' (hello + word_of_nat i) = m (hello + word_of_nat i)" if "i \<le> length greeting" for i
    using assms that by (auto simp: laid_def outside_block_def)
  then show ?thesis using assms(1) by (auto simp: laid_def string_at_def)
qed

text \<open>The string that a line leaves in memory.\<close>

lemma line_string:
  assumes "filled m p (xs @ [0])" "p \<noteq> 0" "unat p + length xs < unat IO_BASE"
  shows "string_at m p (takeWhile (\<lambda>c. c \<noteq> 0) xs)"
proof -
  let ?ys = "takeWhile (\<lambda>c. c \<noteq> 0) xs"
  have l: "length ?ys \<le> length xs" by (rule length_takeWhile_le)
  have z: "(xs @ [0]) ! length ?ys = 0"
  proof (cases "length ?ys < length xs")
    case True
    from nth_length_takeWhile [OF this] show ?thesis using True by (simp add: nth_append)
  next
    case False
    with l have "length ?ys = length xs" by simp
    then show ?thesis by simp
  qed
  have "m (p + word_of_nat i) = (xs @ [0]) ! i" if "i \<le> length xs" for i
    using assms(1) that by (simp add: filled_def)
  moreover have "(xs @ [0]) ! i = ?ys ! i" if "i < length ?ys" for i
    using that l by (simp add: nth_append takeWhile_nth)
  ultimately show ?thesis
    using assms(2,3) l z by (auto simp: string_at_def dest: set_takeWhileD)
qed

lemma at_rest_elapsed: "at_rest g s \<Longrightarrow> elapsed s t \<Longrightarrow> at_rest g t"
  using elapsed_silent [of s t] elapsed_sane [of s t] by (simp add: at_rest_def)

lemma at_rest_trap:
  assumes "at_rest g s" "rx_fields g = (0, 0, 0, 0)" and "trap_handler_serial soc_bus g (entered_trap s) = Some (g', s')"
  shows "g' = g" "at_rest g s'" "mem s' = mem s"
proof -
  obtain g1 s1 where 1: "transmit_interrupt soc_bus g (tick (entered_trap s)) = (g1, s1)"
      "receive_interrupt soc_bus g1 s1 = (g', s')" by (rule trap_parts [OF assms(3)])
  have rest: "at_rest g (tick (entered_trap s))" using at_rest_elapsed [OF assms(1) entered_elapsed] .
  have "g1 = g \<and> elapsed (tick (entered_trap s)) s1"
    using 1(1) by (rule transmit_interrupt_cases)
      (use rest in \<open>simp_all add: at_rest_def tx_fields_def addr_defs\<close>)
  then have g1: "g1 = g" and e: "elapsed s s1" using elapsed_trans [OF entered_elapsed] by blast+
  have "g' = g \<and> at_rest g s' \<and> mem s' = mem s"
    using 1(2)
  proof (rule receive_interrupt_cases)
    assume r: "g' = g1" "elapsed s1 s'"
    have e': "elapsed s s'" using elapsed_trans [OF e r(2)] .
    then have "mem s' = mem s" by (simp add: elapsed_def)
    then show ?thesis using g1 r(1) at_rest_elapsed [OF assms(1) e'] by simp
  next
    fix c t
    assume r: "same_port t s'" "sane s1 \<Longrightarrow> sane t" "silent s1 \<Longrightarrow> silent t" "g' = g1" "mem s' = mem s1"
    have "mem s1 = mem s" using e by (simp add: elapsed_def)
    then show ?thesis using r g1 at_rest_elapsed [OF assms(1) e] by (simp add: at_rest_def same_port_def)
  qed (use g1 assms(2) in \<open>simp_all add: rx_fields_def\<close>)
  then show "g' = g" "at_rest g s'" "mem s' = mem s" by blast+
qed

lemma trap_inv:
  assumes "echo_inv hello buf m w" and "trap_handler_serial soc_bus (serial w) (entered_trap (system w)) = Some (g, s)"
  shows "echo_inv hello buf m (w\<lparr>serial := g, system := s\<rparr>)"
proof -
  have laid: "laid hello buf m" and out: "outside_block buf m (mem (system w))"
    and inv: "stage_inv hello buf (stage w) (serial w) (system w)"
    using assms(1) by (simp_all add: echo_inv_def)
  have "outside_block buf (mem (system w)) (mem s) \<and> stage_inv hello buf (stage w) g s"
  proof (cases "stage w")
    case Hello
    with inv obtain base where "sending hello greeting base (serial w) (system w)" "rx_fields (serial w) = (0, 0, 0, 0)"
      by (auto simp: stage_inv_def)
    with sending_trap [OF this(1) assms(2)] Hello show ?thesis
      by (auto simp: stage_inv_def rx_fields_def outside_block_def)
  next
    case Getting
    from inv [unfolded Getting stage_inv_def stage.case] show ?thesis
    proof (elim disjE conjE exE)
      assume "rx_fields (serial w) = (0, 0, 0, 0)" "at_rest (serial w) (system w)"
      with at_rest_trap [OF this(2,1) assms(2)] Getting show ?thesis
        by (simp add: stage_inv_def outside_block_def)
    next
      fix inp assume "reading buf inp (serial w) (system w)"
      with reading_trap [OF this assms(2)] laid Getting show ?thesis
        by (auto simp: stage_inv_def laid_def)
    qed
  next
    case Putting
    from inv [unfolded Putting stage_inv_def stage.case] have rx: "rx_fields (serial w) = (0, 0, 0, 0)" by simp
    from inv [unfolded Putting stage_inv_def stage.case] show ?thesis
    proof (elim disjE conjE exE)
      fix cs base assume "length cs \<le> 5" and "sending buf cs base (serial w) (system w)"
      with sending_trap [OF this(2) assms(2)] rx Putting show ?thesis
        by (auto simp: stage_inv_def rx_fields_def outside_block_def)
    next
      assume "at_rest (serial w) (system w)" "mem (system w) buf = 0"
      with at_rest_trap [OF this(1) rx assms(2)] rx Putting show ?thesis
        by (simp add: stage_inv_def outside_block_def)
    qed
  qed
  then show ?thesis using laid outside_block_trans [OF out] by (simp add: echo_inv_def)
qed

lemma pass_inv: "echo_inv hello buf m w \<Longrightarrow> echo_inv hello buf m (w\<lparr>system := tick (system w)\<rparr>)"
  by (cases "stage w"; simp add: echo_inv_def stage_inv_def;
      blast intro: sending_elapsed reading_elapsed at_rest_elapsed elapsed_tick)

text \<open>A call that sends.\<close>

lemma sending_stage:
  assumes "sending p cs base g s" "rx_fields g = (0, 0, 0, 0)" and "uart1_putsIT soc_bus p g s = (r, g', s')"
  shows "mem s' = mem s" "r = 1 \<Longrightarrow> sending p cs base g' s' \<and> rx_fields g' = (0, 0, 0, 0)"
    "r \<noteq> 1 \<Longrightarrow> at_rest g' s' \<and> rx_fields g' = (0, 0, 0, 0) \<and> flushed (uart1 s') = base @ cs"
  using sending_call [OF assms(1,3)] assms(2) by (auto simp: at_rest_def)

text \<open>A complete line in the array is the string to be sent, or the empty one.\<close>

lemma line_to_send:
  assumes "full_line cs" and "filled (mem s) buf (map cr_nl cs @ [0])" and "buf \<noteq> 0" "unat buf + 5 < unat IO_BASE"
    and "sane s" "silent s" "tx_fields g = (0, 0)" "rx_fields g = (0, 0, 0, 0)"
  shows "stage_inv hello buf Putting g s"
proof -
  let ?cs = "takeWhile (\<lambda>c. c \<noteq> 0) (map cr_nl cs)"
  have "unat buf + length (map cr_nl cs) < unat IO_BASE" using assms(1,4) by (simp add: full_line_def)
  from line_string [OF assms(2,3) this] have str: "string_at (mem s) buf ?cs" .
  show ?thesis
  proof (cases "?cs = []")
    case True
    with str have "mem s buf = 0" by (simp add: string_at_def)
    then show ?thesis using assms(5-8) by (simp add: stage_inv_def at_rest_def)
  next
    case False
    then have "sending buf ?cs (flushed (uart1 s)) g s"
      using str assms(5-7) by (simp add: sending_def tx_fields_def)
    moreover have "length ?cs \<le> 5"
      using assms(1) length_takeWhile_le [of "\<lambda>c. c \<noteq> 0" "map cr_nl cs"] by (simp add: full_line_def)
    ultimately show ?thesis using assms(8) by (auto simp: stage_inv_def)
  qed
qed

lemma call_inv:
  assumes "echo_inv hello buf m w"
  shows "echo_inv hello buf m (echo_call soc_bus hello buf w)"
proof -
  let ?w = "echo_call soc_bus hello buf w" and ?g = "serial w" and ?s = "system w"
  have laid: "laid hello buf m" and out: "outside_block buf m (mem ?s)"
    and inv: "stage_inv hello buf (stage w) ?g ?s"
    using assms by (simp_all add: echo_inv_def)
  have p: "buf \<noteq> 0" "unat buf + 5 < unat IO_BASE" using laid by (simp_all add: laid_def)
  have "mem (system ?w) = mem ?s \<and> stage_inv hello buf (stage ?w) (serial ?w) (system ?w)"
  proof (cases "stage w")
    case Hello
    obtain r g s where c: "uart1_putsIT soc_bus hello ?g ?s = (r, g, s)" by (rule prod_cases3)
    from inv Hello obtain base where "sending hello greeting base ?g ?s" "rx_fields ?g = (0, 0, 0, 0)"
      by (auto simp: stage_inv_def)
    from sending_stage [OF this c] c Hello show ?thesis
      by (cases "r = 1") (auto simp: echo_call_def stage_inv_def)
  next
    case Putting
    obtain r g s where c: "uart1_putsIT soc_bus buf ?g ?s = (r, g, s)" by (rule prod_cases3)
    from inv Putting have rx: "rx_fields ?g = (0, 0, 0, 0)"
      and "(\<exists>cs base. length cs \<le> 5 \<and> sending buf cs base ?g ?s) \<or> mem ?s buf = 0 \<and> at_rest ?g ?s"
      by (auto simp: stage_inv_def)
    then consider cs base where "sending buf cs base ?g ?s" "length cs \<le> 5" | "mem ?s buf = 0" "at_rest ?g ?s" by blast
    then show ?thesis
    proof cases
      case 1
      from sending_stage [OF this(1) rx c] this(2) c Putting show ?thesis
        by (cases "r = 1") (auto simp: echo_call_def stage_inv_def)
    next
      case 2
      have "buf < IO_BASE" using p(2) by (simp add: word_less_nat_alt)
      from empty_call [OF 2(1) p(1) this _ _ c] 2(2) rx c Putting show ?thesis
        by (simp add: echo_call_def stage_inv_def at_rest_def)
    qed
  next
    case Getting
    obtain r g s where c: "uart1_getsIT soc_bus buf 6 ?g ?s = (r, g, s)" by (rule prod_cases3)
    from inv Getting consider "rx_fields ?g = (0, 0, 0, 0)" "at_rest ?g ?s" | inp where "reading buf inp ?g ?s"
      by (auto simp: stage_inv_def)
    then show ?thesis
    proof cases
      case 1
      from reading_start [OF _ _ _ 1(1) c p(1)] 1(2) c Getting show ?thesis
        by (auto simp: echo_call_def stage_inv_def at_rest_def)
    next
      case 2
      have rest: "sane ?s" "silent ?s" using 2 by (simp_all add: reading_def)
      from reading_call [OF 2 c p] consider "r = 1" "g = ?g" "s = ?s"
        | cs where "r = 0" "s = ?s" "tx_fields g = (0, 0)" "rx_fields g = (0, 0, 0, 0)" "full_line cs"
          "filled (mem ?s) buf (map cr_nl cs @ [0])" by blast
      then show ?thesis
      proof cases
        case 1
        then show ?thesis using 2 c Getting by (auto simp: echo_call_def stage_inv_def)
      next
        case line: 2
        from line_to_send [OF line(5,6) p rest line(3,4)] have "stage_inv hello buf Putting g ?s" .
        then show ?thesis using c Getting line(1,2) by (simp add: echo_call_def)
      qed
    qed
  qed
  then show ?thesis using laid out by (simp add: echo_inv_def)
qed

lemma echo_step_inv: "echo_step hello buf w w' \<Longrightarrow> echo_inv hello buf m w \<Longrightarrow> echo_inv hello buf m w'"
  by (induction rule: echo_step.induct) (auto intro: call_inv trap_inv pass_inv)

lemma echo_steps_inv: "(echo_step hello buf)\<^sup>*\<^sup>* w w' \<Longrightarrow> echo_inv hello buf m w \<Longrightarrow> echo_inv hello buf m w'"
  by (induction rule: rtranclp_induct) (auto intro: echo_step_inv)

lemma echo_start_inv:
  assumes "u_shift (uart1 s) = None" "laid hello buf (mem s)"
  shows "echo_inv hello buf (mem s) (echo_start soc_bus h s)" "mem (system (echo_start soc_bus h s)) = mem s"
    "u_sent (uart1 (system (echo_start soc_bus h s))) = u_sent (uart1 s)"
proof -
  let ?w = "echo_start soc_bus h s"
  have t: "u_shift (uart1 (system ?w)) = None" "\<not> u_tc (uart1 (system ?w))" "mem (system ?w) = mem s"
    "u_ctrl (uart1 (system ?w)) AND UART_CTRL_EN \<noteq> 0" "u_sent (uart1 (system ?w)) = u_sent (uart1 s)"
    using assms(1) uart_tick_cases(3)
    by (simp_all add: echo_start_def uart1_init_def csr_read_def csr_write_def set_mtvec_def soc_csrr_def
        soc_csrw_def Let_def uart_store_def uart_tick_cases UART_CTRL_EN_def)
  then have "sending hello greeting (u_sent (uart1 s)) serial_zero (system ?w)"
    using assms(2) by (auto simp: sending_def laid_def sane_def silent_def flushed_def serial_zero_def greeting_def)
  then show "echo_inv hello buf (mem s) ?w" "mem (system ?w) = mem s" "u_sent (uart1 (system ?w)) = u_sent (uart1 s)"
    using assms(2) t(3,5)
    by (auto simp: echo_inv_def stage_inv_def echo_start_def outside_block_def rx_fields_def serial_zero_def)
qed

section \<open>What the program promises\<close>

lemma getting_steps:
  assumes "(\<lambda>a b. echo_step hello buf a b \<and> stage b = Getting)\<^sup>*\<^sup>* w0 w" and "stage w0 = Getting"
    and "reading buf inp (serial w0) (system w0)" and p: "buf \<noteq> 0" "unat buf + 5 < unat IO_BASE"
  shows "stage w = Getting \<and> reading buf inp (serial w) (system w)"
  using assms(1-3)
proof (induction rule: rtranclp_induct)
  case (step w w')
  then have w: "stage w = Getting" "reading buf inp (serial w) (system w)" "stage w' = Getting" by simp_all
  from step.hyps(2) have "echo_step hello buf w w'" by simp
  then have "reading buf inp (serial w') (system w')"
  proof cases
    case call
    obtain r g s where c: "uart1_getsIT soc_bus buf 6 (serial w) (system w) = (r, g, s)" by (rule prod_cases3)
    with call w(1,3) have "r = 1" by (auto simp: echo_call_def split: if_splits)
    with reading_call [OF w(2) c p] w(2) call c w(1) show ?thesis by (simp add: echo_call_def)
  next
    case (trap g s)
    with reading_trap [OF w(2) trap(2) p] show ?thesis by simp
  next
    case pass
    then show ?thesis using reading_elapsed [OF w(2) elapsed_tick] by simp
  qed
  then show ?case using w(3) by simp
qed simp

lemma sending_steps:
  assumes "(\<lambda>a b. echo_step hello buf a b \<and> stage b = st)\<^sup>*\<^sup>* w0 w" and "stage w0 = st" "st \<noteq> Getting"
    and "p = (if st = Hello then hello else buf)" and "rx_fields (serial w0) = (0, 0, 0, 0)"
    and "sending p cs base (serial w0) (system w0)"
  shows "stage w = st \<and> rx_fields (serial w) = (0, 0, 0, 0) \<and> sending p cs base (serial w) (system w)
    \<and> mem (system w) = mem (system w0)"
  using assms(1,2,5,6)
proof (induction rule: rtranclp_induct)
  case (step w w')
  then have w: "stage w = st" "rx_fields (serial w) = (0, 0, 0, 0)" "sending p cs base (serial w) (system w)"
    "mem (system w) = mem (system w0)" "stage w' = st" by simp_all
  from step.hyps(2) have "echo_step hello buf w w'" by simp
  then have "rx_fields (serial w') = (0, 0, 0, 0) \<and> sending p cs base (serial w') (system w')
      \<and> mem (system w') = mem (system w)"
  proof cases
    case call
    obtain r g s where c: "uart1_putsIT soc_bus p (serial w) (system w) = (r, g, s)" by (rule prod_cases3)
    have w': "w' = \<lparr>stage = (if r = 1 then st else Getting), serial = g, system = s\<rparr>"
      using call c w(1) assms(3,4) by (cases st) (simp_all add: echo_call_def)
    with w(5) assms(3) have "r = 1" by (auto split: if_splits)
    with sending_stage [OF w(3,2) c] w' show ?thesis by simp
  next
    case (trap g s)
    with sending_trap [OF w(3) trap(2)] w(2) show ?thesis by (simp add: rx_fields_def)
  next
    case pass
    then show ?thesis using sending_elapsed [OF w(3) elapsed_tick] w(2) by simp
  qed
  then show ?case using w by simp
qed simp

text \<open>C33. In every interleaving of the program with the handler, whatever comes in, the memory outside the six
  characters of the array is never written, and whenever the program sends what it has read, the string
  in the array ends within the array.\<close>

theorem echo_stays_in_array:
  assumes "u_shift (uart1 s) = None" and "laid hello buf (mem s)"
    and "(echo_step hello buf)\<^sup>*\<^sup>* (echo_start soc_bus h s) w"
  shows "(\<forall>a. 6 \<le> unat (a - buf) \<longrightarrow> mem (system w) a = mem s a)
    \<and> (stage w = Putting \<longrightarrow> (\<exists>n \<le> 5. mem (system w) (buf + word_of_nat n) = 0))"
proof -
  have inv: "echo_inv hello buf (mem s) w" using echo_steps_inv [OF assms(3) echo_start_inv(1) [OF assms(1,2)]] .
  have "\<exists>n \<le> 5. mem (system w) (buf + word_of_nat n) = 0" if "stage w = Putting"
  proof -
    from inv that consider cs base where "length cs \<le> 5" "sending buf cs base (serial w) (system w)"
      | "mem (system w) buf = 0" by (auto simp: echo_inv_def stage_inv_def)
    then show ?thesis
    proof cases
      case 1
      then show ?thesis by (auto simp: sending_def string_at_def intro!: exI [of _ "length cs"])
    next
      case 2
      then show ?thesis by (intro exI [of _ 0]) simp
    qed
  qed
  then show ?thesis using inv by (simp add: echo_inv_def outside_block_def)
qed

text \<open>C34. From a state of the invariant that every reachable state has, and from the call that starts to read to the
  call that reports the line, what has been stored is what came
  in, in order and without a loss: up to a newline, or five characters, with the carriage return made a
  newline and the terminator behind it.\<close>

theorem echo_reads_line:
  assumes "echo_inv hello buf m w0" and "stage w0 = Getting" "still_receiving (serial w0) = 0"
    and "(\<lambda>a b. echo_step hello buf a b \<and> stage b = Getting)\<^sup>*\<^sup>* (echo_call soc_bus hello buf w0) w"
    and "stage (echo_call soc_bus hello buf w) = Putting"
  shows "\<exists>cs rest. uart_inp (uart1 (system w0)) = cs @ rest \<and> full_line cs
    \<and> filled (mem (system (echo_call soc_bus hello buf w))) buf (map cr_nl cs @ [0])"
proof -
  have p: "buf \<noteq> 0" "unat buf + 5 < unat IO_BASE"
    and "rx_fields (serial w0) = (0, 0, 0, 0) \<and> at_rest (serial w0) (system w0)"
    using assms(1-3) by (auto simp: echo_inv_def stage_inv_def laid_def reading_def)
  obtain r g s where c: "uart1_getsIT soc_bus buf 6 (serial w0) (system w0) = (r, g, s)" by (rule prod_cases3)
  have "r = 1" "reading buf (uart_inp (uart1 (system w0))) g s"
    using reading_start [OF _ _ _ _ c p(1)] \<open>rx_fields _ = _ \<and> _\<close> by (auto simp: at_rest_def)
  then have "stage (echo_call soc_bus hello buf w0) = Getting"
    "reading buf (uart_inp (uart1 (system w0))) (serial (echo_call soc_bus hello buf w0)) (system (echo_call soc_bus hello buf w0))"
    using c assms(2) by (simp_all add: echo_call_def)
  from getting_steps [OF assms(4) this p] have w: "stage w = Getting"
      "reading buf (uart_inp (uart1 (system w0))) (serial w) (system w)" by simp_all
  obtain r g s where c: "uart1_getsIT soc_bus buf 6 (serial w) (system w) = (r, g, s)" by (rule prod_cases3)
  with assms(5) w(1) have "r \<noteq> 1" by (auto simp: echo_call_def)
  with reading_call [OF w(2) c p] c w(1) show ?thesis by (auto simp: echo_call_def)
qed

text \<open>C35. From a state of the invariant that every reachable state has, and from the call that starts to send a string to the call that reports its end, exactly the characters of
  the string go out, in order.\<close>

theorem echo_sends_string:
  assumes "echo_inv hello buf m w0" and "stage w0 \<noteq> Getting" "tx_fields (serial w0) = (0, 0)"
    and "string_at (mem (system w0)) (if stage w0 = Hello then hello else buf) cs" "cs \<noteq> []"
    and "(\<lambda>a b. echo_step hello buf a b \<and> stage b = stage w0)\<^sup>*\<^sup>* w0 w"
    and "stage (echo_call soc_bus hello buf w) = Getting"
  shows "u_sent (uart1 (system (echo_call soc_bus hello buf w))) = u_sent (uart1 (system w0)) @ cs"
proof -
  let ?p = "if stage w0 = Hello then hello else buf" and ?base = "u_sent (uart1 (system w0))"
  have rest: "rx_fields (serial w0) = (0, 0, 0, 0)" "sane (system w0)" "silent (system w0)"
  proof -
    have nz: "p + word_of_nat k \<noteq> 0" if "string_at m p cs" "k \<le> length cs" for m p k cs
      using that address_within(3) [of p "length cs" k] by (simp add: string_at_def)
    have "rx_fields (serial w0) = (0, 0, 0, 0) \<and> sane (system w0) \<and> silent (system w0)"
      using assms(1-3) nz by (cases "stage w0") (fastforce simp: echo_inv_def stage_inv_def at_rest_def sending_def tx_fields_def)+
    then show "rx_fields (serial w0) = (0, 0, 0, 0)" "sane (system w0)" "silent (system w0)" by blast+
  qed
  then have "sending ?p cs ?base (serial w0) (system w0)"
    using assms(3-5) by (auto simp: sending_def tx_fields_def silent_def flushed_def)
  from sending_steps [OF assms(6) refl assms(2) refl rest(1) this]
  have w: "stage w = stage w0" "rx_fields (serial w) = (0, 0, 0, 0)" "sending ?p cs ?base (serial w) (system w)"
    by simp_all
  obtain r g s where c: "uart1_putsIT soc_bus ?p (serial w) (system w) = (r, g, s)" by (rule prod_cases3)
  have w': "echo_call soc_bus hello buf w = \<lparr>stage = (if r = 1 then stage w0 else Getting), serial = g, system = s\<rparr>"
    using c w(1) assms(2) by (cases "stage w0") (simp_all add: echo_call_def)
  with assms(2,7) have "r \<noteq> 1" by auto
  with sending_stage [OF w(3,2) c] w' show ?thesis by (auto simp: at_rest_def silent_def flushed_def)
qed

section \<open>Witnesses\<close>

text \<open>Memory with the greeting and a string of one character, and a port at the end of a line.\<close>

definition demo_mem :: "u32 \<Rightarrow> u8" where
  "demo_mem a = (if unat (a - 0x1000) < length greeting then greeting ! unat (a - 0x1000)
     else if a = 0x20000000 then 104 else 0)"

definition demo_port :: "u8 option \<Rightarrow> soc" where
  "demo_port c = (demo []) \<lparr> mem := demo_mem, uart1 := (uart1 (demo [])) \<lparr> u_rx := c, u_lat := 0 \<rparr> \<rparr>"

definition echo_trap :: "soc echo \<Rightarrow> soc echo" where
  "echo_trap w = (case trap_handler_serial soc_bus (serial w) (entered_trap (system w)) of
     None \<Rightarrow> w | Some (g, s) \<Rightarrow> w \<lparr> serial := g, system := s \<rparr>)"

lemma echo_step_trap:
  "trap_handler_serial soc_bus (serial w) (entered_trap (system w)) \<noteq> None \<Longrightarrow> echo_step hello buf w (echo_trap w)"
  by (auto simp: echo_trap_def intro: echo_step.trap)

lemma greeting_length: "length greeting = 50"
  by (simp add: greeting_def str_def)

lemma greeting_chars: "0 \<notin> set greeting"
  by (simp add: greeting_def str_def ch_def)

lemma demo_laid: "laid 0x1000 0x20000000 demo_mem"
proof -
  have n: "unat (0x1000 + word_of_nat i :: u32) = 0x1000 + i" "unat (word_of_nat i :: u32) = i"
    if "i \<le> length greeting" for i
  proof -
    show u: "unat (word_of_nat i :: u32) = i"
      using that by (simp add: greeting_length unsigned_of_nat take_bit_nat_eq_self)
    show "unat (0x1000 + word_of_nat i :: u32) = 0x1000 + i"
      using that u by (subst unat_add_lem [THEN iffD1]) (simp_all add: greeting_length)
  qed
  have "demo_mem (0x1000 + word_of_nat i) = (if i < length greeting then greeting ! i else 0)"
    if i: "i \<le> length greeting" for i
  proof -
    have "(0x1000 + word_of_nat i :: u32) \<noteq> 0x20000000" using n(1) [OF i] i by (auto simp: greeting_length)
    then show ?thesis using n(2) [OF i] by (simp add: demo_mem_def)
  qed
  moreover have "6 \<le> unat (0x1000 + word_of_nat i - 0x20000000 :: u32)" if i: "i \<le> length greeting" for i
    using n(2) [OF i] i by (simp add: unat_sub_if' greeting_length)
  ultimately show ?thesis by (simp add: laid_def string_at_def greeting_chars addr_defs) (simp add: greeting_length)
qed

lemma demo_port_ready: "sane (demo_port c)" "silent (demo_port c)"
  by (simp_all add: sane_def silent_def demo_port_def demo_def demo_soc_def demo_uart_def UART_CTRL_EN_def)

theorem echo_stays_in_array_witness:
  "mem (system (echo_call soc_bus 0x1000 0x20000000 (echo_start soc_bus 0 (demo_port None)))) 0x1000 = 13"
  using echo_stays_in_array [of "demo_port None" "0x1000" "0x20000000" 0
      "echo_call soc_bus 0x1000 0x20000000 (echo_start soc_bus 0 (demo_port None))"] demo_laid
    r_into_rtranclp [of "echo_step 0x1000 0x20000000", OF echo_step.call]
  by (simp add: demo_port_def demo_def demo_soc_def demo_uart_def demo_mem_def greeting_length)
    (simp add: greeting_def)

definition cr_start :: "soc echo" where
  "cr_start = \<lparr> stage = Getting, serial = serial_zero, system = demo_port (Some 13) \<rparr>"

lemma line_inv: "echo_inv 0x1000 0x20000000 demo_mem cr_start"
  using demo_laid demo_port_ready [of "Some 13"]
  by (simp add: echo_inv_def cr_start_def stage_inv_def at_rest_def rx_fields_def tx_fields_def serial_zero_def
      outside_block_def demo_port_def)

definition word_start :: "soc echo" where
  "word_start = \<lparr> stage = Putting, serial = serial_zero, system = demo_port None \<rparr>"

text \<open>A trap with a carriage return, and one at the end of the last character.\<close>

lemma receive_interrupt_cr:
  assumes "u_rx (uart1 s) = Some 13" "receive_string g \<noteq> 0" "receive_interrupt soc_bus g s = (g', s')"
  shows "receive_string g' = 0" "still_receiving g' = still_receiving g"
proof -
  obtain v x where ld: "soc_ld32 UART1_STAT s = (v, x)" by (cases "soc_ld32 UART1_STAT s")
  note x = elapsed_stat [OF ld]
  have rx: "u_rx (uart1 x) = Some 13" using x(1) assms(1) by (simp add: elapsed_def)
  obtain d y where dat: "soc_ld32 UART1_DATA x = (d, y)" by (cases "soc_ld32 UART1_DATA x")
  have "v AND UART_STAT_RC \<noteq> 0" "(ucast d :: u8) = 13" using x(3) rx receive_data(1) [OF rx dat] by simp_all
  then show "receive_string g' = 0" "still_receiving g' = still_receiving g"
    using assms(3) [unfolded receive_interrupt_def soc_bus_simps ld Let_def prod.case dat] assms(2) by auto
qed

lemma trap_cr:
  assumes "trap_handler_serial soc_bus g (entered_trap s) = Some (g', s')"
    and "sane s" "silent s" "u_rx (uart1 s) = Some 13" "receive_string g \<noteq> 0" "transmit_string g = 0"
  shows "receive_string g' = 0" "still_receiving g' = still_receiving g"
proof -
  let ?s = "tick (entered_trap s)"
  obtain g1 s1 where 1: "transmit_interrupt soc_bus g ?s = (g1, s1)" "receive_interrupt soc_bus g1 s1 = (g', s')"
    by (rule trap_parts [OF assms(1)])
  have "sane ?s" "silent ?s" "u_rx (uart1 ?s) = Some 13"
    using elapsed_silent [OF entered_elapsed] elapsed_sane [OF entered_elapsed] entered_elapsed [of s] assms(2-4)
    by (simp_all add: elapsed_def)
  from 1(1) this(1) have "g1 = g \<and> elapsed ?s s1"
    by (rule transmit_interrupt_cases) (use assms(6) \<open>silent ?s\<close> in \<open>simp_all add: addr_defs\<close>)
  with receive_interrupt_cr [OF _ _ 1(2)] assms(5) \<open>u_rx (uart1 ?s) = Some 13\<close>
  show "receive_string g' = 0" "still_receiving g' = still_receiving g" by (simp_all add: elapsed_def)
qed

lemma receive_interrupt_tx:
  "receive_interrupt soc_bus g s = (g', s') \<Longrightarrow> tx_fields g' = tx_fields g"
  by (auto simp: receive_interrupt_def tx_fields_def Let_def split: prod.splits if_splits)

lemma trap_end:
  assumes "trap_handler_serial soc_bus g (entered_trap s) = Some (g', s')"
    and "u_tc (uart1 s)" "u_shift (uart1 s) = None" "transmit_string g \<noteq> 0" "transmit_string g < IO_BASE"
    and "mem s (transmit_string g) = 0"
  shows "transmit_string g' = 0" "still_sending g' = still_sending g"
proof -
  let ?s = "tick (entered_trap s)"
  obtain g1 s1 where 1: "transmit_interrupt soc_bus g ?s = (g1, s1)" "receive_interrupt soc_bus g1 s1 = (g', s')"
    by (rule trap_parts [OF assms(1)])
  obtain v t where ld: "soc_ld32 UART1_STAT ?s = (v, t)" by (cases "soc_ld32 UART1_STAT ?s")
  note t = elapsed_trans [OF entered_elapsed elapsed_stat(1) [OF ld]] elapsed_stat(2) [OF ld]
  have "v AND UART_STAT_TC \<noteq> 0" using t assms(2,3) by (simp add: elapsed_def)
  moreover have "mem (gpioa_togglepin soc_bus GPIO_PIN_1 t) = mem s"
    using elapsed_trans [OF t(1) elapsed_toggle] by (simp add: elapsed_def)
  ultimately have "tx_fields g1 = (0, still_sending g)"
    using 1(1) [unfolded transmit_interrupt_def soc_bus_simps ld Let_def prod.case] assms(4-6)
    by (auto simp: soc_ram tx_fields_def)
  with receive_interrupt_tx [OF 1(2)]
  show "transmit_string g' = 0" "still_sending g' = still_sending g" by (simp_all add: tx_fields_def)
qed

lemma trap_returns: "\<exists>g' s'. trap_handler_serial soc_bus g (entered_trap s) = Some (g', s')"
  by (simp add: trap_handler_serial_def csr_read_def soc_csrr_def entered_trap_def addr_defs Let_def split: prod.splits)

abbreviation line_call :: "soc echo" where
  "line_call \<equiv> echo_call soc_bus 0x1000 0x20000000 cr_start"

lemma line_called: "line_call = \<lparr> stage = Getting,
   serial = serial_zero \<lparr> receive_string := 0x20000000, string_length := 6, still_receiving := 1 \<rparr>,
   system = rmw soc_bus UART1_CTRL (\<lambda>v. v OR UART_CTRL_RCIE) (demo_port (Some 13)) \<rparr>"
   by (simp add: cr_start_def echo_call_def uart1_getsIT_def serial_zero_def Let_def)

lemma line_path:
  "(\<lambda>a b. echo_step 0x1000 0x20000000 a b \<and> stage b = Getting)\<^sup>*\<^sup>* line_call (echo_trap line_call)"
  "stage (echo_call soc_bus 0x1000 0x20000000 (echo_trap line_call)) = Putting"
proof -
  obtain g s where t: "trap_handler_serial soc_bus (serial line_call) (entered_trap (system line_call)) = Some (g, s)"
    using trap_returns [of "serial line_call" "system line_call"] by (elim exE)
  then have w: "echo_trap line_call = line_call \<lparr> serial := g, system := s \<rparr>" by (simp add: echo_trap_def)
  show "(\<lambda>a b. echo_step 0x1000 0x20000000 a b \<and> stage b = Getting)\<^sup>*\<^sup>* line_call (echo_trap line_call)"
    using t by (intro r_into_rtranclp conjI echo_step_trap) (simp_all add: w, simp add: line_called)
  have e: "elapsed (demo_port (Some 13)) (system line_call)"
    unfolding line_called echo.simps by (rule elapsed_ctrl [OF enables_on(1)])
  have "receive_string g = 0" "still_receiving g = 1"
    using trap_cr [OF t] e elapsed_sane [OF e] elapsed_silent [OF e] demo_port_ready [of "Some 13"]
    by (simp_all add: line_called serial_zero_def elapsed_def demo_port_def)
  then show "stage (echo_call soc_bus 0x1000 0x20000000 (echo_trap line_call)) = Putting"
    unfolding w unfolding line_called by (simp add: echo_call_def uart1_getsIT_def)
qed

theorem echo_reads_line_witness:
  "\<exists>cs rest. [13] = cs @ rest \<and> full_line cs
    \<and> filled (mem (system (echo_call soc_bus 0x1000 0x20000000 (echo_trap line_call)))) 0x20000000 (map cr_nl cs @ [0])"
  using echo_reads_line [OF line_inv _ _ line_path]
  by (simp add: cr_start_def serial_zero_def demo_port_def uart_inp_def demo_def demo_soc_def demo_uart_def)

abbreviation word_call :: "soc echo" where
  "word_call \<equiv> echo_call soc_bus 0x1000 0x20000000 word_start"

lemma word_at: "string_at demo_mem 0x20000000 [104]"
  by (auto simp: string_at_def demo_mem_def greeting_length addr_defs less_Suc_eq)

lemma word_inv: "echo_inv 0x1000 0x20000000 demo_mem word_start"
  using demo_laid demo_port_ready [of None] word_at
  by (auto simp: echo_inv_def word_start_def stage_inv_def rx_fields_def serial_zero_def sending_def
      outside_block_def demo_port_def silent_def intro!: exI [of _ "[104]"])

lemma rmw_sent:
  assumes "u_shift (uart1 s) = Some (c, 0)"
  shows "u_tc (uart1 (rmw soc_bus UART1_CTRL f s)) \<and> u_shift (uart1 (rmw soc_bus UART1_CTRL f s)) = None"
proof -
  let ?u = "uart_tick (uart1 s)"
  have "u_tc ?u" "u_shift ?u = None"
    using uart_tick_cases(4) [OF assms] by simp_all
  then show ?thesis using uart_tick_cases(1-3) [of ?u] by (simp add: rmw_def soc_ld_ctrl uart_store_def)
qed

lemma word_called: "stage word_call = Putting" "serial word_call = serial_zero \<lparr> transmit_string := 0x20000001, still_sending := 1 \<rparr>"
  "u_tc (uart1 (system word_call))" "u_shift (uart1 (system word_call)) = None" "mem (system word_call) = demo_mem"
proof -
  have ram: "(0x20000000 :: u32) < IO_BASE" by (simp add: addr_defs)
  let ?s = "demo_port None"
  let ?t = "tick (tick ?s)"
  let ?v = "(tick ?t) \<lparr> uart1 := uart_store 8 104 (uart_tick (uart1 ?t)) \<rparr>"
  let ?w = "rmw soc_bus UART1_CTRL (\<lambda>v. v OR UART_CTRL_TCIE) ?v"
  have c: "word_call = \<lparr> stage = Putting, serial = serial_zero \<lparr> transmit_string := 0x20000001, still_sending := 1 \<rparr>, system = ?w \<rparr>"
    using word_at ram
    by (simp add: word_start_def echo_call_def uart1_putsIT_def serial_zero_def Let_def soc_ram string_at_def
        demo_port_def)
  have "u_shift (uart1 ?v) = Some (104, 0)"
    using UART_CTRL_EN_def
    by (simp add: uart_store_def demo_port_def demo_def demo_soc_def demo_uart_def uart_tick_def)
  then have "u_tc (uart1 ?w) \<and> u_shift (uart1 ?w) = None"
    by (rule rmw_sent)
  then show "stage word_call = Putting" "serial word_call = serial_zero \<lparr> transmit_string := 0x20000001, still_sending := 1 \<rparr>"
  "u_tc (uart1 (system word_call))" "u_shift (uart1 (system word_call)) = None" "mem (system word_call) = demo_mem"
    unfolding c by (simp_all add: rmw_def soc_ld_ctrl uart_store_def demo_port_def)
qed

lemma word_path:
  "(\<lambda>a b. echo_step 0x1000 0x20000000 a b \<and> stage b = stage word_start)\<^sup>*\<^sup>* word_start (echo_trap word_call)"
  "stage (echo_call soc_bus 0x1000 0x20000000 (echo_trap word_call)) = Getting"
proof -
  obtain g s where t: "trap_handler_serial soc_bus (serial word_call) (entered_trap (system word_call)) = Some (g, s)"
    using trap_returns [of "serial word_call" "system word_call"] by (elim exE)
  then have w: "echo_trap word_call = word_call \<lparr> serial := g, system := s \<rparr>" by (simp add: echo_trap_def)
  have "echo_step 0x1000 0x20000000 word_start word_call \<and> stage word_call = stage word_start"
    using echo_step.call [of _ _ word_start] by (simp add: word_called, simp add: word_start_def)
  moreover have "echo_step 0x1000 0x20000000 word_call (echo_trap word_call) \<and> stage (echo_trap word_call) = stage word_start"
    using t echo_step_trap [of word_call] by (simp add: w word_called, simp add: word_start_def)
  ultimately show "(\<lambda>a b. echo_step 0x1000 0x20000000 a b \<and> stage b = stage word_start)\<^sup>*\<^sup>* word_start (echo_trap word_call)"
    by (rule rtranclp.rtrancl_into_rtrancl [OF r_into_rtranclp])
  have "transmit_string g = 0" "still_sending g = 1"
    using trap_end [OF t] by (simp_all add: word_called serial_zero_def addr_defs demo_mem_def greeting_length)
  moreover have "mem s 0x20000000 = 104"
  proof -
    have "sending 0x20000000 [104] [] (serial word_start) (system word_start)"
      using word_at demo_port_ready [of None]
      by (simp add: sending_def word_start_def serial_zero_def demo_port_def silent_def flushed_def demo_def demo_soc_def
          demo_uart_def)
    moreover obtain r g' s' where "uart1_putsIT soc_bus 0x20000000 (serial word_start) (system word_start) = (r, g', s')"
      by (rule prod_cases3)
    ultimately have "sending 0x20000000 [104] [] (serial word_call) (system word_call)"
      using sending_call [of "0x20000000" "[104]" "[]" "serial word_start" "system word_start" r g' s'] word_called(1)
      by (auto simp: echo_call_def word_start_def)
    then show ?thesis using sending_trap(2) [OF _ t] word_called word_at by (simp add: serial_zero_def string_at_def)
  qed
  ultimately have "stage (echo_call soc_bus 0x1000 0x20000000 v) = Getting"
    if "stage v = Putting" "serial v = g" "system v = s" for v :: "soc echo"
    using that by (simp add: echo_call_def uart1_putsIT_def soc_ram addr_defs)
  then show "stage (echo_call soc_bus 0x1000 0x20000000 (echo_trap word_call)) = Getting"
    using word_called(1) by (simp add: w)
qed

theorem echo_sends_string_witness:
  "u_sent (uart1 (system (echo_call soc_bus 0x1000 0x20000000 (echo_trap word_call)))) = [104]"
  using echo_sends_string [OF word_inv _ _ _ _ word_path, of "[104]"] word_at
  by (simp add: word_start_def serial_zero_def tx_fields_def demo_port_def demo_def demo_soc_def demo_uart_def)

end
