(* ===== verification/Upload.thy ===== *)
theory Upload
  imports Srec
begin

text \<open>
  The program on the host that sends a file of S-records to the bootloader, \<^verbatim>\<open>sw/upload/upload.c\<close>, as it is
  compiled on Linux. The operating system is a record of functions over its state: what \<^verbatim>\<open>open\<close>, \<^verbatim>\<open>read\<close>, \<^verbatim>\<open>write\<close>
  and the calls for the terminal do, and the values of their constants. What the program prints is kept
  beside that state. The program waits for as long as its device answers, so it may run forever: then there
  is no result.
\<close>

section \<open>The operating system\<close>

record termios =
  c_iflag :: u32
  c_oflag :: u32
  c_cflag :: u32
  c_lflag :: u32
  c_cc :: "nat \<Rightarrow> u8"
  c_ispeed :: u32
  c_ospeed :: u32

record 'h unix =
  open_file :: "u8 list \<Rightarrow> 'h \<Rightarrow> int \<times> 'h"
  read_file_descr :: "int \<Rightarrow> nat \<Rightarrow> 'h \<Rightarrow> int \<times> u8 list \<times> 'h"
  write_file_descr :: "int \<Rightarrow> u8 list \<Rightarrow> 'h \<Rightarrow> int \<times> 'h"
  close_file_descr :: "int \<Rightarrow> 'h \<Rightarrow> 'h"
  tcgetattr :: "int \<Rightarrow> 'h \<Rightarrow> termios option \<times> 'h"
  tcsetattr :: "int \<Rightarrow> termios \<Rightarrow> 'h \<Rightarrow> int \<times> 'h"
  tcsendbreak :: "int \<Rightarrow> 'h \<Rightarrow> int \<times> 'h"
  usleep :: "int \<Rightarrow> 'h \<Rightarrow> 'h"
  errno_of :: "'h \<Rightarrow> int"
  cfsetospeed :: "u32 \<Rightarrow> termios \<Rightarrow> termios"
  cfsetispeed :: "u32 \<Rightarrow> termios \<Rightarrow> termios"
  CSIZE :: u32
  CS8 :: u32
  IGNBRK :: u32
  IXON :: u32
  IXOFF :: u32
  IXANY :: u32
  CLOCAL :: u32
  CREAD :: u32
  PARENB :: u32
  PARODD :: u32
  CSTOPB :: u32
  CRTSCTS :: u32
  VMIN :: nat
  VTIME :: nat
  B9600 :: u32
  B115200 :: u32
  B230400 :: u32

text \<open>A run of the program: what it has printed, and the state of the system.\<close>

record 'h job =
  j_out :: "u8 list"
  j_err :: "u8 list"
  j_sys :: 'h

definition say_out :: "u8 list \<Rightarrow> 'h job \<Rightarrow> 'h job" where
  "say_out t j = j \<lparr> j_out := j_out j @ t \<rparr>"

definition say_when :: "bool \<Rightarrow> u8 list \<Rightarrow> 'h job \<Rightarrow> 'h job" where
  "say_when c t j = (if c then say_out t j else j)"

definition say_err :: "u8 list \<Rightarrow> 'h job \<Rightarrow> 'h job" where
  "say_err t j = j \<lparr> j_err := j_err j @ t \<rparr>"

definition signed_dec :: "int \<Rightarrow> u8 list" where
  "signed_dec v = (if v < 0 then [45] @ decstr (nat (- v)) else decstr (nat v))"

section \<open>The device\<close>

definition INVALID_HANDLE_VALUE :: int where "INVALID_HANDLE_VALUE = - 1"
definition DEFAULT_SERIAL_DEVICE :: "u8 list" where "DEFAULT_SERIAL_DEVICE = str ''/dev/ttyUSB0''"
definition GENERIC_SERIAL_DEVICE :: "u8 list" where "GENERIC_SERIAL_DEVICE = str ''/dev/tty''"
definition MIN_DEVICE_NUMBER :: nat where "MIN_DEVICE_NUMBER = 0"
definition MAX_DEVICE_NUMBER :: nat where "MAX_DEVICE_NUMBER = 31"

definition open_device :: "'h unix \<Rightarrow> u8 list \<Rightarrow> 'h job \<Rightarrow> int \<times> 'h job" where
  "open_device U portname j =
     (let (fd, h) = open_file U portname (j_sys j)
      in (if fd < 0 then INVALID_HANDLE_VALUE else fd, j \<lparr> j_sys := h \<rparr>))"

text \<open>A failure of \<^verbatim>\<open>tcgetattr\<close> or \<^verbatim>\<open>tcsetattr\<close> is reported and answered with 1.\<close>

definition change_terminal :: "'h unix \<Rightarrow> int \<Rightarrow> (termios \<Rightarrow> termios) \<Rightarrow> u8 list \<Rightarrow> 'h job \<Rightarrow> int \<times> 'h job" where
  "change_terminal U fd f complaint j =
     (case tcgetattr U fd (j_sys j) of
        (None, h) \<Rightarrow> (1, say_out (str ''error '' @ signed_dec (errno_of U h) @ ln '' from tcgetattr'') (j \<lparr> j_sys := h \<rparr>))
      | (Some tty, h) \<Rightarrow>
          (let (r, h) = tcsetattr U fd (f tty) h; j = j \<lparr> j_sys := h \<rparr>
           in if r \<noteq> 0 then (1, say_out (str ''error '' @ signed_dec (errno_of U h) @ complaint) j) else (0, j)))"

definition set_blocking :: "'h unix \<Rightarrow> int \<Rightarrow> bool \<Rightarrow> int \<Rightarrow> 'h job \<Rightarrow> int \<times> 'h job" where
  "set_blocking U fd should_block timeout =
     change_terminal U fd
       (\<lambda>tty. tty \<lparr> c_cc := (c_cc tty)(VMIN U := (if should_block then 1 else 0), VTIME U := word_of_int timeout) \<rparr>)
       (ln '' setting term attributes'')"

definition interface_attribs :: "'h unix \<Rightarrow> u32 \<Rightarrow> u32 \<Rightarrow> termios \<Rightarrow> termios" where
  "interface_attribs U speed parity tty =
     (let tty = cfsetospeed U speed tty;
          tty = cfsetispeed U speed tty;
          tty = tty \<lparr> c_cflag := (c_cflag tty AND NOT (CSIZE U)) OR CS8 U \<rparr>;
          tty = tty \<lparr> c_iflag := c_iflag tty AND NOT (IGNBRK U) \<rparr>;
          tty = tty \<lparr> c_lflag := 0, c_oflag := 0, c_cc := (c_cc tty)(VMIN U := 0, VTIME U := 5) \<rparr>;
          tty = tty \<lparr> c_iflag := c_iflag tty AND NOT (IXON U OR IXOFF U OR IXANY U) \<rparr>;
          tty = tty \<lparr> c_cflag := c_cflag tty OR (CLOCAL U OR CREAD U) \<rparr>;
          tty = tty \<lparr> c_cflag := c_cflag tty AND NOT (PARENB U OR PARODD U) \<rparr>;
          tty = tty \<lparr> c_cflag := c_cflag tty OR parity \<rparr>;
          tty = tty \<lparr> c_cflag := c_cflag tty AND NOT (CSTOPB U) \<rparr>
      in tty \<lparr> c_cflag := c_cflag tty AND NOT (CRTSCTS U) \<rparr>)"

definition set_interface_attribs :: "'h unix \<Rightarrow> int \<Rightarrow> u32 \<Rightarrow> u32 \<Rightarrow> 'h job \<Rightarrow> int \<times> 'h job" where
  "set_interface_attribs U fd speed parity =
     change_terminal U fd (interface_attribs U speed parity) (ln '' from tcsetattr'')"

definition set_com_params :: "'h unix \<Rightarrow> int \<Rightarrow> u32 \<Rightarrow> int \<Rightarrow> 'h job \<Rightarrow> bool \<times> 'h job" where
  "set_com_params U device speed timeout j =
     (let (_, j) = set_interface_attribs U device speed 0 j;
          (_, j) = set_blocking U device False timeout j
      in (True, j))"

text \<open>\<^verbatim>\<open>read\<close> stores what it has read at the start of the buffer.\<close>

definition read_device :: "'h unix \<Rightarrow> int \<Rightarrow> u8 list \<Rightarrow> nat \<Rightarrow> 'h job \<Rightarrow> int \<times> u8 list \<times> 'h job" where
  "read_device U device line len j =
     (let (n, bs, h) = read_file_descr U device len (j_sys j)
      in (n, bs @ drop (length bs) line, j \<lparr> j_sys := h \<rparr>))"

definition write_device :: "'h unix \<Rightarrow> int \<Rightarrow> u8 list \<Rightarrow> 'h job \<Rightarrow> int \<times> 'h job" where
  "write_device U device bs j = (let (n, h) = write_file_descr U device bs (j_sys j) in (n, j \<lparr> j_sys := h \<rparr>))"

definition close_device :: "'h unix \<Rightarrow> int \<Rightarrow> 'h job \<Rightarrow> 'h job" where
  "close_device U device j = j \<lparr> j_sys := close_file_descr U device (j_sys j) \<rparr>"

definition send_break_to_device :: "'h unix \<Rightarrow> int \<Rightarrow> 'h job \<Rightarrow> int \<times> 'h job" where
  "send_break_to_device U device j =
     (let (r, h) = tcsendbreak U device (j_sys j) in (if r < 0 then 0 else 1, j \<lparr> j_sys := h \<rparr>))"

definition Sleep :: "'h unix \<Rightarrow> int \<Rightarrow> 'h job \<Rightarrow> 'h job" where
  "Sleep U tim j = j \<lparr> j_sys := usleep U (tim * 1000) (j_sys j) \<rparr>"

definition test_device :: "'h unix \<Rightarrow> bool \<Rightarrow> u8 list \<Rightarrow> nat \<times> 'h job \<Rightarrow> nat \<times> 'h job" where
  "test_device U verbose device = (\<lambda>(count, j).
     (let j = say_when verbose (str ''Testing device '' @ device @ [10]) j;
          (handle, j) = open_device U device j
      in if handle = INVALID_HANDLE_VALUE then (count, j)
         else (count + 1, say_out (str ''Found device: '' @ device @ [10]) (close_device U handle j))))"

definition device_names :: "u8 list list" where
  "device_names = concat (map
     (\<lambda>subdevice. map (\<lambda>i. GENERIC_SERIAL_DEVICE @ subdevice @ decstr i) [0 ..< MAX_DEVICE_NUMBER + 1])
     (drop MIN_DEVICE_NUMBER [str ''S'', str ''USB'', str ''ACM'']))"

definition show_devices :: "'h unix \<Rightarrow> bool \<Rightarrow> 'h job \<Rightarrow> 'h job" where
  "show_devices U verbose j =
     (let j = say_out (ln ''Searching for serial devices...'') j;
          (count, j) = fold (test_device U verbose) device_names (0, j)
      in say_out (str ''Found '' @ decstr count @ str '' device'' @ (if count = 1 then [] else str ''s'') @ [10]) j)"

section \<open>Options\<close>

record upload_options =
  p_portname :: "u8 list"
  p_baudrate :: u32
  p_verbose :: bool
  p_timeout :: int
  p_jump :: bool
  p_slepe :: int
  p_quiet :: bool
  p_nowait :: bool
  p_sendbreak :: bool
  p_list :: bool

definition upload_defaults :: "'h unix \<Rightarrow> upload_options" where
  "upload_defaults U = \<lparr> p_portname = DEFAULT_SERIAL_DEVICE, p_baudrate = B115200 U, p_verbose = False,
     p_timeout = 10, p_jump = False, p_slepe = 0, p_quiet = False, p_nowait = False, p_sendbreak = False, p_list = False \<rparr>"

definition upload_option :: "'h unix \<Rightarrow> u8 \<times> u8 list \<Rightarrow> upload_options \<Rightarrow> upload_options option" where
  "upload_option U oa p =
     (case oa of (opt, optarg) \<Rightarrow>
      if opt = ch (CHR ''d'') then Some (p \<lparr> p_portname := optarg \<rparr>)
      else if opt = ch (CHR ''j'') \<or> opt = ch (CHR ''r'') then Some (p \<lparr> p_jump := True \<rparr>)
      else if opt = ch (CHR ''v'') then Some (p \<lparr> p_verbose := True, p_quiet := True \<rparr>)
      else if opt = ch (CHR ''q'') then Some (p \<lparr> p_quiet := True \<rparr>)
      else if opt = ch (CHR ''B'') then Some (p \<lparr> p_sendbreak := True \<rparr>)
      else if opt = ch (CHR ''t'') then
        Some (p \<lparr> p_timeout := (if atoi optarg < 0 then 0 else atoi optarg) \<rparr>)
      else if opt = ch (CHR ''s'') then
        Some (p \<lparr> p_slepe := (if atoi optarg < 0 then 0 else atoi optarg) \<rparr>)
      else if opt = ch (CHR ''b'') then
        Some (p \<lparr> p_baudrate :=
          (if optarg = str ''9600'' then B9600 U
           else if optarg = str ''115200'' then B115200 U
           else if optarg = str ''230400'' then B230400 U
           else B9600 U) \<rparr>)
      else if opt = ch (CHR ''n'') then Some (p \<lparr> p_nowait := True \<rparr>)
      else if opt = ch (CHR ''l'') then Some (p \<lparr> p_list := True \<rparr>)
      else None)"

definition upload_usage :: "'h unix \<Rightarrow> u8 list" where
  "upload_usage U = (let p = upload_defaults U in
     ln ''upload [-vnqrB] [-d <device>] [-b <baud>] [-t <timeout>] [-s <sleep>] filename''
     @ ln ''upload -lv''
     @ ln ''Upload S-record file to THUAS RISC-V processor v0.4.1''
     @ ln ''-v           -- verbose''
     @ ln ''-B           -- send BREAK before transmitting''
     @ str ''-n           -- don'' @ [39] @ ln ''t wait for reponse from bootloader''
     @ ln ''                (bootloader is instructed not to send response)''
     @ ln ''-q           -- quiet, only errors''
     @ ln ''-r           -- run application after upload''
     @ ln ''-d <device>  -- serial device''
     @ ln ''-b <baud>    -- set baudrate (9600, 115200 or 230400)''
     @ ln ''-t <timeout> -- timeout in deci seconds''
     @ ln ''-s <sleep>   -- sleep milli seconds after each character''
     @ ln ''filename is an S-record file'' @ [10]
     @ ln ''-l           -- list available serial devices''
     @ ln ''-v           -- verbose'' @ [10]
     @ str ''Default device is '' @ p_portname p @ [10]
     @ str ''Default baudrate is ''
     @ (if p_baudrate p = B9600 U then ln ''9600''
        else if p_baudrate p = B115200 U then ln ''115200''
        else if p_baudrate p = B230400 U then ln ''230400''
        else ln ''??'')
     @ str ''Default timeout is '' @ signed_dec (p_timeout p) @ [10]
     @ str ''Default sleep is '' @ signed_dec (p_slepe p) @ [10])"

section \<open>The transfer\<close>

text \<open>An exit with a status, or the contents of the line buffer and the run so far.\<close>

type_synonym 'h outcome = "(int \<times> 'h job) + (u8 list \<times> 'h job)"

definition closed_terminal :: "u8 list" where
  "closed_terminal = ln ''Did you closed the terminal program?''"

definition send_break :: "'h unix \<Rightarrow> upload_options \<Rightarrow> int \<Rightarrow> u8 list \<Rightarrow> 'h job \<Rightarrow> 'h outcome" where
  "send_break U p device line j =
     (if p_sendbreak p then
        (let j = say_when (p_verbose p) (ln ''Sending BREAK'') j;
             (r, j) = send_break_to_device U device j
         in if r = 0 then
              Inl (6, close_device U device (say_out (ln ''Cannot send BREAK to device!'') j))
            else Inr (line, Sleep U 500 j))
      else Inr (line, j))"

definition contact_loader :: "'h unix \<Rightarrow> upload_options \<Rightarrow> int \<Rightarrow> u8 list \<Rightarrow> 'h job \<Rightarrow> 'h outcome" where
  "contact_loader U p device line j =
     (let j = say_when (p_verbose p)
            (if p_nowait p then str ''Sending '' @ [39, 36, 39] @ str ''... ''
             else str ''Sending '' @ [39, 33, 39] @ str ''... '') j;
          (n, j) = write_device U device (if p_nowait p then [36] else [33]) j
      in if p_nowait p then
           (let (n, line, j) = read_device U device line 5 j in Inr (line, j))
         else
           (let (n, line, j) = read_device U device line 1 j
            in if n = 0 then
                 Inl (6, close_device U device (say_out (ln ''Cannot contact bootloader!'' @ closed_terminal) j))
               else
                 (let j = say_when (p_verbose p) (ln ''Contacted bootloader!'') j;
                      (n, line, j) = read_device U device line 5 j
                  in Inr (line, j))))"

text \<open>\<^verbatim>\<open>while (1)\<close>: read characters until there are none, or the end of a line.\<close>

partial_function (option) wait_answer ::
    "'h unix \<Rightarrow> int \<Rightarrow> u8 list \<Rightarrow> 'h job \<Rightarrow> (int \<times> u8 list \<times> 'h job) option" where
  "wait_answer U device line j =
     (let (n, line, j) = read_device U device line 1 j
      in if n = 0 then Some (n, line, j)
         else if line ! 0 = 10 then Some (n, line, j)
         else wait_answer U device line j)"

text \<open>\<^verbatim>\<open>for (int i = 0; i < strlen(line); i++)\<close>, with the characters that are left.\<close>

fun send_chars :: "'h unix \<Rightarrow> upload_options \<Rightarrow> int \<Rightarrow> u8 list \<Rightarrow> 'h job \<Rightarrow> 'h job" where
  "send_chars U p device [] j = j"
| "send_chars U p device (c # cs) j =
     (let (n, j) = write_device U device [c] j;
          j = say_when (p_verbose p \<and> c \<noteq> 10 \<and> c \<noteq> 13) [c] j
      in send_chars U p device cs (Sleep U (p_slepe p) j))"

definition show_progress :: "upload_options \<Rightarrow> 'h job \<Rightarrow> 'h job" where
  "show_progress p j =
     (if p_verbose p then say_out (ln ''  OK'') j else if \<not> p_quiet p then say_out [42] j else j)"

text \<open>The line in the buffer.\<close>

definition upload_line :: "'h unix \<Rightarrow> upload_options \<Rightarrow> int \<Rightarrow> u8 list \<Rightarrow> 'h job \<Rightarrow> 'h outcome option" where
  "upload_line U p device line j =
     (let j = say_when (p_verbose p) (str ''Write '') j;
          j = send_chars U p device (takeWhile (\<lambda>c. c \<noteq> 0) line) j;
          line = replicate 1000 0
      in if \<not> p_nowait p then
           do { (n, line, j) \<leftarrow> wait_answer U device line j;
                if n = 0 then
                  Some (Inl (8, close_device U device
                    (say_out (ln ''Nothing read while sending data!'' @ closed_terminal) j)))
                else Some (Inr (line, show_progress p j)) }
         else Some (Inr (line, show_progress p j)))"

lemma chunk_shorter: "0 < n \<Longrightarrow> chunk n (c # cs) = (l, rest) \<Longrightarrow> length rest < Suc (length cs)"
  using chunk_length [of n "c # cs"] chunk_nonempty [of n "c # cs"] by (cases l) auto

text \<open>\<^verbatim>\<open>while (fgets(line, sizeof line - 2, fin))\<close>\<close>

function upload_file :: "'h unix \<Rightarrow> upload_options \<Rightarrow> int \<Rightarrow> u8 list \<Rightarrow> u8 list \<Rightarrow> 'h job \<Rightarrow> 'h outcome option" where
  "upload_file U p device [] line j = Some (Inr (line, j))"
| "upload_file U p device (c # cs) line j =
     (let (l, rest) = chunk (1000 - 2 - 1) (c # cs)
      in do { r \<leftarrow> upload_line U p device (fill l line) j;
              (case r of Inl e \<Rightarrow> Some (Inl e) | Inr (line, j) \<Rightarrow> upload_file U p device rest line j) })"
  by pat_completeness auto
termination
  by (relation "measure (\<lambda>(U, p, device, cs, line, j). length cs)")
    (simp_all, metis chunk_shorter zero_less_numeral)

declare upload_file.simps [simp del]

definition finish_upload :: "'h unix \<Rightarrow> upload_options \<Rightarrow> int \<Rightarrow> u8 list \<Rightarrow> 'h job \<Rightarrow> (int \<times> 'h job) option" where
  "finish_upload U p device line j =
     (let j = say_when (\<not> p_quiet p \<and> \<not> p_verbose p) [10] j;
          mark = (if p_jump p then 74 else 35);
          j = say_when (p_verbose p) (str ''Write '' @ [39, mark, 39, 32]) j;
          (n, j) = write_device U device [mark] j
      in if \<not> p_nowait p then
           do { (n, line, j) \<leftarrow> wait_answer U device line j;
                if n = 0 then
                  Some (9, close_device U device
                    (say_out (ln ''Nothing read while sending end of transmission!'' @ closed_terminal) j))
                else Some (0, close_device U device (say_when (p_verbose p) (ln ''  OK'') j)) }
         else Some (0, close_device U device (say_when (p_verbose p) (ln ''  OK'') j)))"

definition transfer_file :: "'h unix \<Rightarrow> upload_options \<Rightarrow> int \<Rightarrow> u8 list \<Rightarrow> 'h job \<Rightarrow> (int \<times> 'h job) option" where
  "transfer_file U p device text j =
     (case send_break U p device (replicate 1000 0) j of
        Inl e \<Rightarrow> Some e
      | Inr (line, j) \<Rightarrow>
          (case contact_loader U p device line j of
             Inl e \<Rightarrow> Some e
           | Inr (line, j) \<Rightarrow>
               do { r \<leftarrow> upload_file U p device text line j;
                    (case r of Inl e \<Rightarrow> Some e | Inr (line, j) \<Rightarrow> finish_upload U p device line j) }))"

section \<open>The program\<close>

text \<open>\<open>argc\<close>; the options as \<^verbatim>\<open>getopt\<close> returns them, with their arguments; the other arguments; the files
  that can be read; the state of the system.\<close>

definition upload ::
    "'h unix \<Rightarrow> nat \<Rightarrow> (u8 \<times> u8 list) list \<Rightarrow> u8 list list \<Rightarrow> (u8 list \<Rightarrow> u8 list option) \<Rightarrow> 'h \<Rightarrow> (int \<times> 'h job) option"
    where
  "upload U argc opts names file h =
     (let j = \<lparr> j_out = [], j_err = [], j_sys = h \<rparr>
      in if argc = 1 then Some (0, say_out (upload_usage U) j)
         else case parse_options (upload_option U) opts (upload_defaults U) of
           None \<Rightarrow> Some (1, j)
         | Some p \<Rightarrow>
             (let j = say_when (p_verbose p) (ln ''upload v0.4.1'') j
              in if p_list p then Some (0, show_devices U (p_verbose p) j)
                 else case names of
                   [] \<Rightarrow> Some (2, say_err (ln ''Please supply an input filename'') j)
                 | name # _ \<Rightarrow>
                     (case file name of
                        None \<Rightarrow> Some (3, say_err (str ''Cannot open input file '' @ name @ [10]) j)
                      | Some text \<Rightarrow>
                          (let j = say_when (p_verbose p) (str ''Serial port is: '' @ p_portname p @ [10]) j;
                               (device, j) = open_device U (p_portname p) j
                           in if device = INVALID_HANDLE_VALUE then
                                Some (4, say_out (str ''Error opening device '' @ p_portname p @ [10]) j)
                              else
                                (let (r, j) = set_com_params U device (p_baudrate p) (p_timeout p) j
                                 in if \<not> r then
                                      Some (5, close_device U device
                                        (say_out (ln ''Cannot set interface parameters!'') j))
                                    else transfer_file U p device text j)))))"

end
