(* ===== verification/Uploadlaws.thy ===== *)
theory Uploadlaws
  imports Upload Soc
begin

text \<open>
  The uploader and the bootloader together: what the bootloader line_answers, character by character, as a
  machine of four phases; a contract of a device that has it at its other end; what the parts of the
  uploader do on such a device; and the way of a file to the memory of the board.
\<close>

section \<open>The bootloader as its host sees it\<close>

text \<open>Where the bootloader is in an upload: waiting for the first character, between two lines, or in a line that
  started with \<^verbatim>\<open>S\<close>; with the second argument it has been told not to answer. What it answers to one character.\<close>

datatype phase = Reset | Idle bool | Inside bool | Over

fun loader_reply :: "phase \<Rightarrow> u8 \<Rightarrow> phase \<times> u8 list" where
  "loader_reply Reset c = (if c = 33 \<or> c = 36 then (Idle (c = 36), answer (c = 36)) else (Over, crlf @ str ''> ''))"
| "loader_reply (Idle q) c =
     (if c = 83 then (Inside q, [])
      else if c = 74 then (Over, answer q)
      else if c = 35 then (Over, crlf @ str ''> '')
      else (Idle q, answer q))"
| "loader_reply (Inside q) c = (if c = 10 then (Idle q, answer q) else (Inside q, []))"
| "loader_reply Over c = (Over, [])"

fun loader_run :: "phase \<Rightarrow> u8 list \<Rightarrow> phase \<times> u8 list" where
  "loader_run ph [] = (ph, [])"
| "loader_run ph (c # cs) =
     (let (ph, a) = loader_reply ph c; (ph, a') = loader_run ph cs in (ph, a @ a'))"

lemma loader_run_append:
  "loader_run ph (cs @ ds) =
    (let (ph, a) = loader_run ph cs; (ph, a') = loader_run ph ds in (ph, a @ a'))"
  by (induction ph cs rule: loader_run.induct) (auto split: prod.splits simp: Let_def)

lemma loader_run_over [simp]: "loader_run Over cs = (Over, [])"
  by (induction cs) simp_all

text \<open>After a line end it is between two lines, and has answered the line.\<close>

definition line_answers :: "bool \<Rightarrow> nat \<Rightarrow> u8 list" where
  "line_answers q k = concat (replicate k (answer q))"

lemma line_answers_simps [simp]: "line_answers q 0 = []" "line_answers q (Suc k) = answer q @ line_answers q k"
  by (simp_all add: line_answers_def)

lemma line_answers_add: "line_answers q j @ line_answers q k = line_answers q (j + k)"
  by (simp add: line_answers_def replicate_add)

lemma loader_run_line:
  assumes "ph = Idle q \<or> ph = Inside q" and "loader_run ph (cs @ [10]) = (ph', a)" and "ph' \<noteq> Over"
  shows "ph' = Idle q \<and> (\<exists>k. a = line_answers q (Suc k))"
  using assms
proof (induction cs arbitrary: ph a)
  case Nil
  then show ?case by (auto intro!: exI [of _ 0])
next
  case (Cons c cs)
  obtain ph1 a1 where 1: "loader_reply ph c = (ph1, a1)" by (cases "loader_reply ph c")
  obtain ph2 a2 where 2: "loader_run ph1 (cs @ [10]) = (ph2, a2)" by (cases "loader_run ph1 (cs @ [10])")
  have a: "ph' = ph2" "a = a1 @ a2" using Cons.prems(2) 1 2 by simp_all
  have n: "ph1 \<noteq> Over" using 2 a(1) Cons.prems(3) by auto
  then have p: "ph1 = Idle q \<or> ph1 = Inside q" and a1: "a1 = line_answers q 0 \<or> a1 = line_answers q 1"
    using 1 Cons.prems(1) by (auto split: if_splits)
  from Cons.IH [OF p 2 [folded a(1)] Cons.prems(3)] obtain k where "ph' = Idle q" "a2 = line_answers q (Suc k)" by auto
  with a a1 have "a = line_answers q (Suc k) \<or> a = line_answers q (Suc (Suc k))" by auto
  with \<open>ph' = Idle q\<close> show ?case by blast
qed

text \<open>The lines of the format.\<close>

lemma loader_run_inside:
  "10 \<notin> set cs \<Longrightarrow> loader_run (Inside q) (cs @ [10]) = (Idle q, answer q)"
  by (induction cs) auto

text \<open>A line of text: it ends with the only line feed, has no null character and fits in the buffer.\<close>

definition text_line :: "u8 list \<Rightarrow> bool" where
  "text_line t \<longleftrightarrow> (\<exists>a. t = a @ [10] \<and> 10 \<notin> set a \<and> 0 \<notin> set a \<and> length t \<le> 997)"

section \<open>A device that talks to the bootloader\<close>

locale loader =
  fixes U :: "'h unix" and fd :: int
    and phase :: "'h \<Rightarrow> phase" and sent :: "'h \<Rightarrow> u8 list" and said :: "'h \<Rightarrow> u8 list" and waiting :: "'h \<Rightarrow> u8 list"
  assumes written: "write_file_descr U fd [c] h = (n, h') \<Longrightarrow> sent h' = sent h @ [c]
      \<and> (let (ph, a) = loader_reply (phase h) c in
           phase h' = ph \<and> said h' = said h @ a \<and> waiting h' = waiting h @ a)"
    and read: "read_file_descr U fd k h = (n, bs, h') \<Longrightarrow> 0 < k \<Longrightarrow> n = int (length bs) \<and> length bs \<le> k
      \<and> waiting h = bs @ waiting h' \<and> (bs = [] \<longrightarrow> waiting h = [])
      \<and> sent h' = sent h \<and> phase h' = phase h \<and> said h' = said h"
    and still: "sent (usleep U t h) = sent h" "phase (usleep U t h) = phase h"
      "said (usleep U t h) = said h" "waiting (usleep U t h) = waiting h"
    and close: "sent (close_file_descr U fd h) = sent h" "said (close_file_descr U fd h) = said h"
begin

definition view :: "'h job \<Rightarrow> u8 list \<times> phase \<times> u8 list \<times> u8 list" where
  "view j = (sent (j_sys j), phase (j_sys j), said (j_sys j), waiting (j_sys j))"

lemma view_simps [simp]:
  "view (say_out t j) = view j" "view (say_when c t j) = view j" "view (Sleep U d j) = view j"
  by (simp_all add: view_def say_out_def say_when_def Sleep_def still)

lemma write_view:
  assumes "write_device U fd [c] j = (n, j')" and "view j = (s, ph, a, w)"
  shows "view j' = (let (ph', r) = loader_reply ph c in (s @ [c], ph', a @ r, w @ r))"
  using assms written [of c "j_sys j"] by (auto simp: write_device_def view_def split: prod.splits)

lemma read_view:
  assumes "read_device U fd line k j = (n, line', j')" and "view j = (s, ph, a, w)" and "0 < k"
  obtains bs w' where "view j' = (s, ph, a, w')" "w = bs @ w'" "n = int (length bs)" "length bs \<le> k"
    "bs = [] \<longrightarrow> w = []" "line' = bs @ drop (length bs) line"
proof -
  obtain bs h' where r: "read_file_descr U fd k (j_sys j) = (n, bs, h')"
    using assms(1) by (auto simp: read_device_def split: prod.splits)
  have j': "j' = j \<lparr> j_sys := h' \<rparr>" "line' = bs @ drop (length bs) line"
    using assms(1) r by (auto simp: read_device_def)
  show thesis
    using read [OF r assms(3)] assms(2) j' by (intro that [of "waiting h'" bs]) (auto simp: view_def)
qed

lemma send_chars_view:
  "view j = (s, ph, a, w) \<Longrightarrow> view (send_chars U p fd cs j) =
    (let (ph', r) = loader_run ph cs in (s @ cs, ph', a @ r, w @ r))"
proof (induction cs arbitrary: j s ph a w)
  case Nil
  then show ?case by simp
next
  case (Cons c cs)
  obtain n j1 where w: "write_device U fd [c] j = (n, j1)" by (cases "write_device U fd [c] j")
  obtain ph1 r where "loader_reply ph c = (ph1, r)" by (cases "loader_reply ph c")
  with write_view [OF w Cons.prems] have "view j1 = (s @ [c], ph1, a @ r, w @ r)" by simp
  with Cons.IH [of _ "s @ [c]" ph1 "a @ r" "w @ r"] w \<open>loader_reply ph c = _\<close> show ?case
    by (simp add: case_prod_unfold Let_def)
qed

text \<open>Waiting for the end of an answer, when there is one and when there is none.\<close>

lemma wait_answer_view:
  assumes "view j = (s, ph, a, u @ 10 # w)" and "10 \<notin> set u"
  obtains n line' j' where "wait_answer U fd line j = Some (n, line', j')" "n \<noteq> 0" "view j' = (s, ph, a, w)"
  using assms
proof (induction u arbitrary: j line thesis)
  case Nil
  obtain n l j1 where r: "read_device U fd line 1 j = (n, l, j1)" by (rule prod_cases3)
  obtain bs w' where b: "view j1 = (s, ph, a, w')" "[] @ 10 # w = bs @ w'"
      "n = int (length bs)" "length bs \<le> 1" "bs = [] \<longrightarrow> [] @ 10 # w = []" "l = bs @ drop (length bs) line"
    by (rule read_view [OF r Nil(2) zero_less_one])
  then have "bs = [10]" "w' = w" by (cases bs; auto)+
  with b r show thesis by (intro Nil(1)) (auto simp: wait_answer.simps)
next
  case (Cons c u)
  obtain n l j1 where r: "read_device U fd line 1 j = (n, l, j1)" by (rule prod_cases3)
  obtain bs w' where b: "view j1 = (s, ph, a, w')" "(c # u) @ 10 # w = bs @ w'"
      "n = int (length bs)" "length bs \<le> 1" "bs = [] \<longrightarrow> (c # u) @ 10 # w = []" "l = bs @ drop (length bs) line"
    by (rule read_view [OF r Cons(3) zero_less_one])
  then have *: "bs = [c]" "w' = u @ 10 # w" by (cases bs; auto)+
  have "c \<noteq> 10" using Cons(4) by auto
  from Cons.IH [where j = j1 and line = l] Cons(4) * b(1) obtain n' l' j' where "wait_answer U fd l j1 = Some (n', l', j')" "n' \<noteq> 0"
      "view j' = (s, ph, a, w)" by auto
  with r * b \<open>c \<noteq> 10\<close> show thesis by (intro Cons(2)) (auto simp: wait_answer.simps [of U fd line])
qed

lemma wait_nothing:
  assumes "view j = (s, ph, a, w)" and "10 \<notin> set w"
  obtains line' j' where "wait_answer U fd line j = Some (0, line', j')" "view j' = (s, ph, a, [])"
  using assms
proof (induction w arbitrary: j line thesis)
  case Nil
  obtain n l j1 where r: "read_device U fd line 1 j = (n, l, j1)" by (rule prod_cases3)
  obtain bs w' where "view j1 = (s, ph, a, w')" "[] = bs @ w'" "n = int (length bs)"
    by (rule read_view [OF r Nil(2) zero_less_one])
  then have "n = 0" "view j1 = (s, ph, a, [])" by simp_all
  with r show thesis by (intro Nil(1)) (auto simp: wait_answer.simps)
next
  case (Cons c w)
  obtain n l j1 where r: "read_device U fd line 1 j = (n, l, j1)" by (rule prod_cases3)
  obtain bs w' where b: "view j1 = (s, ph, a, w')" "c # w = bs @ w'"
      "n = int (length bs)" "length bs \<le> 1" "bs = [] \<longrightarrow> c # w = []" "l = bs @ drop (length bs) line"
    by (rule read_view [OF r Cons(3) zero_less_one])
  then have *: "bs = [c]" "w' = w" by (cases bs; auto)+
  have "c \<noteq> 10" using Cons(4) by auto
  from Cons.IH [where j = j1 and line = l] Cons(4) * b(1) obtain l' j' where "wait_answer U fd l j1 = Some (0, l', j')"
      "view j' = (s, ph, a, [])" by auto
  with r * b \<open>c \<noteq> 10\<close> show thesis by (intro Cons(2)) (auto simp: wait_answer.simps [of U fd line])
qed


text \<open>The parts of the transfer.\<close>

lemma contact_view:
  assumes "view j = (s, Reset, a, [])"
  obtains line' j' where "contact_loader U p fd line j = Inr (line', j')"
    "view j' = (s @ [if p_nowait p then 36 else 33], Idle (p_nowait p), a @ answer (p_nowait p), [])"
proof -
  let ?q = "p_nowait p" and ?c = "if p_nowait p then 36 else 33 :: u8"
  let ?j = "say_when (p_verbose p)
            (if p_nowait p then str ''Sending '' @ [39, 36, 39] @ str ''... ''
             else str ''Sending '' @ [39, 33, 39] @ str ''... '') j"
  obtain n j1 where w: "write_device U fd [?c] ?j = (n, j1)" by (cases "write_device U fd [?c] ?j")
  have "view ?j = (s, Reset, a, [])" using assms by simp
  from write_view [OF w this] have v1: "view j1 = (s @ [?c], Idle ?q, a @ answer ?q, answer ?q)"
    by (auto simp: answer_def)
  show thesis
  proof (cases ?q)
    case True
    obtain n2 l j2 where r: "read_device U fd line 5 j1 = (n2, l, j2)" by (rule prod_cases3)
    obtain bs w' where "view j2 = (s @ [?c], Idle ?q, a @ answer ?q, w')" "answer ?q = bs @ w'"
      by (rule read_view [OF r v1 zero_less_numeral])
    then have "view j2 = (s @ [?c], Idle ?q, a @ answer ?q, [])" using True by (simp add: answer_def)
    moreover have "contact_loader U p fd line j = Inr (l, j2)"
      using w r True by (simp add: contact_loader_def Let_def)
    ultimately show thesis using that by simp
  next
    case False
    obtain n2 l j2 where r: "read_device U fd line 1 j1 = (n2, l, j2)" by (rule prod_cases3)
    obtain bs w' where b: "view j2 = (s @ [?c], Idle ?q, a @ answer ?q, w')" "answer ?q = bs @ w'"
        "n2 = int (length bs)" "length bs \<le> 1" "bs = [] \<longrightarrow> answer ?q = []"
      by (rule read_view [OF r v1 zero_less_one])
    then have bs: "bs = [63]" "w' = [10]" using False by (cases bs; simp add: answer_def)+
    let ?k = "say_when (p_verbose p) (ln ''Contacted bootloader!'') j2"
    obtain n3 l' j3 where r': "read_device U fd l 5 ?k = (n3, l', j3)" by (rule prod_cases3)
    have "view ?k = (s @ [?c], Idle ?q, a @ answer ?q, [10])" using b(1) bs by simp
    note this' = this
    obtain bs' w3 where b': "view j3 = (s @ [?c], Idle ?q, a @ answer ?q, w3)" "[10] = bs' @ w3"
        "n3 = int (length bs')" "length bs' \<le> 5" "bs' = [] \<longrightarrow> [10 :: u8] = []"
      by (rule read_view [OF r' this' zero_less_numeral])
    then have "w3 = []" by (cases bs'; simp)
    moreover have "contact_loader U p fd line j = Inr (l', j3)"
      using w r r' b(3) bs False by (simp add: contact_loader_def Let_def)
    ultimately show thesis using that b'(1) by simp
  qed
qed

lemma show_progress_view [simp]: "view (show_progress p j) = view j"
  by (simp add: show_progress_def)

lemma line_answers_True [simp]: "line_answers True k = []"
  by (induction k) (simp_all add: answer_def)

lemma line_answers_False: "line_answers False (Suc k) = [63] @ 10 # line_answers False k"
  by (simp add: answer_def)

lemma upload_line_view:
  assumes "view j = (s, Idle (p_nowait p), a, line_answers (p_nowait p) m)" and "0 \<notin> set cs"
    and "loader_run (Idle (p_nowait p)) cs = (Idle (p_nowait p), line_answers (p_nowait p) (Suc k))"
  obtains line' j' m' where "upload_line U p fd (fill cs line) j = Some (Inr (line', j'))"
    "view j' = (s @ cs, Idle (p_nowait p), a @ line_answers (p_nowait p) (Suc k), line_answers (p_nowait p) m')"
proof -
  let ?q = "p_nowait p"
  let ?j = "send_chars U p fd cs (say_when (p_verbose p) (str ''Write '') j)"
  have tw: "takeWhile (\<lambda>c. c \<noteq> 0) (fill cs line) = cs"
    using assms(2) by (auto simp: fill_def takeWhile_append)
  have "view (say_when (p_verbose p) (str ''Write '') j) = (s, Idle ?q, a, line_answers ?q m)" using assms(1) by simp
  from send_chars_view [OF this] assms(3)
  have v: "view ?j = (s @ cs, Idle ?q, a @ line_answers ?q (Suc k), line_answers ?q m @ line_answers ?q (Suc k))" by simp
  show thesis
  proof (cases ?q)
    case True
    then show thesis
      using v tw by (intro that [of "replicate 1000 0" "show_progress p ?j" 0]) (simp_all add: upload_line_def Let_def answer_def)
  next
    case False
    then have "view ?j = (s @ cs, Idle ?q, a @ line_answers ?q (Suc k), [63] @ 10 # line_answers False (m + k))"
      using v line_answers_add [of False m "Suc k"] line_answers_False [of "m + k"] by simp
    then obtain n l j' where "wait_answer U fd (replicate 1000 0) ?j = Some (n, l, j')" "n \<noteq> 0"
        "view j' = (s @ cs, Idle ?q, a @ line_answers ?q (Suc k), line_answers False (m + k))"
      by (rule wait_answer_view) simp
    then show thesis
      using tw False by (intro that [of l "show_progress p j'" "m + k"]) (simp_all add: upload_line_def Let_def)
  qed
qed

lemma upload_file_view:
  assumes "view j = (s, Idle (p_nowait p), a, line_answers (p_nowait p) m)" and "\<forall>t\<in>set ts. text_line t"
    and "loader_run (Idle (p_nowait p)) (concat ts) = (ph, r)" and "ph \<noteq> Over"
  shows "\<exists>line' j' m'. upload_file U p fd (concat ts) line j = Some (Inr (line', j'))
    \<and> view j' = (s @ concat ts, Idle (p_nowait p), a @ r, line_answers (p_nowait p) m') \<and> ph = Idle (p_nowait p)"
  using assms
proof (induction ts arbitrary: j s a m r line)
  case Nil
  then show ?case by (auto simp: upload_file.simps)
next
  case (Cons t ts)
  let ?q = "p_nowait p"
  obtain cs where t: "t = cs @ [10]" "10 \<notin> set cs" "0 \<notin> set cs" "length t \<le> 997"
    using Cons.prems(2) by (auto simp: text_line_def)
  obtain ph1 r1 where 1: "loader_run (Idle ?q) (cs @ [10]) = (ph1, r1)" by (cases "loader_run (Idle ?q) (cs @ [10])")
  obtain ph2 r2 where 2: "loader_run ph1 (concat ts) = (ph2, r2)" by (cases "loader_run ph1 (concat ts)")
  have r: "r = r1 @ r2" "ph2 = ph" 
    using Cons.prems(3) loader_run_append [of "Idle ?q" t "concat ts"] 1 [folded t(1)] 2 by simp_all
  have "ph1 \<noteq> Over" using 2 r(2) Cons.prems(4) by auto
  from loader_run_line [OF _ 1 this] obtain k where k: "ph1 = Idle ?q" "r1 = line_answers ?q (Suc k)" by auto
  have run: "loader_run (Idle ?q) t = (Idle ?q, line_answers ?q (Suc k))" using 1 k t(1) by simp
  have "0 \<notin> set t" using t by simp
  from upload_line_view [OF Cons.prems(1) this run, of line] obtain l1 j1 m1
    where l: "upload_line U p fd (fill t line) j = Some (Inr (l1, j1))"
      "view j1 = (s @ t, Idle ?q, a @ line_answers ?q (Suc k), line_answers ?q m1)" by blast
  have "\<forall>t\<in>set ts. text_line t" using Cons.prems(2) by simp
  from Cons.IH [OF l(2) this 2 [unfolded k(1) r(2)] Cons.prems(4), of l1] obtain line' j' m'
    where "upload_file U p fd (concat ts) l1 j1 = Some (Inr (line', j'))"
      "view j' = ((s @ t) @ concat ts, Idle ?q, (a @ line_answers ?q (Suc k)) @ r2, line_answers ?q m')" "ph = Idle ?q" by blast
  moreover have "chunk (1000 - 2 - 1) (t @ concat ts) = (t, concat ts)"
    using chunk_line [OF t(2), of "1000 - 2 - 1" "concat ts"] t(1,4) by simp
  moreover obtain c cs' where "t = c # cs'" using t(1) by (metis append_is_Nil_conv list.exhaust not_Cons_self2)
  ultimately show ?case using l(1) r k(2) by (auto simp: upload_file.simps Let_def)
qed

lemma finish_view:
  assumes "view j = (s, Idle (p_nowait p), a, line_answers (p_nowait p) m)"
  shows "\<exists>j'. finish_upload U p fd line j = Some (0, j')
    \<and> sent (j_sys j') = s @ [if p_jump p then 74 else 35]
    \<and> said (j_sys j') = a @ (if p_jump p then answer (p_nowait p) else crlf @ str ''> '')"
proof -
  let ?q = "p_nowait p" and ?mark = "if p_jump p then 74 else 35 :: u8"
  let ?r = "if p_jump p then answer ?q else crlf @ str ''> ''"
  let ?j = "say_when (p_verbose p) (str ''Write '' @ [39, ?mark, 39, 32]) (say_when (\<not> p_quiet p \<and> \<not> p_verbose p) [10] j)"
  obtain n j1 where w: "write_device U fd [?mark] ?j = (n, j1)" by (cases "write_device U fd [?mark] ?j")
  have "view ?j = (s, Idle ?q, a, line_answers ?q m)" using assms by simp
  from write_view [OF w this] have v: "view j1 = (s @ [?mark], Over, a @ ?r, line_answers ?q m @ ?r)" by simp
  show ?thesis
  proof (cases ?q)
    case True
    with v w show ?thesis
      by (auto simp: finish_upload_def Let_def close_device_def close view_def say_when_def say_out_def)
  next
    case False
    obtain u w' where u: "line_answers ?q m @ ?r = u @ 10 # w'" "10 \<notin> set u"
    proof (cases m)
      case 0
      then show thesis using False that [of "[63]" "[]"] that [of "[13]" "str ''> ''"] by (cases "p_jump p") (simp_all add: answer_def)
    next
      case (Suc k)
      then show thesis using False that [of "[63]" "line_answers False k @ ?r"] line_answers_False [of k] by simp
    qed
    then have "view j1 = (s @ [?mark], Over, a @ ?r, u @ 10 # w')" using v by simp
    then obtain n2 l j2 where "wait_answer U fd line j1 = Some (n2, l, j2)" "n2 \<noteq> 0" "view j2 = (s @ [?mark], Over, a @ ?r, w')"
      by (rule wait_answer_view) (rule u(2))
    with False w show ?thesis
      by (auto simp: finish_upload_def Let_def close_device_def close view_def say_when_def say_out_def)
  qed
qed

end

context loader
begin

lemma transfer_view:
  assumes "view j = (s, Reset, a, [])" and "\<not> p_sendbreak p" and "\<forall>t\<in>set ts. text_line t"
    and "loader_run (Idle (p_nowait p)) (concat ts) = (ph, r)" and "ph \<noteq> Over"
  shows "\<exists>j'. transfer_file U p fd (concat ts) j = Some (0, j')
    \<and> sent (j_sys j') = s @ [if p_nowait p then 36 else 33] @ concat ts @ [if p_jump p then 74 else 35]
    \<and> said (j_sys j') = a @ answer (p_nowait p) @ r
        @ (if p_jump p then answer (p_nowait p) else crlf @ str ''> '')"
proof -
  obtain l1 j1 where 1: "contact_loader U p fd (replicate 1000 0) j = Inr (l1, j1)"
      "view j1 = (s @ [if p_nowait p then 36 else 33], Idle (p_nowait p), a @ answer (p_nowait p), [])"
    by (rule contact_view [OF assms(1)])
  have "view j1 = (s @ [if p_nowait p then 36 else 33], Idle (p_nowait p), a @ answer (p_nowait p), line_answers (p_nowait p) 0)"
    using 1(2) by simp
  from upload_file_view [OF this assms(3-5), of l1] obtain l2 j2 m
    where 2: "upload_file U p fd (concat ts) l1 j1 = Some (Inr (l2, j2))"
      "view j2 = ((s @ [if p_nowait p then 36 else 33]) @ concat ts, Idle (p_nowait p), (a @ answer (p_nowait p)) @ r,
        line_answers (p_nowait p) m)" by blast
  from finish_view [OF 2(2), of l2] 1 2 assms(2) show ?thesis
    by (auto simp: transfer_file_def send_break_def)
qed

text \<open>A device that does not answer: one character has been sent.\<close>

lemma silent_transfer:
  assumes "view j = (s, Over, a, [])" and "\<not> p_sendbreak p" and "\<not> p_nowait p"
  shows "\<exists>j'. transfer_file U p fd cs j = Some (6, j') \<and> sent (j_sys j') = s @ [33] \<and> said (j_sys j') = a
    \<and> (\<exists>t. j_out j' = t @ ln ''Cannot contact bootloader!'' @ closed_terminal)"
proof -
  let ?j = "say_when (p_verbose p) (str ''Sending '' @ [39, 33, 39] @ str ''... '') j"
  obtain n j1 where w: "write_device U fd [33] ?j = (n, j1)" by (cases "write_device U fd [33] ?j")
  have "view ?j = (s, Over, a, [])" using assms(1) by simp
  from write_view [OF w this] have v1: "view j1 = (s @ [33], Over, a, [])" by simp
  obtain n2 l j2 where r: "read_device U fd (replicate 1000 0) 1 j1 = (n2, l, j2)" by (rule prod_cases3)
  obtain bs w' where "view j2 = (s @ [33], Over, a, w')" "[] = bs @ w'" "n2 = int (length bs)"
    by (rule read_view [OF r v1 zero_less_one])
  then have "n2 = 0" "view j2 = (s @ [33], Over, a, [])" by simp_all
  with w r assms(2,3) show ?thesis
    by (auto simp: transfer_file_def send_break_def contact_loader_def Let_def close_device_def view_def say_out_def close)
qed

text \<open>A file whose last line does not end: the bootloader goes on reading, and so does not answer.\<close>

lemma chunk_rest: "10 \<notin> set a \<Longrightarrow> length a \<le> n \<Longrightarrow> chunk n a = (a, [])"
proof (induction a arbitrary: n)
  case Nil
  then show ?case by (cases n) auto
next
  case (Cons c a)
  then show ?case by (cases n) auto
qed

lemma loader_run_open: "10 \<notin> set cs \<Longrightarrow> loader_run (Inside q) cs = (Inside q, [])"
  by (induction cs) auto

lemma open_line_view:
  assumes "view j = (s, Idle False, a, [])" and "\<not> p_nowait p" and "10 \<notin> set cs" "0 \<notin> set cs" "length cs < 997"
  shows "\<exists>j'. upload_file U p fd (83 # cs) line j = Some (Inl (8, j')) \<and> sent (j_sys j') = s @ 83 # cs
    \<and> said (j_sys j') = a"
proof -
  have c: "chunk (1000 - 2 - 1) (83 # cs) = (83 # cs, [])"
    using chunk_rest [of "83 # cs" "1000 - 2 - 1"] assms(3,5) by simp
  have tw: "takeWhile (\<lambda>c. c \<noteq> 0) (fill (83 # cs) line) = 83 # cs"
    using assms(4) by (auto simp: fill_def takeWhile_append)
  let ?j = "send_chars U p fd (83 # cs) (say_when (p_verbose p) (str ''Write '') j)"
  have "view (say_when (p_verbose p) (str ''Write '') j) = (s, Idle False, a, [])" using assms(1) by simp
  from send_chars_view [OF this, of p "83 # cs"] loader_run_open [OF assms(3)]
  have "view ?j = (s @ 83 # cs, Inside False, a, [])" by simp
  then obtain l j1 where "wait_answer U fd (replicate 1000 0) ?j = Some (0, l, j1)"
      "view j1 = (s @ 83 # cs, Inside False, a, [])" by (rule wait_nothing) simp_all
  then show ?thesis
    using c tw assms(2)
    by (auto simp: upload_file.simps upload_line_def Let_def close_device_def view_def say_out_def close simp del: send_chars.simps)
qed

end

text \<open>What the bootloader answers to lines of the format.\<close>

definition whole :: "line \<Rightarrow> bool" where
  "whole l \<longleftrightarrow> 10 \<notin> set (butlast (line_chars l))"

lemma loader_run_record:
  assumes "line_ok limit l" and "whole l"
  shows "loader_run (Idle q) (line_chars l) = (Idle q, answer q)"
proof (cases l)
  case (Skip c)
  then show ?thesis using assms(1) by simp
next
  case (Data w n a ds rest)
  then show ?thesis
    using assms(2) loader_run_inside [of "word_of_nat (47 + w) # n @ a @ concat ds @ rest" q]
    by (simp add: whole_def butlast_append)
next
  case (End w n a rest)
  then show ?thesis
    using assms(2) loader_run_inside [of "word_of_nat (59 - w) # n @ a @ rest" q] by (simp add: whole_def butlast_append)
next
  case (Other c rest)
  then show ?thesis
    using assms(2) loader_run_inside [of "c # rest" q] by (simp add: whole_def butlast_append)
qed

lemma loader_run_records:
  "\<forall>l\<in>set ls. line_ok limit l \<and> whole l \<Longrightarrow>
    loader_run (Idle q) (concat (map line_chars ls)) = (Idle q, line_answers q (length ls))"
  by (induction ls) (auto simp: loader_run_append loader_run_record)

section \<open>A serial line to the bootloader\<close>

text \<open>What has been sent over it, what the bootloader has said, and what of that has not been read. A call that
  reads gets some of it, \<open>l_piece\<close> decides how much; without anything to read it times out.\<close>

record link =
  l_phase :: phase
  l_sent :: "u8 list"
  l_said :: "u8 list"
  l_waiting :: "u8 list"
  l_piece :: "nat \<Rightarrow> nat"

definition link_write :: "int \<Rightarrow> u8 list \<Rightarrow> link \<Rightarrow> int \<times> link" where
  "link_write fd bs d =
     (let (ph, a) = loader_run (l_phase d) bs
      in (int (length bs), d \<lparr> l_phase := ph, l_sent := l_sent d @ bs, l_said := l_said d @ a,
            l_waiting := l_waiting d @ a \<rparr>))"

definition link_read :: "int \<Rightarrow> nat \<Rightarrow> link \<Rightarrow> int \<times> u8 list \<times> link" where
  "link_read fd k d =
     (let k = min k (Suc (l_piece d (length (l_waiting d)))); bs = take k (l_waiting d)
      in (int (length bs), bs, d \<lparr> l_waiting := drop k (l_waiting d) \<rparr>))"

definition link_unix :: "link unix \<Rightarrow> link unix" where
  "link_unix U = U \<lparr> open_file := (\<lambda>name d. (3, d)), read_file_descr := link_read, write_file_descr := link_write,
     close_file_descr := (\<lambda>fd d. d), tcgetattr := (\<lambda>fd d. (fst (tcgetattr U fd d), d)),
     tcsetattr := (\<lambda>fd t d. (fst (tcsetattr U fd t d), d)), tcsendbreak := (\<lambda>fd d. (fst (tcsendbreak U fd d), d)),
     usleep := (\<lambda>t d. d) \<rparr>"

interpretation link: loader "link_unix U" fd l_phase l_sent l_said l_waiting for U fd
proof (unfold_locales, goal_cases)
  case (1 c d n d')
  then show ?case by (auto simp: link_unix_def link_write_def split: prod.splits)
next
  case (2 k d n bs d')
  then show ?case by (auto simp: link_unix_def link_read_def Let_def)
qed (simp_all add: link_unix_def)

lemma link_terminal: "\<exists>r t. change_terminal (link_unix U) fd f c j = (r, say_out t j)"
proof (cases "fst (tcgetattr U fd (j_sys j))")
  case None
  then show ?thesis by (auto simp: change_terminal_def link_unix_def)
next
  case (Some tty)
  have "\<exists>t. j = say_out t j" by (rule exI [of _ "[]"]) (simp add: say_out_def)
  with Some show ?thesis by (auto simp: change_terminal_def link_unix_def Let_def)
qed

lemma link_opened: "\<exists>t. set_com_params (link_unix U) fd speed tim j = (True, say_out t j)"
proof -
  obtain r t where 1: "set_interface_attribs (link_unix U) fd speed 0 j = (r, say_out t j)"
    unfolding set_interface_attribs_def using link_terminal by blast
  obtain r' t' where "set_blocking (link_unix U) fd False tim (say_out t j) = (r', say_out t' (say_out t j))"
    unfolding set_blocking_def using link_terminal by blast
  with 1 show ?thesis by (auto simp: set_com_params_def say_out_def intro!: exI [of _ "t @ t'"])
qed

text \<open>The program up to the transfer.\<close>

definition start_options :: "'h unix \<Rightarrow> (u8 \<times> u8 list) list \<Rightarrow> upload_options \<Rightarrow> bool" where
  "start_options U opts p \<longleftrightarrow> parse_options (upload_option U) opts (upload_defaults U) = Some p
     \<and> \<not> p_list p \<and> \<not> p_sendbreak p"

lemma upload_start:
  assumes "start_options (link_unix U) opts p" "argc \<noteq> 1" "file name = Some text"
  shows "\<exists>j. j_sys j = d \<and> upload (link_unix U) argc opts (name # names) file d = transfer_file (link_unix U) p 3 text j"
proof -
  let ?j = "say_when (p_verbose p) (str ''Serial port is: '' @ p_portname p @ [10])
    (say_when (p_verbose p) (ln ''upload v0.4.1'') \<lparr> j_out = [], j_err = [], j_sys = d \<rparr>)"
  obtain t where t: "set_com_params (link_unix U) 3 (p_baudrate p) (p_timeout p) ?j = (True, say_out t ?j)"
    using link_opened [of U 3 "p_baudrate p" "p_timeout p" ?j] by (elim exE)
  have "open_device (link_unix U) name j = (3, j)" for name j
    by (simp add: open_device_def link_unix_def)
  with t assms have "upload (link_unix U) argc opts (name # names) file d
      = transfer_file (link_unix U) p 3 text (say_out t ?j)"
    by (simp add: upload_def start_options_def INVALID_HANDLE_VALUE_def Let_def)
  then show ?thesis by (intro exI [of _ "say_out t ?j"]) (simp add: say_out_def say_when_def)
qed

definition fresh :: "link \<Rightarrow> bool" where
  "fresh d \<longleftrightarrow> l_phase d = Reset \<and> l_sent d = [] \<and> l_said d = [] \<and> l_waiting d = []"

section \<open>From the file to memory\<close>

text \<open>C36. The two programs together. The uploader, started with \<^verbatim>\<open>-r\<close> on a file of S-records, ends with status 0;
  and a bootloader that is given what it has sent leaves exactly the bytes of the file in memory, starts the
  application at the address of the last end record, and has said what the uploader has seen it say.\<close>

theorem upload_reaches_memory:
  assumes "start_options (link_unix U) opts p" "p_jump p" "argc \<noteq> 1" "file name = Some (concat (map line_chars ls))"
    and "\<forall>l\<in>set ls. line_ok IO_BASE l \<and> whole l"
    and "concat (map line_chars ls) = concat ts" "\<forall>t\<in>set ts. text_line t"
    and "fresh d"
  shows "\<exists>j. upload (link_unix U) argc opts (name # names) file d = Some (0, j)
    \<and> (\<forall>s later. uart_ready s \<longrightarrow> uart_inp (uart1 s) = l_sent (j_sys j) @ later \<longrightarrow>
        returns (boot_upload soc_bus (\<lambda>a u. Some u) a0 s) (\<lambda>(a, v). a = foldl line_start a0 ls
          \<and> mem v = fold line_store ls (mem s) \<and> u_sent (uart1 v) = u_sent (uart1 s) @ l_said (j_sys j)))"
proof -
  let ?q = "p_nowait p" and ?c = "if p_nowait p then 36 else 33 :: u8"
  obtain j0 where j0: "j_sys j0 = d"
      "upload (link_unix U) argc opts (name # names) file d = transfer_file (link_unix U) p 3 (concat ts) j0"
    using upload_start [of U opts p argc "file" name _ d names, OF assms(1,3,4)] assms(6) by metis
  have run: "loader_run (Idle ?q) (concat ts) = (Idle ?q, line_answers ?q (length ls))"
    using loader_run_records [OF assms(5), of ?q] assms(6) by simp
  have "link.view j0 = ([], Reset, [], [])" using j0(1) assms(8) by (simp add: link.view_def fresh_def)
  from link.transfer_view [OF this _ assms(7) run, where U = U and fd = 3] assms(1,2) obtain j
    where j: "transfer_file (link_unix U) p 3 (concat ts) j0 = Some (0, j)"
      "l_sent (j_sys j) = ?c # concat ts @ [74]" "l_said (j_sys j) = answer ?q @ line_answers ?q (length ls) @ answer ?q"
    by (auto simp: start_options_def)
  have said: "l_said (j_sys j) = concat (replicate (length ls + 2) (answer ?q))"
    using j(3) line_answers_add [of ?q "Suc (length ls)" 1] by (simp add: line_answers_def)
  have "returns (boot_upload soc_bus (\<lambda>a u. Some u) a0 s) (\<lambda>(a, v). a = foldl line_start a0 ls
          \<and> mem v = fold line_store ls (mem s) \<and> u_sent (uart1 v) = u_sent (uart1 s) @ l_said (j_sys j))"
    if "uart_ready s" "uart_inp (uart1 s) = l_sent (j_sys j) @ later" for s later
  proof (rule soc_board.boot_upload_jump [OF that(1), of ?c ls later])
    show "\<forall>l\<in>set ls. line_ok IO_BASE l" using assms(5) by blast
    show "uart_inp (uart1 s) = ?c # concat (map line_chars ls) @ 74 # later" using that(2) j(2) assms(6) by simp
    show "?c = 33 \<or> ?c = 36" by simp
    fix u
    assume "soc_board.started (fold line_store ls (mem s))
      (u_sent (uart1 s) @ concat (replicate (length ls + 2) (answer (?c = 36)))) u"
    moreover have "(?c = 36) = ?q" by simp
    ultimately have u: "u_shift (uart1 u) = None" "mem u = fold line_store ls (mem s)"
        "u_sent (uart1 u) = u_sent (uart1 s) @ l_said (j_sys j)"
      unfolding soc_started said by simp_all
    have "u_sent (uart_tick (uart1 u)) = u_sent (uart1 u)" using uart_tick_cases(3) [OF u(1)] by simp
    with u show "returns (Some u) (\<lambda>v. case (foldl line_start a0 ls, st32 soc_bus GPIOA_POUT 0xaa v) of (a, v) \<Rightarrow>
        a = foldl line_start a0 ls \<and> mem v = fold line_store ls (mem s)
        \<and> u_sent (uart1 v) = u_sent (uart1 s) @ l_said (j_sys j))"
      by (simp add: soc_gpio)
  qed
  with j0(2) j(1) show ?thesis by auto
qed

text \<open>When nothing answers, the uploader sends one character, nothing of the file, says so and ends with
  status 6.\<close>

theorem upload_without_bootloader:
  assumes "start_options (link_unix U) opts p" "\<not> p_nowait p" "argc \<noteq> 1" "file name = Some text"
    and "l_phase d = Over" "l_sent d = []" "l_waiting d = []"
  shows "\<exists>j. upload (link_unix U) argc opts (name # names) file d = Some (6, j) \<and> l_sent (j_sys j) = [33]
    \<and> (\<exists>t. j_out j = t @ ln ''Cannot contact bootloader!'' @ closed_terminal)"
proof -
  obtain j0 where j0: "j_sys j0 = d"
      "upload (link_unix U) argc opts (name # names) file d = transfer_file (link_unix U) p 3 text j0"
    using upload_start [of U opts p argc "file" name _ d names, OF assms(1,3,4)] by metis
  have "link.view j0 = ([], Over, l_said d, [])" using j0(1) assms(5-7) by (simp add: link.view_def)
  from link.silent_transfer [OF this, where U = U and fd = 3 and p = p and cs = "text"] assms(1,2) j0(2) show ?thesis
    by (auto simp: start_options_def)
qed

text \<open>When the last line of the file has no line feed the bootloader goes on reading and does not answer: the
  uploader ends with status 8 and does not start the application.\<close>

theorem upload_unfinished_line:
  assumes "start_options (link_unix U) opts p" "\<not> p_nowait p" "argc \<noteq> 1" "file name = Some (83 # cs)"
    and "10 \<notin> set cs" "0 \<notin> set cs" "length cs < 997" and "fresh d"
  shows "\<exists>j. upload (link_unix U) argc opts (name # names) file d = Some (8, j) \<and> l_sent (j_sys j) = [33, 83] @ cs
    \<and> l_said (j_sys j) = [63, 10]"
proof -
  obtain j0 where j0: "j_sys j0 = d"
      "upload (link_unix U) argc opts (name # names) file d = transfer_file (link_unix U) p 3 (83 # cs) j0"
    using upload_start [of U opts p argc "file" name _ d names, OF assms(1,3,4)] by metis
  have "link.view j0 = ([], Reset, [], [])" using j0(1) assms(8) by (simp add: link.view_def fresh_def)
  then obtain l1 j1 where 1: "contact_loader (link_unix U) p 3 (replicate 1000 0) j0 = Inr (l1, j1)"
      "link.view j1 = ([] @ [if p_nowait p then 36 else 33], Idle (p_nowait p), [] @ answer (p_nowait p), [])"
    by (rule link.contact_view)
  have "link.view j1 = ([33], Idle False, [63, 10], [])" using 1(2) assms(2) by (simp add: answer_def)
  from link.open_line_view [OF this assms(2,5-7), where U = U and fd = 3 and line = l1] 1(1) j0(2) assms(1) show ?thesis
    by (auto simp: transfer_file_def send_break_def start_options_def)
qed


section \<open>A device that fails\<close>

text \<open>When \<^verbatim>\<open>read\<close> fails it returns -1, which is neither 0 nor a character.\<close>

lemma wait_fails:
  assumes "\<And>fd k h. \<exists>h'. read_file_descr U fd k h = (- 1, [], h')" and "line ! 0 \<noteq> 10"
  shows "wait_answer U fd line j = None"
proof (rule ccontr)
  assume "wait_answer U fd line j \<noteq> None"
  then obtain r where r: "wait_answer U fd line j = Some r" by blast
  have "U = U \<longrightarrow> line ! 0 = 10"
  proof (rule wait_answer.raw_induct [OF _ r, where P = "\<lambda>U' fd line j r. U' = U \<longrightarrow> line ! 0 = 10"])
    fix loop U' fd line j r
    assume IH: "\<And>U' fd line j r. loop U' fd line j = Some r \<Longrightarrow> U' = U \<longrightarrow> line ! 0 = 10"
      and eq: "(let (n, line, j) = read_device U' fd line 1 j
        in if n = 0 then Some (n, line, j) else if line ! 0 = 10 then Some (n, line, j) else loop U' fd line j) = Some r"
    show "U' = U \<longrightarrow> line ! 0 = 10"
    proof
      assume U: "U' = U"
      obtain h' where "read_file_descr U fd 1 (j_sys j) = (- 1, [], h')" using assms(1) by blast
      with U have "read_device U' fd line 1 j = (- 1, line, j \<lparr> j_sys := h' \<rparr>)" by (simp add: read_device_def)
      with eq IH [of U' fd line "j \<lparr> j_sys := h' \<rparr>" r] U show "line ! 0 = 10" by (auto split: if_splits)
    qed
  qed
  with assms(2) show False by simp
qed

text \<open>C37. When the device fails to read, as one that has been taken away does, the uploader never ends: it takes
  the -1 for a character.\<close>

theorem upload_hangs:
  assumes "start_options U opts p" "\<not> p_nowait p" "argc \<noteq> 1" "file name = Some (c # cs)"
    and "\<And>t h. 0 \<le> fst (open_file U t h)" "\<And>fd k h. \<exists>h'. read_file_descr U fd k h = (- 1, [], h')"
  shows "upload U argc opts (name # names) file d = None"
proof -
  have op: "fst (open_device U t j) \<noteq> INVALID_HANDLE_VALUE" for t j
    using assms(5) [of t "j_sys j"] by (auto simp: open_device_def INVALID_HANDLE_VALUE_def split: prod.splits)
  have rd: "fst (read_device U fd line k j) = - 1" for fd line k j
    using assms(6) [of fd k "j_sys j"] by (auto simp: read_device_def)
  have line: "upload_file U p fd (c # cs) line j = None" for fd line j
    using assms(2) wait_fails [OF assms(6), of "replicate 1000 0"]
    by (simp add: upload_file.simps upload_line_def Let_def split: prod.split)
  have "transfer_file U p fd (c # cs) j = None" for fd j
  proof -
    let ?j = "say_when (p_verbose p) (str ''Sending '' @ [39, 33, 39] @ str ''... '') j"
    obtain n j1 where w: "write_device U fd [33] ?j = (n, j1)" by (cases "write_device U fd [33] ?j")
    obtain n2 l j2 where r: "read_device U fd (replicate 1000 0) 1 j1 = (n2, l, j2)" by (rule prod_cases3)
    then have "n2 = - 1" using rd [of fd "replicate 1000 0" 1 j1] by simp
    moreover obtain n3 l' j3 where
      "read_device U fd l 5 (say_when (p_verbose p) (ln ''Contacted bootloader!'') j2) = (n3, l', j3)" by (rule prod_cases3)
    ultimately have "contact_loader U p fd (replicate 1000 0) j = Inr (l', j3)"
      using w r assms(2) by (simp add: contact_loader_def Let_def)
    then show ?thesis using line assms(1) by (simp add: transfer_file_def send_break_def start_options_def)
  qed
  moreover have "fst (set_com_params U fd v t j)" for fd v t j by (simp add: set_com_params_def Let_def split: prod.split)
  ultimately show ?thesis
    using assms(1,3,4) op by (simp add: upload_def start_options_def Let_def split: prod.split) (metis fst_conv)
qed

section \<open>Witnesses\<close>

definition demo_unix :: "link unix" where
  "demo_unix = \<lparr> open_file = (\<lambda>t d. (3, d)), read_file_descr = (\<lambda>fd k d. (- 1, [], d)),
     write_file_descr = (\<lambda>fd bs d. (- 1, d)), close_file_descr = (\<lambda>fd d. d),
     tcgetattr = (\<lambda>fd d. (Some \<lparr> c_iflag = 0, c_oflag = 0, c_cflag = 0, c_lflag = 0, c_cc = (\<lambda>_. 0),
       c_ispeed = 0, c_ospeed = 0 \<rparr>, d)), tcsetattr = (\<lambda>fd t d. (0, d)), tcsendbreak = (\<lambda>fd d. (0, d)),
     usleep = (\<lambda>t d. d), errno_of = (\<lambda>d. 5), cfsetospeed = (\<lambda>v t. t \<lparr> c_ospeed := v \<rparr>),
     cfsetispeed = (\<lambda>v t. t \<lparr> c_ispeed := v \<rparr>), CSIZE = 0x30, CS8 = 0x30, IGNBRK = 1, IXON = 0x400,
     IXOFF = 0x1000, IXANY = 0x800, CLOCAL = 0x800, CREAD = 0x80, PARENB = 0x100, PARODD = 0x200,
     CSTOPB = 0x40, CRTSCTS = 0x80000000, VMIN = 6, VTIME = 5, B9600 = 13, B115200 = 0x1002, B230400 = 0x1003 \<rparr>"

definition demo_link :: "phase \<Rightarrow> link" where
  "demo_link ph = \<lparr> l_phase = ph, l_sent = [], l_said = [], l_waiting = [], l_piece = (\<lambda>n. 1) \<rparr>"

definition demo_options :: upload_options where
  "demo_options = (upload_defaults demo_unix) \<lparr> p_jump := True \<rparr>"

lemma demo_started: "start_options (link_unix demo_unix) [(114, [])] demo_options" "start_options demo_unix [(114, [])] demo_options"
  by (simp_all add: start_options_def demo_options_def upload_defaults_def link_unix_def upload_option_def ch_def)

lemma demo_waits: "p_jump demo_options" "\<not> p_nowait demo_options"
  by (simp_all add: demo_options_def upload_defaults_def)

definition demo_records :: "line list" where
  "demo_records = [Data 2 [48, 53] [48, 49, 48, 48] [[52, 65], [52, 66]] [48, 48, 13],
     End 2 [48, 51] [48, 49, 48, 49] [13]]"

theorem upload_reaches_memory_witness:
  "\<exists>j. upload (link_unix demo_unix) 3 [(114, [])] [[102]] (\<lambda>_. Some (concat (map line_chars demo_records)))
      (demo_link Reset) = Some (0, j)
    \<and> returns (boot_upload soc_bus (\<lambda>a u. Some u) 0 (demo (l_sent (j_sys j)))) (\<lambda>(a, v). a = 0x101 \<and> mem v 0x101 = 0x4b)"
proof -
  have ok: "\<forall>l\<in>set demo_records. line_ok IO_BASE l \<and> whole l"
    by (auto simp: demo_records_def whole_def IO_BASE_def hexnum_def hexval_def isdigit_def isxdigit_def
      tolower_def addr_of_def byte_of_def less_Suc_eq)
  have ts: "\<forall>t\<in>set (map line_chars demo_records). text_line t"
    by (auto simp: demo_records_def text_line_def)
  have "fresh (demo_link Reset)" by (simp add: fresh_def demo_link_def)
  from upload_reaches_memory [OF demo_started(1) demo_waits(1) _ _ ok _ ts this, of 3
      "\<lambda>_. Some (concat (map line_chars demo_records))" "[102]" "[]" 0]
  obtain j where j: "upload (link_unix demo_unix) 3 [(114, [])] [[102]] (\<lambda>_. Some (concat (map line_chars demo_records)))
      (demo_link Reset) = Some (0, j)"
    "\<And>s later. uart_ready s \<Longrightarrow> uart_inp (uart1 s) = l_sent (j_sys j) @ later \<Longrightarrow>
      returns (boot_upload soc_bus (\<lambda>a u. Some u) 0 s) (\<lambda>(a, v). a = foldl line_start 0 demo_records
          \<and> mem v = fold line_store demo_records (mem s) \<and> u_sent (uart1 v) = u_sent (uart1 s) @ l_said (j_sys j))"
    by auto
  have "returns (boot_upload soc_bus (\<lambda>a u. Some u) 0 (demo (l_sent (j_sys j)))) (\<lambda>(a, v). a = 0x101 \<and> mem v 0x101 = 0x4b)"
    by (rule returns_mono [OF j(2) [of _ "[]"]])
      (auto simp: demo_def demo_records_def addr_of_def byte_of_def hexnum_def hexval_def isdigit_def isxdigit_def tolower_def)
  with j(1) show ?thesis by blast
qed

theorem upload_without_bootloader_witness:
  "\<exists>j. upload (link_unix demo_unix) 3 [(114, [])] [[102]] (\<lambda>_. Some [83, 57]) (demo_link Over) = Some (6, j)
    \<and> l_sent (j_sys j) = [33]"
  using upload_without_bootloader [OF demo_started(1) demo_waits(2), of 3 "\<lambda>_. Some [83, 57]" "[102]" "[83, 57]" "demo_link Over" "[]"]
  by (auto simp: demo_link_def)

theorem upload_unfinished_line_witness:
  "\<exists>j. upload (link_unix demo_unix) 3 [(114, [])] [[102]] (\<lambda>_. Some [83, 57]) (demo_link Reset) = Some (8, j)
    \<and> l_sent (j_sys j) = [33, 83, 57]"
  using upload_unfinished_line [OF demo_started(1) demo_waits(2), of 3 "\<lambda>_. Some [83, 57]" "[102]" "[57]" "demo_link Reset" "[]"]
  by (auto simp: demo_link_def fresh_def)

theorem upload_hangs_witness:
  "upload demo_unix 3 [(114, [])] [[102]] (\<lambda>_. Some [83, 57]) (demo_link Reset) = None"
  by (rule upload_hangs [OF demo_started(2) demo_waits(2)]) (simp_all add: demo_unix_def)

end
