(* ===== verification/Diskio.thy ===== *)
theory Diskio
  imports Soc
begin

text \<open>
  The functions that the FatFs library asks for, \<^verbatim>\<open>sw/fatfs/diskio.c\<close>, over the SD card driver, as compiled
  without \<^verbatim>\<open>DISKIO_DEBUG\<close>: a contract of a card that keeps its sectors, a card that fulfils it, and what
  reading and writing a run of sectors does on such a card.
\<close>

section \<open>The functions\<close>

definition DEV_MMC :: u8 where "DEV_MMC = 0"

datatype DRESULT = RES_OK | RES_ERROR | RES_WRPRT | RES_NOTRDY | RES_PARERR

definition STA_NOINIT :: u8 where "STA_NOINIT = 0x01"
definition STA_NODISK :: u8 where "STA_NODISK = 0x02"

definition disk_status :: "u8 \<Rightarrow> sd_card \<Rightarrow> u8" where
  "disk_status pdrv st =
     (if pdrv = DEV_MMC then (if SD_getstatus st = 1 then 0 else STA_NODISK) else STA_NOINIT)"

text \<open>\<open>csdcid\<close> is the local array of \<^verbatim>\<open>SD_initialize\<close>.\<close>

definition disk_initialize :: "'d bus \<Rightarrow> u8 list \<Rightarrow> u8 \<Rightarrow> sd_card \<Rightarrow> 'd \<Rightarrow> (u8 \<times> sd_card \<times> 'd) option" where
  "disk_initialize b csdcid pdrv st s =
     (if pdrv = DEV_MMC then
        do { (e, st, s) \<leftarrow> SD_initialize b csdcid st s;
             Some (if e = SD_ERROR then STA_NODISK else 0, st, s) }
      else Some (STA_NOINIT, st, s))"

text \<open>\<^verbatim>\<open>for (uint32_t i = 0; i < count; i++)\<close>, with the turns left; \<open>buff\<close> is the array from the pointer on.\<close>

fun disk_read_loop :: "'d bus \<Rightarrow> sd_card \<Rightarrow> nat \<Rightarrow> u8 list \<Rightarrow> u32 \<Rightarrow> 'd \<Rightarrow> (DRESULT \<times> u8 list \<times> 'd) option" where
  "disk_read_loop b st 0 buff sector s = Some (RES_OK, buff, s)"
| "disk_read_loop b st (Suc k) buff sector s =
     do { (ret, buff, s) \<leftarrow> SD_readsector b st sector buff s;
          if ret = SD_ERROR then Some (RES_ERROR, buff, s)
          else
            do { let n = unat (SD_getsectorsize st);
                 (r, rest, s) \<leftarrow> disk_read_loop b st k (drop n buff) (sector + 1) s;
                 Some (r, take n buff @ rest, s) } }"

fun disk_write_loop :: "'d bus \<Rightarrow> sd_card \<Rightarrow> nat \<Rightarrow> u8 list \<Rightarrow> u32 \<Rightarrow> 'd \<Rightarrow> (DRESULT \<times> 'd) option" where
  "disk_write_loop b st 0 buff sector s = Some (RES_OK, s)"
| "disk_write_loop b st (Suc k) buff sector s =
     do { (ret, s) \<leftarrow> SD_writesector b st sector buff s;
          if ret = SD_ERROR then Some (RES_ERROR, s)
          else disk_write_loop b st k (drop (unat (SD_getsectorsize st)) buff) (sector + 1) s }"

definition disk_read ::
    "'d bus \<Rightarrow> sd_card \<Rightarrow> u8 \<Rightarrow> u8 list \<Rightarrow> u32 \<Rightarrow> u32 \<Rightarrow> 'd \<Rightarrow> (DRESULT \<times> u8 list \<times> 'd) option" where
  "disk_read b st pdrv buff sector count s =
     (if pdrv = DEV_MMC then disk_read_loop b st (unat count) buff sector s else Some (RES_PARERR, buff, s))"

definition disk_write ::
    "'d bus \<Rightarrow> sd_card \<Rightarrow> u8 \<Rightarrow> u8 list \<Rightarrow> u32 \<Rightarrow> u32 \<Rightarrow> 'd \<Rightarrow> (DRESULT \<times> 'd) option" where
  "disk_write b st pdrv buff sector count s =
     (if pdrv = DEV_MMC then disk_write_loop b st (unat count) buff sector s else Some (RES_PARERR, s))"

definition disk_ioctl :: "u8 \<Rightarrow> u8 \<Rightarrow> DRESULT" where
  "disk_ioctl pdrv cmd = (if pdrv = DEV_MMC then RES_PARERR else RES_PARERR)"

section \<open>A card that keeps sectors\<close>

lemma bit_CS_PIN: "bit CS_PIN n \<longleftrightarrow> n = 14"
proof -
  have "bit CS_PIN n \<longleftrightarrow> n < 32 \<and> 14 \<le> n \<and> bit (1 :: u32) (n - 14)"
    unfolding CS_PIN_def by (simp only: bit_push_bit_iff) auto
  then show ?thesis by (auto simp: bit_1_iff)
qed

lemma release_pin: "bit p 14 \<Longrightarrow> (p AND NOT CS_PIN) OR CS_PIN = p" for p :: u32
  by (rule bit_word_eqI) (auto simp: bit_simps bit_CS_PIN)

lemma sector_size: "unat (SD_getsectorsize st) = unat (ocr_sectorsize st)"
  by (simp add: SD_getsectorsize_def unsigned_ucast_eq)

text \<open>What a card promises whose sectors have \<open>sz\<close> bytes: \<open>contents\<close> are its sectors after a history. A read
  sends the sector and changes nothing, a write stores it and nothing else.\<close>

locale sector_store =
  fixes slave :: "(u32 \<times> u8) list \<Rightarrow> u32 \<times> u8 \<Rightarrow> u8"
    and contents :: "(u32 \<times> u8) list \<Rightarrow> u32 \<Rightarrow> u8 list" and sz :: nat
  assumes sized: "length (contents h x) = sz"
    and reads: "bit p 14 \<Longrightarrow> \<exists>n r1 k token. n \<le> 9 \<and> r1 \<le> 1 \<and> k < unat SD_READ_TIMEOUT \<and> token \<noteq> 0xff
      \<and> says slave (p AND NOT CS_PIN) (h @ sd_head p 17 x 0xff)
          (replicate n 0xff @ [r1] @ replicate k 0xff @ [token] @ contents h x)
      \<and> contents (h @ sd_head p 17 x 0xff @ polls (p AND NOT CS_PIN) (n + k + sz + 5) @ [(p, 0xff)]) = contents h"
    and writes: "bit p 14 \<Longrightarrow> length data = sz \<Longrightarrow> \<exists>n r1 k token m busy. n \<le> 9 \<and> r1 \<le> 1 \<and> k < unat SD_WRITE_TIMEOUT
      \<and> token \<noteq> 0xff \<and> token AND 0x1f = 5 \<and> m < unat SD_WRITE_TIMEOUT \<and> busy \<noteq> 0
      \<and> says slave (p AND NOT CS_PIN) (h @ sd_head p 24 x 0xff) (replicate n 0xff @ [r1])
      \<and> says slave (p AND NOT CS_PIN) (h @ sd_write_head p x data n) (replicate k 0xff @ [token] @ replicate m 0 @ [busy])
      \<and> contents (h @ sd_write_head p x data n @ polls (p AND NOT CS_PIN) (k + m + 3) @ [(p, 0xff)])
          = (contents h)(x := data)"
begin

definition parked_card :: "(u32 \<Rightarrow> u8 list) \<Rightarrow> soc \<Rightarrow> bool" where
  "parked_card c s \<longleftrightarrow> spi_ready slave (spi2 s) \<and> bit (io s GPIOA_POUT) 14 \<and> contents (s_sent (spi2 s)) = c"

lemma readsector_stored:
  assumes "parked_card c s" and "unat (ocr_sectorsize st) = sz" and "sz \<le> length buf"
  shows "returns (SD_readsector soc_bus st x buf s) (\<lambda>(e, buf', t).
    e = SD_SUCCESS \<and> buf' = c x @ drop sz buf \<and> parked_card c t \<and> sd_aside t = sd_aside s)"
proof -
  let ?p = "io s GPIOA_POUT" and ?h = "s_sent (spi2 s)"
  have p: "bit ?p 14" and c: "contents ?h = c" using assms(1) by (simp_all add: parked_card_def)
  from reads [OF p, of ?h x] obtain n r1 k token where n: "n \<le> 9" "r1 \<le> 1" "k < unat SD_READ_TIMEOUT" "token \<noteq> 0xff"
    and says: "says slave (?p AND NOT CS_PIN) (?h @ sd_head ?p 17 x 0xff)
          (replicate n 0xff @ [r1] @ replicate k 0xff @ [token] @ contents ?h x)"
    and after: "contents (?h @ sd_head ?p 17 x 0xff @ polls (?p AND NOT CS_PIN) (n + k + sz + 5) @ [(?p, 0xff)]) = contents ?h"
    by blast
  show ?thesis
    by (rule returns_mono [OF soc_sd.readsector_wp [OF _ n _ _ says]])
      (use assms p after sized c in \<open>auto simp: parked_card_def soc_sd.moved_def release_pin\<close>)
qed

lemma writesector_stored:
  assumes "parked_card c s" and "unat (ocr_sectorsize st) = sz" and "length data = sz"
  shows "returns (SD_writesector soc_bus st x (data @ tail) s) (\<lambda>(e, t).
    e = SD_SUCCESS \<and> parked_card (c(x := data)) t \<and> sd_aside t = sd_aside s)"
proof -
  let ?p = "io s GPIOA_POUT" and ?h = "s_sent (spi2 s)"
  have p: "bit ?p 14" and c: "contents ?h = c" using assms(1) by (simp_all add: parked_card_def)
  from writes [OF p assms(3), of ?h x] obtain n r1 k token m busy where n: "n \<le> 9" "r1 \<le> 1" "k < unat SD_WRITE_TIMEOUT"
      "token \<noteq> 0xff" "token AND 0x1f = 5" "m < unat SD_WRITE_TIMEOUT" "busy \<noteq> 0"
    and says: "says slave (?p AND NOT CS_PIN) (?h @ sd_head ?p 24 x 0xff) (replicate n 0xff @ [r1])"
      "says slave (?p AND NOT CS_PIN) (?h @ sd_write_head ?p x data n) (replicate k 0xff @ [token] @ replicate m 0 @ [busy])"
    and after: "contents (?h @ sd_write_head ?p x data n @ polls (?p AND NOT CS_PIN) (k + m + 3) @ [(?p, 0xff)])
          = (contents ?h)(x := data)"
    by blast
  show ?thesis
    by (rule returns_mono [OF soc_sd.writesector_stored_wp [OF _ n _ says]])
      (use assms p after c in \<open>auto simp: parked_card_def soc_sd.moved_def release_pin\<close>)
qed

text \<open>The sectors from \<open>x\<close> on.\<close>

fun sectors :: "(u32 \<Rightarrow> u8 list) \<Rightarrow> nat \<Rightarrow> u32 \<Rightarrow> u8 list" where
  "sectors c 0 x = []"
| "sectors c (Suc k) x = c x @ sectors c k (x + 1)"

lemma read_loop_wp:
  assumes "parked_card c s" and "unat (ocr_sectorsize st) = sz" and "k * sz \<le> length buf"
  shows "returns (disk_read_loop soc_bus st k buf x s) (\<lambda>(r, buf', t). r = RES_OK
    \<and> buf' = sectors c k x @ drop (k * sz) buf \<and> parked_card c t \<and> sd_aside t = sd_aside s)"
  using assms
proof (induction k arbitrary: buf x s)
  case 0
  then show ?case by simp
next
  case (Suc k)
  have size: "unat (SD_getsectorsize st) = sz" using Suc.prems(2) by (simp add: sector_size)
  have len: "length (c x) = sz" using Suc.prems(1) sized by (auto simp: parked_card_def)
  show ?case
    unfolding disk_read_loop.simps returns_bind_iff
  proof (rule returns_mono [OF readsector_stored [OF Suc.prems(1,2), of buf x]])
    show "sz \<le> length buf" using Suc.prems(3) by simp
  next
    fix w
    assume w: "case w of (e, buf', t) \<Rightarrow> e = SD_SUCCESS \<and> buf' = c x @ drop sz buf \<and> parked_card c t \<and> sd_aside t = sd_aside s"
    obtain e buf' t where w': "w = (e, buf', t)" by (cases w)
    with w have t: "e = SD_SUCCESS" "buf' = c x @ drop sz buf" "parked_card c t" "sd_aside t = sd_aside s" by simp_all
    have "k * sz \<le> length (drop sz buf)" using Suc.prems(3) by simp
    from Suc.IH [OF t(3) Suc.prems(2) this, of "x + 1"] obtain rest u where
      "disk_read_loop soc_bus st k (drop sz buf) (x + 1) t = Some (RES_OK, rest, u)"
      "rest = sectors c k (x + 1) @ drop (k * sz) (drop sz buf)" "parked_card c u" "sd_aside u = sd_aside t"
      by (auto simp: returns_ex)
    then show "returns (case w of (ret, buff, s) \<Rightarrow> if ret = SD_ERROR then Some (RES_ERROR, buff, s)
        else let n = unat (SD_getsectorsize st) in disk_read_loop soc_bus st k (drop n buff) (x + 1) s \<bind>
          (\<lambda>(r, rest, s). Some (r, take n buff @ rest, s)))
        (\<lambda>(r, buf', t). r = RES_OK \<and> buf' = sectors c (Suc k) x @ drop (Suc k * sz) buf \<and> parked_card c t
          \<and> sd_aside t = sd_aside s)"
      using t len size w' by (simp add: SD_SUCCESS_def SD_ERROR_def add.commute)
  qed
qed


lemma write_loop_wp:
  assumes "parked_card c s" and "unat (ocr_sectorsize st) = sz" and "length data = k * sz"
    and "k \<le> 2 ^ 32"
  shows "returns (disk_write_loop soc_bus st k (data @ tail) x s) (\<lambda>(r, t). r = RES_OK
    \<and> (\<exists>c'. parked_card c' t \<and> sectors c' k x = data \<and> (\<forall>y. k \<le> unat (y - x) \<longrightarrow> c' y = c y)) \<and> sd_aside t = sd_aside s)"
  using assms
proof (induction k arbitrary: c data x s)
  case 0
  then show ?case by auto
next
  case (Suc k)
  let ?d = "take sz data"
  have size: "unat (SD_getsectorsize st) = sz" using Suc.prems(2) by (simp add: sector_size)
  have len: "length ?d = sz" "data = ?d @ drop sz data" using Suc.prems(3) by simp_all
  have joined: "data @ tail = ?d @ drop sz data @ tail" by (metis append_assoc len(2))
  obtain t where t: "SD_writesector soc_bus st x (data @ tail) s = Some (SD_SUCCESS, t)" "parked_card (c(x := ?d)) t"
      "sd_aside t = sd_aside s"
    using writesector_stored [OF Suc.prems(1,2) len(1), of x "drop sz data @ tail"] by (auto simp: returns_ex joined)
  have "length (drop sz data) = k * sz" "k \<le> 2 ^ 32" using Suc.prems(3,4) by simp_all
  from Suc.IH [OF t(2) Suc.prems(2) this, of "x + 1"] obtain u c' where
    u: "disk_write_loop soc_bus st k (drop sz data @ tail) (x + 1) t = Some (RES_OK, u)" "parked_card c' u"
      "sectors c' k (x + 1) = drop sz data" "\<forall>y. k \<le> unat (y - (x + 1)) \<longrightarrow> c' y = (c(x := ?d)) y" "sd_aside u = sd_aside t"
    by (auto simp: returns_ex)
  have "unat (x - (x + 1)) = 2 ^ 32 - 1" by (simp add: unsigned_minus_1_eq_mask mask_eq_exp_minus_1)
  then have "c' x = ?d" using u(4) Suc.prems(4) by simp
  moreover have "c' y = c y" if y: "Suc k \<le> unat (y - x)" for y
  proof -
    have "y \<noteq> x" using y by auto
    moreover have "unat (y - (x + 1)) = unat (y - x) - 1"
    proof -
      have "y - x \<noteq> 0" using \<open>y \<noteq> x\<close> by simp
      then have "unat (y - x - 1) = unat (y - x) - 1" by (rule unat_minus_one)
      then show ?thesis by (simp add: algebra_simps)
    qed
    ultimately show ?thesis using u(4) y by simp
  qed
  ultimately show ?case
    using t u len size by (auto simp: SD_SUCCESS_def SD_ERROR_def intro!: exI [of _ c'])
qed

end


section \<open>A card\<close>

text \<open>A card that answers at once. While it is not selected it waits for the next command; a command has six bytes,
  the first of which is not \<^verbatim>\<open>0xff\<close>. A read is answered by a zero, the token and the sector; a write by a zero, and
  after the token, the bytes and two more by a token that accepts them.\<close>

datatype card_phase = Listen | Command "u8 list" | Answer "u8 list" | Granted u32 | Await u32 | Accept u32 "u8 list"

record sd_memory =
  stored :: "u32 \<Rightarrow> u8 list"
  card_phase :: card_phase

definition card_arg :: "u8 list \<Rightarrow> u32" where
  "card_arg bs = push_bit 24 (ucast (bs ! 1)) OR push_bit 16 (ucast (bs ! 2)) OR push_bit 8 (ucast (bs ! 3)) OR ucast (bs ! 4)"

definition card_command :: "u8 list \<Rightarrow> sd_memory \<Rightarrow> sd_memory" where
  "card_command bs d =
     (if bs ! 0 = 0x51 then d \<lparr> card_phase := Answer ([0, 0xfe] @ stored d (card_arg bs)) \<rparr>
      else if bs ! 0 = 0x58 then d \<lparr> card_phase := Granted (card_arg bs) \<rparr>
      else d \<lparr> card_phase := Answer [4] \<rparr>)"

definition card_step :: "nat \<Rightarrow> u32 \<times> u8 \<Rightarrow> sd_memory \<Rightarrow> sd_memory" where
  "card_step sz pc d =
     (case pc of (p, c) \<Rightarrow>
      if bit p 14 then d \<lparr> card_phase := Listen \<rparr>
      else case card_phase d of
        Listen \<Rightarrow> d \<lparr> card_phase := (if c = 0xff then Listen else Command [c]) \<rparr>
      | Command bs \<Rightarrow> (if length bs < 5 then d \<lparr> card_phase := Command (bs @ [c]) \<rparr> else card_command (bs @ [c]) d)
      | Answer rs \<Rightarrow> d \<lparr> card_phase := Answer (tl rs) \<rparr>
      | Granted x \<Rightarrow> d \<lparr> card_phase := Await x \<rparr>
      | Await x \<Rightarrow> d \<lparr> card_phase := (if c = 0xfe then Accept x [] else Await x) \<rparr>
      | Accept x bs \<Rightarrow>
          (if length bs < sz + 1 then d \<lparr> card_phase := Accept x (bs @ [c]) \<rparr>
           else d \<lparr> stored := (stored d)(x := take sz bs), card_phase := Answer [5, 1] \<rparr>))"

definition card_out :: "sd_memory \<Rightarrow> u8" where
  "card_out d = (case card_phase d of Answer (r # rs) \<Rightarrow> r | Granted x \<Rightarrow> 0 | _ \<Rightarrow> 0xff)"

definition card_after :: "nat \<Rightarrow> sd_memory \<Rightarrow> (u32 \<times> u8) list \<Rightarrow> sd_memory" where
  "card_after sz d h = fold (card_step sz) h d"

definition card_slave :: "nat \<Rightarrow> sd_memory \<Rightarrow> (u32 \<times> u8) list \<Rightarrow> u32 \<times> u8 \<Rightarrow> u8" where
  "card_slave sz d h pc = (if bit (fst pc) 14 then 0xff else card_out (card_after sz d h))"

text \<open>Sectors have the size of the card.\<close>

definition card_sector :: "nat \<Rightarrow> sd_memory \<Rightarrow> (u32 \<times> u8) list \<Rightarrow> u32 \<Rightarrow> u8 list" where
  "card_sector sz d h x = stored (card_after sz d h) x"

definition well_sized :: "nat \<Rightarrow> sd_memory \<Rightarrow> bool" where
  "well_sized sz d \<longleftrightarrow> (\<forall>x. length (stored d x) = sz)
     \<and> (case card_phase d of Accept x bs \<Rightarrow> length bs \<le> sz + 1 | _ \<Rightarrow> True)"

lemma card_step_sized: "well_sized sz d \<Longrightarrow> well_sized sz (card_step sz pc d)"
  by (cases pc) (auto simp: well_sized_def card_step_def card_command_def split: card_phase.splits if_splits)

lemma card_after_sized: "well_sized sz d \<Longrightarrow> well_sized sz (card_after sz d h)"
  unfolding card_after_def by (induction h arbitrary: d) (auto intro: card_step_sized)

lemma card_after_append [simp]: "card_after sz d (h @ h') = card_after sz (card_after sz d h) h'"
  by (simp add: card_after_def)

lemma card_after_simps [simp]:
  "card_after sz d [] = d" "card_after sz d (pc # h) = card_after sz (card_step sz pc d) h"
  by (simp_all add: card_after_def)

lemma lo_pin [simp]: "\<not> bit (p AND NOT CS_PIN) 14" for p :: u32
  by (simp add: bit_simps bit_CS_PIN)

lemma card_arg_eq:
  "card_arg [c, ucast (drop_bit 24 x), ucast (drop_bit 16 x), ucast (drop_bit 8 x), ucast x, r] = x"
proof (rule bit_word_eqI)
  fix n
  assume n: "n < LENGTH(32)"
  consider "n < 8" | "8 \<le> n" "n < 16" | "16 \<le> n" "n < 24" | "24 \<le> n" by linarith
  then show "bit (card_arg [c, ucast (drop_bit 24 x), ucast (drop_bit 16 x), ucast (drop_bit 8 x), ucast x, r]) n = bit x n"
    by cases (use n in \<open>auto simp: card_arg_def bit_simps\<close>)
qed

lemma head_after:
  assumes "bit p 14" and "cmd OR 0x40 \<noteq> 0xff"
  shows "card_after sz d (sd_head p cmd x r) = card_command (command_bytes cmd x r) (d \<lparr> card_phase := Listen \<rparr>)"
  using assms by (simp add: sd_head_def command_bytes_def card_step_def card_command_def)

lemma answer_says:
  assumes "\<not> bit p 14"
  shows "card_phase (card_after sz d h) = Answer (rs @ rest) \<Longrightarrow> says (card_slave sz d) p h rs"
  using assms
  by (induction rs arbitrary: h) (simp_all add: card_slave_def card_out_def card_step_def)

lemma answer_polls:
  "\<not> bit p 14 \<Longrightarrow> card_phase d = Answer rs \<Longrightarrow> card_after sz d (polls p k) = d \<lparr> card_phase := Answer (drop k rs) \<rparr>"
  by (induction k arbitrary: d rs) (simp_all add: card_step_def drop_Suc)


lemma accept_bytes:
  assumes "\<not> bit p 14"
  shows "card_phase d = Accept x bs \<Longrightarrow> length bs + length cs \<le> sz + 1 \<Longrightarrow>
    card_after sz d (map (Pair p) cs) = d \<lparr> card_phase := Accept x (bs @ cs) \<rparr>"
  using assms by (induction cs arbitrary: d bs) (simp_all add: card_step_def)

lemma read_command: "card_command (command_bytes 17 x 0xff) d = d \<lparr> card_phase := Answer ([0, 0xfe] @ stored d x) \<rparr>"
  by (simp add: card_command_def command_bytes_def card_arg_eq)

lemma write_command: "card_command (command_bytes 24 x 0xff) d = d \<lparr> card_phase := Granted x \<rparr>"
  by (simp add: card_command_def command_bytes_def card_arg_eq)

lemma write_head_after:
  assumes "bit p 14" and "length data = sz"
  shows "card_after sz d (sd_write_head p x data 0) = d \<lparr> stored := (stored d)(x := data), card_phase := Answer [5, 1] \<rparr>"
proof -
  let ?p = "p AND NOT CS_PIN" and ?d = "d \<lparr> card_phase := Accept x [] \<rparr>"
  have "card_after sz ?d (map (Pair ?p) (data @ [0xff])) = ?d \<lparr> card_phase := Accept x (data @ [0xff]) \<rparr>"
    using accept_bytes [OF lo_pin, of ?d x "[]" "data @ [0xff]" sz] assms(2) by simp
  then have "card_after sz ?d (map (Pair ?p) (data @ [0xff]) @ [(?p, 0xff)])
      = d \<lparr> stored := (stored d)(x := data), card_phase := Answer [5, 1] \<rparr>"
    unfolding card_after_append using assms(2) by (simp add: card_step_def)
  then show ?thesis
    using assms(1) by (simp add: sd_write_head_def head_after write_command card_step_def)
qed

lemma card_keeps_sectors: "well_sized sz d \<Longrightarrow> sector_store (card_slave sz d) (card_sector sz d) sz"
proof (unfold_locales, goal_cases)
  case (1 h x)
  then show ?case using card_after_sized [of sz d h] by (simp add: card_sector_def well_sized_def)
next
  case (2 p h x)
  let ?p = "p AND NOT CS_PIN" and ?h = "h @ sd_head p 17 x 0xff"
  let ?rs = "[0, 0xfe] @ stored (card_after sz d h) x"
  have ph: "card_after sz d ?h = card_after sz d h \<lparr> card_phase := Answer ?rs \<rparr>"
    using 2(2) by (simp add: head_after read_command)
  have "says (card_slave sz d) ?p ?h ?rs"
    by (rule answer_says [of _ _ _ _ _ "[]"]) (use ph in simp_all)
  moreover have "card_after sz d (?h @ polls ?p (sz + 5) @ [(p, 0xff)]) = card_after sz d h \<lparr> card_phase := Listen \<rparr>"
    unfolding append_assoc [symmetric] card_after_append [of sz d _ "[(p, 0xff)]"] card_after_append [of sz d ?h]
    using 2(2) by (subst answer_polls [OF lo_pin, of _ ?rs]) (use ph in \<open>simp_all add: card_step_def\<close>)
  ultimately show ?case
    by (intro exI [of _ 0] exI [of _ 0] exI [of _ 0] exI [of _ "0xfe"])
      (simp add: SD_READ_TIMEOUT_def F_CPU_def SD_FAST_def card_sector_def fun_eq_iff)
next
  case (3 p data h x)
  let ?p = "p AND NOT CS_PIN" and ?h = "h @ sd_head p 24 x 0xff" and ?w = "h @ sd_write_head p x data 0"
  have "card_after sz d ?h = card_after sz d h \<lparr> card_phase := Granted x \<rparr>"
    using 3(2) by (simp add: head_after write_command)
  then have first: "says (card_slave sz d) ?p ?h [0]" by (simp add: card_slave_def card_out_def)
  have ph: "card_after sz d ?w
      = card_after sz d h \<lparr> stored := (stored (card_after sz d h))(x := data), card_phase := Answer [5, 1] \<rparr>"
    using write_head_after [OF 3(2,3), of "card_after sz d h" x] by simp
  have "says (card_slave sz d) ?p ?w [5, 1]"
    by (rule answer_says [of _ _ _ _ _ "[]"]) (use ph in simp_all)
  moreover have "stored (card_after sz d (?w @ polls ?p 3 @ [(p, 0xff)])) = (stored (card_after sz d h))(x := data)"
    unfolding append_assoc [symmetric] card_after_append [of sz d _ "[(p, 0xff)]"] card_after_append [of sz d ?w]
    using 3(2) by (subst answer_polls [OF lo_pin, of _ "[5, 1]"]) (use ph in \<open>simp_all add: card_step_def\<close>)
  ultimately show ?case
    using first
    by (intro exI [of _ 0] exI [of _ 0] exI [of _ 0] exI [of _ "5"] exI [of _ 0] exI [of _ 1])
      (simp add: SD_WRITE_TIMEOUT_def F_CPU_def SD_FAST_def card_sector_def [abs_def])
qed


text \<open>The contract on the card, filled with any sectors of the right size.\<close>

definition holding :: "nat \<Rightarrow> (u32 \<Rightarrow> u8 list) \<Rightarrow> sd_memory" where
  "holding sz f = \<lparr> stored = (\<lambda>x. take sz (f x @ replicate sz 0)), card_phase = Listen \<rparr>"

interpretation held: sector_store "card_slave sz (holding sz f)" "card_sector sz (holding sz f)" sz for sz f
  by (rule card_keeps_sectors) (auto simp: holding_def well_sized_def)

section \<open>What the functions promise\<close>

text \<open>C38. Sectors that are written with \<^verbatim>\<open>disk_write\<close> come back with \<^verbatim>\<open>disk_read\<close>, position by position, and every other
  sector of the card is as before.\<close>

theorem disk_round_trip:
  assumes "spi_ready (card_slave sz (holding sz f)) (spi2 s)" and "bit (io s GPIOA_POUT) 14"
    and "unat (ocr_sectorsize st) = sz" "length data = unat count * sz" "unat count * sz \<le> length buf"
  shows "returns (do { (r, t) \<leftarrow> disk_write soc_bus st 0 (data @ tail) x count s;
      (r', buf', u) \<leftarrow> disk_read soc_bus st 0 buf x count t; Some (r, r', buf', u) })
    (\<lambda>(r, r', buf', u). r = RES_OK \<and> r' = RES_OK \<and> buf' = data @ drop (length data) buf
      \<and> (\<forall>y. unat count \<le> unat (y - x) \<longrightarrow>
            card_sector sz (holding sz f) (s_sent (spi2 u)) y = card_sector sz (holding sz f) (s_sent (spi2 s)) y)
      \<and> bit (io u GPIOA_POUT) 14 \<and> sd_aside u = sd_aside s)"
proof -
  have "held.parked_card sz f (card_sector sz (holding sz f) (s_sent (spi2 s))) s"
    using assms(1,2) by (simp add: held.parked_card_def)
  moreover have "unat count < 2 ^ LENGTH(32)" by (rule unsigned_less)
  ultimately obtain t c where
    t: "disk_write_loop soc_bus st (unat count) (data @ tail) x s = Some (RES_OK, t)" "held.parked_card sz f c t"
      "held.sectors c (unat count) x = data" "sd_aside t = sd_aside s"
      "\<forall>y. unat count \<le> unat (y - x) \<longrightarrow> c y = card_sector sz (holding sz f) (s_sent (spi2 s)) y"
    using held.write_loop_wp [where c = "card_sector sz (holding sz f) (s_sent (spi2 s))", OF _ assms(3,4), of f s tail x]
    by (auto simp: returns_ex)
  from held.read_loop_wp [OF t(2) assms(3,5), of x] t assms(4) show ?thesis
    by (auto simp: disk_write_def disk_read_def DEV_MMC_def returns_ex held.parked_card_def)
qed


definition disk_demo :: soc where
  "disk_demo = (demo_soc [] (card_slave 2 (holding 2 (\<lambda>_. []))) count_slave) \<lparr> io := \<lambda>_. CS_PIN \<rparr>"

theorem disk_round_trip_witness:
  "returns (do { (r, t) \<leftarrow> disk_write soc_bus (sd_cleared \<lparr> ocr_sectorsize := 2 \<rparr>) 0 ([1, 2, 3, 4] @ [9]) 7 2 disk_demo;
      (r', buf', u) \<leftarrow> disk_read soc_bus (sd_cleared \<lparr> ocr_sectorsize := 2 \<rparr>) 0 [0, 0, 0, 0, 5] 7 2 t; Some (r, r', buf', u) })
    (\<lambda>(r, r', buf', u). r = RES_OK \<and> r' = RES_OK \<and> buf' = [1, 2, 3, 4, 5])"
proof -
  have "spi_ready (card_slave 2 (holding 2 (\<lambda>_. []))) (spi2 disk_demo)" "bit (io disk_demo GPIOA_POUT) 14"
    by (simp_all add: disk_demo_def bit_CS_PIN)
  from disk_round_trip [OF this, of "sd_cleared \<lparr> ocr_sectorsize := 2 \<rparr>" "[1, 2, 3, 4]" 2 "[0, 0, 0, 0, 5]" "[9]" 7]
  show ?thesis by (auto elim!: returns_mono)
qed

end
