(* ===== verification/Fat.thy ===== *)
theory Fat
  imports Diskio
begin

text \<open>
  The allocation table of a FAT volume, \<^verbatim>\<open>sw/fatfs/ff.c\<close> from \<^verbatim>\<open>sync_window\<close> to \<^verbatim>\<open>create_chain\<close>, as configured by
  \<^verbatim>\<open>ffconf.h\<close>: writable volumes, sectors of 512 bytes, one volume, no exFAT, no trimming, no locks. A volume object is
  the record \<open>fatfs\<close>; \<open>win\<close> is its only sector buffer, \<open>winsect\<close> the number of the sector in it, and \<open>wflag\<close> says
  that the buffer is newer than the disk. All access to the disk goes through \<^verbatim>\<open>disk_read\<close> and \<^verbatim>\<open>disk_write\<close> of
  \<^verbatim>\<open>Diskio\<close>; \<open>b\<close> is the bus and \<open>st\<close> the state of the card driver, which they only read.
\<close>

section \<open>Data\<close>

datatype FRESULT = FR_OK | FR_DISK_ERR | FR_INT_ERR | FR_NOT_READY | FR_NO_FILE | FR_NO_PATH | FR_INVALID_NAME
  | FR_DENIED | FR_EXIST | FR_INVALID_OBJECT | FR_WRITE_PROTECTED | FR_INVALID_DRIVE | FR_NOT_ENABLED
  | FR_NO_FILESYSTEM | FR_MKFS_ABORTED | FR_TIMEOUT | FR_LOCKED | FR_NOT_ENOUGH_CORE | FR_TOO_MANY_OPEN_FILES
  | FR_INVALID_PARAMETER

record fatfs =
  fs_type :: u8
  pdrv :: u8
  n_fats :: u8
  wflag :: u8
  fsi_flag :: u8
  mount_id :: u16
  n_rootdir :: u16
  csize :: u16
  last_clst :: u32
  free_clst :: u32
  cdir :: u32
  n_fatent :: u32
  fsize :: u32
  volbase :: u32
  fatbase :: u32
  dirbase :: u32
  database :: u32
  winsect :: u32
  win :: "u8 list"

definition FS_FAT12 :: u8 where "FS_FAT12 = 1"
definition FS_FAT16 :: u8 where "FS_FAT16 = 2"
definition FS_FAT32 :: u8 where "FS_FAT32 = 3"

abbreviation SS :: u32 where "SS \<equiv> 512"

definition CTRL_SYNC :: u8 where "CTRL_SYNC = 0"

section \<open>Multi-byte words\<close>

text \<open>A load takes the array from the pointer on; a store takes the array and the index of the pointer in it.\<close>

definition ld_word :: "u8 list \<Rightarrow> u16" where
  "ld_word p = push_bit 8 (ucast (p ! 1)) OR ucast (p ! 0)"

definition ld_dword :: "u8 list \<Rightarrow> u32" where
  "ld_dword p =
     (let rv = ucast (p ! 3);
          rv = push_bit 8 rv OR ucast (p ! 2);
          rv = push_bit 8 rv OR ucast (p ! 1)
      in push_bit 8 rv OR ucast (p ! 0))"

definition st_word :: "nat \<Rightarrow> u16 \<Rightarrow> u8 list \<Rightarrow> u8 list" where
  "st_word i v a = a[i := ucast v, i + 1 := ucast (drop_bit 8 v)]"

definition st_dword :: "nat \<Rightarrow> u32 \<Rightarrow> u8 list \<Rightarrow> u8 list" where
  "st_dword i v a =
     a[i := ucast v, i + 1 := ucast (drop_bit 8 v), i + 2 := ucast (drop_bit 16 v), i + 3 := ucast (drop_bit 24 v)]"

section \<open>The window\<close>

definition sync_window :: "'d bus \<Rightarrow> sd_card \<Rightarrow> fatfs \<Rightarrow> 'd \<Rightarrow> (FRESULT \<times> fatfs \<times> 'd) option" where
  "sync_window b st fs s =
     (if wflag fs \<noteq> 0 then
        do { (r, s) \<leftarrow> disk_write b st (pdrv fs) (win fs) (winsect fs) 1 s;
             if r = RES_OK then
               do { let fs = fs \<lparr> wflag := 0 \<rparr>;
                    if winsect fs - fatbase fs < fsize fs \<and> n_fats fs = 2 then
                      do { (_, s) \<leftarrow> disk_write b st (pdrv fs) (win fs) (winsect fs + fsize fs) 1 s;
                           Some (FR_OK, fs, s) }
                    else Some (FR_OK, fs, s) }
             else Some (FR_DISK_ERR, fs, s) }
      else Some (FR_OK, fs, s))"

definition move_window :: "'d bus \<Rightarrow> sd_card \<Rightarrow> u32 \<Rightarrow> fatfs \<Rightarrow> 'd \<Rightarrow> (FRESULT \<times> fatfs \<times> 'd) option" where
  "move_window b st sect fs s =
     (if sect \<noteq> winsect fs then
        do { (res, fs, s) \<leftarrow> sync_window b st fs s;
             if res = FR_OK then
               do { (r, buf, s) \<leftarrow> disk_read b st (pdrv fs) (win fs) sect 1 s;
                    let fs = fs \<lparr> win := buf \<rparr>;
                    if r \<noteq> RES_OK then Some (FR_DISK_ERR, fs \<lparr> winsect := 0 - 1 \<rparr>, s)
                    else Some (FR_OK, fs \<lparr> winsect := sect \<rparr>, s) }
             else Some (res, fs, s) }
      else Some (FR_OK, fs, s))"

text \<open>The sector that describes the free space of a FAT32 volume.\<close>

definition fsinfo :: "u32 \<Rightarrow> u32 \<Rightarrow> u8 list" where
  "fsinfo free nxt =
     st_dword 492 nxt (st_dword 488 free (st_dword 484 0x61417272 (st_dword 0 0x41615252
       (st_word 510 0xAA55 (replicate 512 0)))))"

definition sync_fs :: "'d bus \<Rightarrow> sd_card \<Rightarrow> fatfs \<Rightarrow> 'd \<Rightarrow> (FRESULT \<times> fatfs \<times> 'd) option" where
  "sync_fs b st fs s =
     do { (res, fs, s) \<leftarrow> sync_window b st fs s;
          if res = FR_OK then
            do { (fs, s) \<leftarrow>
                   (if fs_type fs = FS_FAT32 \<and> fsi_flag fs = 1 then
                      do { let fs = fs \<lparr> win := fsinfo (free_clst fs) (last_clst fs), winsect := volbase fs + 1 \<rparr>;
                           (_, s) \<leftarrow> disk_write b st (pdrv fs) (win fs) (winsect fs) 1 s;
                           Some (fs \<lparr> fsi_flag := 0 \<rparr>, s) }
                    else Some (fs, s));
                 Some (if disk_ioctl (pdrv fs) CTRL_SYNC \<noteq> RES_OK then FR_DISK_ERR else res, fs, s) }
          else Some (res, fs, s) }"

definition clst2sect :: "fatfs \<Rightarrow> u32 \<Rightarrow> u32" where
  "clst2sect fs clst =
     (let clst = clst - 2 in if clst \<ge> n_fatent fs - 2 then 0 else database fs + ucast (csize fs) * clst)"

section \<open>The table\<close>

definition get_fat :: "'d bus \<Rightarrow> sd_card \<Rightarrow> u32 \<Rightarrow> fatfs \<Rightarrow> 'd \<Rightarrow> (u32 \<times> fatfs \<times> 'd) option" where
  "get_fat b st clst fs s =
     (if clst < 2 \<or> clst \<ge> n_fatent fs then Some (1, fs, s)
      else if fs_type fs = FS_FAT12 then
        do { let bc = clst + clst div 2;
             (res, fs, s) \<leftarrow> move_window b st (fatbase fs + bc div SS) fs s;
             if res \<noteq> FR_OK then Some (0xFFFFFFFF, fs, s)
             else
               do { let wc = (ucast (win fs ! unat (bc mod SS)) :: u32);
                    let bc = bc + 1;
                    (res, fs, s) \<leftarrow> move_window b st (fatbase fs + bc div SS) fs s;
                    if res \<noteq> FR_OK then Some (0xFFFFFFFF, fs, s)
                    else
                      do { let wc = wc OR push_bit 8 (ucast (win fs ! unat (bc mod SS)));
                           Some (if clst AND 1 \<noteq> 0 then drop_bit 4 wc else wc AND 0xFFF, fs, s) } } }
      else if fs_type fs = FS_FAT16 then
        do { (res, fs, s) \<leftarrow> move_window b st (fatbase fs + clst div (SS div 2)) fs s;
             Some (if res \<noteq> FR_OK then 0xFFFFFFFF else ucast (ld_word (drop (unat (clst * 2 mod SS)) (win fs))), fs, s) }
      else if fs_type fs = FS_FAT32 then
        do { (res, fs, s) \<leftarrow> move_window b st (fatbase fs + clst div (SS div 4)) fs s;
             Some (if res \<noteq> FR_OK then 0xFFFFFFFF
                   else ld_dword (drop (unat (clst * 4 mod SS)) (win fs)) AND 0x0FFFFFFF, fs, s) }
      else Some (1, fs, s))"

definition put_fat :: "'d bus \<Rightarrow> sd_card \<Rightarrow> u32 \<Rightarrow> u32 \<Rightarrow> fatfs \<Rightarrow> 'd \<Rightarrow> (FRESULT \<times> fatfs \<times> 'd) option" where
  "put_fat b st clst val fs s =
     (if clst \<ge> 2 \<and> clst < n_fatent fs then
        if fs_type fs = FS_FAT12 then
          do { let bc = clst + clst div 2;
               (res, fs, s) \<leftarrow> move_window b st (fatbase fs + bc div SS) fs s;
               if res \<noteq> FR_OK then Some (res, fs, s)
               else
                 do { let p = unat (bc mod SS);
                      let bc = bc + 1;
                      let v = (if clst AND 1 \<noteq> 0 then (win fs ! p AND 0x0F) OR push_bit 4 (ucast val) else ucast val);
                      let fs = fs \<lparr> win := (win fs)[p := v], wflag := 1 \<rparr>;
                      (res, fs, s) \<leftarrow> move_window b st (fatbase fs + bc div SS) fs s;
                      if res \<noteq> FR_OK then Some (res, fs, s)
                      else
                        do { let p = unat (bc mod SS);
                             let v = (if clst AND 1 \<noteq> 0 then ucast (drop_bit 4 val)
                                      else (win fs ! p AND 0xF0) OR (ucast (drop_bit 8 val) AND 0x0F));
                             Some (res, fs \<lparr> win := (win fs)[p := v], wflag := 1 \<rparr>, s) } } }
        else if fs_type fs = FS_FAT16 then
          do { (res, fs, s) \<leftarrow> move_window b st (fatbase fs + clst div (SS div 2)) fs s;
               Some (res, if res \<noteq> FR_OK then fs
                 else fs \<lparr> win := st_word (unat (clst * 2 mod SS)) (ucast val) (win fs), wflag := 1 \<rparr>, s) }
        else if fs_type fs = FS_FAT32 then
          do { (res, fs, s) \<leftarrow> move_window b st (fatbase fs + clst div (SS div 4)) fs s;
               if res \<noteq> FR_OK then Some (res, fs, s)
               else
                 do { let p = unat (clst * 4 mod SS);
                      let val = (val AND 0x0FFFFFFF) OR (ld_dword (drop p (win fs)) AND 0xF0000000);
                      Some (res, fs \<lparr> win := st_dword p val (win fs), wflag := 1 \<rparr>, s) } }
        else Some (FR_INT_ERR, fs, s)
      else Some (FR_INT_ERR, fs, s))"

section \<open>Cluster chains\<close>

text \<open>\<^verbatim>\<open>do ... while (clst < fs->n_fatent)\<close> of \<^verbatim>\<open>remove_chain\<close>. Nothing in the code bounds it.\<close>

partial_function (option) remove_loop :: "'d bus \<Rightarrow> sd_card \<Rightarrow> u32 \<Rightarrow> fatfs \<Rightarrow> 'd \<Rightarrow> (FRESULT \<times> fatfs \<times> 'd) option" where
  "remove_loop b st clst fs s =
     do { (nxt, fs, s) \<leftarrow> get_fat b st clst fs s;
          if nxt = 0 then Some (FR_OK, fs, s)
          else if nxt = 1 then Some (FR_INT_ERR, fs, s)
          else if nxt = 0xFFFFFFFF then Some (FR_DISK_ERR, fs, s)
          else
            do { (res, fs, s) \<leftarrow> put_fat b st clst 0 fs s;
                 if res \<noteq> FR_OK then Some (res, fs, s)
                 else
                   do { let fs = (if free_clst fs < n_fatent fs - 2
                                  then fs \<lparr> free_clst := free_clst fs + 1, fsi_flag := fsi_flag fs OR 1 \<rparr> else fs);
                        if nxt < n_fatent fs then remove_loop b st nxt fs s else Some (FR_OK, fs, s) } } }"

definition remove_chain :: "'d bus \<Rightarrow> sd_card \<Rightarrow> u32 \<Rightarrow> u32 \<Rightarrow> fatfs \<Rightarrow> 'd \<Rightarrow> (FRESULT \<times> fatfs \<times> 'd) option" where
  "remove_chain b st clst pclst fs s =
     (if clst < 2 \<or> clst \<ge> n_fatent fs then Some (FR_INT_ERR, fs, s)
      else if pclst \<noteq> 0 then
        do { (res, fs, s) \<leftarrow> put_fat b st pclst 0xFFFFFFFF fs s;
             if res \<noteq> FR_OK then Some (res, fs, s) else remove_loop b st clst fs s }
      else remove_loop b st clst fs s)"

text \<open>The scan of \<^verbatim>\<open>create_chain\<close>: \<open>Inl\<close> is a value that the function returns at once, \<open>Inr\<close> the free cluster.\<close>

partial_function (option) find_free ::
    "'d bus \<Rightarrow> sd_card \<Rightarrow> u32 \<Rightarrow> u32 \<Rightarrow> fatfs \<Rightarrow> 'd \<Rightarrow> ((u32 + u32) \<times> fatfs \<times> 'd) option" where
  "find_free b st scl ncl fs s =
     do { let ncl = ncl + 1;
          let wrap = (ncl \<ge> n_fatent fs);
          let ncl = (if wrap then 2 else ncl);
          if wrap \<and> ncl > scl then Some (Inl 0, fs, s)
          else
            do { (cs, fs, s) \<leftarrow> get_fat b st ncl fs s;
                 if cs = 0 then Some (Inr ncl, fs, s)
                 else if cs = 1 \<or> cs = 0xFFFFFFFF then Some (Inl cs, fs, s)
                 else if ncl = scl then Some (Inl 0, fs, s)
                 else find_free b st scl ncl fs s } }"

text \<open>The choice of a new cluster on a FAT volume, from \<^verbatim>\<open>scl == clst\<close> to the end of the scan.\<close>

definition pick_cluster ::
    "'d bus \<Rightarrow> sd_card \<Rightarrow> u32 \<Rightarrow> u32 \<Rightarrow> fatfs \<Rightarrow> 'd \<Rightarrow> ((u32 + u32) \<times> fatfs \<times> 'd) option" where
  "pick_cluster b st scl clst fs s =
     (if scl = clst then
        do { let ncl = scl + 1;
             let ncl = (if ncl \<ge> n_fatent fs then 2 else ncl);
             (cs, fs, s) \<leftarrow> get_fat b st ncl fs s;
             if cs = 1 \<or> cs = 0xFFFFFFFF then Some (Inl cs, fs, s)
             else if cs \<noteq> 0 then
               do { let cs = last_clst fs;
                    let scl = (if cs \<ge> 2 \<and> cs < n_fatent fs then cs else scl);
                    find_free b st scl scl fs s }
             else Some (Inr ncl, fs, s) }
      else find_free b st scl scl fs s)"

text \<open>\<open>Inl\<close> is a value that is returned at once, \<open>Inr\<close> the cluster where the search starts.\<close>

definition chain_start :: "'d bus \<Rightarrow> sd_card \<Rightarrow> u32 \<Rightarrow> fatfs \<Rightarrow> 'd \<Rightarrow> ((u32 + u32) \<times> fatfs \<times> 'd) option" where
  "chain_start b st clst fs s =
     (if clst = 0 then
        Some (Inr (if last_clst fs = 0 \<or> last_clst fs \<ge> n_fatent fs then 1 else last_clst fs), fs, s)
      else
        do { (cs, fs, s) \<leftarrow> get_fat b st clst fs s;
             Some (if cs < 2 then Inl 1
                   else if cs = 0xFFFFFFFF then Inl cs
                   else if cs < n_fatent fs then Inl cs
                   else Inr clst, fs, s) })"

definition link_cluster :: "'d bus \<Rightarrow> sd_card \<Rightarrow> u32 \<Rightarrow> u32 \<Rightarrow> fatfs \<Rightarrow> 'd \<Rightarrow> (u32 \<times> fatfs \<times> 'd) option" where
  "link_cluster b st ncl clst fs s =
     do { (res, fs, s) \<leftarrow> put_fat b st ncl 0xFFFFFFFF fs s;
          (res, fs, s) \<leftarrow> (if res = FR_OK \<and> clst \<noteq> 0 then put_fat b st clst ncl fs s else Some (res, fs, s));
          if res = FR_OK then
            do { let fs = fs \<lparr> last_clst := ncl \<rparr>;
                 let fs = (if free_clst fs \<le> n_fatent fs - 2 then fs \<lparr> free_clst := free_clst fs - 1 \<rparr> else fs);
                 Some (ncl, fs \<lparr> fsi_flag := fsi_flag fs OR 1 \<rparr>, s) }
          else Some (if res = FR_DISK_ERR then 0xFFFFFFFF else 1, fs, s) }"

definition create_chain :: "'d bus \<Rightarrow> sd_card \<Rightarrow> u32 \<Rightarrow> fatfs \<Rightarrow> 'd \<Rightarrow> (u32 \<times> fatfs \<times> 'd) option" where
  "create_chain b st clst fs s =
     do { (start, fs, s) \<leftarrow> chain_start b st clst fs s;
          case start of
            Inl r \<Rightarrow> Some (r, fs, s)
          | Inr scl \<Rightarrow>
              if free_clst fs = 0 then Some (0, fs, s)
              else
                do { (pick, fs, s) \<leftarrow> pick_cluster b st scl clst fs s;
                     case pick of
                       Inl r \<Rightarrow> Some (r, fs, s)
                     | Inr ncl \<Rightarrow> link_cluster b st ncl clst fs s } }"

end
