(* ===== verification/Fatmount.thy ===== *)
theory Fatmount
  imports Fat
begin

text \<open>
  Finding and mounting a FAT volume, \<^verbatim>\<open>sw/fatfs/ff.c\<close>: \<^verbatim>\<open>get_ldnumber\<close>, \<^verbatim>\<open>check_fs\<close>, \<^verbatim>\<open>find_volume\<close>,
  \<^verbatim>\<open>mount_volume\<close>, \<^verbatim>\<open>validate\<close> and \<^verbatim>\<open>f_mount\<close>, as configured: one volume, which is physical drive 0, partitions searched in
  the MBR only, no exFAT. Volume objects belong to the application; they are cells of a store, and the
  library keeps a pointer to the one that is registered. A path is None for NULL or the string from the pointer on.
\<close>

section \<open>Data\<close>

text \<open>The static variables of the library, and the volume objects of the application.\<close>

record filesystem =
  FatFs :: "nat option"
  Fsid :: u16
  CurrVol :: u8
  volumes :: "nat \<Rightarrow> fatfs"

definition FF_VOLUMES :: int where "FF_VOLUMES = 1"

definition MAX_FAT12 :: u32 where "MAX_FAT12 = 0xFF5"
definition MAX_FAT16 :: u32 where "MAX_FAT16 = 0xFFF5"
definition MAX_FAT32 :: u32 where "MAX_FAT32 = 0x0FFFFFF5"

definition STA_PROTECT :: u8 where "STA_PROTECT = 0x04"
definition FA_READ :: u8 where "FA_READ = 0x01"

definition IsDigit :: "u8 \<Rightarrow> bool" where "IsDigit c \<longleftrightarrow> c \<ge> 48 \<and> c \<le> 57"
definition IsTerminator :: "u8 \<Rightarrow> bool" where "IsTerminator c \<longleftrightarrow> c < 32"

text \<open>The offsets of the fields of a boot sector, of a partition table and of the FSINFO sector.\<close>

abbreviation (input) "BPB_BytsPerSec \<equiv> 11 :: nat"
abbreviation (input) "BPB_SecPerClus \<equiv> 13 :: nat"
abbreviation (input) "BPB_RsvdSecCnt \<equiv> 14 :: nat"
abbreviation (input) "BPB_NumFATs \<equiv> 16 :: nat"
abbreviation (input) "BPB_RootEntCnt \<equiv> 17 :: nat"
abbreviation (input) "BPB_TotSec16 \<equiv> 19 :: nat"
abbreviation (input) "BPB_FATSz16 \<equiv> 22 :: nat"
abbreviation (input) "BPB_TotSec32 \<equiv> 32 :: nat"
abbreviation (input) "BPB_FATSz32 \<equiv> 36 :: nat"
abbreviation (input) "BPB_FSVer32 \<equiv> 42 :: nat"
abbreviation (input) "BPB_RootClus32 \<equiv> 44 :: nat"
abbreviation (input) "BPB_FSInfo32 \<equiv> 48 :: nat"
abbreviation (input) "BS_FilSysType32 \<equiv> 82 :: nat"
abbreviation (input) "BS_55AA \<equiv> 510 :: nat"

text \<open>A field of the window.\<close>

definition win_word :: "nat \<Rightarrow> fatfs \<Rightarrow> u16" where "win_word i fs = ld_word (drop i (win fs))"
definition win_dword :: "nat \<Rightarrow> fatfs \<Rightarrow> u32" where "win_dword i fs = ld_dword (drop i (win fs))"

section \<open>The drive number\<close>

text \<open>\<^verbatim>\<open>do tc = *tt++; while (!IsTerminator(tc) && tc != ':')\<close>: the last character and the rest behind it.\<close>

fun colon_scan :: "u8 list \<Rightarrow> (u8 \<times> u8 list) option" where
  "colon_scan [] = None"
| "colon_scan (c # tt) = (if \<not> IsTerminator c \<and> c \<noteq> 58 then colon_scan tt else Some (c, tt))"

definition get_ldnumber :: "u8 \<Rightarrow> u8 list option \<Rightarrow> (int \<times> u8 list option) option" where
  "get_ldnumber cv path =
     (case path of
        None \<Rightarrow> Some (- 1, path)
      | Some tp \<Rightarrow>
          do { (c, tt) \<leftarrow> colon_scan tp;
               if c = 58 then
                 do { let i = (if IsDigit (tp ! 0) \<and> length tp = 2 + length tt then uint (tp ! 0) - 48 else FF_VOLUMES);
                      Some (if i < FF_VOLUMES then (i, Some tt) else (- 1, path)) }
               else Some (uint cv, path) })"

section \<open>Finding a volume\<close>

definition check_fs :: "'d bus \<Rightarrow> sd_card \<Rightarrow> u32 \<Rightarrow> fatfs \<Rightarrow> 'd \<Rightarrow> (u32 \<times> fatfs \<times> 'd) option" where
  "check_fs b st sect fs s =
     do { let fs = fs \<lparr> wflag := 0, winsect := 0 - 1 \<rparr>;
          (res, fs, s) \<leftarrow> move_window b st sect fs s;
          if res \<noteq> FR_OK then Some (4, fs, s)
          else
            do { let sign = win_word BS_55AA fs;
                 let j = win fs ! 0;
                 let w = win_word BPB_BytsPerSec fs;
                 let c = win fs ! BPB_SecPerClus;
                 Some (if (j = 0xEB \<or> j = 0xE9 \<or> j = 0xE8)
                         \<and> (sign = 0xAA55 \<and> take 8 (drop BS_FilSysType32 (win fs)) = str ''FAT32   ''
                            \<or> w AND (w - 1) = 0 \<and> w \<ge> 512 \<and> w \<le> 512
                              \<and> c \<noteq> 0 \<and> c AND (c - 1) = 0
                              \<and> win_word BPB_RsvdSecCnt fs \<noteq> 0
                              \<and> ucast (win fs ! BPB_NumFATs) - 1 \<le> (1 :: u32)
                              \<and> win_word BPB_RootEntCnt fs \<noteq> 0
                              \<and> (win_word BPB_TotSec16 fs \<ge> 128 \<or> win_dword BPB_TotSec32 fs \<ge> 0x10000)
                              \<and> win_word BPB_FATSz16 fs \<noteq> 0)
                       then 0 else if sign = 0xAA55 then 2 else 3, fs, s) } }"

text \<open>The partitions from index \<open>i\<close> on; without one the array is read behind its end.\<close>

fun partition_scan :: "'d bus \<Rightarrow> sd_card \<Rightarrow> u32 \<Rightarrow> u32 list \<Rightarrow> fatfs \<Rightarrow> 'd \<Rightarrow> (u32 \<times> fatfs \<times> 'd) option" where
  "partition_scan b st part [] fs s = None"
| "partition_scan b st part (p # ps) fs s =
     do { (fmt, fs, s) \<leftarrow> (if p \<noteq> 0 then check_fs b st p fs s else Some (3, fs, s));
          if part = 0 \<and> fmt \<ge> 2 \<and> ps \<noteq> [] then partition_scan b st part ps fs s else Some (fmt, fs, s) }"

definition find_volume :: "'d bus \<Rightarrow> sd_card \<Rightarrow> u32 \<Rightarrow> fatfs \<Rightarrow> 'd \<Rightarrow> (u32 \<times> fatfs \<times> 'd) option" where
  "find_volume b st part fs s =
     do { (fmt, fs, s) \<leftarrow> check_fs b st 0 fs s;
          if fmt \<noteq> 2 \<and> (fmt \<ge> 3 \<or> part = 0) then Some (fmt, fs, s)
          else
            do { let mbr_pt = map (\<lambda>i. win_dword (446 + i * 16 + 8) fs) [0..<4];
                 partition_scan b st part (drop (if part \<noteq> 0 then unat (part - 1) else 0) mbr_pt) fs s } }"

section \<open>Mounting\<close>

text \<open>Sectors of one table, sectors of the volume, the type that the number of clusters fixes, and the bytes a table with
  \<open>n\<close> entries needs.\<close>

definition bpb_fasize :: "fatfs \<Rightarrow> u32" where
  "bpb_fasize fs = (let fasize = ucast (win_word BPB_FATSz16 fs) in if fasize = 0 then win_dword BPB_FATSz32 fs else fasize)"

definition bpb_tsect :: "fatfs \<Rightarrow> u32" where
  "bpb_tsect fs = (let tsect = ucast (win_word BPB_TotSec16 fs) in if tsect = 0 then win_dword BPB_TotSec32 fs else tsect)"

definition fat_kind :: "u32 \<Rightarrow> u8" where
  "fat_kind nclst =
     (let fmt = 0 :: u8;
          fmt = (if nclst \<le> MAX_FAT32 then FS_FAT32 else fmt);
          fmt = (if nclst \<le> MAX_FAT16 then FS_FAT16 else fmt)
      in if nclst \<le> MAX_FAT12 then FS_FAT12 else fmt)"

definition table_bytes :: "u8 \<Rightarrow> u32 \<Rightarrow> u32" where
  "table_bytes fmt n =
     (if fmt = FS_FAT32 then n * 4 else if fmt = FS_FAT16 then n * 2 else n * 3 div 2 + (n AND 1))"

definition table_fits :: "u8 \<Rightarrow> fatfs \<Rightarrow> FRESULT \<times> u8 \<times> fatfs" where
  "table_fits fmt fs =
     (if fsize fs < (table_bytes fmt (n_fatent fs) + (SS - 1)) div SS then (FR_NO_FILESYSTEM, fmt, fs) else (FR_OK, fmt, fs))"

text \<open>The analysis of the boot sector in the window, up to the check of the table size. The fields of the volume object
  that are set before a test fails stay set; the number is the type of the table.\<close>

definition read_bpb :: "u32 \<Rightarrow> fatfs \<Rightarrow> FRESULT \<times> u8 \<times> fatfs" where
  "read_bpb bsect fs =
     (if win_word BPB_BytsPerSec fs \<noteq> ucast SS then (FR_NO_FILESYSTEM, 0, fs)
      else
        let fasize = bpb_fasize fs;
            fs = fs \<lparr> fsize := fasize, n_fats := win fs ! BPB_NumFATs \<rparr> in
        if n_fats fs \<noteq> 1 \<and> n_fats fs \<noteq> 2 then (FR_NO_FILESYSTEM, 0, fs)
        else
          let fasize = fasize * ucast (n_fats fs);
              fs = fs \<lparr> csize := ucast (win fs ! BPB_SecPerClus) \<rparr> in
          if csize fs = 0 \<or> csize fs AND (csize fs - 1) \<noteq> 0 then (FR_NO_FILESYSTEM, 0, fs)
          else
            let fs = fs \<lparr> n_rootdir := win_word BPB_RootEntCnt fs \<rparr> in
            if ucast (n_rootdir fs) mod (SS div 32) \<noteq> 0 then (FR_NO_FILESYSTEM, 0, fs)
            else
              let tsect = bpb_tsect fs; nrsv = win_word BPB_RsvdSecCnt fs in
              if nrsv = 0 then (FR_NO_FILESYSTEM, 0, fs)
              else
                let sysect = ucast nrsv + fasize + ucast (n_rootdir fs) div (SS div 32) in
                if tsect < sysect then (FR_NO_FILESYSTEM, 0, fs)
                else
                  let nclst = (tsect - sysect) div ucast (csize fs) in
                  if nclst = 0 then (FR_NO_FILESYSTEM, 0, fs)
                  else
                    let fmt = fat_kind nclst in
                    if fmt = 0 then (FR_NO_FILESYSTEM, fmt, fs)
                    else
                      let fs = fs \<lparr> n_fatent := nclst + 2, volbase := bsect, fatbase := bsect + ucast nrsv,
                                    database := bsect + sysect \<rparr> in
                      if fmt = FS_FAT32 then
                        if win_word BPB_FSVer32 fs \<noteq> 0 \<or> n_rootdir fs \<noteq> 0 then (FR_NO_FILESYSTEM, fmt, fs)
                        else table_fits fmt (fs \<lparr> dirbase := win_dword BPB_RootClus32 fs \<rparr>)
                      else
                        if n_rootdir fs = 0 then (FR_NO_FILESYSTEM, fmt, fs)
                        else table_fits fmt (fs \<lparr> dirbase := fatbase fs + fasize \<rparr>))"

text \<open>The counters of a volume, from the FSINFO sector where there is one.\<close>

definition load_fsinfo :: "'d bus \<Rightarrow> sd_card \<Rightarrow> u8 \<Rightarrow> u32 \<Rightarrow> fatfs \<Rightarrow> 'd \<Rightarrow> (fatfs \<times> 'd) option" where
  "load_fsinfo b st fmt bsect fs s =
     do { let fs = fs \<lparr> last_clst := 0xFFFFFFFF, free_clst := 0xFFFFFFFF, fsi_flag := 0x80 \<rparr>;
          if fmt = FS_FAT32 \<and> win_word BPB_FSInfo32 fs = 1 then
            do { (res, fs, s) \<leftarrow> move_window b st (bsect + 1) fs s;
                 if res = FR_OK then
                   do { let fs = fs \<lparr> fsi_flag := 0 \<rparr>;
                        Some (if win_word BS_55AA fs = 0xAA55 \<and> win_dword 0 fs = 0x41615252 \<and> win_dword 484 fs = 0x61417272
                              then fs \<lparr> free_clst := win_dword 488 fs, last_clst := win_dword 492 fs \<rparr> else fs, s) }
                 else Some (fs, s) }
          else Some (fs, s) }"

text \<open>From \<^verbatim>\<open>fs->fs_type = 0\<close> on: the physical drive is initialised (\<open>csdcid\<close> is a local array of \<^verbatim>\<open>SD_initialize\<close>), the
  volume found and analysed. \<open>fsid\<close> is the mount counter.\<close>

definition mount_new :: "'d bus \<Rightarrow> u8 list \<Rightarrow> u8 \<Rightarrow> u16 \<Rightarrow> fatfs \<Rightarrow> sd_card \<Rightarrow> 'd
    \<Rightarrow> (FRESULT \<times> u16 \<times> fatfs \<times> sd_card \<times> 'd) option" where
  "mount_new b csdcid mode fsid fs st s =
     do { let fs = fs \<lparr> fs_type := 0 \<rparr>;
          (stat, st, s) \<leftarrow> disk_initialize b csdcid (pdrv fs) st s;
          if stat AND STA_NOINIT \<noteq> 0 then Some (FR_NOT_READY, fsid, fs, st, s)
          else if mode \<noteq> 0 \<and> stat AND STA_PROTECT \<noteq> 0 then Some (FR_WRITE_PROTECTED, fsid, fs, st, s)
          else
            do { (fmt, fs, s) \<leftarrow> find_volume b st 0 fs s;
                 if fmt = 4 then Some (FR_DISK_ERR, fsid, fs, st, s)
                 else if fmt \<ge> 2 then Some (FR_NO_FILESYSTEM, fsid, fs, st, s)
                 else
                   do { let bsect = winsect fs;
                        let (res, fmt, fs) = read_bpb bsect fs;
                        if res \<noteq> FR_OK then Some (res, fsid, fs, st, s)
                        else
                          do { (fs, s) \<leftarrow> load_fsinfo b st fmt bsect fs s;
                               let fsid = fsid + 1;
                               Some (FR_OK, fsid, fs \<lparr> fs_type := fmt, mount_id := fsid, cdir := 0 \<rparr>, st, s) } } } }"

text \<open>The value of \<^verbatim>\<open>*rfs\<close> is the pointer behind the path.\<close>

definition mount_volume :: "'d bus \<Rightarrow> u8 list \<Rightarrow> u8 list option \<Rightarrow> u8 \<Rightarrow> filesystem \<Rightarrow> sd_card \<Rightarrow> 'd
    \<Rightarrow> (FRESULT \<times> u8 list option \<times> nat option \<times> filesystem \<times> sd_card \<times> 'd) option" where
  "mount_volume b csdcid path mode g st s =
     do { (vol, path) \<leftarrow> get_ldnumber (CurrVol g) path;
          if vol < 0 then Some (FR_INVALID_DRIVE, path, None, g, st, s)
          else
            case FatFs g of
              None \<Rightarrow> Some (FR_NOT_ENABLED, path, None, g, st, s)
            | Some p \<Rightarrow>
                do { let fs = volumes g p;
                     let mode = mode AND NOT FA_READ;
                     let stat = disk_status (pdrv fs) st;
                     if fs_type fs \<noteq> 0 \<and> stat AND STA_NOINIT = 0 then
                       Some (if mode \<noteq> 0 \<and> stat AND STA_PROTECT \<noteq> 0 then FR_WRITE_PROTECTED else FR_OK, path, Some p, g, st, s)
                     else
                       do { (res, fsid, fs, st, s) \<leftarrow> mount_new b csdcid mode (Fsid g) fs st s;
                            Some (res, path, Some p, g \<lparr> Fsid := fsid, volumes := (volumes g)(p := fs) \<rparr>, st, s) } } }"

definition f_mount :: "'d bus \<Rightarrow> u8 list \<Rightarrow> nat option \<Rightarrow> u8 list option \<Rightarrow> u8 \<Rightarrow> filesystem \<Rightarrow> sd_card \<Rightarrow> 'd
    \<Rightarrow> (FRESULT \<times> filesystem \<times> sd_card \<times> 'd) option" where
  "f_mount b csdcid fs path opt g st s =
     do { (vol, rp) \<leftarrow> get_ldnumber (CurrVol g) path;
          if vol < 0 then Some (FR_INVALID_DRIVE, g, st, s)
          else
            do { let g = (case FatFs g of None \<Rightarrow> g
                   | Some p \<Rightarrow> g \<lparr> FatFs := None, volumes := (volumes g)(p := volumes g p \<lparr> fs_type := 0 \<rparr>) \<rparr>);
                 let g = (case fs of None \<Rightarrow> g
                   | Some p \<Rightarrow> g \<lparr> FatFs := Some p,
                                 volumes := (volumes g)(p := volumes g p \<lparr> pdrv := word_of_int vol, fs_type := 0 \<rparr>) \<rparr>);
                 if opt = 0 then Some (FR_OK, g, st, s)
                 else
                   do { (res, _, _, g, st, s) \<leftarrow> mount_volume b csdcid path 0 g st s;
                        Some (res, g, st, s) } } }"

end
