(* ===== verification/Fatlaws.thy ===== *)
theory Fatlaws
  imports Fat
begin

text \<open>
  What the window and the table entries of \<^verbatim>\<open>Fat\<close> do on a disk that keeps its sectors (the locale \<open>block_disk\<close>). The
  volume is what the disk and the window say together (\<open>seen\<close>); moving the window leaves it as it is, outside the
  second table, which always equals the first but for a sector that waits in the window (\<open>mirrored\<close>). \<open>byte_state\<close>
  says this with the bytes of the table; \<^verbatim>\<open>get_fat\<close> reads the entry that \<open>entry\<close> finds in them and \<^verbatim>\<open>put_fat\<close> changes
  them to \<open>with_entry\<close>, which changes that entry only, in each of the three formats.
\<close>

section \<open>The volume as the disk and the window together\<close>

definition in_fat :: "fatfs \<Rightarrow> u32 \<Rightarrow> bool" where
  "in_fat fs x \<longleftrightarrow> x - fatbase fs < fsize fs"

definition in_copy :: "fatfs \<Rightarrow> u32 \<Rightarrow> bool" where
  "in_copy fs x \<longleftrightarrow> n_fats fs = 2 \<and> x - (fatbase fs + fsize fs) < fsize fs"

definition seen :: "fatfs \<Rightarrow> (u32 \<Rightarrow> u8 list) \<Rightarrow> u32 \<Rightarrow> u8 list" where
  "seen fs c x = (if x = winsect fs then win fs else c x)"

definition table_size :: "fatfs \<Rightarrow> nat" where
  "table_size fs = (let n = unat (n_fatent fs) in
     if fs_type fs = FS_FAT12 then (3 * n + 1) div 2 else if fs_type fs = FS_FAT16 then 2 * n else 4 * n)"

definition volume_ok :: "fatfs \<Rightarrow> bool" where
  "volume_ok fs \<longleftrightarrow> pdrv fs = 0 \<and> (n_fats fs = 1 \<or> n_fats fs = 2)
     \<and> (fs_type fs = FS_FAT12 \<and> n_fatent fs \<le> 0xFF7 \<or> fs_type fs = FS_FAT16 \<and> n_fatent fs \<le> 0xFFF7
        \<or> fs_type fs = FS_FAT32 \<and> n_fatent fs \<le> 0x0FFFFFF7)
     \<and> unat (fatbase fs) + unat (n_fats fs) * unat (fsize fs) < 2 ^ 32 \<and> table_size fs \<le> 512 * unat (fsize fs)"

definition sound :: "(u32 \<Rightarrow> u8 list) \<Rightarrow> fatfs \<Rightarrow> bool" where
  "sound c fs \<longleftrightarrow> volume_ok fs \<and> length (win fs) = 512
     \<and> (wflag fs = 0 \<longrightarrow> winsect fs = - 1 \<or> c (winsect fs) = win fs)
     \<and> (wflag fs \<noteq> 0 \<longrightarrow> \<not> in_copy fs (winsect fs) \<and> winsect fs \<noteq> - 1)"

text \<open>The second table equals the first, but for the sector that waits in the window.\<close>

definition mirrored :: "(u32 \<Rightarrow> u8 list) \<Rightarrow> fatfs \<Rightarrow> bool" where
  "mirrored c fs \<longleftrightarrow> (n_fats fs = 2 \<longrightarrow>
     (\<forall>x. in_fat fs x \<longrightarrow> wflag fs = 0 \<or> x \<noteq> winsect fs \<longrightarrow> c (x + fsize fs) = c x))"

text \<open>What moving the window leaves alone: the volume object but for the window, and every sector outside the second table.\<close>

definition volume :: "fatfs \<Rightarrow> fatfs" where
  "volume fs = fs \<lparr> wflag := 0, winsect := 0, win := [] \<rparr>"

definition steady :: "fatfs \<Rightarrow> u32 \<Rightarrow> bool" where
  "steady fs x \<longleftrightarrow> \<not> in_copy fs x \<and> x \<noteq> - 1"

definition carried :: "(u32 \<Rightarrow> u8 list) \<Rightarrow> fatfs \<Rightarrow> (u32 \<Rightarrow> u8 list) \<Rightarrow> fatfs \<Rightarrow> bool" where
  "carried c fs c' fs' \<longleftrightarrow> sound c' fs' \<and> volume fs' = volume fs \<and> (\<forall>x. steady fs x \<longrightarrow> seen fs' c' x = seen fs c x)
     \<and> (mirrored c fs \<longrightarrow> mirrored c' fs')"

lemma volume_fields:
  assumes "volume fs' = volume fs"
  shows "fs_type fs' = fs_type fs" "pdrv fs' = pdrv fs" "n_fats fs' = n_fats fs" "fsi_flag fs' = fsi_flag fs"
    "last_clst fs' = last_clst fs" "free_clst fs' = free_clst fs" "n_fatent fs' = n_fatent fs" "fsize fs' = fsize fs"
    "fatbase fs' = fatbase fs" "database fs' = database fs" "csize fs' = csize fs" "volbase fs' = volbase fs"
    "dirbase fs' = dirbase fs" "n_rootdir fs' = n_rootdir fs" "cdir fs' = cdir fs" "mount_id fs' = mount_id fs"
  using assms by (cases fs; cases fs'; simp add: volume_def)+

lemma volume_simps [simp]:
  "volume (fs \<lparr> wflag := w \<rparr>) = volume fs" "volume (fs \<lparr> winsect := x \<rparr>) = volume fs" "volume (fs \<lparr> win := bs \<rparr>) = volume fs"
  "volume (volume fs) = volume fs"
  by (simp_all add: volume_def)

lemma volume_cong:
  assumes "volume fs' = volume fs"
  shows "volume_ok fs' = volume_ok fs" "in_fat fs' = in_fat fs" "in_copy fs' = in_copy fs" "steady fs' = steady fs"
    "table_size fs' = table_size fs"
  using volume_fields [OF assms]
  by (simp_all add: volume_ok_def in_fat_def in_copy_def steady_def table_size_def fun_eq_iff Let_def)

lemma volume_ok_simps [simp]:
  "volume_ok (fs \<lparr> wflag := w \<rparr>) = volume_ok fs" "volume_ok (fs \<lparr> winsect := x \<rparr>) = volume_ok fs"
  "volume_ok (fs \<lparr> win := bs \<rparr>) = volume_ok fs" "in_fat (fs \<lparr> wflag := w \<rparr>) = in_fat fs" "in_fat (fs \<lparr> winsect := x \<rparr>) = in_fat fs"
  "in_fat (fs \<lparr> win := bs \<rparr>) = in_fat fs" "in_copy (fs \<lparr> wflag := w \<rparr>) = in_copy fs"
  "in_copy (fs \<lparr> winsect := x \<rparr>) = in_copy fs" "in_copy (fs \<lparr> win := bs \<rparr>) = in_copy fs"
  by (rule volume_cong; simp)+

text \<open>The two tables do not overlap.\<close>

lemma offset_less:
  fixes x :: u32
  assumes "unat y + unat z < 2 ^ 32"
  shows "x - y < z \<longleftrightarrow> unat y \<le> unat x \<and> unat x < unat y + unat z"
proof (cases "y \<le> x")
  case True
  then show ?thesis by (auto simp: word_less_nat_alt word_le_nat_alt unat_sub_if')
next
  case False
  then have "unat (x - y) = 2 ^ 32 + unat x - unat y" by (simp add: unat_sub_if' word_le_nat_alt)
  then show ?thesis using False assms unsigned_less [of x] by (auto simp: word_less_nat_alt word_le_nat_alt)
qed

lemma in_fat_range:
  "volume_ok fs \<Longrightarrow> in_fat fs x \<longleftrightarrow> unat (fatbase fs) \<le> unat x \<and> unat x < unat (fatbase fs) + unat (fsize fs)"
  unfolding in_fat_def by (rule offset_less) (auto simp: volume_ok_def)

lemma unat_copy:
  assumes "volume_ok fs" and "n_fats fs = 2"
  shows "unat (fatbase fs + fsize fs) = unat (fatbase fs) + unat (fsize fs)"
  using assms by (auto simp: volume_ok_def unat_add_lem [THEN iffD1])

lemma in_copy_range:
  assumes "volume_ok fs"
  shows "in_copy fs x \<longleftrightarrow> n_fats fs = 2 \<and> unat (fatbase fs) + unat (fsize fs) \<le> unat x
    \<and> unat x < unat (fatbase fs) + 2 * unat (fsize fs)"
  using assms unat_copy [OF assms] offset_less [of "fatbase fs + fsize fs" "fsize fs" x]
  by (auto simp: in_copy_def volume_ok_def)

lemma unat_minus_1: "unat (- 1 :: u32) = 2 ^ 32 - 1"
  by (simp add: unsigned_minus_1_eq_mask mask_eq_exp_minus_1)

lemma table_disjoint:
  assumes "volume_ok fs" and "in_fat fs x"
  shows "\<not> in_copy fs x" "x \<noteq> - 1" "n_fats fs = 2 \<Longrightarrow> in_copy fs (x + fsize fs)"
    "n_fats fs = 2 \<Longrightarrow> \<not> in_fat fs (x + fsize fs)"
proof -
  note r = in_fat_range [OF assms(1)] in_copy_range [OF assms(1)]
  show "\<not> in_copy fs x" using assms r by auto
  have top: "unat (fatbase fs) + unat (fsize fs) < 2 ^ 32"
    using assms(1) by (auto simp: volume_ok_def)
  then show "x \<noteq> - 1" using assms r unat_minus_1 by auto
  assume two: "n_fats fs = 2"
  then have "unat (fatbase fs) + 2 * unat (fsize fs) < 2 ^ 32" using assms(1) by (auto simp: volume_ok_def)
  then have "unat (x + fsize fs) = unat x + unat (fsize fs)"
    using assms r by (auto simp: unat_add_lem [THEN iffD1])
  then show "in_copy fs (x + fsize fs)" "\<not> in_fat fs (x + fsize fs)" using two assms r by auto
qed

lemma table_unat:
  assumes "volume_ok fs" and "i < 512 * unat (fsize fs)"
  shows "unat (fatbase fs + of_nat (i div 512)) = unat (fatbase fs) + i div 512"
proof -
  have i: "i div 512 < unat (fsize fs)" using assms(2) by (simp add: less_mult_imp_div_less mult.commute)
  then have "unat (of_nat (i div 512) :: u32) = i div 512"
    using unsigned_less [of "fsize fs", where ?'a = nat] by (simp add: unsigned_of_nat take_bit_nat_eq_self)
  then show ?thesis using i assms(1) by (auto simp: volume_ok_def unat_add_lem [THEN iffD1])
qed

lemma table_sector:
  assumes "volume_ok fs" and "i < 512 * unat (fsize fs)"
  shows "in_fat fs (fatbase fs + of_nat (i div 512))"
proof -
  have "i div 512 < unat (fsize fs)" using assms(2) by (simp add: less_mult_imp_div_less mult.commute)
  then show ?thesis using table_unat [OF assms] in_fat_range [OF assms(1)] by simp
qed

lemma table_sector_inj:
  assumes "volume_ok fs" and "i < 512 * unat (fsize fs)" "j < 512 * unat (fsize fs)"
    and "fatbase fs + of_nat (i div 512) = fatbase fs + of_nat (j div 512)"
  shows "i div 512 = j div 512"
  using arg_cong [OF assms(4), of unat] table_unat [OF assms(1,2)] table_unat [OF assms(1,3)] by simp

section \<open>The window on a disk that keeps its sectors\<close>

locale block_disk =
  fixes b :: "'d bus" and st :: sd_card and stores :: "(u32 \<Rightarrow> u8 list) \<Rightarrow> 'd \<Rightarrow> bool"
  assumes sized: "stores c s \<Longrightarrow> length (c x) = 512"
    and reads: "stores c s \<Longrightarrow> length buf = 512 \<Longrightarrow>
      returns (disk_read b st 0 buf x 1 s) (\<lambda>(r, buf', t). r = RES_OK \<and> buf' = c x \<and> stores c t)"
    and writes: "stores c s \<Longrightarrow> length data = 512 \<Longrightarrow>
      returns (disk_write b st 0 data x 1 s) (\<lambda>(r, t). r = RES_OK \<and> stores (c(x := data)) t)"
begin

text \<open>What a flush makes of the disk.\<close>

definition disk_flushed :: "fatfs \<Rightarrow> (u32 \<Rightarrow> u8 list) \<Rightarrow> u32 \<Rightarrow> u8 list" where
  "disk_flushed fs c = (if wflag fs = 0 then c
     else if in_fat fs (winsect fs) \<and> n_fats fs = 2
       then c(winsect fs := win fs, winsect fs + fsize fs := win fs) else c(winsect fs := win fs))"

lemma sync_window_wp:
  assumes "stores c s" and "pdrv fs = 0" "length (win fs) = 512"
  shows "returns (sync_window b st fs s) (\<lambda>(r, fs', t). r = FR_OK \<and> fs' = fs \<lparr> wflag := 0 \<rparr> \<and> stores (disk_flushed fs c) t)"
proof -
  have same: "wflag fs = 0 \<Longrightarrow> fs \<lparr> wflag := 0 \<rparr> = fs" by (cases fs) simp
  obtain t where t: "disk_write b st 0 (win fs) (winsect fs) 1 s = Some (RES_OK, t)" "stores (c(winsect fs := win fs)) t"
    using writes [OF assms(1,3), of "winsect fs"] by (auto simp: returns_ex)
  obtain u where u: "disk_write b st 0 (win fs) (winsect fs + fsize fs) 1 t = Some (RES_OK, u)"
      "stores (c(winsect fs := win fs, winsect fs + fsize fs := win fs)) u"
    using writes [OF t(2) assms(3), of "winsect fs + fsize fs"] by (auto simp: returns_ex)
  show ?thesis
    using assms t u same by (auto simp: sync_window_def disk_flushed_def in_fat_def)
qed

lemma disk_flushed_sound:
  assumes "sound c fs"
  shows "carried c fs (disk_flushed fs c) (fs \<lparr> wflag := 0 \<rparr>)"
proof (cases "wflag fs = 0")
  case True
  then have same: "fs \<lparr> wflag := 0 \<rparr> = fs" by (cases fs) simp
  show ?thesis unfolding same using assms True by (simp add: carried_def disk_flushed_def)
next
  case False
  have ok: "volume_ok fs" and w: "\<not> in_copy fs (winsect fs)" "winsect fs \<noteq> - 1"
    using assms False by (simp_all add: sound_def)
  have img: "seen (fs \<lparr> wflag := 0 \<rparr>) (disk_flushed fs c) x = seen fs c x" if "steady fs x" for x
    using that False table_disjoint [OF ok, of "winsect fs"] by (auto simp: seen_def disk_flushed_def steady_def)
  have win: "disk_flushed fs c (winsect fs) = win fs" using False by (simp add: disk_flushed_def)
  have mir: "mirrored (disk_flushed fs c) (fs \<lparr> wflag := 0 \<rparr>)" if m: "mirrored c fs"
    unfolding mirrored_def
  proof (intro impI allI)
    fix x assume two: "n_fats (fs \<lparr> wflag := 0 \<rparr>) = 2" and x: "in_fat (fs \<lparr> wflag := 0 \<rparr>) x"
    note d = table_disjoint [OF ok, of x]
    have ne: "x + fsize fs \<noteq> winsect fs" using d(3) w two x by auto
    show "disk_flushed fs c (x + fsize (fs \<lparr> wflag := 0 \<rparr>)) = disk_flushed fs c x"
      using False m two x ne d table_disjoint(3) [OF ok, of "winsect fs"] by (auto simp: disk_flushed_def mirrored_def)
  qed
  show ?thesis
    unfolding carried_def using assms img mir win by (auto simp: sound_def)
qed

lemma fresh_window:
  assumes "carried c fs d fs'" and "wflag fs' = 0" "length (d x) = 512"
  shows "carried c fs d (fs' \<lparr> win := d x, winsect := x \<rparr>)" (is "carried c fs d ?f")
proof -
  have clean: "winsect fs' = - 1 \<or> d (winsect fs') = win fs'" and vol: "volume fs' = volume fs"
    and same: "\<forall>y. steady fs y \<longrightarrow> seen fs' d y = seen fs c y"
    using assms(1,2) by (simp_all add: carried_def sound_def)
  have "seen ?f d y = seen fs' d y" if "steady fs y" for y
    using that clean by (auto simp: seen_def steady_def)
  then have "\<forall>y. steady fs y \<longrightarrow> seen ?f d y = seen fs c y" using same by simp
  moreover have "sound d ?f" using assms by (simp add: carried_def sound_def)
  moreover have "mirrored d ?f" if "mirrored d fs'" using that assms(2) by (simp add: mirrored_def)
  ultimately show ?thesis using assms(1) vol by (simp add: carried_def)
qed

lemma move_window_wp:
  assumes "stores c s" and "sound c fs"
  shows "returns (move_window b st x fs s)
    (\<lambda>(r, fs', t). r = FR_OK \<and> winsect fs' = x \<and> (\<exists>c'. stores c' t \<and> carried c fs c' fs'))"
proof (cases "x = winsect fs")
  case True
  then show ?thesis using assms by (auto simp: move_window_def carried_def)
next
  case False
  have fs: "pdrv fs = 0" "length (win fs) = 512" using assms(2) by (simp_all add: sound_def volume_ok_def)
  obtain t where t: "sync_window b st fs s = Some (FR_OK, fs \<lparr> wflag := 0 \<rparr>, t)" "stores (disk_flushed fs c) t"
    using sync_window_wp [OF assms(1) fs] by (auto simp: returns_ex)
  obtain u where u: "disk_read b st 0 (win fs) x 1 t = Some (RES_OK, disk_flushed fs c x, u)" "stores (disk_flushed fs c) u"
    using reads [OF t(2) fs(2), of x] by (auto simp: returns_ex)
  let ?fs = "fs \<lparr> wflag := 0, win := disk_flushed fs c x, winsect := x \<rparr>"
  have "carried c fs (disk_flushed fs c) ?fs"
    using fresh_window [OF disk_flushed_sound [OF assms(2)], of x] sized [OF u(2)] by simp
  then show ?thesis using t u False fs by (auto simp: move_window_def)
qed

end

section \<open>The bytes of the table\<close>

definition fat_byte :: "fatfs \<Rightarrow> (u32 \<Rightarrow> u8 list) \<Rightarrow> nat \<Rightarrow> u8" where
  "fat_byte fs c i = seen fs c (fatbase fs + of_nat (i div 512)) ! (i mod 512)"

text \<open>The volume object \<open>V\<close> (without its window), the bytes \<open>B\<close> of the table, the other sectors \<open>R\<close>.\<close>

definition byte_state :: "((u32 \<Rightarrow> u8 list) \<Rightarrow> 'd \<Rightarrow> bool) \<Rightarrow> fatfs \<Rightarrow> (nat \<Rightarrow> u8) \<Rightarrow> (u32 \<Rightarrow> u8 list) \<Rightarrow> fatfs \<Rightarrow> 'd \<Rightarrow> bool" where
  "byte_state stores V B R fs s \<longleftrightarrow> volume fs = V \<and> (\<exists>c. stores c s \<and> sound c fs \<and> mirrored c fs
     \<and> (\<forall>i < 512 * unat (fsize V). fat_byte fs c i = B i) \<and> (\<forall>x. steady V x \<longrightarrow> \<not> in_fat V x \<longrightarrow> seen fs c x = R x))"

lemma volume_id: "volume fs = V \<Longrightarrow> volume V = V"
  by auto

lemma seen_poke:
  "winsect fs = y \<Longrightarrow> x \<noteq> y \<Longrightarrow> seen (fs \<lparr> win := bs, wflag := w \<rparr>) c x = seen fs c x"
  by (simp add: seen_def)

lemma byte_state_volume:
  assumes "byte_state stores V B R fs s"
  shows "volume fs = V" "volume_ok V" "length (win fs) = 512" "fs_type fs = fs_type V" "pdrv fs = 0"
    "n_fatent fs = n_fatent V" "fatbase fs = fatbase V" "fsize fs = fsize V"
  using assms volume_fields [of V fs] volume_cong [of V fs]
  by (auto simp: byte_state_def sound_def) (metis volume_ok_def volume_simps(4))+

lemma window_read:
  assumes "byte_state stores V B R fs s" and "winsect fs = fatbase V + of_nat (i div 512)" "i < 512 * unat (fsize V)"
  shows "win fs ! (i mod 512) = B i"
  using assms byte_state_volume [OF assms(1)] by (force simp: byte_state_def fat_byte_def seen_def)

lemma window_poke:
  assumes "byte_state stores V B R fs s" and w: "winsect fs = fatbase V + of_nat (i div 512)" and i: "i < 512 * unat (fsize V)"
  shows "byte_state stores V (B(i := v)) R (fs \<lparr> win := (win fs)[i mod 512 := v], wflag := 1 \<rparr>) s"
proof -
  let ?fs = "fs \<lparr> win := (win fs)[i mod 512 := v], wflag := 1 \<rparr>"
  note vol = byte_state_volume [OF assms(1)]
  from assms(1) obtain c where c: "stores c s" "sound c fs" "mirrored c fs"
      "\<forall>i < 512 * unat (fsize V). fat_byte fs c i = B i" "\<forall>x. steady V x \<longrightarrow> \<not> in_fat V x \<longrightarrow> seen fs c x = R x"
    by (auto simp: byte_state_def)
  have cong: "in_fat fs = in_fat V" "in_copy fs = in_copy V" "volume_ok fs"
    using volume_cong [of fs V] vol(1,2) by auto
  have here: "in_fat V (winsect fs)" using table_sector [OF vol(2) i] w by simp
  note apart = table_disjoint [OF vol(2) here]
  have "sound c ?fs" using c(2) cong apart by (simp add: sound_def)
  moreover have "mirrored c ?fs" using c(3) by (auto simp: mirrored_def)
  moreover have "fat_byte ?fs c j = (B(i := v)) j" if j: "j < 512 * unat (fsize V)" for j
  proof (cases "j div 512 = i div 512")
    case True
    then have "j = i \<longleftrightarrow> j mod 512 = i mod 512" by (metis div_mult_mod_eq)
    moreover have "fat_byte fs c j = B j" using c(4) j by blast
    ultimately show ?thesis using True w vol by (auto simp: fat_byte_def seen_def nth_list_update)
  next
    case False
    then have "fatbase V + of_nat (j div 512) \<noteq> winsect fs"
      using table_sector_inj [OF vol(2) j i] w by metis
    moreover have "j \<noteq> i" "fat_byte fs c j = B j" using False c(4) j by auto
    ultimately show ?thesis using vol by (simp add: fat_byte_def seen_def)
  qed
  moreover have "seen ?fs c x = R x" if "steady V x" "\<not> in_fat V x" for x
    using c(5) that here by (auto simp: seen_def)
  ultimately show ?thesis using c(1) vol(1) by (auto simp: byte_state_def)
qed

context block_disk
begin

lemma move_window_bytes:
  assumes "byte_state stores V B R fs s"
  shows "returns (move_window b st x fs s) (\<lambda>(r, fs', t). r = FR_OK \<and> winsect fs' = x \<and> byte_state stores V B R fs' t)"
proof -
  note vol = byte_state_volume [OF assms]
  from assms obtain c where c: "stores c s" "sound c fs" "mirrored c fs"
      "\<forall>i < 512 * unat (fsize V). fat_byte fs c i = B i" "\<forall>x. steady V x \<longrightarrow> \<not> in_fat V x \<longrightarrow> seen fs c x = R x"
    by (auto simp: byte_state_def)
  from move_window_wp [OF c(1,2), of x] obtain fs' t c' where m: "move_window b st x fs s = Some (FR_OK, fs', t)"
      "winsect fs' = x" "stores c' t" "carried c fs c' fs'"
    by (auto simp: returns_ex)
  have k: "sound c' fs'" "mirrored c' fs'" "volume fs' = V" "\<forall>y. steady V y \<longrightarrow> seen fs' c' y = seen fs c y"
    using m(4) c(3) vol(1) volume_cong(4) [of fs V] by (auto simp: carried_def)
  have "fat_byte fs' c' i = B i" if i: "i < 512 * unat (fsize V)" for i
  proof -
    have "steady V (fatbase V + of_nat (i div 512))"
      using table_disjoint [OF vol(2) table_sector [OF vol(2) i]] by (simp add: steady_def)
    moreover have "fat_byte fs c i = B i" using c(4) i by blast
    ultimately show ?thesis using k(4) vol volume_fields [of fs' V] k(3) by (auto simp: fat_byte_def)
  qed
  then show ?thesis using m k c(5) by (auto simp: byte_state_def)
qed

end

section \<open>Entries\<close>

definition entry_at :: "u8 \<Rightarrow> u32 \<Rightarrow> nat" where
  "entry_at ty n = (if ty = FS_FAT12 then unat n + unat n div 2 else if ty = FS_FAT16 then 2 * unat n else 4 * unat n)"

definition entry_mask :: "u8 \<Rightarrow> u32" where
  "entry_mask ty = (if ty = FS_FAT12 then 0xFFF else if ty = FS_FAT16 then 0xFFFF else 0x0FFFFFFF)"

definition entry_bytes :: "(nat \<Rightarrow> u8) \<Rightarrow> nat \<Rightarrow> u32" where
  "entry_bytes B i = ucast (B i) OR push_bit 8 (ucast (B (i + 1)))"

definition entry :: "u8 \<Rightarrow> (nat \<Rightarrow> u8) \<Rightarrow> u32 \<Rightarrow> u32" where
  "entry ty B n =
     (let i = entry_at ty n in
      if ty = FS_FAT12 then (if n AND 1 \<noteq> 0 then drop_bit 4 (entry_bytes B i) else entry_bytes B i AND 0xFFF)
      else if ty = FS_FAT16 then entry_bytes B i
      else (entry_bytes B i OR push_bit 16 (entry_bytes B (i + 2))) AND 0x0FFFFFFF)"

definition with_entry :: "u8 \<Rightarrow> (nat \<Rightarrow> u8) \<Rightarrow> u32 \<Rightarrow> u32 \<Rightarrow> nat \<Rightarrow> u8" where
  "with_entry ty B n v =
     (let i = entry_at ty n in
      if ty = FS_FAT12 then
        if n AND 1 \<noteq> 0 then B(i := (B i AND 0x0F) OR push_bit 4 (ucast v), i + 1 := ucast (drop_bit 4 v))
        else B(i := ucast v, i + 1 := (B (i + 1) AND 0xF0) OR (ucast (drop_bit 8 v) AND 0x0F))
      else if ty = FS_FAT16 then B(i := ucast v, i + 1 := ucast (drop_bit 8 v))
      else B(i := ucast v, i + 1 := ucast (drop_bit 8 v), i + 2 := ucast (drop_bit 16 v),
             i + 3 := (B (i + 3) AND 0xF0) OR (ucast (drop_bit 24 v) AND 0x0F)))"

lemma odd_word: "(n AND 1 \<noteq> 0) = odd (unat n)" for n :: u32
proof -
  have "odd (unat n) = bit (unat n) 0" by (simp add: bit_0)
  also have "\<dots> = bit n 0" by (simp only: bit_unsigned_iff) simp
  finally show ?thesis by (simp add: and_one_eq odd_iff_mod_2_eq_one [symmetric] bit_0)
qed

lemma mask_bits:
  "bit (0xFFF :: int) k \<longleftrightarrow> k < 12" "bit (0xFFFF :: int) k \<longleftrightarrow> k < 16" "bit (0x0FFFFFFF :: int) k \<longleftrightarrow> k < 28"
  "bit (0x0F :: int) k \<longleftrightarrow> k < 4" "bit (0xF0 :: int) k \<longleftrightarrow> 4 \<le> k \<and> k < 8"
proof -
  have m: "0xFFF = (mask 12 :: int)" "0xFFFF = (mask 16 :: int)" "0x0FFFFFFF = (mask 28 :: int)" "0x0F = (mask 4 :: int)"
    "0xF0 = (push_bit 4 (mask 4) :: int)"
    by (simp_all add: mask_eq_exp_minus_1 push_bit_eq_mult)
  show "bit (0xFFF :: int) k \<longleftrightarrow> k < 12" "bit (0xFFFF :: int) k \<longleftrightarrow> k < 16" "bit (0x0FFFFFFF :: int) k \<longleftrightarrow> k < 28"
    "bit (0x0F :: int) k \<longleftrightarrow> k < 4" "bit (0xF0 :: int) k \<longleftrightarrow> 4 \<le> k \<and> k < 8"
    unfolding m by (auto simp: bit_simps)
qed

lemma byte_bit: "bit (x :: u8) k \<Longrightarrow> k < 8"
  using bit_imp_le_length [of x k] by simp

lemma entry_with_entry: "entry ty (with_entry ty B n v) n = v AND entry_mask ty"
proof -
  note defs = entry_def with_entry_def entry_mask_def entry_bytes_def Let_def bit_simps mask_bits
  consider "ty = FS_FAT12" "n AND 1 \<noteq> 0" | "ty = FS_FAT12" "n AND 1 = 0" | "ty = FS_FAT16" "ty \<noteq> FS_FAT12"
    | "ty \<noteq> FS_FAT12" "ty \<noteq> FS_FAT16" by blast
  then show ?thesis
  proof cases
    case 1 then show ?thesis by (intro bit_word_eqI) (auto simp: defs)
  next
    case 2 then show ?thesis by (intro bit_word_eqI) (auto simp: defs)
  next
    case 3 then show ?thesis by (intro bit_word_eqI) (auto simp: defs)
  next
    case 4 then show ?thesis by (intro bit_word_eqI) (auto simp: defs)
  qed
qed

lemma entry_with_other:
  assumes "m \<noteq> n"
  shows "entry ty (with_entry ty B n v) m = entry ty B m"
proof -
  have ne: "unat m \<noteq> unat n" using assms by (simp add: word_unat_eq_iff)
  consider "ty = FS_FAT12" "unat n = unat m + 1" "odd (unat n)" | "ty = FS_FAT12" "unat m = unat n + 1" "odd (unat m)"
    | "ty = FS_FAT12" "entry_at ty m \<ge> entry_at ty n + 2 \<or> entry_at ty n \<ge> entry_at ty m + 2"
    | "ty \<noteq> FS_FAT12"
    using ne unfolding entry_at_def by fastforce
  then show ?thesis
  proof cases
    case 1
    then have "entry_at ty n = entry_at ty m + 1" "even (unat m)" by (auto simp: entry_at_def)
    then show ?thesis using 1
      by (intro bit_word_eqI)
        (auto simp: entry_def with_entry_def entry_bytes_def Let_def bit_simps mask_bits odd_word dest: byte_bit)
  next
    case 2
    then have "entry_at ty m = entry_at ty n + 1" "even (unat n)" by (auto simp: entry_at_def)
    then show ?thesis using 2
      by (intro bit_word_eqI)
        (auto simp: entry_def with_entry_def entry_bytes_def Let_def bit_simps mask_bits odd_word dest: byte_bit)
  next
    case 3
    then show ?thesis by (auto simp: entry_def with_entry_def entry_bytes_def Let_def)
  next
    case 4
    then have "entry_at ty n + 4 \<le> entry_at ty m \<or> entry_at ty m + 4 \<le> entry_at ty n
      \<or> ty = FS_FAT16 \<and> (entry_at ty n + 2 \<le> entry_at ty m \<or> entry_at ty m + 2 \<le> entry_at ty n)"
      using ne by (auto simp: entry_at_def)
    then show ?thesis using 4 by (auto simp: entry_def with_entry_def entry_bytes_def Let_def)
  qed
qed

lemma entry_fits:
  assumes "volume_ok V" and "n < n_fatent V"
  shows "entry_at (fs_type V) n + 1 < 512 * unat (fsize V)"
    "fs_type V = FS_FAT32 \<Longrightarrow> entry_at (fs_type V) n + 3 < 512 * unat (fsize V)"
proof -
  have n: "unat n < unat (n_fatent V)" using assms(2) by (simp add: word_less_nat_alt)
  show "entry_at (fs_type V) n + 1 < 512 * unat (fsize V)"
    "fs_type V = FS_FAT32 \<Longrightarrow> entry_at (fs_type V) n + 3 < 512 * unat (fsize V)"
    using n assms(1) by (auto simp: volume_ok_def entry_at_def table_size_def Let_def FS_FAT12_def FS_FAT16_def FS_FAT32_def split: if_splits)
qed

lemma entry_small: "entry ty B n AND entry_mask ty = entry ty B n"
  by (rule bit_word_eqI)
    (auto simp: entry_def entry_mask_def entry_bytes_def Let_def bit_simps mask_bits FS_FAT12_def FS_FAT16_def dest: byte_bit)

lemma bc_word:
  fixes bc :: u32
  shows "bc div 512 = of_nat (unat bc div 512)" "unat (bc mod 512) = unat bc mod 512"
  by (simp_all add: word_arith_nat_div unat_mod)

lemma fat12_at:
  fixes n :: u32
  assumes "n \<le> 0xFF7"
  shows "unat (n + n div 2) = entry_at FS_FAT12 n" "unat (n + n div 2 + 1) = entry_at FS_FAT12 n + 1"
proof -
  have n: "unat n \<le> 4087" using assms by (simp add: word_le_nat_alt)
  have d: "unat (n div 2) = unat n div 2" by (simp add: unat_div)
  have s: "unat (n + n div 2) = unat n + unat n div 2"
    using n d by (subst unat_add_lem [THEN iffD1]) auto
  then show "unat (n + n div 2) = entry_at FS_FAT12 n" by (simp add: entry_at_def)
  show "unat (n + n div 2 + 1) = entry_at FS_FAT12 n + 1"
    using n s by (subst unat_add_lem [THEN iffD1]) (auto simp: entry_at_def)
qed

lemma fat16_at:
  fixes n :: u32
  shows "n div 256 = of_nat (entry_at FS_FAT16 n div 512)" "unat (n * 2 mod 512) = entry_at FS_FAT16 n mod 512"
proof -
  have "2 * unat n div 512 = unat n div 256" by linarith
  then show "n div 256 = of_nat (entry_at FS_FAT16 n div 512)"
    by (simp add: entry_at_def FS_FAT12_def FS_FAT16_def word_arith_nat_div)
  have "unat (n * 2) = 2 * unat n mod 2 ^ 32" by (simp add: unat_word_ariths mult.commute)
  then have "unat (n * 2) mod 512 = 2 * unat n mod 512" by (simp add: mod_mod_cancel)
  then show "unat (n * 2 mod 512) = entry_at FS_FAT16 n mod 512"
    by (simp add: entry_at_def FS_FAT12_def FS_FAT16_def unat_mod)
qed

lemma fat32_at:
  fixes n :: u32
  shows "n div 128 = of_nat (entry_at FS_FAT32 n div 512)" "unat (n * 4 mod 512) = entry_at FS_FAT32 n mod 512"
proof -
  have "4 * unat n div 512 = unat n div 128" by linarith
  then show "n div 128 = of_nat (entry_at FS_FAT32 n div 512)"
    by (simp add: entry_at_def FS_FAT12_def FS_FAT16_def FS_FAT32_def word_arith_nat_div)
  have "unat (n * 4) = 4 * unat n mod 2 ^ 32" by (simp add: unat_word_ariths mult.commute)
  then have "unat (n * 4) mod 512 = 4 * unat n mod 512" by (simp add: mod_mod_cancel)
  then show "unat (n * 4 mod 512) = entry_at FS_FAT32 n mod 512"
    by (simp add: entry_at_def FS_FAT12_def FS_FAT16_def FS_FAT32_def unat_mod)
qed

text \<open>Entries of two and of four bytes do not cross a sector.\<close>

lemma same_sector:
  fixes a k :: nat
  assumes "a mod 512 + k < 512"
  shows "(a + k) div 512 = a div 512" "(a + k) mod 512 = a mod 512 + k"
proof -
  have eq: "a + k = (a mod 512 + k) + a div 512 * 512" using div_mult_mod_eq [of a 512] by simp
  have "(r + q * 512) div 512 = q" "(r + q * 512) mod 512 = r" if "r < 512" for r q :: nat using that by simp_all
  from this [OF assms, of "a div 512", folded eq]
  show "(a + k) div 512 = a div 512" "(a + k) mod 512 = a mod 512 + k" by blast+
qed

lemma even_room: "2 * n mod 512 + 1 < 512" for n :: nat
proof -
  have "2 * n mod 512 = 2 * (n mod 256)" using mult_mod_right [of 2 n 256] by simp
  moreover have "n mod 256 < 256" by simp
  ultimately show ?thesis by linarith
qed

lemma quad_room: "4 * n mod 512 + 3 < 512" for n :: nat
proof -
  have "4 * n mod 512 = 4 * (n mod 128)" using mult_mod_right [of 4 n 128] by simp
  moreover have "n mod 128 < 128" by simp
  ultimately show ?thesis by linarith
qed

lemmas even_sector = same_sector [OF even_room]

lemma quad_sector:
  fixes n :: nat
  assumes "k < 4"
  shows "(4 * n + k) div 512 = (4 * n) div 512" "(4 * n + k) mod 512 = (4 * n) mod 512 + k"
proof -
  have "4 * n mod 512 + k < 512" using quad_room [of n] assms by linarith
  note same_sector [OF this]
  then show "(4 * n + k) div 512 = (4 * n) div 512" "(4 * n + k) mod 512 = (4 * n) mod 512 + k" by auto
qed

text \<open>The type of a volume, and the limits that go with it.\<close>

lemma volume_type:
  assumes "volume_ok V"
  obtains "fs_type V = FS_FAT12" "n_fatent V \<le> 0xFF7" | "fs_type V = FS_FAT16" | "fs_type V = FS_FAT32"
  using assms by (auto simp: volume_ok_def)

lemma types_apart [simp]:
  "FS_FAT12 \<noteq> FS_FAT16" "FS_FAT12 \<noteq> FS_FAT32" "FS_FAT16 \<noteq> FS_FAT32" "FS_FAT16 \<noteq> FS_FAT12" "FS_FAT32 \<noteq> FS_FAT12"
  "FS_FAT32 \<noteq> FS_FAT16"
  by (simp_all add: FS_FAT12_def FS_FAT16_def FS_FAT32_def)

lemma ld_word_at:
  "i + 1 < length xs \<Longrightarrow> ucast (ld_word (drop i xs)) = (ucast (xs ! i) OR push_bit 8 (ucast (xs ! (i + 1))) :: u32)"
  by (intro bit_word_eqI) (auto simp: ld_word_def bit_simps nth_drop dest: byte_bit)

lemma ld_dword_at:
  "i + 3 < length xs \<Longrightarrow> ld_dword (drop i xs) = (ucast (xs ! i) OR push_bit 8 (ucast (xs ! (i + 1))))
     OR push_bit 16 (ucast (xs ! (i + 2)) OR push_bit 8 (ucast (xs ! (i + 3))))"
  by (intro bit_word_eqI) (auto simp: ld_dword_def Let_def bit_simps nth_drop diff_diff_eq dest: byte_bit)

context block_disk
begin

lemma get_fat12:
  assumes "byte_state stores V B R fs s" and ty: "fs_type V = FS_FAT12" "n_fatent V \<le> 0xFF7" and n: "2 \<le> n" "n < n_fatent V"
  shows "returns (get_fat b st n fs s) (\<lambda>(v, fs', t). v = entry (fs_type V) B n \<and> byte_state stores V B R fs' t)"
proof -
  let ?i = "entry_at FS_FAT12 n" and ?bc = "n + n div 2"
  note vol = byte_state_volume [OF assms(1)]
  have range: "\<not> (n < 2 \<or> n_fatent V \<le> n)" using n by (auto simp: not_less not_le)
  have fit: "?i < 512 * unat (fsize V)" "?i + 1 < 512 * unat (fsize V)"
    using entry_fits [OF vol(2) n(2)] ty by auto
  have "n \<le> 0xFF7" using n ty by simp
  note at = fat12_at [OF this]
  obtain fs1 t1 where 1: "move_window b st (fatbase V + ?bc div 512) fs s = Some (FR_OK, fs1, t1)"
      "winsect fs1 = fatbase V + ?bc div 512" "byte_state stores V B R fs1 t1"
    using move_window_bytes [OF assms(1), of "fatbase V + ?bc div 512"] by (auto simp: returns_ex)
  obtain fs2 t2 where 2: "move_window b st (fatbase V + (?bc + 1) div 512) fs1 t1 = Some (FR_OK, fs2, t2)"
      "winsect fs2 = fatbase V + (?bc + 1) div 512" "byte_state stores V B R fs2 t2"
    using move_window_bytes [OF 1(3), of "fatbase V + (?bc + 1) div 512"] by (auto simp: returns_ex)
  have "win fs1 ! unat (?bc mod 512) = B ?i"
    using window_read [OF 1(3) _ fit(1)] 1(2) at unfolding bc_word by simp
  moreover have "win fs2 ! unat ((?bc + 1) mod 512) = B (?i + 1)"
    using window_read [OF 2(3) _ fit(2)] 2(2) at unfolding bc_word by simp
  ultimately show ?thesis
    using range ty vol 1 2 byte_state_volume [OF 1(3)]
    by (simp add: get_fat_def entry_def entry_bytes_def Let_def)
qed

lemma get_fat_bytes:
  assumes "byte_state stores V B R fs s" and n: "2 \<le> n" "n < n_fatent V"
  shows "returns (get_fat b st n fs s) (\<lambda>(v, fs', t). v = entry (fs_type V) B n \<and> byte_state stores V B R fs' t)"
proof -
  note vol = byte_state_volume [OF assms(1)]
  note fit = entry_fits [OF vol(2) n(2)]
  have range: "\<not> (n < 2 \<or> n_fatent V \<le> n)" using n by (auto simp: not_less not_le)
  from vol(2) show ?thesis
  proof (cases rule: volume_type)
    case 1
    then show ?thesis using get_fat12 [OF assms(1) _ _ n] by simp
  next
    case 2
    let ?x = "fatbase V + n div 256"
    obtain fs1 t1 where 1: "move_window b st ?x fs s = Some (FR_OK, fs1, t1)"
      "winsect fs1 = ?x" "byte_state stores V B R fs1 t1"
      using move_window_bytes [OF assms(1), of ?x] by (auto simp: returns_ex)
    have "win fs1 ! (entry_at FS_FAT16 n mod 512) = B (entry_at FS_FAT16 n)"
      using window_read [OF 1(3)] 1(2) fit 2 by (simp add: fat16_at)
    moreover have "win fs1 ! (entry_at FS_FAT16 n mod 512 + 1) = B (entry_at FS_FAT16 n + 1)"
      using window_read [OF 1(3), of "entry_at FS_FAT16 n + 1"] 1(2) fit 2 even_sector [of "unat n"]
      by (simp add: fat16_at entry_at_def)
    moreover have "entry_at FS_FAT16 n mod 512 + 1 < 512" using even_room [of "unat n"] by (simp add: entry_at_def)
    ultimately show ?thesis
      using range 2 vol 1 byte_state_volume [OF 1(3)]
      by (simp add: get_fat_def entry_def entry_bytes_def Let_def ld_word_at fat16_at)
  next
    case 3
    let ?x = "fatbase V + n div 128" and ?i = "entry_at FS_FAT32 n"
    obtain fs1 t1 where 1: "move_window b st ?x fs s = Some (FR_OK, fs1, t1)"
      "winsect fs1 = ?x" "byte_state stores V B R fs1 t1"
      using move_window_bytes [OF assms(1), of ?x] by (auto simp: returns_ex)
    have "win fs1 ! (?i mod 512 + k) = B (?i + k)" if "k < 4" for k
      using window_read [OF 1(3), of "?i + k"] 1(2) fit 3 quad_sector [OF that, of "unat n"] that
      by (simp add: fat32_at entry_at_def)
    from this [of 0] this [of 1] this [of 2] this [of 3] have "win fs1 ! (?i mod 512) = B ?i"
      "win fs1 ! (?i mod 512 + 1) = B (?i + 1)" "win fs1 ! (?i mod 512 + 2) = B (?i + 2)"
      "win fs1 ! (?i mod 512 + 3) = B (?i + 3)" by simp_all
    moreover have "?i mod 512 + 3 < 512" using quad_room [of "unat n"] by (simp add: entry_at_def)
    ultimately show ?thesis
      using range 3 vol 1 byte_state_volume [OF 1(3)]
      by (simp add: get_fat_def entry_def entry_bytes_def Let_def ld_dword_at fat32_at numeral_3_eq_3)
  qed
qed

end

text \<open>The bytes that the stores of \<^verbatim>\<open>put_fat\<close> leave.\<close>

lemma word_bytes:
  "ucast (ucast v :: u16) = (ucast v :: u8)" "ucast (drop_bit 8 (ucast v :: u16)) = (ucast (drop_bit 8 v) :: u8)" for v :: u32
  by (rule bit_word_eqI; auto simp: bit_simps)+

lemma dword_bytes:
  fixes v old l h :: u32
  assumes lh: "l = 0x0FFFFFFF" "h = 0xF0000000"
  shows "ucast ((v AND l) OR (old AND h)) = (ucast v :: u8)"
    "ucast (drop_bit 8 ((v AND l) OR (old AND h))) = (ucast (drop_bit 8 v) :: u8)"
    "ucast (drop_bit 16 ((v AND l) OR (old AND h))) = (ucast (drop_bit 16 v) :: u8)"
    "ucast (drop_bit 24 ((v AND l) OR (old AND h)))
      = (ucast (drop_bit 24 old) AND 0xF0) OR (ucast (drop_bit 24 v) AND (0x0F :: u8))"
proof -
  have high: "0xF0000000 = (push_bit 28 (mask 4) :: int)" by (simp add: mask_eq_exp_minus_1 push_bit_eq_mult)
  have top: "bit (0xF0000000 :: int) k \<longleftrightarrow> 28 \<le> k \<and> k < 32" for k
    unfolding high by (simp add: bit_push_bit_iff bit_mask_iff) linarith
  have bits: "bit l k \<longleftrightarrow> k < 28" "bit h k \<longleftrightarrow> 28 \<le> k \<and> k < 32" for k
    unfolding lh using top [of k] mask_bits(3) [of k] by auto
  note s = bit_simps bits mask_bits
  show "ucast ((v AND l) OR (old AND h)) = (ucast v :: u8)" by (rule bit_word_eqI) (auto simp: s)
  show "ucast (drop_bit 8 ((v AND l) OR (old AND h))) = (ucast (drop_bit 8 v) :: u8)" by (rule bit_word_eqI) (auto simp: s)
  show "ucast (drop_bit 16 ((v AND l) OR (old AND h))) = (ucast (drop_bit 16 v) :: u8)" by (rule bit_word_eqI) (auto simp: s)
  show "ucast (drop_bit 24 ((v AND l) OR (old AND h)))
      = (ucast (drop_bit 24 old) AND 0xF0) OR (ucast (drop_bit 24 v) AND (0x0F :: u8))"
    by (rule bit_word_eqI) (auto simp: s)
qed

lemma dword_top:
  "ucast (drop_bit 24 ((ucast x OR push_bit 8 (ucast y)) OR push_bit 16 (ucast z OR push_bit 8 (ucast t)) :: u32)) = t"
  for x y z t :: u8
  by (rule bit_word_eqI) (auto simp: bit_simps dest: byte_bit)

text \<open>Stores into a sector of the table, byte by byte from \<open>i\<close> on.\<close>

fun pokes :: "nat \<Rightarrow> 'a list \<Rightarrow> (nat \<Rightarrow> 'a) \<Rightarrow> nat \<Rightarrow> 'a" where
  "pokes i [] B = B"
| "pokes i (v # vs) B = pokes (i + 1) vs (B(i := v))"

fun stores_at :: "nat \<Rightarrow> 'a list \<Rightarrow> 'a list \<Rightarrow> 'a list" where
  "stores_at p [] xs = xs"
| "stores_at p (v # vs) xs = stores_at (p + 1) vs (xs[p := v])"

lemma st_dword_low:
  assumes "p + 3 < length xs"
  shows "st_dword p ((v AND 0x0FFFFFFF) OR (ld_dword (drop p xs) AND 0xF0000000)) xs
    = stores_at p [ucast v, ucast (drop_bit 8 v), ucast (drop_bit 16 v),
        (xs ! (p + 3) AND 0xF0) OR (ucast (drop_bit 24 v) AND 0x0F)] xs"
  unfolding st_dword_def dword_bytes [OF refl refl] ld_dword_at [OF assms] dword_top
  by (simp add: numeral_3_eq_3)

lemma window_pokes:
  assumes "byte_state stores V B R fs s" and "winsect fs = fatbase V + of_nat (i div 512)"
    and "i + length vs \<le> 512 * unat (fsize V)" and "i mod 512 + length vs \<le> 512" and "vs \<noteq> []"
  shows "byte_state stores V (pokes i vs B) R (fs \<lparr> win := stores_at (i mod 512) vs (win fs), wflag := 1 \<rparr>) s"
  using assms
proof (induction vs arbitrary: i B fs)
  case (Cons v vs)
  let ?fs = "fs \<lparr> win := (win fs)[i mod 512 := v], wflag := 1 \<rparr>"
  have poke: "byte_state stores V (B(i := v)) R ?fs s"
    using window_poke [OF Cons.prems(1,2)] Cons.prems(3) by simp
  show ?case
  proof (cases "vs = []")
    case True
    then show ?thesis using poke by (simp add: fun_upd_def)
  next
    case False
    then have "i mod 512 + 1 < 512" using Cons.prems(4) by (cases vs) simp_all
    then have "(i + 1) div 512 = i div 512" "(i + 1) mod 512 = i mod 512 + 1" by (rule same_sector)+
    then show ?thesis using Cons.IH [OF poke, of "i + 1"] Cons.prems False by (simp add: fun_upd_def)
  qed
qed simp

context block_disk
begin

lemma put_fat12:
  assumes "byte_state stores V B R fs s" and ty: "fs_type V = FS_FAT12" "n_fatent V \<le> 0xFF7" and n: "2 \<le> n" "n < n_fatent V"
  shows "returns (put_fat b st n v fs s)
    (\<lambda>(r, fs', t). r = FR_OK \<and> byte_state stores V (with_entry (fs_type V) B n v) R fs' t)"
proof -
  let ?i = "entry_at FS_FAT12 n" and ?bc = "n + n div 2"
  note vol = byte_state_volume [OF assms(1)]
  have fit: "?i < 512 * unat (fsize V)" "?i + 1 < 512 * unat (fsize V)"
    using entry_fits [OF vol(2) n(2)] ty by auto
  have "n \<le> 0xFF7" using n ty by simp
  note at = fat12_at [OF this]
  obtain fs1 t1 where 1: "move_window b st (fatbase V + ?bc div 512) fs s = Some (FR_OK, fs1, t1)"
      "winsect fs1 = fatbase V + ?bc div 512" "byte_state stores V B R fs1 t1"
    using move_window_bytes [OF assms(1), of "fatbase V + ?bc div 512"] by (auto simp: returns_ex)
  have w1: "winsect fs1 = fatbase V + of_nat (?i div 512)" and p1: "unat (?bc mod 512) = ?i mod 512"
    using 1(2) at unfolding bc_word by simp_all
  let ?v = "if n AND 1 \<noteq> 0 then (B ?i AND 0x0F) OR push_bit 4 (ucast v) else ucast v"
  let ?fs1 = "fs1 \<lparr> win := (win fs1)[?i mod 512 := ?v], wflag := 1 \<rparr>"
  have old1: "win fs1 ! (?i mod 512) = B ?i" by (rule window_read [OF 1(3) w1 fit(1)])
  have poked: "byte_state stores V (B(?i := ?v)) R ?fs1 t1" by (rule window_poke [OF 1(3) w1 fit(1)])
  obtain fs2 t2 where 2: "move_window b st (fatbase V + (?bc + 1) div 512) ?fs1 t1 = Some (FR_OK, fs2, t2)"
      "winsect fs2 = fatbase V + (?bc + 1) div 512" "byte_state stores V (B(?i := ?v)) R fs2 t2"
    using move_window_bytes [OF poked, of "fatbase V + (?bc + 1) div 512"] by (auto simp: returns_ex)
  have w2: "winsect fs2 = fatbase V + of_nat ((?i + 1) div 512)" and p2: "unat ((?bc + 1) mod 512) = (?i + 1) mod 512"
    using 2(2) at unfolding bc_word by simp_all
  have old2: "win fs2 ! ((?i + 1) mod 512) = B (?i + 1)" using window_read [OF 2(3) w2 fit(2)] by simp
  let ?u = "if n AND 1 \<noteq> 0 then ucast (drop_bit 4 v) else (B (?i + 1) AND 0xF0) OR (ucast (drop_bit 8 v) AND 0x0F)"
  let ?fs2 = "fs2 \<lparr> win := (win fs2)[(?i + 1) mod 512 := ?u], wflag := 1 \<rparr>"
  have "byte_state stores V (B(?i := ?v, ?i + 1 := ?u)) R ?fs2 t2" by (rule window_poke [OF 2(3) w2 fit(2)])
  moreover have "B(?i := ?v, ?i + 1 := ?u) = with_entry FS_FAT12 B n v" by (simp add: with_entry_def Let_def)
  moreover have "put_fat b st n v fs s = Some (FR_OK, ?fs2, t2)"
    using n ty vol byte_state_volume [OF 1(3)] 1(1) 2(1) p1 p2 old1 old2
    by (cases "n AND 1 = 0") (simp_all add: put_fat_def Let_def)
  ultimately show ?thesis using ty by simp
qed

lemma put_fat_bytes:
  assumes "byte_state stores V B R fs s" and n: "2 \<le> n" "n < n_fatent V"
  shows "returns (put_fat b st n v fs s)
    (\<lambda>(r, fs', t). r = FR_OK \<and> byte_state stores V (with_entry (fs_type V) B n v) R fs' t)"
proof -
  note vol = byte_state_volume [OF assms(1)]
  note fit = entry_fits [OF vol(2) n(2)]
  from vol(2) show ?thesis
  proof (cases rule: volume_type)
    case 1
    then show ?thesis using put_fat12 [OF assms(1) _ _ n] by simp
  next
    case 2
    let ?x = "fatbase V + n div 256" and ?i = "entry_at FS_FAT16 n" and ?vs = "[ucast v, ucast (drop_bit 8 v)] :: u8 list"
    obtain fs1 t1 where 1: "move_window b st ?x fs s = Some (FR_OK, fs1, t1)"
      "winsect fs1 = ?x" "byte_state stores V B R fs1 t1"
      using move_window_bytes [OF assms(1), of ?x] by (auto simp: returns_ex)
    have "?i mod 512 + 1 < 512" using even_room [of "unat n"] by (simp add: entry_at_def)
    then have "byte_state stores V (pokes ?i ?vs B) R (fs1 \<lparr> win := stores_at (?i mod 512) ?vs (win fs1), wflag := 1 \<rparr>) t1"
      using 1(2) fit 2 by (intro window_pokes [OF 1(3)]) (simp_all add: fat16_at)
    then show ?thesis
      using n 2 vol 1 byte_state_volume [OF 1(3)]
      by (simp add: put_fat_def with_entry_def Let_def fat16_at st_word_def word_bytes)
  next
    case 3
    let ?x = "fatbase V + n div 128" and ?i = "entry_at FS_FAT32 n"
    let ?vs = "[ucast v, ucast (drop_bit 8 v), ucast (drop_bit 16 v),
      (B (?i + 3) AND 0xF0) OR (ucast (drop_bit 24 v) AND 0x0F)] :: u8 list"
    obtain fs1 t1 where 1: "move_window b st ?x fs s = Some (FR_OK, fs1, t1)"
      "winsect fs1 = ?x" "byte_state stores V B R fs1 t1"
      using move_window_bytes [OF assms(1), of ?x] by (auto simp: returns_ex)
    note q = quad_sector [of 3 "unat n"]
    have old: "win fs1 ! (?i mod 512 + 3) = B (?i + 3)"
      using window_read [OF 1(3), of "?i + 3"] 1(2) fit 3 q by (simp add: fat32_at entry_at_def)
    have small: "?i mod 512 + 3 < 512" using quad_room [of "unat n"] by (simp add: entry_at_def)
    then have "byte_state stores V (pokes ?i ?vs B) R (fs1 \<lparr> win := stores_at (?i mod 512) ?vs (win fs1), wflag := 1 \<rparr>) t1"
      using 1(2) fit 3 by (intro window_pokes [OF 1(3)]) (simp_all add: fat32_at)
    moreover have "st_dword (?i mod 512) ((v AND 0x0FFFFFFF) OR (ld_dword (drop (?i mod 512) (win fs1)) AND 0xF0000000)) (win fs1)
        = stores_at (?i mod 512) ?vs (win fs1)"
      using st_dword_low [of "?i mod 512" "win fs1" v] small old byte_state_volume [OF 1(3)] by simp
    then have "put_fat b st n v fs s = Some (FR_OK, fs1 \<lparr> win := stores_at (?i mod 512) ?vs (win fs1), wflag := 1 \<rparr>, t1)"
      using n 3 vol 1(1) by (simp add: put_fat_def Let_def fat32_at)
    moreover have "pokes ?i ?vs B = with_entry (fs_type V) B n v"
      using 3 by (simp add: with_entry_def Let_def numeral_3_eq_3)
    ultimately show ?thesis by (simp del: pokes.simps stores_at.simps)
  qed
qed

end

end
