(* ===== verification/Fatchain.thy ===== *)
theory Fatchain
  imports Fatlaws
begin

text \<open>
  The allocation table as a function from clusters to entries (\<open>fat_state\<close>), and what the operations on cluster chains
  do to it: \<^verbatim>\<open>remove_chain\<close> empties a chain and ends on every table, \<^verbatim>\<open>create_chain\<close> finds a free cluster and appends
  it, the count of free clusters stays right, and \<^verbatim>\<open>sync_window\<close> brings all of it to the disk, into both tables.
\<close>

section \<open>The table as a function\<close>

text \<open>\<open>F\<close> gives the entry of every cluster of the volume.\<close>

definition fat_state :: "((u32 \<Rightarrow> u8 list) \<Rightarrow> 'd \<Rightarrow> bool) \<Rightarrow> fatfs \<Rightarrow> (u32 \<Rightarrow> u32) \<Rightarrow> (u32 \<Rightarrow> u8 list) \<Rightarrow> fatfs \<Rightarrow> 'd \<Rightarrow> bool" where
  "fat_state stores V F R fs s \<longleftrightarrow>
     (\<exists>B. byte_state stores V B R fs s \<and> (\<forall>n. 2 \<le> n \<longrightarrow> n < n_fatent V \<longrightarrow> F n = entry (fs_type V) B n))"

definition fat_eoc :: "fatfs \<Rightarrow> u32" where
  "fat_eoc V = 0xFFFFFFFF AND entry_mask (fs_type V)"

lemma fat_state_volume:
  assumes "fat_state stores V F R fs s"
  shows "volume_ok V" "n_fatent fs = n_fatent V" "last_clst fs = last_clst V" "free_clst fs = free_clst V"
    "fsi_flag fs = fsi_flag V" "length (win fs) = 512"
proof -
  from assms obtain B where B: "byte_state stores V B R fs s" by (auto simp: fat_state_def)
  note vol = byte_state_volume [OF B]
  have "volume fs = volume V" using vol(1) by auto
  from volume_fields [OF this] vol show "volume_ok V" "n_fatent fs = n_fatent V" "last_clst fs = last_clst V"
    "free_clst fs = free_clst V" "fsi_flag fs = fsi_flag V" "length (win fs) = 512" by auto
qed

lemma fat_state_small:
  assumes "fat_state stores V F R fs s" and "2 \<le> n" "n < n_fatent V"
  shows "F n AND entry_mask (fs_type V) = F n" "F n \<noteq> 0xFFFFFFFF"
proof -
  from assms obtain B where "F n = entry (fs_type V) B n" by (auto simp: fat_state_def)
  then show m: "F n AND entry_mask (fs_type V) = F n" by (simp add: entry_small)
  show "F n \<noteq> 0xFFFFFFFF"
  proof
    assume "F n = 0xFFFFFFFF"
    with m show False by (auto simp: entry_mask_def split: if_splits)
  qed
qed

lemma cluster_small:
  assumes "volume_ok V" and "n < n_fatent V"
  shows "n AND entry_mask (fs_type V) = n" "n_fatent V \<le> fat_eoc V"
proof -
  have "n AND mask k = n" if "n < 2 ^ k" for k using that by (simp add: less_mask_eq)
  note this [of 12] this [of 16] this [of 28]
  moreover have "n_fatent V \<le> 0xFF7 \<Longrightarrow> n < 2 ^ 12" "n_fatent V \<le> 0xFFF7 \<Longrightarrow> n < 2 ^ 16"
    "n_fatent V \<le> 0x0FFFFFF7 \<Longrightarrow> n < 2 ^ 28"
    using assms(2) by (auto simp: word_less_nat_alt word_le_nat_alt)
  ultimately show "n AND entry_mask (fs_type V) = n"
    using assms(1) by (auto simp: volume_ok_def entry_mask_def mask_eq_exp_minus_1)
  show "n_fatent V \<le> fat_eoc V" using assms(1)
    by (auto simp: volume_ok_def fat_eoc_def entry_mask_def word_le_nat_alt)
qed

text \<open>The counters of the volume object do not touch the table.\<close>

lemma counters_simps:
  fixes fs l n g
  defines "fs' \<equiv> fs \<lparr> last_clst := l, free_clst := n, fsi_flag := g \<rparr>"
  shows "volume fs' = volume fs \<lparr> last_clst := l, free_clst := n, fsi_flag := g \<rparr>" "in_fat fs' = in_fat fs"
    "in_copy fs' = in_copy fs" "steady fs' = steady fs" "seen fs' = seen fs" "fat_byte fs' = fat_byte fs"
    "volume_ok fs' = volume_ok fs"
  by (simp_all add: fs'_def volume_def in_fat_def in_copy_def steady_def seen_def fat_byte_def volume_ok_def table_size_def
    Let_def fun_eq_iff)

lemma byte_state_counters:
  assumes "byte_state stores V B R fs s"
  shows "byte_state stores (V \<lparr> last_clst := l, free_clst := n, fsi_flag := g \<rparr>) B R
    (fs \<lparr> last_clst := l, free_clst := n, fsi_flag := g \<rparr>) s"
  using assms by (auto simp: byte_state_def sound_def mirrored_def counters_simps)

lemma fat_state_counters:
  assumes "fat_state stores V F R fs s"
  shows "fat_state stores (V \<lparr> last_clst := l, free_clst := n, fsi_flag := g \<rparr>) F R
    (fs \<lparr> last_clst := l, free_clst := n, fsi_flag := g \<rparr>) s"
  using assms byte_state_counters by (fastforce simp: fat_state_def)

context block_disk
begin

lemma get_fat_state [wp]:
  assumes "fat_state stores V F R fs s" and "2 \<le> n" "n < n_fatent V"
  shows "returns (get_fat b st n fs s) (\<lambda>(v, fs', t). v = F n \<and> fat_state stores V F R fs' t)"
proof -
  from assms(1) obtain B where B: "byte_state stores V B R fs s"
      "\<forall>n. 2 \<le> n \<longrightarrow> n < n_fatent V \<longrightarrow> F n = entry (fs_type V) B n"
    by (auto simp: fat_state_def)
  show ?thesis
    by (rule returns_mono [OF get_fat_bytes [OF B(1) assms(2,3)]]) (use B assms in \<open>auto simp: fat_state_def\<close>)
qed

lemma put_fat_state [wp]:
  assumes "fat_state stores V F R fs s" and "2 \<le> n" "n < n_fatent V"
  shows "returns (put_fat b st n v fs s)
    (\<lambda>(r, fs', t). r = FR_OK \<and> fat_state stores V (F(n := v AND entry_mask (fs_type V))) R fs' t)"
proof -
  from assms(1) obtain B where B: "byte_state stores V B R fs s"
      "\<forall>n. 2 \<le> n \<longrightarrow> n < n_fatent V \<longrightarrow> F n = entry (fs_type V) B n"
    by (auto simp: fat_state_def)
  have "\<forall>m. 2 \<le> m \<longrightarrow> m < n_fatent V \<longrightarrow>
      (F(n := v AND entry_mask (fs_type V))) m = entry (fs_type V) (with_entry (fs_type V) B n v) m"
    using B(2) by (auto simp: entry_with_entry entry_with_other)
  then show ?thesis
    by (intro returns_mono [OF put_fat_bytes [OF B(1) assms(2,3), of v]]) (auto simp: fat_state_def)
qed

end

section \<open>Chains\<close>

text \<open>The clusters of a chain, from the first to the one whose entry ends it.\<close>

fun chain :: "(u32 \<Rightarrow> u32) \<Rightarrow> u32 \<Rightarrow> u32 \<Rightarrow> u32 list \<Rightarrow> bool" where
  "chain F N x [] \<longleftrightarrow> False"
| "chain F N x (c # cs) \<longleftrightarrow> c = x \<and> 2 \<le> x \<and> x < N \<and> (if cs = [] then N \<le> F x else chain F N (F x) cs)"

lemma chain_range: "chain F N x cs \<Longrightarrow> c \<in> set cs \<Longrightarrow> 2 \<le> c \<and> c < N"
  by (induction F N x cs rule: chain.induct) (auto split: if_splits)

lemma chain_nonempty: "chain F N x cs \<Longrightarrow> cs \<noteq> []"
  by (cases cs) simp_all

lemma chain_start_in: "chain F N x cs \<Longrightarrow> hd cs = x \<and> 2 \<le> x \<and> x < N"
  by (cases cs) simp_all

lemma chain_upd: "n \<notin> set cs \<Longrightarrow> chain (F(n := v)) N x cs = chain F N x cs"
  by (induction cs arbitrary: x) auto

lemma chain_next_free:
  "chain F N x cs \<Longrightarrow> c \<in> set cs \<Longrightarrow> N \<le> F c \<or> (2 \<le> F c \<and> F c < N)"
  by (induction F N x cs rule: chain.induct) (auto split: if_splits dest: chain_start_in)

text \<open>Every cluster of a chain determines the rest of it, so a chain that ends has no cluster twice.\<close>

lemma chain_unique: "chain F N x cs \<Longrightarrow> chain F N x ds \<Longrightarrow> cs = ds"
proof (induction cs arbitrary: x ds)
  case (Cons c cs)
  obtain d es where ds: "ds = d # es" using Cons.prems(2) by (cases ds) simp_all
  show ?case
  proof (cases "cs = [] \<or> es = []")
    case True
    then show ?thesis using Cons.prems ds by (auto split: if_splits dest: chain_start_in)
  next
    case False
    then have "cs = es" using Cons.IH [of "F x" es] Cons.prems ds by simp
    then show ?thesis using Cons.prems ds by simp
  qed
qed simp

lemma chain_suffix: "chain F N x (as @ c # cs) \<Longrightarrow> chain F N c (c # cs)"
  by (induction as arbitrary: x) (auto split: if_splits)

lemma chain_distinct: "chain F N x cs \<Longrightarrow> distinct cs"
proof (induction cs arbitrary: x)
  case (Cons c cs)
  have "distinct cs" using Cons by (cases "cs = []") auto
  moreover have "c \<notin> set cs"
  proof
    assume "c \<in> set cs"
    then obtain as bs where cs: "cs = as @ c # bs" by (meson split_list)
    have "c = x" "chain F N (F x) cs" using Cons.prems cs by (auto split: if_splits)
    then have "chain F N x (x # bs)" using chain_suffix [of F N "F x" as x bs] cs by simp
    then have "x # bs = x # cs" using chain_unique [of F N x "x # bs" "x # cs"] Cons.prems \<open>c = x\<close> by blast
    then have "length bs = length cs" by simp
    then show False using cs by simp
  qed
  ultimately show ?case by simp
qed simp

lemma chain_grown:
  assumes "chain F N x (cs @ [c])" and "r \<notin> set (cs @ [c])" "2 \<le> r" "r < N" "N \<le> e"
  shows "chain (F(r := e, c := r)) N x ((cs @ [c]) @ [r])"
  using assms
proof (induction cs arbitrary: x)
  case Nil
  then show ?case by auto
next
  case (Cons a cs)
  have "distinct (a # cs @ [c])" using chain_distinct [OF Cons.prems(1)] by simp
  then show ?case using Cons by (auto split: if_splits)
qed

section \<open>Freeing a chain\<close>

lemma two_or_more: "x \<noteq> 0 \<Longrightarrow> x \<noteq> 1 \<Longrightarrow> 2 \<le> x" for x :: u32
proof -
  assume "x \<noteq> 0" "x \<noteq> 1"
  then have "unat x \<noteq> 0" "unat x \<noteq> 1" by (metis unsigned_0 unsigned_1 unsigned_word_eqI)+
  then show ?thesis by (simp add: word_le_nat_alt)
qed

text \<open>What freeing one cluster does to the counters.\<close>

definition one_free :: "fatfs \<Rightarrow> fatfs" where
  "one_free V = (if free_clst V < n_fatent V - 2
     then V \<lparr> free_clst := free_clst V + 1, fsi_flag := fsi_flag V OR 1 \<rparr> else V)"

lemma one_free_simps [simp]: "n_fatent (one_free V) = n_fatent V" "fs_type (one_free V) = fs_type V"
  "last_clst (one_free V) = last_clst V"
  by (simp_all add: one_free_def)

lemma fat_state_one_free:
  assumes "fat_state stores V F R fs s"
  shows "fat_state stores (one_free V) F R (one_free fs) s"
proof -
  note vol = fat_state_volume [OF assms]
  have same: "fs \<lparr> last_clst := last_clst V, free_clst := n, fsi_flag := g \<rparr> = fs \<lparr> free_clst := n, fsi_flag := g \<rparr>" for n g
    by (simp add: vol(3) [symmetric])
  show ?thesis
    using fat_state_counters [OF assms, where l = "last_clst V" and n = "free_clst V + 1" and g = "fsi_flag V OR 1"] assms vol
    by (cases "free_clst V < n_fatent V - 2") (simp_all add: one_free_def same)
qed

definition occupied :: "fatfs \<Rightarrow> (u32 \<Rightarrow> u32) \<Rightarrow> nat" where
  "occupied V F = card {n. 2 \<le> n \<and> n < n_fatent V \<and> F n \<noteq> 0}"

lemma chain_link: "chain F N x (c # cs) \<Longrightarrow> 2 \<le> F x"
  by (auto split: if_splits dest: chain_start_in intro: order.trans less_imp_le)

context block_disk
begin

text \<open>One turn of the loop.\<close>

lemma remove_turn:
  assumes "fat_state stores V F R fs s" and x: "2 \<le> x" "x < n_fatent V"
  shows "returns (get_fat b st x fs s) (\<lambda>(v, fs1, t1). v = F x \<and> fat_state stores V F R fs1 t1
    \<and> returns (put_fat b st x 0 fs1 t1) (\<lambda>(r, fs2, t2). r = FR_OK \<and> fat_state stores V (F(x := 0)) R fs2 t2
        \<and> fat_state stores (one_free V) (F(x := 0)) R (one_free fs2) t2))"
proof (rule returns_mono [OF get_fat_state [OF assms]], clarify)
  fix fs1 t1 assume 1: "fat_state stores V F R fs1 t1"
  have "returns (put_fat b st x 0 fs1 t1) (\<lambda>(r, fs2, t2). r = FR_OK \<and> fat_state stores V (F(x := 0)) R fs2 t2
      \<and> fat_state stores (one_free V) (F(x := 0)) R (one_free fs2) t2)"
    by (rule returns_mono [OF put_fat_state [OF 1 x, of 0]]) (use fat_state_one_free in auto)
  with 1 show "F x = F x \<and> fat_state stores V F R fs1 t1 \<and> returns (put_fat b st x 0 fs1 t1)
    (\<lambda>(r, fs2, t2). r = FR_OK \<and> fat_state stores V (F(x := 0)) R fs2 t2
        \<and> fat_state stores (one_free V) (F(x := 0)) R (one_free fs2) t2)" by blast
qed

lemma remove_unfold:
  assumes "fat_state stores V F R fs s" and x: "2 \<le> x" "x < n_fatent V"
  obtains fs' s' where "F x = 0 \<or> F x = 1" "fat_state stores V F R fs' s'"
    "remove_loop b st x fs s = Some (if F x = 0 then FR_OK else FR_INT_ERR, fs', s')"
  | fs' s' where "F x \<noteq> 0" "F x \<noteq> 1" "fat_state stores (one_free V) (F(x := 0)) R fs' s'"
    "remove_loop b st x fs s = (if F x < n_fatent V then remove_loop b st (F x) fs' s' else Some (FR_OK, fs', s'))"
proof -
  from remove_turn [OF assms] obtain fs1 t1 fs2 t2 where
    g: "get_fat b st x fs s = Some (F x, fs1, t1)" "fat_state stores V F R fs1 t1" and
    p: "put_fat b st x 0 fs1 t1 = Some (FR_OK, fs2, t2)" "fat_state stores V (F(x := 0)) R fs2 t2"
      "fat_state stores (one_free V) (F(x := 0)) R (one_free fs2) t2"
    by (auto simp: returns_ex)
  note small = fat_state_small(2) [OF assms]
  have loop: "remove_loop b st x fs s = (if F x = 0 then Some (FR_OK, fs1, t1) else if F x = 1 then Some (FR_INT_ERR, fs1, t1)
      else if F x < n_fatent V then remove_loop b st (F x) (one_free fs2) t2 else Some (FR_OK, one_free fs2, t2))"
    using g p small fat_state_volume(2) [OF p(3)]
    by (subst remove_loop.simps) (auto simp: one_free_def Let_def)
  show thesis
  proof (cases "F x = 0 \<or> F x = 1")
    case True
    then show thesis using that(1) [OF _ g(2)] loop by auto
  next
    case False
    then show thesis using that(2) [OF _ _ p(3)] loop by auto
  qed
qed

text \<open>Whatever the table says, cycles included, the loop ends: every turn empties an entry.\<close>

lemma remove_loop_ends:
  assumes "fat_state stores V F R fs s" and "2 \<le> x" "x < n_fatent V"
  shows "returns (remove_loop b st x fs s) (\<lambda>(r, fs', t). (r = FR_OK \<or> r = FR_INT_ERR)
    \<and> (\<exists>V' F'. fat_state stores V' F' R fs' t \<and> (\<forall>n. F' n = F n \<or> F' n = 0)))"
  using assms
proof (induction "occupied V F" arbitrary: V F fs s x rule: less_induct)
  case less
  note v = less.prems
  from v show ?case
  proof (cases rule: remove_unfold)
    case (1 fs' s')
    then show ?thesis by auto
  next
    case (2 fs' s')
    show ?thesis
    proof (cases "F x < n_fatent V")
      case True
      have "2 \<le> F x" using 2(1,2) by (rule two_or_more)
      moreover have "occupied (one_free V) (F(x := 0)) < occupied V F"
        unfolding occupied_def using v(2,3) 2(1) by (intro psubset_card_mono) auto
      ultimately have "returns (remove_loop b st (F x) fs' s') (\<lambda>(r, fs', t). (r = FR_OK \<or> r = FR_INT_ERR)
          \<and> (\<exists>V' F'. fat_state stores V' F' R fs' t \<and> (\<forall>n. F' n = (F(x := 0)) n \<or> F' n = 0)))"
        using less.hyps [OF _ 2(3)] True by simp
      moreover have "\<forall>n. F' n = F n \<or> F' n = 0" if "\<forall>n. F' n = (F(x := 0)) n \<or> F' n = 0" for F'
        using that by (metis fun_upd_apply)
      ultimately show ?thesis
        unfolding 2(4) using True by (auto elim!: returns_mono simp del: fun_upd_apply)
    next
      case False
      moreover have "\<forall>n. (F(x := 0)) n = F n \<or> (F(x := 0)) n = 0" by simp
      ultimately show ?thesis unfolding 2(4) using 2(3) by (auto simp del: fun_upd_apply)
    qed
  qed
qed

text \<open>A chain is freed completely, and nothing else.\<close>

lemma remove_loop_chain:
  assumes "fat_state stores V F R fs s" and "chain F (n_fatent V) x cs"
  shows "returns (remove_loop b st x fs s) (\<lambda>(r, fs', t). r = FR_OK
    \<and> fat_state stores ((one_free ^^ length cs) V) (\<lambda>n. if n \<in> set cs then 0 else F n) R fs' t)"
  using assms
proof (induction cs arbitrary: V F fs s x)
  case (Cons c cs)
  have x: "c = x" "2 \<le> x" "x < n_fatent V" using Cons.prems(2) by auto
  have two: "2 \<le> F x" using chain_link [OF Cons.prems(2)] by simp
  then have link: "F x \<noteq> 0" "F x \<noteq> 1" by (auto simp: word_le_nat_alt)
  have ends: "cs = [] \<Longrightarrow> n_fatent V \<le> F x" "cs \<noteq> [] \<Longrightarrow> chain F (n_fatent V) (F x) cs" using Cons.prems(2) by simp_all
  then have goes: "cs \<noteq> [] \<Longrightarrow> F x < n_fatent V" using chain_start_in by blast
  have out: "c \<notin> set cs" using chain_distinct [OF Cons.prems(2)] by simp
  from Cons.prems(1) x(2,3) show ?case
  proof (cases rule: remove_unfold)
    case (1 fs' s')
    then show ?thesis using link by simp
  next
    case (2 fs' s')
    show ?thesis
    proof (cases "cs = []")
      case True
      then show ?thesis unfolding 2(4) using 2(3) ends(1) x by (auto simp: fun_upd_def)
    next
      case False
      have "chain (F(x := 0)) (n_fatent (one_free V)) (F x) cs"
        using ends(2) [OF False] chain_upd [of x cs] out x(1) by simp
      from Cons.IH [OF 2(3) this] obtain fs2 t2 where r: "remove_loop b st (F x) fs' s' = Some (FR_OK, fs2, t2)"
        "fat_state stores ((one_free ^^ length cs) (one_free V)) (\<lambda>n. if n \<in> set cs then 0 else (F(x := 0)) n) R fs2 t2"
        by (auto simp: returns_ex)
      have "(\<lambda>n. if n \<in> set cs then 0 else (F(x := 0)) n) = (\<lambda>n. if n \<in> set (c # cs) then 0 else F n)"
        using x(1) by auto
      moreover have "(one_free ^^ length cs) (one_free V) = (one_free ^^ length (c # cs)) V" by (simp add: funpow_swap1)
      ultimately show ?thesis unfolding 2(4) using r goes [OF False] by (simp del: funpow.simps list.set)
    qed
  qed
qed simp

lemma remove_chain_ends:
  assumes "fat_state stores V F R fs s" and "2 \<le> x" "x < n_fatent V" and "p \<noteq> 0 \<Longrightarrow> 2 \<le> p \<and> p < n_fatent V"
  shows "returns (remove_chain b st x p fs s) (\<lambda>(r, fs', t). (r = FR_OK \<or> r = FR_INT_ERR)
    \<and> (\<exists>V' F'. fat_state stores V' F' R fs' t \<and> (\<forall>n. F' n = F n \<or> F' n = 0 \<or> n = p \<and> F' n = fat_eoc V)))"
proof -
  note range = assms(2,3) fat_state_volume(2) [OF assms(1)]
  have r: "\<not> (x < 2 \<or> n_fatent fs \<le> x)" using range by auto
  show ?thesis
  proof (cases "p = 0")
    case True
    then show ?thesis
      using remove_loop_ends [OF assms(1-3)] r by (auto simp: remove_chain_def elim!: returns_mono)
  next
    case False
    obtain fs1 t1 where p: "put_fat b st p 0xFFFFFFFF fs s = Some (FR_OK, fs1, t1)"
        "fat_state stores V (F(p := fat_eoc V)) R fs1 t1"
      using put_fat_state [OF assms(1), of p "0xFFFFFFFF"] assms(4) [OF False] by (auto simp: returns_ex fat_eoc_def)
    have "returns (remove_chain b st x p fs s) (\<lambda>(r, fs', t). (r = FR_OK \<or> r = FR_INT_ERR)
        \<and> (\<exists>V' F'. fat_state stores V' F' R fs' t \<and> (\<forall>n. F' n = (F(p := fat_eoc V)) n \<or> F' n = 0)))"
      using remove_loop_ends [OF p(2) assms(2,3)] p(1) False r by (auto simp: remove_chain_def)
    moreover have "\<forall>n. F' n = F n \<or> F' n = 0 \<or> n = p \<and> F' n = fat_eoc V"
      if "\<forall>n. F' n = (F(p := fat_eoc V)) n \<or> F' n = 0" for F'
      using that by (metis fun_upd_apply)
    ultimately show ?thesis by (auto elim!: returns_mono simp del: fun_upd_apply)
  qed
qed

lemma remove_chain_frees:
  assumes "fat_state stores V F R fs s" and "chain F (n_fatent V) x cs" and "p \<noteq> 0 \<Longrightarrow> 2 \<le> p \<and> p < n_fatent V \<and> p \<notin> set cs"
  shows "returns (remove_chain b st x p fs s) (\<lambda>(r, fs', t). r = FR_OK
    \<and> fat_state stores ((one_free ^^ length cs) V)
        (\<lambda>n. if n \<in> set cs then 0 else if p \<noteq> 0 \<and> n = p then fat_eoc V else F n) R fs' t)"
proof -
  have x: "2 \<le> x" "x < n_fatent V" using chain_start_in [OF assms(2)] by auto
  then have r: "\<not> (x < 2 \<or> n_fatent fs \<le> x)" using fat_state_volume(2) [OF assms(1)] by auto
  show ?thesis
  proof (cases "p = 0")
    case True
    then have "(\<lambda>n. if n \<in> set cs then 0 else if p \<noteq> 0 \<and> n = p then fat_eoc V else F n)
        = (\<lambda>n. if n \<in> set cs then 0 else F n)" by auto
    then show ?thesis using remove_loop_chain [OF assms(1,2)] r True by (simp add: remove_chain_def)
  next
    case False
    obtain fs1 t1 where p: "put_fat b st p 0xFFFFFFFF fs s = Some (FR_OK, fs1, t1)"
        "fat_state stores V (F(p := fat_eoc V)) R fs1 t1"
      using put_fat_state [OF assms(1), of p "0xFFFFFFFF"] assms(3) [OF False] by (auto simp: returns_ex fat_eoc_def)
    have "chain (F(p := fat_eoc V)) (n_fatent V) x cs" using chain_upd assms(2,3) False by metis
    from remove_loop_chain [OF p(2) this] have "returns (remove_chain b st x p fs s) (\<lambda>(r, fs', t). r = FR_OK
        \<and> fat_state stores ((one_free ^^ length cs) V) (\<lambda>n. if n \<in> set cs then 0 else (F(p := fat_eoc V)) n) R fs' t)"
      using p(1) False r by (simp add: remove_chain_def)
    moreover have "(\<lambda>n. if n \<in> set cs then 0 else (F(p := fat_eoc V)) n)
        = (\<lambda>n. if n \<in> set cs then 0 else if p \<noteq> 0 \<and> n = p then fat_eoc V else F n)"
      using False by auto
    ultimately show ?thesis by simp
  qed
qed

end

section \<open>Finding a free cluster\<close>

text \<open>The outcome of a search through the clusters \<open>S\<close>.\<close>

definition searched :: "(u32 \<Rightarrow> u32) \<Rightarrow> u32 set \<Rightarrow> u32 + u32 \<Rightarrow> bool" where
  "searched F S r \<longleftrightarrow> (case r of Inr m \<Rightarrow> m \<in> S \<and> F m = 0
     | Inl v \<Rightarrow> v = 0 \<and> (\<forall>m \<in> S. F m \<noteq> 0) \<or> v = 1 \<and> (\<exists>m \<in> S. F m = 1))"

lemma searched_more: "F n \<noteq> 0 \<Longrightarrow> searched F S r \<Longrightarrow> searched F (insert n S) r"
  by (auto simp: searched_def split: sum.splits)

lemma next_word: "n < N \<Longrightarrow> unat (n + 1) = unat n + 1" for n N :: u32
proof -
  assume "n < N"
  then have "unat n + 1 < 2 ^ 32" using unsigned_less [of N, where ?'a = nat] by (simp add: word_less_nat_alt)
  then show ?thesis by (simp add: unat_add_lem [THEN iffD1])
qed

context block_disk
begin

lemma find_free_step:
  assumes "fat_state stores V F R fs s" and "2 \<le> m" "m < n_fatent V"
    and m: "m = (if n + 1 \<ge> n_fatent V then 2 else n + 1)" "\<not> (n + 1 \<ge> n_fatent V \<and> 2 > scl)"
    and rest: "\<And>fs' t. F m \<noteq> 0 \<Longrightarrow> m \<noteq> scl \<Longrightarrow> fat_state stores V F R fs' t \<Longrightarrow>
      returns (find_free b st scl m fs' t) (\<lambda>(r, fs', t). searched F S r \<and> fat_state stores V F R fs' t)"
    and stop: "m = scl \<Longrightarrow> S = {}"
  shows "returns (find_free b st scl n fs s) (\<lambda>(r, fs', t). searched F (insert m S) r \<and> fat_state stores V F R fs' t)"
proof -
  obtain fs1 t1 where g: "get_fat b st m fs s = Some (F m, fs1, t1)" "fat_state stores V F R fs1 t1"
    using get_fat_state [OF assms(1-3)] by (auto simp: returns_ex)
  note small = fat_state_small(2) [OF assms(1-3)] fat_state_volume(2) [OF assms(1)]
  have *: "find_free b st scl n fs s = (if F m = 0 then Some (Inr m, fs1, t1) else if F m = 1 then Some (Inl 1, fs1, t1)
      else if m = scl then Some (Inl 0, fs1, t1) else find_free b st scl m fs1 t1)"
    using g m small by (subst find_free.simps) (auto simp: Let_def)
  show ?thesis
  proof (cases "F m = 0 \<or> F m = 1 \<or> m = scl")
    case True
    then show ?thesis using * g(2) stop by (auto simp: searched_def)
  next
    case False
    then show ?thesis unfolding * using rest [OF _ _ g(2)] by (auto elim!: returns_mono intro: searched_more)
  qed
qed

text \<open>From behind the start, where the search ends at the start.\<close>

lemma find_free_low:
  assumes "fat_state stores V F R fs s" and "2 \<le> n" "n < scl" "scl < n_fatent V"
  shows "returns (find_free b st scl n fs s) (\<lambda>(r, fs', t). searched F {n<..scl} r \<and> fat_state stores V F R fs' t)"
  using assms
proof (induction "unat scl - unat n" arbitrary: fs s n rule: less_induct)
  case less
  note u = next_word [OF less.prems(3)]
  have n: "n + 1 \<le> scl" "2 \<le> n + 1" "n + 1 < n_fatent V"
    using less.prems u by (auto simp: word_less_nat_alt word_le_nat_alt)
  have S: "{n<..scl} = insert (n + 1) {n + 1<..scl}"
    using n u by (auto simp: word_less_nat_alt word_le_nat_alt word_unat_eq_iff)
  show ?case
    unfolding S
  proof (rule find_free_step [OF less.prems(1) n(2,3)])
    fix fs' t assume "n + 1 \<noteq> scl" "fat_state stores V F R fs' t"
    then show "returns (find_free b st scl (n + 1) fs' t) (\<lambda>(r, fs', t). searched F {n + 1<..scl} r \<and> fat_state stores V F R fs' t)"
      using less.hyps [of "n + 1" fs' t] less.prems n u by (auto simp: word_less_nat_alt word_le_nat_alt word_unat_eq_iff)
  qed (use n in auto)
qed

lemma find_free_high:
  assumes "fat_state stores V F R fs s" and "1 \<le> scl" "scl \<le> n" "n < n_fatent V"
  shows "returns (find_free b st scl n fs s)
    (\<lambda>(r, fs', t). searched F ({n<..<n_fatent V} \<union> {2..scl}) r \<and> fat_state stores V F R fs' t)"
  using assms
proof (induction "unat (n_fatent V) - unat n" arbitrary: fs s n rule: less_induct)
  case less
  note u = next_word [OF less.prems(4)]
  show ?case
  proof (cases "n + 1 < n_fatent V")
    case True
    have n: "2 \<le> n + 1" using less.prems u by (auto simp: word_less_nat_alt word_le_nat_alt)
    have S: "{n<..<n_fatent V} \<union> {2..scl} = insert (n + 1) ({n + 1<..<n_fatent V} \<union> {2..scl})"
      using True u by (auto simp: word_less_nat_alt word_le_nat_alt word_unat_eq_iff)
    show ?thesis
      unfolding S
    proof (rule find_free_step [OF less.prems(1) n True])
      fix fs' t assume "fat_state stores V F R fs' t"
      then show "returns (find_free b st scl (n + 1) fs' t)
          (\<lambda>(r, fs', t). searched F ({n + 1<..<n_fatent V} \<union> {2..scl}) r \<and> fat_state stores V F R fs' t)"
        using less.hyps [of "n + 1" fs' t] less.prems True u by (auto simp: word_less_nat_alt word_le_nat_alt)
    qed (use True less.prems u in \<open>auto simp: word_less_nat_alt word_le_nat_alt\<close>)
  next
    case False
    then have up: "{n<..<n_fatent V} = {}" using u by (auto simp: word_less_nat_alt word_le_nat_alt)
    show ?thesis
    proof (cases "scl < 2")
      case True
      then show ?thesis
        unfolding up using False less.prems(1) fat_state_volume(2) [OF less.prems(1)]
        by (subst find_free.simps) (auto simp: Let_def searched_def)
    next
      case two: False
      have S: "{2..scl} = insert 2 {2<..scl}" using two by auto
      have "2 < n_fatent V" using two less.prems by auto
      show ?thesis
        unfolding up S Un_empty_left
      proof (rule find_free_step [OF less.prems(1) order_refl \<open>2 < n_fatent V\<close>])
        fix fs' t assume "2 \<noteq> scl" "fat_state stores V F R fs' t"
        then show "returns (find_free b st scl 2 fs' t) (\<lambda>(r, fs', t). searched F {2<..scl} r \<and> fat_state stores V F R fs' t)"
          using find_free_low [of V F R fs' t 2 scl] two less.prems by auto
      qed (use False two in auto)
    qed
  qed
qed

end

section \<open>Allocating a cluster\<close>

definition clusters :: "fatfs \<Rightarrow> u32 set" where
  "clusters V = {m. 2 \<le> m \<and> m < n_fatent V}"

text \<open>The table and the counters after cluster \<open>r\<close> was appended to \<open>c\<close> (0: started a chain).\<close>

definition with_link :: "fatfs \<Rightarrow> u32 \<Rightarrow> u32 \<Rightarrow> (u32 \<Rightarrow> u32) \<Rightarrow> u32 \<Rightarrow> u32" where
  "with_link V c r F = (if c = 0 then F(r := fat_eoc V) else F(r := fat_eoc V, c := r))"

definition one_taken :: "fatfs \<Rightarrow> u32 \<Rightarrow> fatfs" where
  "one_taken V r = V \<lparr> last_clst := r, free_clst := (if free_clst V \<le> n_fatent V - 2 then free_clst V - 1 else free_clst V),
     fsi_flag := fsi_flag V OR 1 \<rparr>"

lemma scan_all: "1 \<le> c \<Longrightarrow> c < n_fatent V \<Longrightarrow> {c<..<n_fatent V} \<union> {2..c} = clusters V"
  by (auto simp: clusters_def word_less_nat_alt word_le_nat_alt)

context block_disk
begin

lemma find_free_all:
  assumes "fat_state stores V F R fs s" and "1 \<le> c" "c < n_fatent V"
  shows "returns (find_free b st c c fs s) (\<lambda>(r, fs', t). searched F (clusters V) r \<and> fat_state stores V F R fs' t)"
  using find_free_high [OF assms(1,2) order_refl assms(3)] scan_all [OF assms(2,3)] by simp

lemma pick_cluster_state:
  assumes "fat_state stores V F R fs s" and "1 \<le> scl" "scl < n_fatent V" and "scl = clst \<Longrightarrow> 2 \<le> clst"
  shows "returns (pick_cluster b st scl clst fs s) (\<lambda>(r, fs', t). searched F (clusters V) r \<and> fat_state stores V F R fs' t)"
proof (cases "scl = clst")
  case False
  then show ?thesis using find_free_all [OF assms(1-3)] by (simp add: pick_cluster_def)
next
  case True
  note vol = fat_state_volume [OF assms(1)]
  let ?n = "if clst + 1 \<ge> n_fatent V then 2 else clst + 1"
  have n: "2 \<le> ?n" "?n < n_fatent V"
    using assms(2-4) True next_word [of clst "n_fatent V"] by (auto simp: word_less_nat_alt word_le_nat_alt)
  obtain fs1 t1 where g: "get_fat b st ?n fs s = Some (F ?n, fs1, t1)" "fat_state stores V F R fs1 t1"
    using get_fat_state [OF assms(1) n] by (auto simp: returns_ex)
  note small = fat_state_small(2) [OF assms(1) n] fat_state_volume [OF g(2)]
  let ?c = "if last_clst V \<ge> 2 \<and> last_clst V < n_fatent V then last_clst V else clst"
  have c: "1 \<le> ?c" "?c < n_fatent V" using assms(3,4) True by (auto simp: word_le_nat_alt)
  have "pick_cluster b st scl clst fs s = (if F ?n = 1 then Some (Inl 1, fs1, t1)
      else if F ?n \<noteq> 0 then find_free b st ?c ?c fs1 t1 else Some (Inr ?n, fs1, t1))"
    using g(1) True vol small by (simp add: pick_cluster_def Let_def)
  moreover have "?n \<in> clusters V" using n by (simp add: clusters_def)
  ultimately show ?thesis
    using find_free_all [OF g(2) c] g(2) by (auto simp: searched_def)
qed

lemma link_cluster_state:
  assumes "fat_state stores V F R fs s" and r: "2 \<le> r" "r < n_fatent V" and c: "c \<noteq> 0 \<Longrightarrow> 2 \<le> c \<and> c < n_fatent V"
  shows "returns (link_cluster b st r c fs s) (\<lambda>(v, fs', t). v = r \<and> fat_state stores (one_taken V r) (with_link V c r F) R fs' t)"
proof -
  obtain fs1 t1 where 1: "put_fat b st r 0xFFFFFFFF fs s = Some (FR_OK, fs1, t1)" "fat_state stores V (F(r := fat_eoc V)) R fs1 t1"
    using put_fat_state [OF assms(1) r, of "0xFFFFFFFF"] by (auto simp: returns_ex fat_eoc_def)
  obtain fs2 t2 where 2: "(if c \<noteq> 0 then put_fat b st c r fs1 t1 else Some (FR_OK, fs1, t1)) = Some (FR_OK, fs2, t2)"
      "fat_state stores V (with_link V c r F) R fs2 t2"
  proof (cases "c = 0")
    case True
    then show thesis using 1(2) that by (simp add: with_link_def)
  next
    case False
    have "r AND entry_mask (fs_type V) = r" using cluster_small(1) r(2) fat_state_volume(1) [OF assms(1)] by blast
    then show thesis
      using put_fat_state [OF 1(2), of c r] c [OF False] False that by (auto simp: returns_ex with_link_def)
  qed
  note vol = fat_state_volume [OF 2(2)]
  let ?m = "if free_clst V \<le> n_fatent V - 2 then free_clst V - 1 else free_clst V"
  have "link_cluster b st r c fs s = Some (r, fs2 \<lparr> last_clst := r, free_clst := ?m, fsi_flag := fsi_flag V OR 1 \<rparr>, t2)"
    using 1(1) 2(1) vol by (cases "c = 0"; cases "free_clst V \<le> n_fatent V - 2")
      (simp_all add: link_cluster_def Let_def)
  moreover have "fat_state stores (one_taken V r) (with_link V c r F) R
      (fs2 \<lparr> last_clst := r, free_clst := ?m, fsi_flag := fsi_flag V OR 1 \<rparr>) t2"
    unfolding one_taken_def by (rule fat_state_counters [OF 2(2)])
  ultimately show ?thesis by simp
qed

text \<open>Everything that \<^verbatim>\<open>create_chain\<close> can do. The first two cases are no allocations.\<close>

lemma create_chain_state:
  assumes "fat_state stores V F R fs s" and c: "c = 0 \<or> c \<in> clusters V" and N: "2 \<le> n_fatent V"
  shows "returns (create_chain b st c fs s) (\<lambda>(r, fs', t).
      if c \<noteq> 0 \<and> F c < n_fatent V then r = (if F c < 2 then 1 else F c) \<and> fat_state stores V F R fs' t
      else if free_clst V = 0 then r = 0 \<and> fat_state stores V F R fs' t
      else r \<in> clusters V \<and> F r = 0 \<and> fat_state stores (one_taken V r) (with_link V c r F) R fs' t
        \<or> r = 0 \<and> (\<forall>m \<in> clusters V. F m \<noteq> 0) \<and> fat_state stores V F R fs' t
        \<or> r = 1 \<and> (\<exists>m \<in> clusters V. F m = 1) \<and> fat_state stores V F R fs' t)"
proof -
  note vol = fat_state_volume [OF assms(1)]
  let ?s = "if c = 0 then if last_clst V = 0 \<or> last_clst V \<ge> n_fatent V then 1 else last_clst V else c"
  have range: "c \<noteq> 0 \<Longrightarrow> 2 \<le> c \<and> c < n_fatent V" using c by (auto simp: clusters_def)
  have "1 < n_fatent V" using N by (simp add: word_less_nat_alt word_le_nat_alt)
  then have s: "1 \<le> ?s" "?s < n_fatent V" "?s = c \<Longrightarrow> 2 \<le> c"
    using range by (auto simp: word_less_nat_alt word_le_nat_alt unat_gt_0 Suc_le_eq split: if_splits)
  obtain fs1 t1 where 1: "chain_start b st c fs s = Some (if c \<noteq> 0 \<and> F c < n_fatent V
      then Inl (if F c < 2 then 1 else F c) else Inr ?s, fs1, t1)" "fat_state stores V F R fs1 t1"
  proof (cases "c = 0")
    case True
    then show thesis using that assms(1) vol by (simp add: chain_start_def)
  next
    case False
    note r = range [OF False]
    obtain fs1 t1 where g: "get_fat b st c fs s = Some (F c, fs1, t1)" "fat_state stores V F R fs1 t1"
      using get_fat_state [OF assms(1), of c] r by (auto simp: returns_ex)
    show thesis
      by (rule that [OF _ g(2)])
        (use False g N fat_state_small(2) [OF assms(1)] fat_state_volume [OF g(2)] r in
          \<open>auto simp: chain_start_def word_less_nat_alt word_le_nat_alt\<close>)
  qed
  note vol1 = fat_state_volume [OF 1(2)]
  from pick_cluster_state [OF 1(2) s] obtain p fs2 t2 where p: "pick_cluster b st ?s c fs1 t1 = Some (p, fs2, t2)"
      "searched F (clusters V) p" "fat_state stores V F R fs2 t2"
    by (auto simp: returns_ex)
  consider "c \<noteq> 0 \<and> F c < n_fatent V" | "\<not> (c \<noteq> 0 \<and> F c < n_fatent V)" "free_clst V = 0"
    | v where "\<not> (c \<noteq> 0 \<and> F c < n_fatent V)" "free_clst V \<noteq> 0" "p = Inl v"
    | r where "\<not> (c \<noteq> 0 \<and> F c < n_fatent V)" "free_clst V \<noteq> 0" "p = Inr r" by (cases p) blast+
  then show ?thesis
  proof cases
    case 1
    then show ?thesis using \<open>chain_start b st c fs s = _\<close> \<open>fat_state stores V F R fs1 t1\<close> by (simp add: create_chain_def)
  next
    case 2
    then show ?thesis using \<open>chain_start b st c fs s = _\<close> \<open>fat_state stores V F R fs1 t1\<close> vol1
      by (auto simp: create_chain_def)
  next
    case 3
    then have "create_chain b st c fs s = Some (v, fs2, t2)"
      using \<open>chain_start b st c fs s = _\<close> vol1 p(1) by (auto simp: create_chain_def)
    then show ?thesis using 3 p by (auto simp: searched_def)
  next
    case 4
    then have r: "r \<in> clusters V" "F r = 0" using p(2) by (auto simp: searched_def)
    have "create_chain b st c fs s = link_cluster b st r c fs2 t2"
      using 4 \<open>chain_start b st c fs s = _\<close> vol1 p(1) by (auto simp: create_chain_def)
    moreover have "returns (link_cluster b st r c fs2 t2)
        (\<lambda>(v, fs', t). v = r \<and> fat_state stores (one_taken V r) (with_link V c r F) R fs' t)"
      by (rule link_cluster_state [OF p(3)]) (use r range in \<open>auto simp: clusters_def\<close>)
    ultimately show ?thesis using 4 r by (auto elim!: returns_mono)
  qed
qed

end

section \<open>The count of free clusters\<close>

definition counted :: "fatfs \<Rightarrow> (u32 \<Rightarrow> u32) \<Rightarrow> bool" where
  "counted V F \<longleftrightarrow> (free_clst V \<le> n_fatent V - 2 \<longrightarrow> unat (free_clst V) = card {m \<in> clusters V. F m = 0})"

lemma card_clusters: "2 \<le> n_fatent V \<Longrightarrow> card (clusters V) = unat (n_fatent V - 2)"
proof -
  assume N: "2 \<le> n_fatent V"
  have "unat ` clusters V = {2..<unat (n_fatent V)}"
  proof (rule equalityI; rule subsetI)
    fix k assume k: "k \<in> {2..<unat (n_fatent V)}"
    then have "k < 2 ^ 32" using unsigned_less [of "n_fatent V", where ?'a = nat] by simp
    then have "unat (of_nat k :: u32) = k" by (simp add: unsigned_of_nat take_bit_nat_eq_self)
    then show "k \<in> unat ` clusters V"
      using k by (intro image_eqI [of _ _ "of_nat k"]) (auto simp: clusters_def word_less_nat_alt word_le_nat_alt)
  qed (auto simp: clusters_def word_less_nat_alt word_le_nat_alt)
  then have "card (clusters V) = unat (n_fatent V) - 2"
    using card_image [of unat "clusters V"] by (simp add: inj_on_def word_unat_eq_iff [symmetric])
  then show ?thesis using N by (simp add: unat_sub_if' word_le_nat_alt)
qed

lemma counted_free:
  assumes "counted V F" and x: "x \<in> clusters V" "F x \<noteq> 0"
  shows "counted (one_free V) (F(x := 0))"
proof -
  let ?S = "{m \<in> clusters V. F m = 0}"
  have N: "2 \<le> n_fatent V" using x by (auto simp: clusters_def)
  have fin: "finite (clusters V)" by simp
  have S: "{m \<in> clusters V. (F(x := 0)) m = 0} = insert x ?S" "x \<notin> ?S" using x by auto
  have "card ?S < card (clusters V)" by (rule psubset_card_mono) (use x in auto)
  then have less: "free_clst V \<le> n_fatent V - 2 \<Longrightarrow> free_clst V < n_fatent V - 2"
    using assms(1) card_clusters [OF N] by (simp add: counted_def word_less_nat_alt)
  have same: "clusters (one_free V) = clusters V" by (simp add: clusters_def)
  show ?thesis
  proof (cases "free_clst V < n_fatent V - 2")
    case True
    then have "unat (free_clst V + 1) = Suc (card ?S)"
      using next_word [OF True] assms(1) by (simp add: counted_def)
    moreover have "free_clst (one_free V) = free_clst V + 1" using True by (simp add: one_free_def)
    ultimately show ?thesis unfolding counted_def same S(1) using S(2) by simp
  next
    case False
    then have "one_free V = V" by (simp add: one_free_def)
    then show ?thesis using False less by (auto simp: counted_def)
  qed
qed

lemma counted_chain:
  assumes "counted V F" and "distinct cs" "set cs \<subseteq> clusters V" "\<forall>c \<in> set cs. F c \<noteq> 0"
  shows "counted ((one_free ^^ length cs) V) (\<lambda>n. if n \<in> set cs then 0 else F n)"
  using assms
proof (induction cs arbitrary: V F)
  case (Cons c cs)
  have "counted (one_free V) (F(c := 0))" using counted_free [OF Cons.prems(1)] Cons.prems by simp
  moreover have "clusters (one_free V) = clusters V" by (simp add: clusters_def)
  moreover have "\<forall>d \<in> set cs. (F(c := 0)) d \<noteq> 0" using Cons.prems by auto
  ultimately have "counted ((one_free ^^ length cs) (one_free V)) (\<lambda>n. if n \<in> set cs then 0 else (F(c := 0)) n)"
    using Cons.IH [of "one_free V" "F(c := 0)"] Cons.prems by (simp del: fun_upd_apply)
  moreover have "(\<lambda>n. if n \<in> set cs then 0 else (F(c := 0)) n) = (\<lambda>n. if n \<in> set (c # cs) then 0 else F n)" by auto
  ultimately show ?case by (simp add: funpow_swap1 del: list.set)
qed simp

lemma eoc_nonzero: "fat_eoc V \<noteq> 0"
  by (simp add: fat_eoc_def entry_mask_def)

lemma counted_eoc:
  assumes "counted V F" and "p \<noteq> 0 \<Longrightarrow> F p \<noteq> 0"
  shows "counted V (\<lambda>n. if p \<noteq> 0 \<and> n = p then fat_eoc V else F n)"
proof -
  have "{m \<in> clusters V. (if p \<noteq> 0 \<and> m = p then fat_eoc V else F m) = 0} = {m \<in> clusters V. F m = 0}"
    using assms(2) eoc_nonzero by auto
  then show ?thesis using assms(1) by (simp add: counted_def)
qed

lemma counted_taken:
  assumes "counted V F" and r: "r \<in> clusters V" "F r = 0" and c: "c \<noteq> 0 \<Longrightarrow> F c \<noteq> 0" and "free_clst V \<noteq> 0"
  shows "counted (one_taken V r) (with_link V c r F)"
proof -
  let ?S = "{m \<in> clusters V. F m = 0}"
  have N: "2 \<le> n_fatent V" "r \<noteq> 0" using r by (auto simp: clusters_def)
  have S: "{m \<in> clusters V. with_link V c r F m = 0} = ?S - {r}"
    using c N r eoc_nonzero by (auto simp: with_link_def)
  have same: "clusters (one_taken V r) = clusters V" "n_fatent (one_taken V r) = n_fatent V"
    by (simp_all add: clusters_def one_taken_def)
  show ?thesis
  proof (cases "free_clst V \<le> n_fatent V - 2")
    case True
    have "unat (free_clst V - 1) = unat (free_clst V) - 1" using assms(5) by (simp add: unat_minus_one)
    then show ?thesis
      unfolding counted_def same S using True assms(1) r
      by (simp add: one_taken_def counted_def card_Diff_singleton)
  next
    case False
    then show ?thesis by (simp add: counted_def same one_taken_def)
  qed
qed

section \<open>Writing back\<close>

text \<open>The bytes of the \<open>k\<close>-th table on the disk.\<close>

definition disk_table :: "fatfs \<Rightarrow> nat \<Rightarrow> (u32 \<Rightarrow> u8 list) \<Rightarrow> nat \<Rightarrow> u8" where
  "disk_table V k c i = c (fatbase V + of_nat k * fsize V + of_nat (i div 512)) ! (i mod 512)"

definition on_disk :: "fatfs \<Rightarrow> (u32 \<Rightarrow> u32) \<Rightarrow> (u32 \<Rightarrow> u8 list) \<Rightarrow> bool" where
  "on_disk V F c \<longleftrightarrow> (\<forall>k < unat (n_fats V). \<forall>n. 2 \<le> n \<longrightarrow> n < n_fatent V \<longrightarrow> entry (fs_type V) (disk_table V k c) n = F n)"

lemma entry_cong:
  assumes "volume_ok V" and "n < n_fatent V" and "\<And>i. i < 512 * unat (fsize V) \<Longrightarrow> B i = B' i"
  shows "entry (fs_type V) B n = entry (fs_type V) B' n"
  using entry_fits [OF assms(1,2)] assms(1)
  by (auto simp: entry_def entry_bytes_def Let_def assms(3) volume_ok_def numeral_3_eq_3)

lemma tables_on_disk:
  assumes "sound c fs" "mirrored c fs" "wflag fs = 0" and "volume fs = V" "volume_ok V"
    and B: "\<forall>i < 512 * unat (fsize V). fat_byte fs c i = B i"
    and F: "\<forall>n. 2 \<le> n \<longrightarrow> n < n_fatent V \<longrightarrow> F n = entry (fs_type V) B n"
  shows "on_disk V F c"
proof -
  have f: "fatbase fs = fatbase V" "fsize fs = fsize V" "in_fat fs = in_fat V" "n_fats fs = n_fats V"
    using volume_fields [of V fs] volume_cong [of V fs] assms(4) by auto
  have clean: "seen fs c x = c x" if "x \<noteq> - 1" for x
    using assms(1,3) that by (auto simp: sound_def seen_def)
  have "disk_table V k c i = B i" if k: "k < unat (n_fats V)" and i: "i < 512 * unat (fsize V)" for k i
  proof -
    let ?x = "fatbase V + of_nat (i div 512)"
    have x: "in_fat V ?x" "?x \<noteq> - 1"
      using table_sector [OF assms(5) i] table_disjoint(2) [OF assms(5)] by blast+
    have "fat_byte fs c i = B i" using B i by blast
    then have first: "c ?x ! (i mod 512) = B i" using clean [OF x(2)] f by (simp add: fat_byte_def)
    have "k = 0 \<or> k = 1 \<and> n_fats V = 2" using k assms(5) by (auto simp: volume_ok_def)
    moreover have "c (?x + fsize V) = c ?x" if "n_fats V = 2"
      using assms(2,3) that x(1) f by (simp add: mirrored_def)
    ultimately show ?thesis using first by (auto simp: disk_table_def algebra_simps)
  qed
  then show ?thesis using F entry_cong [OF assms(5)] unfolding on_disk_def by metis
qed

context block_disk
begin

lemma sync_window_state:
  assumes "fat_state stores V F R fs s"
  shows "returns (sync_window b st fs s) (\<lambda>(r, fs', t). r = FR_OK \<and> fs' = fs \<lparr> wflag := 0 \<rparr> \<and> fat_state stores V F R fs' t
    \<and> (\<exists>c. stores c t \<and> sound c fs' \<and> on_disk V F c \<and> (\<forall>x. steady V x \<longrightarrow> \<not> in_fat V x \<longrightarrow> c x = R x)))"
proof -
  from assms obtain B where B: "byte_state stores V B R fs s" and F: "\<forall>n. 2 \<le> n \<longrightarrow> n < n_fatent V \<longrightarrow> F n = entry (fs_type V) B n"
    by (auto simp: fat_state_def)
  note vol = byte_state_volume [OF B]
  from B obtain c where c: "stores c s" "sound c fs" "mirrored c fs"
      "\<forall>i < 512 * unat (fsize V). fat_byte fs c i = B i" "\<forall>x. steady V x \<longrightarrow> \<not> in_fat V x \<longrightarrow> seen fs c x = R x"
    by (auto simp: byte_state_def)
  let ?fs = "fs \<lparr> wflag := 0 \<rparr>" and ?c = "disk_flushed fs c"
  obtain t where t: "sync_window b st fs s = Some (FR_OK, ?fs, t)" "stores ?c t"
    using sync_window_wp [OF c(1) vol(5,3)] by (auto simp: returns_ex)
  have k: "sound ?c ?fs" "mirrored ?c ?fs" "volume ?fs = V" "\<And>y. steady V y \<Longrightarrow> seen ?fs ?c y = seen fs c y"
    using disk_flushed_sound [OF c(2)] c(3) vol(1) volume_cong(4) [of fs V] by (auto simp: carried_def)
  have bytes: "\<forall>i < 512 * unat (fsize V). fat_byte ?fs ?c i = B i"
  proof (intro allI impI)
    fix i assume i: "i < 512 * unat (fsize V)"
    have "steady V (fatbase V + of_nat (i div 512))"
      using table_disjoint [OF vol(2) table_sector [OF vol(2) i]] by (simp add: steady_def)
    moreover have "fat_byte fs c i = B i" using c(4) i by blast
    ultimately show "fat_byte ?fs ?c i = B i" using k(4) vol by (simp add: fat_byte_def)
  qed
  have rest: "\<forall>x. steady V x \<longrightarrow> \<not> in_fat V x \<longrightarrow> seen ?fs ?c x = R x" using k(4) c(5) by simp
  moreover have "seen ?fs ?c x = ?c x" if "steady V x" for x
    using k(1) that by (auto simp: sound_def seen_def steady_def)
  ultimately have "\<forall>x. steady V x \<longrightarrow> \<not> in_fat V x \<longrightarrow> ?c x = R x" by simp
  moreover have "on_disk V F ?c" using tables_on_disk [OF k(1,2) _ k(3) vol(2) bytes F] by simp
  moreover have "fat_state stores V F R ?fs t"
    unfolding fat_state_def byte_state_def using t(2) k bytes rest F by blast
  ultimately show ?thesis using t k(1) by auto
qed

text \<open>\<^verbatim>\<open>sync_fs\<close> writes everything, and fails all the same, since \<^verbatim>\<open>disk_ioctl\<close> knows no command.\<close>

lemma sync_fs_state:
  assumes "fat_state stores V F R fs s" and x: "steady V (volbase V + 1)" "\<not> in_fat V (volbase V + 1)"
    and info: "fs_type V = FS_FAT32 \<and> fsi_flag V = 1 \<longleftrightarrow> i"
  shows "returns (sync_fs b st fs s) (\<lambda>(r, fs', t). r = FR_DISK_ERR \<and> wflag fs' = 0
    \<and> (\<exists>c. stores c t \<and> on_disk V F c \<and> (i \<longrightarrow> c (volbase V + 1) = fsinfo (free_clst V) (last_clst V))
        \<and> (\<forall>y. steady V y \<longrightarrow> \<not> in_fat V y \<longrightarrow> i \<longrightarrow> y \<noteq> volbase V + 1 \<longrightarrow> c y = R y)))"
proof -
  note vol = fat_state_volume [OF assms(1)]
  obtain t c where t: "sync_window b st fs s = Some (FR_OK, fs \<lparr> wflag := 0 \<rparr>, t)" "stores c t" "on_disk V F c"
      "\<forall>x. steady V x \<longrightarrow> \<not> in_fat V x \<longrightarrow> c x = R x"
    using sync_window_state [OF assms(1)] by (auto simp: returns_ex)
  have f: "fs_type fs = fs_type V" "volbase fs = volbase V" "pdrv fs = 0"
  proof -
    from assms(1) obtain B where B: "byte_state stores V B R fs s" by (auto simp: fat_state_def)
    then show "fs_type fs = fs_type V" "volbase fs = volbase V" "pdrv fs = 0"
      using byte_state_volume [OF B] volume_fields [of fs V] by auto
  qed
  show ?thesis
  proof (cases i)
    case False
    then show ?thesis using t f vol info by (auto simp: sync_fs_def disk_ioctl_def)
  next
    case True
    let ?w = "fsinfo (free_clst V) (last_clst V)" and ?x = "volbase V + 1"
    have "length ?w = 512" by (simp add: fsinfo_def st_word_def st_dword_def)
    from writes [OF t(2) this, of ?x] obtain u where u: "disk_write b st 0 ?w ?x 1 t = Some (RES_OK, u)" "stores (c(?x := ?w)) u"
      by (auto simp: returns_ex)
    have "on_disk V F (c(?x := ?w))"
    proof -
      have "fatbase V + of_nat k * fsize V + of_nat (j div 512) \<noteq> ?x"
        if "k < unat (n_fats V)" and j: "j < 512 * unat (fsize V)" for k j
      proof -
        note y = table_sector [OF vol(1) j]
        note d = table_disjoint [OF vol(1) y]
        have "k = 0 \<or> k = 1 \<and> n_fats V = 2" using that(1) vol(1) by (auto simp: volume_ok_def)
        then have "in_fat V (fatbase V + of_nat k * fsize V + of_nat (j div 512))
          \<or> in_copy V (fatbase V + of_nat k * fsize V + of_nat (j div 512))"
          using y d(3) by (auto simp: algebra_simps)
        then show ?thesis using x by (auto simp: steady_def)
      qed
      then have "disk_table V k (c(?x := ?w)) j = disk_table V k c j"
        if "k < unat (n_fats V)" and "j < 512 * unat (fsize V)" for k j
        using that by (simp add: disk_table_def)
      then show ?thesis using t(3) entry_cong [OF vol(1)] unfolding on_disk_def by (metis (no_types, lifting))
    qed
    moreover have "\<forall>y. steady V y \<longrightarrow> \<not> in_fat V y \<longrightarrow> y \<noteq> ?x \<longrightarrow> (c(?x := ?w)) y = R y" using t(4) by simp
    ultimately show ?thesis
      using t(1) u True f vol info by (auto simp: sync_fs_def disk_ioctl_def simp del: fun_upd_apply) (auto intro!: exI [of _ "c(?x := ?w)"])
  qed
qed

lemma create_chain_grows:
  assumes "fat_state stores V F R fs s" and ch: "chain F (n_fatent V) x cs" and cnt: "counted V F"
    and sane: "\<forall>m \<in> clusters V. F m \<noteq> 1"
  shows "returns (create_chain b st (last cs) fs s) (\<lambda>(r, fs', t). \<exists>V' F'. fat_state stores V' F' R fs' t \<and> counted V' F'
    \<and> (if \<exists>m \<in> clusters V. F m = 0
       then r \<in> clusters V \<and> F r = 0 \<and> chain F' (n_fatent V) x (cs @ [r]) \<and> (\<forall>n. n \<noteq> r \<longrightarrow> n \<noteq> last cs \<longrightarrow> F' n = F n)
       else r = 0 \<and> V' = V \<and> F' = F))"
proof -
  note vol = fat_state_volume [OF assms(1)]
  obtain ds c where cs: "cs = ds @ [c]" using chain_nonempty [OF ch] by (cases cs rule: rev_cases) auto
  have c: "c \<in> clusters V" "c \<noteq> 0" using chain_range [OF ch, of c] cs by (auto simp: clusters_def)
  have N: "2 \<le> n_fatent V" using c by (auto simp: clusters_def)
  have last: "n_fatent V \<le> F c" using chain_suffix [of F "n_fatent V" x ds c "[]"] ch cs by simp
  then have Fc: "F c \<noteq> 0" using N by (auto simp: word_le_nat_alt)
  have out: "r \<notin> set cs" if "F r = 0" for r
    using chain_next_free [OF ch] that by (auto simp: word_le_nat_alt) (use N in \<open>force simp: word_le_nat_alt\<close>)
  have empty: "free_clst V = 0 \<Longrightarrow> \<forall>m \<in> clusters V. F m \<noteq> 0"
    using cnt by (auto simp: counted_def)
  have grown: "chain (with_link V c r F) (n_fatent V) x (cs @ [r])" if "r \<in> clusters V" "F r = 0" for r
    using chain_grown [of F "n_fatent V" x ds c r "fat_eoc V"] ch cs out that cluster_small(2) [OF vol(1)] c
    by (auto simp: with_link_def clusters_def)
  have carried: "counted (one_taken V r) (with_link V c r F)" if "r \<in> clusters V" "F r = 0" for r
    by (rule counted_taken [OF cnt that]) (use Fc empty that in auto)
  have "returns (create_chain b st c fs s) (\<lambda>(r, fs', t).
      r \<in> clusters V \<and> F r = 0 \<and> fat_state stores (one_taken V r) (with_link V c r F) R fs' t
      \<or> r = 0 \<and> (\<forall>m \<in> clusters V. F m \<noteq> 0) \<and> fat_state stores V F R fs' t)"
    by (rule returns_mono [OF create_chain_state [OF assms(1) _ N]])
      (use c last empty sane in \<open>auto simp: not_less [symmetric] split: if_splits\<close>)
  moreover have "\<forall>n. n \<noteq> r \<longrightarrow> n \<noteq> c \<longrightarrow> with_link V c r F n = F n" for r by (simp add: with_link_def)
  ultimately show ?thesis
    unfolding cs last_snoc using grown carried cnt by (auto elim!: returns_mono simp: cs) blast+
qed

end

end
