(* ===== verification/Fatcard.thy ===== *)
theory Fatcard
  imports Fatchain
begin

text \<open>
  The allocation table on the SD card of \<^verbatim>\<open>Diskio\<close>, driven over SPI by the machine of \<^verbatim>\<open>Soc\<close>: the card discharges the
  contract \<open>block_disk\<close>, and the properties are those of the contract, for every such card and machine.
\<close>

section \<open>On the card\<close>

text \<open>The SD card of \<^verbatim>\<open>Diskio\<close> with sectors of 512 bytes, whose contents are \<open>c\<close>. The rest of the machine is \<open>a\<close>.\<close>

definition card_disk where
  "card_disk st f a c s \<longleftrightarrow> spi_ready (card_slave 512 (holding 512 f)) (spi2 s) \<and> bit (io s GPIOA_POUT) 14
     \<and> card_sector 512 (holding 512 f) (s_sent (spi2 s)) = c \<and> sd_aside s = a \<and> ocr_sectorsize st = 512"

lemma card_disk_parked:
  "card_disk st f a c s \<longleftrightarrow> held.parked_card 512 f c s \<and> sd_aside s = a \<and> ocr_sectorsize st = 512"
  by (auto simp: card_disk_def held.parked_card_def)

interpretation fat_card: block_disk soc_bus st "card_disk st f a" for st f a
proof
  fix c s x
  assume "card_disk st f a c s"
  then show "length (c x) = 512"
    using held.sized [of 512 f] by (auto simp: card_disk_def)
next
  fix c s and buf :: "u8 list" and x
  assume d: "card_disk st f a c s" and buf: "length buf = 512"
  have "returns (disk_read_loop soc_bus st 1 buf x s) (\<lambda>(r, buf', t). r = RES_OK
    \<and> buf' = held.sectors c 1 x @ drop (1 * 512) buf \<and> held.parked_card 512 f c t \<and> sd_aside t = sd_aside s)"
    by (rule held.read_loop_wp) (use d buf in \<open>simp_all add: card_disk_parked\<close>)
  then show "returns (disk_read soc_bus st 0 buf x 1 s) (\<lambda>(r, buf', t). r = RES_OK \<and> buf' = c x \<and> card_disk st f a c t)"
    using d buf by (auto simp: disk_read_def DEV_MMC_def card_disk_parked elim!: returns_mono)
next
  fix c s and data :: "u8 list" and x
  assume d: "card_disk st f a c s" and data: "length data = 512"
  then obtain t where "SD_writesector soc_bus st x (data @ []) s = Some (SD_SUCCESS, t)"
      "held.parked_card 512 f (c(x := data)) t" "sd_aside t = sd_aside s"
    using held.writesector_stored [of 512 f c s st data x "[]"] by (auto simp: card_disk_parked returns_ex)
  then show "returns (disk_write soc_bus st 0 data x 1 s) (\<lambda>(r, t). r = RES_OK \<and> card_disk st f a (c(x := data)) t)"
    using d by (simp add: disk_write_def DEV_MMC_def card_disk_parked SD_SUCCESS_def SD_ERROR_def)
qed

text \<open>A volume that was just opened: nothing in the window yet.\<close>

lemma fresh_volume:
  assumes "card_disk st f a c s" and "volume_ok fs" "length (win fs) = 512" "wflag fs = 0" "winsect fs = - 1"
    and "n_fats fs = 2 \<Longrightarrow> \<forall>x. in_fat fs x \<longrightarrow> c (x + fsize fs) = c x"
  shows "fat_state (card_disk st f a) (volume fs) (entry (fs_type fs) (disk_table fs 0 c)) c fs s"
proof -
  have clean: "seen fs c x = c x" if "x \<noteq> - 1" for x using that assms(5) by (simp add: seen_def)
  have f: "fs_type (volume fs) = fs_type fs" "fsize (volume fs) = fsize fs" by (simp_all add: volume_def)
  have "fat_byte fs c i = disk_table fs 0 c i" if "i < 512 * unat (fsize fs)" for i
    using clean table_disjoint(2) [OF assms(2) table_sector [OF assms(2) that]] by (simp add: fat_byte_def disk_table_def)
  then have "byte_state (card_disk st f a) (volume fs) (disk_table fs 0 c) c fs s"
    unfolding byte_state_def f using assms clean
    by (auto simp: sound_def mirrored_def steady_def)
  then show ?thesis unfolding fat_state_def f by blast
qed

section \<open>Properties\<close>

text \<open>C11. An entry that is written with \<^verbatim>\<open>put_fat\<close> comes back with \<^verbatim>\<open>get_fat\<close>, cut to the width of the format, and every
  other entry is as before: also in the FAT12 format, where two entries share a byte and an entry may lie in two
  sectors, and through the one sector buffer that both functions move over the card.\<close>

theorem fat_entry_round_trip:
  assumes "fat_state (card_disk st f a) V F R fs s" and "n \<in> clusters V" "m \<in> clusters V"
  shows "returns (do { (r, fs, t) \<leftarrow> put_fat soc_bus st n v fs s; (w, fs, u) \<leftarrow> get_fat soc_bus st m fs t; Some (r, w, fs, u) })
    (\<lambda>(r, w, fs', u). r = FR_OK \<and> w = (if m = n then v AND entry_mask (fs_type V) else F m)
      \<and> fat_state (card_disk st f a) V (F(n := v AND entry_mask (fs_type V))) R fs' u)"
proof -
  let ?F = "F(n := v AND entry_mask (fs_type V))"
  have range: "2 \<le> n" "n < n_fatent V" "2 \<le> m" "m < n_fatent V" using assms(2,3) by (simp_all add: clusters_def)
  obtain fs1 t where p: "put_fat soc_bus st n v fs s = Some (FR_OK, fs1, t)" "fat_state (card_disk st f a) V ?F R fs1 t"
    using fat_card.put_fat_state [OF assms(1) range(1,2), of v] by (auto simp: returns_ex)
  from fat_card.get_fat_state [OF p(2) range(3,4)] p(1) show ?thesis by (auto simp: returns_ex)
qed

text \<open>A small FAT16 volume: one table in sector 1, six clusters, of which 2, 5 and 3 form a file.\<close>

definition fat_demo_bytes :: "u8 list" where
  "fat_demo_bytes = [0xF8, 0xFF, 0xFF, 0xFF, 5, 0, 0xFF, 0xFF, 0, 0, 3, 0, 0, 0, 0, 0]"

definition fat_demo_sectors :: "u32 \<Rightarrow> u8 list" where
  "fat_demo_sectors x = (if x = 1 then fat_demo_bytes else [])"

definition fat_demo_volume :: fatfs where
  "fat_demo_volume = \<lparr> fs_type = FS_FAT16, pdrv = 0, n_fats = 1, wflag = 0, fsi_flag = 0, mount_id = 1, n_rootdir = 16, csize = 1,
     last_clst = 0xFFFFFFFF, free_clst = 3, cdir = 0, n_fatent = 8, fsize = 1, volbase = 0, fatbase = 1, dirbase = 2,
     database = 3, winsect = - 1, win = replicate 512 0 \<rparr>"

definition fat_demo_driver :: sd_card where
  "fat_demo_driver = sd_cleared \<lparr> ocr_sectorsize := 512 \<rparr>"

definition fat_demo_soc :: soc where
  "fat_demo_soc = (demo_soc [] (card_slave 512 (holding 512 fat_demo_sectors)) count_slave) \<lparr> io := \<lambda>_. CS_PIN \<rparr>"

definition fat_demo_table :: "u32 \<Rightarrow> u32" where
  "fat_demo_table n = (if n = 2 then 5 else if n = 5 then 3 else if n = 3 then 0xFFFF else 0)"

text \<open>What the card holds then, sector by sector.\<close>

definition fat_demo_disk :: "u32 \<Rightarrow> u8 list" where
  "fat_demo_disk x = take 512 (fat_demo_sectors x @ replicate 512 0)"

lemma fat_demo_byte:
  assumes "i < 16"
  shows "disk_table fat_demo_volume 0 fat_demo_disk i = fat_demo_bytes ! i"
proof -
  have "length fat_demo_bytes = 16" by (simp add: fat_demo_bytes_def)
  then show ?thesis
    using assms by (simp add: disk_table_def fat_demo_disk_def fat_demo_volume_def fat_demo_sectors_def nth_append)
qed

lemma fat_demo_entries:
  assumes "2 \<le> n" and "n < 8"
  shows "entry FS_FAT16 (disk_table fat_demo_volume 0 fat_demo_disk) n = fat_demo_table n"
proof -
  have "unat n \<in> {2..<8}" using assms by (simp add: word_less_nat_alt word_le_nat_alt)
  then have "unat n \<in> {2, 3, 4, 5, 6, 7}" by auto
  then have "n \<in> {2, 3, 4, 5, 6, 7}" by (auto simp: word_unat_eq_iff)
  then show ?thesis
    by (auto simp: entry_def entry_at_def entry_bytes_def fat_demo_byte fat_demo_table_def Let_def) (simp_all add: fat_demo_bytes_def)
qed

definition fat_demo_holds where
  "fat_demo_holds V F fs s \<longleftrightarrow> (\<exists>R. fat_state (card_disk fat_demo_driver fat_demo_sectors (sd_aside fat_demo_soc)) V F R fs s)"

lemma fat_demo_state:
  obtains c where "fat_state (card_disk fat_demo_driver fat_demo_sectors (sd_aside fat_demo_soc)) (volume fat_demo_volume)
    fat_demo_table c fat_demo_volume fat_demo_soc"
proof -
  let ?c = fat_demo_disk
  have "card_disk fat_demo_driver fat_demo_sectors (sd_aside fat_demo_soc) ?c fat_demo_soc"
    by (simp add: card_disk_def fat_demo_driver_def fat_demo_soc_def bit_CS_PIN card_sector_def holding_def fun_eq_iff
      fat_demo_disk_def)
  from fresh_volume [OF this, of fat_demo_volume]
  have "fat_state (card_disk fat_demo_driver fat_demo_sectors (sd_aside fat_demo_soc)) (volume fat_demo_volume)
      (entry FS_FAT16 (disk_table fat_demo_volume 0 ?c)) ?c fat_demo_volume fat_demo_soc"
    by (simp add: fat_demo_volume_def volume_ok_def table_size_def Let_def)
  then have "fat_state (card_disk fat_demo_driver fat_demo_sectors (sd_aside fat_demo_soc)) (volume fat_demo_volume)
      fat_demo_table ?c fat_demo_volume fat_demo_soc"
    using fat_demo_entries unfolding fat_state_def by (auto simp: fat_demo_volume_def volume_def) 
  then show thesis by (rule that)
qed

theorem fat_entry_round_trip_witness:
  "returns (do { (r, fs, t) \<leftarrow> put_fat soc_bus fat_demo_driver 4 7 fat_demo_volume fat_demo_soc;
       (w, fs, u) \<leftarrow> get_fat soc_bus fat_demo_driver 5 fs t; Some (r, w, fs, u) }) (\<lambda>(r, w, fs, u). r = FR_OK \<and> w = 3)"
proof -
  obtain c where d: "fat_state (card_disk fat_demo_driver fat_demo_sectors (sd_aside fat_demo_soc)) (volume fat_demo_volume)
    fat_demo_table c fat_demo_volume fat_demo_soc" by (rule fat_demo_state)
  have "4 \<in> clusters (volume fat_demo_volume)" "5 \<in> clusters (volume fat_demo_volume)"
    by (simp_all add: clusters_def fat_demo_volume_def volume_def)
  from fat_entry_round_trip [OF d this, of 7] show ?thesis
    by (auto simp: fat_demo_table_def elim!: returns_mono)
qed

lemma fat_demo_clusters: "clusters (volume fat_demo_volume) = {2, 3, 4, 5, 6, 7}"
proof -
  have "n \<in> {2, 3, 4, 5, 6, 7}" if "2 \<le> n" "n < 8" for n :: u32
  proof -
    have "unat n \<in> {2..<8}" using that by (simp add: word_less_nat_alt word_le_nat_alt)
    then have "unat n \<in> {2, 3, 4, 5, 6, 7}" by auto
    then show ?thesis by (auto simp: word_unat_eq_iff)
  qed
  then show ?thesis by (auto simp: clusters_def fat_demo_volume_def volume_def)
qed

lemma fat_demo_counted: "counted (volume fat_demo_volume) fat_demo_table"
proof -
  have "{m \<in> clusters (volume fat_demo_volume). fat_demo_table m = 0} = {4, 6, 7}"
    unfolding fat_demo_clusters by (auto simp: fat_demo_table_def)
  then show ?thesis by (simp add: counted_def fat_demo_volume_def volume_def)
qed

lemma fat_demo_chain: "chain fat_demo_table (n_fatent (volume fat_demo_volume)) 2 [2, 5, 3]"
  by (simp add: fat_demo_table_def fat_demo_volume_def volume_def)

text \<open>C10. \<^verbatim>\<open>create_chain\<close>, asked to stretch a chain of the table, finds a free cluster whenever there is one, ends the chain
  with it and changes no other entry; with no free cluster it returns 0 and changes nothing. The search stops in every
  case. The count of free clusters, where it is known, is the number of empty entries before and after.\<close>

theorem create_chain_appends:
  assumes "fat_state (card_disk st f a) V F R fs s" and "chain F (n_fatent V) x cs" and "counted V F"
    and "\<forall>m \<in> clusters V. F m \<noteq> 1"
  shows "returns (create_chain soc_bus st (last cs) fs s) (\<lambda>(r, fs', t). \<exists>V' F'.
    fat_state (card_disk st f a) V' F' R fs' t \<and> counted V' F'
    \<and> (if \<exists>m \<in> clusters V. F m = 0
       then r \<in> clusters V \<and> F r = 0 \<and> chain F' (n_fatent V) x (cs @ [r]) \<and> (\<forall>n. n \<noteq> r \<longrightarrow> n \<noteq> last cs \<longrightarrow> F' n = F n)
       else r = 0 \<and> V' = V \<and> F' = F))"
  by (rule fat_card.create_chain_grows [OF assms])

theorem create_chain_appends_witness:
  "returns (create_chain soc_bus fat_demo_driver (last [2, 5, 3]) fat_demo_volume fat_demo_soc)
     (\<lambda>(r, fs, t). fat_demo_table r = 0 \<and> (\<exists>V F. fat_demo_holds V F fs t \<and> chain F 8 2 ([2, 5, 3] @ [r])))"
proof -
  obtain c where d: "fat_state (card_disk fat_demo_driver fat_demo_sectors (sd_aside fat_demo_soc)) (volume fat_demo_volume)
    fat_demo_table c fat_demo_volume fat_demo_soc" by (rule fat_demo_state)
  have sane: "\<forall>m \<in> clusters (volume fat_demo_volume). fat_demo_table m \<noteq> 1"
    unfolding fat_demo_clusters by (auto simp: fat_demo_table_def)
  have free: "\<exists>m \<in> clusters (volume fat_demo_volume). fat_demo_table m = 0"
    unfolding fat_demo_clusters by (simp add: fat_demo_table_def)
  have N: "n_fatent (volume fat_demo_volume) = 8" by (simp add: fat_demo_volume_def volume_def)
  show ?thesis
    by (rule returns_mono [OF create_chain_appends [OF d fat_demo_chain fat_demo_counted sane]])
      (simp only: free if_True N fat_demo_holds_def split: prod.splits, blast)
qed

text \<open>C12. \<^verbatim>\<open>remove_chain\<close> empties the entries of a chain and no other, except that it ends the chain at the cluster before,
  when one is given. It succeeds, and the count of free clusters grows with every cluster, where it is known.\<close>

theorem remove_chain_empties:
  assumes "fat_state (card_disk st f a) V F R fs s" and "chain F (n_fatent V) x cs" and "counted V F"
    and "p \<noteq> 0 \<Longrightarrow> p \<in> clusters V \<and> p \<notin> set cs \<and> F p \<noteq> 0"
  shows "returns (remove_chain soc_bus st x p fs s) (\<lambda>(r, fs', t). r = FR_OK \<and> (\<exists>V' F'. fat_state (card_disk st f a) V' F' R fs' t
    \<and> counted V' F' \<and> (\<forall>n. F' n = (if n \<in> set cs then 0 else if p \<noteq> 0 \<and> n = p then fat_eoc V else F n))))"
proof -
  let ?G = "\<lambda>n. if p \<noteq> 0 \<and> n = p then fat_eoc V else F n"
  have inside: "set cs \<subseteq> clusters V" using chain_range [OF assms(2)] by (auto simp: clusters_def)
  have full: "\<forall>c \<in> set cs. ?G c \<noteq> 0"
  proof
    fix c assume c: "c \<in> set cs"
    then have "F c \<noteq> 0"
      using chain_next_free [OF assms(2) c] chain_range [OF assms(2) c]
      by (auto simp: word_less_nat_alt word_le_nat_alt)
    then show "?G c \<noteq> 0" using eoc_nonzero by simp
  qed
  have "counted V ?G" by (rule counted_eoc [OF assms(3)]) (use assms(4) in auto)
  note cnt = counted_chain [OF this chain_distinct [OF assms(2)] inside full]
  have "p \<noteq> 0 \<Longrightarrow> 2 \<le> p \<and> p < n_fatent V \<and> p \<notin> set cs" using assms(4) by (simp add: clusters_def)
  from fat_card.remove_chain_frees [OF assms(1,2) this] obtain fs' t where r: "remove_chain soc_bus st x p fs s = Some (FR_OK, fs', t)"
      "fat_state (card_disk st f a) ((one_free ^^ length cs) V) (\<lambda>n. if n \<in> set cs then 0 else ?G n) R fs' t"
    by (auto simp: returns_ex)
  show ?thesis
    unfolding r(1) by (simp only: returns_Some_iff prod.case) (use r(2) cnt in blast)
qed

theorem remove_chain_empties_witness:
  "returns (remove_chain soc_bus fat_demo_driver 5 2 fat_demo_volume fat_demo_soc)
     (\<lambda>(r, fs, t). r = FR_OK
       \<and> (\<exists>V F. fat_demo_holds V F fs t \<and> F 5 = 0 \<and> F 3 = 0 \<and> F 2 = 0xFFFF))"
proof -
  obtain c where d: "fat_state (card_disk fat_demo_driver fat_demo_sectors (sd_aside fat_demo_soc)) (volume fat_demo_volume)
    fat_demo_table c fat_demo_volume fat_demo_soc" by (rule fat_demo_state)
  have tail: "chain fat_demo_table (n_fatent (volume fat_demo_volume)) 5 [5, 3]" using fat_demo_chain by (simp add: fat_demo_table_def)
  have "2 \<in> clusters (volume fat_demo_volume) \<and> 2 \<notin> set [5, 3 :: u32] \<and> fat_demo_table 2 \<noteq> 0"
    by (simp add: fat_demo_clusters fat_demo_table_def)
  moreover have "fat_eoc (volume fat_demo_volume) = 0xFFFF"
    by (simp add: fat_eoc_def entry_mask_def fat_demo_volume_def volume_def)
  ultimately show ?thesis
    by (intro returns_mono [OF remove_chain_empties [OF d tail fat_demo_counted, of 2]])
      (auto simp: fat_demo_holds_def intro!: exI)
qed

text \<open>C13. \<^verbatim>\<open>remove_chain\<close> returns on every table: also when the entries form a cycle or point into another chain, since each
  turn of its loop empties an entry and an empty entry ends it. It reports success or an internal error (an entry of
  1), and it changes entries only to empty ones, but for the end mark at the cluster before.\<close>

theorem remove_chain_terminates:
  assumes "fat_state (card_disk st f a) V F R fs s" and "x \<in> clusters V" and "p \<noteq> 0 \<Longrightarrow> p \<in> clusters V"
  shows "returns (remove_chain soc_bus st x p fs s) (\<lambda>(r, fs', t). (r = FR_OK \<or> r = FR_INT_ERR)
    \<and> (\<exists>V' F'. fat_state (card_disk st f a) V' F' R fs' t \<and> (\<forall>n. F' n = F n \<or> F' n = 0 \<or> n = p \<and> F' n = fat_eoc V)))"
  by (rule fat_card.remove_chain_ends [OF assms(1)]) (use assms(2,3) in \<open>auto simp: clusters_def\<close>)

theorem remove_chain_terminates_witness:
  "returns (remove_chain soc_bus fat_demo_driver 5 0 fat_demo_volume fat_demo_soc) (\<lambda>(r, fs, t). r = FR_OK \<or> r = FR_INT_ERR)"
proof -
  obtain c where d: "fat_state (card_disk fat_demo_driver fat_demo_sectors (sd_aside fat_demo_soc)) (volume fat_demo_volume)
    fat_demo_table c fat_demo_volume fat_demo_soc" by (rule fat_demo_state)
  show ?thesis
    by (rule returns_mono [OF remove_chain_terminates [OF d, of 5 0]]) (auto simp: fat_demo_clusters)
qed

text \<open>C14. After \<^verbatim>\<open>sync_window\<close> the card itself holds the table, in both copies when the volume has two, although every change
  went through one sector buffer that writes the first copy only. The sectors outside the tables are as they were seen
  before.\<close>

theorem sync_writes_tables:
  assumes "fat_state (card_disk st f a) V F R fs s"
  shows "returns (sync_window soc_bus st fs s) (\<lambda>(r, fs', t). r = FR_OK \<and> wflag fs' = 0
    \<and> (\<exists>c. card_disk st f a c t \<and> on_disk V F c \<and> (\<forall>x. steady V x \<longrightarrow> \<not> in_fat V x \<longrightarrow> c x = R x)))"
  by (rule returns_mono [OF fat_card.sync_window_state [OF assms]]) auto

theorem sync_writes_tables_witness:
  "returns (sync_window soc_bus fat_demo_driver fat_demo_volume fat_demo_soc) (\<lambda>(r, fs, t). r = FR_OK
     \<and> (\<exists>c. on_disk (volume fat_demo_volume) fat_demo_table c))"
proof -
  obtain c where d: "fat_state (card_disk fat_demo_driver fat_demo_sectors (sd_aside fat_demo_soc)) (volume fat_demo_volume)
    fat_demo_table c fat_demo_volume fat_demo_soc" by (rule fat_demo_state)
  show ?thesis by (rule returns_mono [OF sync_writes_tables [OF d]]) auto
qed

text \<open>C19. \<^verbatim>\<open>sync_fs\<close> always reports a disk error with this \<^verbatim>\<open>disk_ioctl\<close>, although it has written everything: the window, both
  tables, and on a FAT32 volume with changed counters the sector that describes the free space.\<close>

theorem sync_fs_reports_error:
  assumes "fat_state (card_disk st f a) V F R fs s" and "steady V (volbase V + 1)" "\<not> in_fat V (volbase V + 1)"
  shows "returns (sync_fs soc_bus st fs s) (\<lambda>(r, fs', t). r = FR_DISK_ERR \<and> wflag fs' = 0
    \<and> (\<exists>c. card_disk st f a c t \<and> on_disk V F c
        \<and> (fs_type V = FS_FAT32 \<and> fsi_flag V = 1 \<longrightarrow> c (volbase V + 1) = fsinfo (free_clst V) (last_clst V))))"
  by (rule returns_mono [OF fat_card.sync_fs_state [OF assms refl]]) auto

theorem sync_fs_reports_error_witness:
  "returns (sync_fs soc_bus fat_demo_driver (fat_demo_volume \<lparr> volbase := 9 \<rparr>) fat_demo_soc) (\<lambda>(r, fs, t). r = FR_DISK_ERR)"
proof -
  let ?v = "fat_demo_volume \<lparr> volbase := 9 \<rparr>"
  have "card_disk fat_demo_driver fat_demo_sectors (sd_aside fat_demo_soc) fat_demo_disk fat_demo_soc"
    by (simp add: card_disk_def fat_demo_driver_def fat_demo_soc_def bit_CS_PIN card_sector_def holding_def fun_eq_iff
      fat_demo_disk_def)
  from fresh_volume [OF this, of ?v]
  have d: "fat_state (card_disk fat_demo_driver fat_demo_sectors (sd_aside fat_demo_soc)) (volume ?v)
      (entry FS_FAT16 (disk_table ?v 0 fat_demo_disk)) fat_demo_disk ?v fat_demo_soc"
    by (simp add: fat_demo_volume_def volume_ok_def table_size_def Let_def)
  show ?thesis
    by (rule returns_mono [OF sync_fs_reports_error [OF d]])
      (auto simp: fat_demo_volume_def volume_def steady_def in_copy_def in_fat_def)
qed

end
