(* ===== verification/Mountlaws.thy ===== *)
theory Mountlaws
  imports Fatmount Fatcard
begin

text \<open>
  Mounting a volume: what \<^verbatim>\<open>find_volume\<close> finds on a disk, and that \<^verbatim>\<open>mount_volume\<close> and \<^verbatim>\<open>f_mount\<close> keep the registered
  volume object well formed (\<open>layout_ok\<close>: the tables, the root directory and the clusters lie one after the other), on
  any hardware and whatever the disk holds, as long as the volume that the boot sector describes ends below sector
  \<open>2\<^sup>3\<^sup>2\<close>. The code does not check that; \<open>overflow_accepted\<close> is a boot sector that it should reject.
\<close>

section \<open>Only the window changes while a volume is searched\<close>





section \<open>The boot sector\<close>

lemma win_fields [simp]:
  "win_word i (fs \<lparr> fsize := a \<rparr>) = win_word i fs" "win_word i (fs \<lparr> n_fats := nf \<rparr>) = win_word i fs"
  "win_word i (fs \<lparr> csize := cs \<rparr>) = win_word i fs" "win_word i (fs \<lparr> n_rootdir := rd \<rparr>) = win_word i fs"
  "win_word i (fs \<lparr> n_fatent := a \<rparr>) = win_word i fs" "win_word i (fs \<lparr> volbase := a \<rparr>) = win_word i fs"
  "win_word i (fs \<lparr> fatbase := a \<rparr>) = win_word i fs" "win_word i (fs \<lparr> database := a \<rparr>) = win_word i fs"
  "bpb_tsect (fs \<lparr> fsize := a \<rparr>) = bpb_tsect fs" "bpb_tsect (fs \<lparr> n_fats := nf \<rparr>) = bpb_tsect fs"
  "bpb_tsect (fs \<lparr> csize := cs \<rparr>) = bpb_tsect fs" "bpb_tsect (fs \<lparr> n_rootdir := rd \<rparr>) = bpb_tsect fs"
  by (simp_all add: win_word_def win_dword_def bpb_tsect_def Let_def)



definition layout_ok :: "fatfs \<Rightarrow> bool" where
  "layout_ok fs \<longleftrightarrow> volume_ok fs \<and> csize fs \<noteq> 0 \<and> csize fs AND (csize fs - 1) = 0 \<and> csize fs \<le> 0xFF \<and> 3 \<le> n_fatent fs
     \<and> unat (volbase fs) < unat (fatbase fs)
     \<and> unat (database fs) = unat (fatbase fs) + unat (n_fats fs) * unat (fsize fs) + unat (n_rootdir fs) div 16
     \<and> unat (database fs) + unat (csize fs) * unat (n_fatent fs - 2) < 2 ^ 32
     \<and> (if fs_type fs = FS_FAT32 then n_rootdir fs = 0
        else n_rootdir fs \<noteq> 0 \<and> unat (n_rootdir fs) mod 16 = 0
          \<and> unat (dirbase fs) = unat (fatbase fs) + unat (n_fats fs) * unat (fsize fs))"






lemma layout_ok_counters:
  "layout_ok (fs \<lparr> last_clst := l, free_clst := n, fsi_flag := g, mount_id := i, cdir := d \<rparr>) = layout_ok fs"
  by (simp add: layout_ok_def volume_ok_def table_size_def Let_def)






section \<open>The registered volume\<close>




section \<open>Finding the volume\<close>

definition fat_boot :: "u8 list \<Rightarrow> bool" where
  "fat_boot sec \<longleftrightarrow> sec ! 0 \<in> {0xEB, 0xE9, 0xE8}
     \<and> (ld_word (drop 510 sec) = 0xAA55 \<and> take 8 (drop 82 sec) = str ''FAT32   ''
        \<or> ld_word (drop 11 sec) = 512 \<and> sec ! 13 \<noteq> 0 \<and> sec ! 13 AND (sec ! 13 - 1) = 0 \<and> ld_word (drop 14 sec) \<noteq> 0
          \<and> sec ! 16 \<in> {1, 2} \<and> ld_word (drop 17 sec) \<noteq> 0
          \<and> (128 \<le> ld_word (drop 19 sec) \<or> 0x10000 \<le> ld_dword (drop 32 sec)) \<and> ld_word (drop 22 sec) \<noteq> 0)"

definition boot_kind :: "u8 list \<Rightarrow> u32" where
  "boot_kind sec = (if fat_boot sec then 0 else if ld_word (drop 510 sec) = 0xAA55 then 2 else 3)"

lemma one_or_two: "ucast x - 1 \<le> (1 :: u32) \<longleftrightarrow> x \<in> {1, 2}" for x :: u8
proof (cases "x = 0")
  case True
  then show ?thesis by (simp add: word_le_nat_alt unat_minus_1)
next
  case False
  then have "1 \<le> (ucast x :: u32)" "0 < unat x" by (simp_all add: word_le_nat_alt unsigned_ucast_eq unat_gt_0 Suc_le_eq)
  then have "unat (ucast x - 1 :: u32) = unat x - 1" by (simp add: unat_sub unsigned_ucast_eq)
  then show ?thesis using \<open>0 < unat x\<close> by (auto simp: word_le_nat_alt word_unat_eq_iff [of x])
qed

definition partitions :: "(u32 \<Rightarrow> u8 list) \<Rightarrow> u32 list" where
  "partitions c = map (\<lambda>i. ld_dword (drop (446 + i * 16 + 8) (c 0))) [0..<4]"

definition volume_starts :: "(u32 \<Rightarrow> u8 list) \<Rightarrow> u32 list" where
  "volume_starts c = (if boot_kind (c 0) = 2 then filter (\<lambda>x. x \<noteq> 0) (partitions c) else [0])"

context block_disk
begin

lemma check_fs_wp:
  assumes "stores c s" "length (win fs) = 512" "pdrv fs = 0" "x \<noteq> - 1"
  shows "returns (check_fs b st x fs s) (\<lambda>(k, fs', t). k = boot_kind (c x) \<and> winsect fs' = x \<and> win fs' = c x
    \<and> wflag fs' = 0 \<and> pdrv fs' = 0 \<and> stores c t)"
proof -
  obtain t where t: "disk_read b st 0 (win fs) x 1 s = Some (RES_OK, c x, t)" "stores c t"
    using reads [OF assms(1,2), of x] by (auto simp: returns_ex)
  have sizes: "w \<ge> 512 \<and> w \<le> 512 \<longleftrightarrow> w = (512 :: u16)" for w by auto
  have w: "(w AND (w - 1) = 0 \<and> w \<ge> 512 \<and> w \<le> 512 \<and> P) = (w = (512 :: u16) \<and> P)" for w P
    using sizes [of w] by auto
  show ?thesis
    using assms t
    by (auto simp: check_fs_def move_window_def sync_window_def Let_def win_word_def win_dword_def w one_or_two boot_kind_def fat_boot_def)
qed

lemma partition_scan_wp:
  assumes "stores c s" "length (win fs) = 512" "pdrv fs = 0" "ps \<noteq> []" "- 1 \<notin> set ps"
  shows "returns (partition_scan b st 0 ps fs s) (\<lambda>(k, fs', t). stores c t \<and> pdrv fs' = 0 \<and> length (win fs') = 512 \<and>
    (case filter (\<lambda>x. x \<noteq> 0 \<and> fat_boot (c x)) ps of [] \<Rightarrow> k \<in> {2, 3}
     | x # _ \<Rightarrow> k = 0 \<and> winsect fs' = x \<and> win fs' = c x \<and> wflag fs' = 0))"
  using assms
proof (induction ps arbitrary: fs s)
  case (Cons p ps)
  show ?case
  proof (cases "p = 0")
    case True
    show ?thesis
    proof (cases "ps = []")
      case True
      then show ?thesis using Cons.prems \<open>p = 0\<close> by simp
    next
      case False
      with Cons.IH [of s fs] Cons.prems True show ?thesis by simp
    qed
  next
    case False
    obtain fs' t where c: "check_fs b st p fs s = Some (boot_kind (c p), fs', t)" "winsect fs' = p" "win fs' = c p" "wflag fs' = 0"
        "pdrv fs' = 0" "stores c t"
      using check_fs_wp [of c s fs p] Cons.prems by (auto simp: returns_ex)
    note len = sized [OF c(6), of p]
    show ?thesis
    proof (cases "fat_boot (c p)")
      case True
      then show ?thesis using c False len by (simp add: boot_kind_def)
    next
      case nb: False
      then have k: "boot_kind (c p) \<in> {2, 3}" by (simp add: boot_kind_def)
      show ?thesis
      proof (cases "ps = []")
        case True
        then show ?thesis using c False len nb k by auto
      next
        case more: False
        from Cons.IH [of t fs'] Cons.prems c len more nb k False show ?thesis by (auto simp: case_prod_unfold)
      qed
    qed
  qed
qed simp

lemma find_volume_wp:
  assumes "stores c s" "length (win fs) = 512" "pdrv fs = 0" "- 1 \<notin> set (partitions c)"
  shows "returns (find_volume b st 0 fs s) (\<lambda>(k, fs', t). stores c t \<and> pdrv fs' = 0 \<and> length (win fs') = 512 \<and>
    (case filter (\<lambda>x. fat_boot (c x)) (volume_starts c) of [] \<Rightarrow> k \<in> {2, 3}
     | x # _ \<Rightarrow> k = 0 \<and> winsect fs' = x \<and> win fs' = c x \<and> wflag fs' = 0))"
proof -
  obtain fs' t where c: "check_fs b st 0 fs s = Some (boot_kind (c 0), fs', t)" "winsect fs' = 0" "win fs' = c 0" "wflag fs' = 0"
      "pdrv fs' = 0" "stores c t"
    using check_fs_wp [OF assms(1-3), of 0] by (auto simp: returns_ex)
  note len = sized [OF c(6), of 0]
  show ?thesis
  proof (cases "boot_kind (c 0) = 2")
    case False
    then show ?thesis using c len by (auto simp: find_volume_def volume_starts_def boot_kind_def split: if_splits)
  next
    case True
    have pt: "map (\<lambda>i. win_dword (446 + i * 16 + 8) fs') [0..<4] = partitions c" "partitions c \<noteq> []"
      using c(3) by (simp_all add: partitions_def win_dword_def)
    have "find_volume b st 0 fs s = partition_scan b st 0 (partitions c) fs' t"
      using c(1) True by (simp add: find_volume_def Let_def pt(1) [simplified])
    then show ?thesis
      using partition_scan_wp [OF c(6) _ c(5) pt(2) assms(4)] c(3) len True by (simp add: volume_starts_def conj_commute)
  qed
qed
end

section \<open>Properties\<close>




text \<open>C16. \<^verbatim>\<open>find_volume\<close> returns, and it finds the first FAT volume: sector 0 if it is the boot sector of one, and otherwise,
  if it is a partition table, the first partition that starts with one. The window then holds that boot
  sector. With none it reports that there is no volume. The sectors of the card stay as they are.\<close>

theorem find_volume_first:
  assumes "card_disk st f a c s" "length (win fs) = 512" "pdrv fs = 0" "- 1 \<notin> set (partitions c)"
  shows "returns (find_volume soc_bus st 0 fs s) (\<lambda>(k, fs', t). card_disk st f a c t \<and>
    (case filter (\<lambda>x. fat_boot (c x)) (volume_starts c) of [] \<Rightarrow> k \<in> {2, 3}
     | x # _ \<Rightarrow> k = 0 \<and> winsect fs' = x \<and> win fs' = c x \<and> wflag fs' = 0))"
  using fat_card.find_volume_wp [OF assms] by (auto elim!: returns_mono)

text \<open>A card with a partition that starts at sector 63.\<close>

definition mount_demo_sectors :: "u32 \<Rightarrow> u8 list" where
  "mount_demo_sectors x =
     (if x = 0 then (replicate 512 0)[454 := 63, 510 := 0x55, 511 := 0xAA]
      else if x = 63 then [0xEB, 0, 0, 0, 0, 0, 0, 0, 0, 0, 0, 0, 2, 1, 1, 0, 2, 16, 0, 0, 1, 0, 1, 0] @ replicate 488 0
      else replicate 512 0)"

theorem find_volume_first_witness:
  "\<exists>s fs' t. find_volume soc_bus fat_demo_driver 0 fat_demo_volume s = Some (0, fs', t) \<and> winsect fs' = 63"
proof -
  let ?s = "(demo_soc [] (card_slave 512 (holding 512 mount_demo_sectors)) count_slave) \<lparr> io := \<lambda>_. CS_PIN \<rparr>"
  have d: "card_disk fat_demo_driver mount_demo_sectors (sd_aside ?s) mount_demo_sectors ?s"
    by (simp add: card_disk_def fat_demo_driver_def bit_CS_PIN card_sector_def holding_def fun_eq_iff mount_demo_sectors_def)
  have p: "partitions mount_demo_sectors = [63, 0, 0, 0]"
    by (simp add: partitions_def mount_demo_sectors_def ld_dword_def upt_rec)
  have k: "boot_kind (mount_demo_sectors 0) = 2"
    by (simp add: boot_kind_def fat_boot_def mount_demo_sectors_def ld_word_def)
  have "ld_word (drop n (mount_demo_sectors 63)) = v" if "(n, v) \<in> {(11, 512), (14, 1), (17, 16), (19, 256), (22, 1)}" for n v
    using that by (auto simp: mount_demo_sectors_def ld_word_def)
  then have b: "fat_boot (mount_demo_sectors 63)"
    by (simp add: fat_boot_def) (simp add: mount_demo_sectors_def)
  have "length (win fat_demo_volume) = 512" "pdrv fat_demo_volume = 0" by (simp_all add: fat_demo_volume_def)
  from find_volume_first [OF d this] p k b show ?thesis
    by (auto simp: volume_starts_def returns_ex)
qed

section \<open>A volume that should be rejected\<close>
text \<open>A boot sector whose table size overflows the sum that the code checks.\<close>

definition overflow_boot :: "u8 list" where
  "overflow_boot = st_dword 44 2 (st_dword 36 0x80000001 (st_dword 32 0x20000 (st_word 14 1
     ((replicate 512 0)[11 := 0, 12 := 2, 13 := 1, 16 := 2, 0 := 0xEB]))))"

lemma overflow_accepted:
  "case read_bpb 0 (fat_demo_volume \<lparr> win := overflow_boot \<rparr>) of (r, fmt, fs) \<Rightarrow>
     r = FR_OK \<and> fmt = FS_FAT32 \<and> fatbase fs = 1 \<and> fsize fs = 0x80000001 \<and> database fs = 3"
  by code_simp
end
