(* ===== verification/Unicode.thy ===== *)
theory Unicode
  imports Prelude
begin

text \<open>
  The characters of file names in FatFs, \<^verbatim>\<open>sw/fatfs/ffunicode.c\<close> and the two string functions of \<^verbatim>\<open>sw/fatfs/ff.c\<close>, as
  configured: code page 437, names in UTF-8 at the interface, in UTF-16 inside. A character that needs a surrogate
  pair is a double word, the high surrogate in its upper half.
\<close>

section \<open>Code page 437\<close>

definition CODEPAGE :: u16 where "CODEPAGE = 437"

definition uc437 :: "u16 list" where
  "uc437 =
    [0xC7, 0xFC, 0xE9, 0xE2, 0xE4, 0xE0, 0xE5, 0xE7, 0xEA, 0xEB, 0xE8, 0xEF, 0xEE, 0xEC, 0xC4, 0xC5,
     0xC9, 0xE6, 0xC6, 0xF4, 0xF6, 0xF2, 0xFB, 0xF9, 0xFF, 0xD6, 0xDC, 0xA2, 0xA3, 0xA5, 0x20A7, 0x192,
     0xE1, 0xED, 0xF3, 0xFA, 0xF1, 0xD1, 0xAA, 0xBA, 0xBF, 0x2310, 0xAC, 0xBD, 0xBC, 0xA1, 0xAB, 0xBB,
     0x2591, 0x2592, 0x2593, 0x2502, 0x2524, 0x2561, 0x2562, 0x2556, 0x2555, 0x2563, 0x2551, 0x2557, 0x255D, 0x255C, 0x255B, 0x2510,
     0x2514, 0x2534, 0x252C, 0x251C, 0x2500, 0x253C, 0x255E, 0x255F, 0x255A, 0x2554, 0x2569, 0x2566, 0x2560, 0x2550, 0x256C, 0x2567,
     0x2568, 0x2564, 0x2565, 0x2559, 0x2558, 0x2552, 0x2553, 0x256B, 0x256A, 0x2518, 0x250C, 0x2588, 0x2584, 0x258C, 0x2590, 0x2580,
     0x3B1, 0xDF, 0x393, 0x3C0, 0x3A3, 0x3C3, 0xB5, 0x3C4, 0x3A6, 0x398, 0x3A9, 0x3B4, 0x221E, 0x3C6, 0x3B5, 0x2229,
     0x2261, 0xB1, 0x2265, 0x2264, 0x2320, 0x2321, 0xF7, 0x2248, 0xB0, 0x2219, 0xB7, 0x221A, 0x207F, 0xB2, 0x25A0, 0xA0]"

text \<open>\<^verbatim>\<open>for (c = 0; c < 0x80 && uni != p[c]; c++)\<close>: the index where the search stops.\<close>

fun table_index :: "u32 \<Rightarrow> u16 list \<Rightarrow> nat" where
  "table_index uni [] = 0"
| "table_index uni (x # p) = (if uni \<noteq> ucast x then Suc (table_index uni p) else 0)"

definition ff_uni2oem :: "u32 \<Rightarrow> u16 \<Rightarrow> u16" where
  "ff_uni2oem uni cp =
     (if uni < 0x80 then ucast uni
      else if uni < 0x10000 \<and> cp = CODEPAGE then (of_nat (table_index uni uc437) + 0x80) AND 0xFF
      else 0)"

definition ff_oem2uni :: "u16 \<Rightarrow> u16 \<Rightarrow> u16" where
  "ff_oem2uni oem cp =
     (if oem < 0x80 then oem
      else if cp = CODEPAGE \<and> oem < 0x100 then uc437 ! unat (oem - 0x80)
      else 0)"

section \<open>Upper case\<close>

text \<open>Blocks of a base, a command with a size, and for command 0 the converted characters; a base of 0 ends the table.\<close>

definition cvt1 :: "u16 list" where
  "cvt1 =
    [0x61, 0x31A, 0xE0, 0x317, 0xF8, 0x307, 0xFF, 0x1, 0x178, 0x100, 0x130, 0x132, 0x106, 0x139, 0x110, 0x14A,
     0x12E, 0x179, 0x106, 0x180, 0x4D, 0x243, 0x181, 0x182, 0x182, 0x184, 0x184, 0x186, 0x187, 0x187, 0x189, 0x18A,
     0x18B, 0x18B, 0x18D, 0x18E, 0x18F, 0x190, 0x191, 0x191, 0x193, 0x194, 0x1F6, 0x196, 0x197, 0x198, 0x198, 0x23D,
     0x19B, 0x19C, 0x19D, 0x220, 0x19F, 0x1A0, 0x1A0, 0x1A2, 0x1A2, 0x1A4, 0x1A4, 0x1A6, 0x1A7, 0x1A7, 0x1A9, 0x1AA,
     0x1AB, 0x1AC, 0x1AC, 0x1AE, 0x1AF, 0x1AF, 0x1B1, 0x1B2, 0x1B3, 0x1B3, 0x1B5, 0x1B5, 0x1B7, 0x1B8, 0x1B8, 0x1BA,
     0x1BB, 0x1BC, 0x1BC, 0x1BE, 0x1F7, 0x1C0, 0x1C1, 0x1C2, 0x1C3, 0x1C4, 0x1C5, 0x1C4, 0x1C7, 0x1C8, 0x1C7, 0x1CA,
     0x1CB, 0x1CA, 0x1CD, 0x110, 0x1DD, 0x1, 0x18E, 0x1DE, 0x112, 0x1F3, 0x3, 0x1F1, 0x1F4, 0x1F4, 0x1F8, 0x128,
     0x222, 0x112, 0x23A, 0x9, 0x2C65, 0x23B, 0x23B, 0x23D, 0x2C66, 0x23F, 0x240, 0x241, 0x241, 0x246, 0x10A, 0x253,
     0x40, 0x181, 0x186, 0x255, 0x189, 0x18A, 0x258, 0x18F, 0x25A, 0x190, 0x25C, 0x25D, 0x25E, 0x25F, 0x193, 0x261,
     0x262, 0x194, 0x264, 0x265, 0x266, 0x267, 0x197, 0x196, 0x26A, 0x2C62, 0x26C, 0x26D, 0x26E, 0x19C, 0x270, 0x271,
     0x19D, 0x273, 0x274, 0x19F, 0x276, 0x277, 0x278, 0x279, 0x27A, 0x27B, 0x27C, 0x2C64, 0x27E, 0x27F, 0x1A6, 0x281,
     0x282, 0x1A9, 0x284, 0x285, 0x286, 0x287, 0x1AE, 0x244, 0x1B1, 0x1B2, 0x245, 0x28D, 0x28E, 0x28F, 0x290, 0x291,
     0x1B7, 0x37B, 0x3, 0x3FD, 0x3FE, 0x3FF, 0x3AC, 0x4, 0x386, 0x388, 0x389, 0x38A, 0x3B1, 0x311, 0x3C2, 0x2,
     0x3A3, 0x3A3, 0x3C4, 0x308, 0x3CC, 0x3, 0x38C, 0x38E, 0x38F, 0x3D8, 0x118, 0x3F2, 0xA, 0x3F9, 0x3F3, 0x3F4,
     0x3F5, 0x3F6, 0x3F7, 0x3F7, 0x3F9, 0x3FA, 0x3FA, 0x430, 0x320, 0x450, 0x710, 0x460, 0x122, 0x48A, 0x136, 0x4C1,
     0x10E, 0x4CF, 0x1, 0x4C0, 0x4D0, 0x144, 0x561, 0x426, 0x0]"

definition cvt2 :: "u16 list" where
  "cvt2 =
    [0x1D7D, 0x1, 0x2C63, 0x1E00, 0x196, 0x1EA0, 0x15A, 0x1F00, 0x608, 0x1F10, 0x606, 0x1F20, 0x608, 0x1F30, 0x608, 0x1F40,
     0x606, 0x1F51, 0x7, 0x1F59, 0x1F52, 0x1F5B, 0x1F54, 0x1F5D, 0x1F56, 0x1F5F, 0x1F60, 0x608, 0x1F70, 0xE, 0x1FBA, 0x1FBB,
     0x1FC8, 0x1FC9, 0x1FCA, 0x1FCB, 0x1FDA, 0x1FDB, 0x1FF8, 0x1FF9, 0x1FEA, 0x1FEB, 0x1FFA, 0x1FFB, 0x1F80, 0x608, 0x1F90, 0x608,
     0x1FA0, 0x608, 0x1FB0, 0x4, 0x1FB8, 0x1FB9, 0x1FB2, 0x1FBC, 0x1FCC, 0x1, 0x1FC3, 0x1FD0, 0x602, 0x1FE0, 0x602, 0x1FE5,
     0x1, 0x1FEC, 0x1FF3, 0x1, 0x1FFC, 0x214E, 0x1, 0x2132, 0x2170, 0x210, 0x2184, 0x1, 0x2183, 0x24D0, 0x51A, 0x2C30,
     0x42F, 0x2C60, 0x102, 0x2C67, 0x106, 0x2C75, 0x102, 0x2C80, 0x164, 0x2D00, 0x826, 0xFF41, 0x31A, 0x0]"

text \<open>The command of a block; \<open>p\<close> is the table behind the size.\<close>

definition cvt_command :: "u16 \<Rightarrow> u16 list \<Rightarrow> u16 \<Rightarrow> u16 \<Rightarrow> u16 option" where
  "cvt_command cmd p bc uc =
     (if cmd = 0 then (if unat uc - unat bc < length p then Some (p ! (unat uc - unat bc)) else None)
      else if cmd = 1 then Some (uc - ((uc - bc) AND 1))
      else if cmd = 2 then Some (uc - 16)
      else if cmd = 3 then Some (uc - 32)
      else if cmd = 4 then Some (uc - 48)
      else if cmd = 5 then Some (uc - 26)
      else if cmd = 6 then Some (uc + 8)
      else if cmd = 7 then Some (uc - 80)
      else if cmd = 8 then Some (uc - 0x1C60)
      else Some uc)"

text \<open>The loop over the blocks; a read behind the table has no result.\<close>

fun cvt_scan :: "u16 list \<Rightarrow> u16 \<Rightarrow> u16 option" where
  "cvt_scan [] uc = None"
| "cvt_scan (bc # p) uc =
     (if bc = 0 \<or> uc < bc then Some uc
      else case p of
        [] \<Rightarrow> None
      | nc # p \<Rightarrow>
          let cmd = drop_bit 8 nc; nc = nc AND 0xFF in
          if unat uc < unat bc + unat nc then cvt_command cmd p bc uc
          else cvt_scan (if cmd = 0 then drop (unat nc) p else p) uc)"

definition ff_wtoupper :: "u32 \<Rightarrow> u32 option" where
  "ff_wtoupper uni =
     (if uni < 0x10000 then
        let uc = ucast uni in map_option ucast (cvt_scan (if uc < 0x1000 then cvt1 else cvt2) uc)
      else Some uni)"

section \<open>UTF-8\<close>

definition IsSurrogate :: "u32 \<Rightarrow> bool" where "IsSurrogate c \<longleftrightarrow> c \<ge> 0xD800 \<and> c \<le> 0xDFFF"
definition IsSurrogateH :: "u32 \<Rightarrow> bool" where "IsSurrogateH c \<longleftrightarrow> c \<ge> 0xD800 \<and> c \<le> 0xDBFF"
definition IsSurrogateL :: "u32 \<Rightarrow> bool" where "IsSurrogateL c \<longleftrightarrow> c \<ge> 0xDC00 \<and> c \<le> 0xDFFF"

text \<open>The trailing bytes, \<open>nf\<close> of them left: \<open>Inl\<close> is a wrong sequence. The string is the array from the pointer on.\<close>

fun utf8_trail :: "nat \<Rightarrow> u32 \<Rightarrow> u8 list \<Rightarrow> (unit + u32 \<times> u8 list) option" where
  "utf8_trail 0 uc p = Some (Inr (uc, p))"
| "utf8_trail (Suc nf) uc [] = None"
| "utf8_trail (Suc nf) uc (b # p) =
     (if b AND 0xC0 \<noteq> 0x80 then Some (Inl ())
      else utf8_trail nf (push_bit 6 uc OR ucast (b AND 0x3F)) p)"

definition utf8_lead :: "u32 \<Rightarrow> (u32 \<times> nat) option" where
  "utf8_lead uc =
     (if uc AND 0xE0 = 0xC0 then Some (uc AND 0x1F, 1)
      else if uc AND 0xF0 = 0xE0 then Some (uc AND 0x0F, 2)
      else if uc AND 0xF8 = 0xF0 then Some (uc AND 0x07, 3)
      else None)"

text \<open>On an error the pointer of the caller stays where it was.\<close>

definition tchar2uni :: "u8 list \<Rightarrow> (u32 \<times> u8 list) option" where
  "tchar2uni s =
     (case s of
        [] \<Rightarrow> None
      | c # p \<Rightarrow>
          let uc = ucast c in
          if uc AND 0x80 \<noteq> 0 then
            case utf8_lead uc of
              None \<Rightarrow> Some (0xFFFFFFFF, s)
            | Some (uc, nf) \<Rightarrow>
                do { t \<leftarrow> utf8_trail nf uc p;
                     Some (case t of
                       Inl _ \<Rightarrow> (0xFFFFFFFF, s)
                     | Inr (uc, p) \<Rightarrow>
                         if uc < 0x80 \<or> IsSurrogate uc \<or> uc \<ge> 0x110000 then (0xFFFFFFFF, s)
                         else if uc \<ge> 0x010000 then
                           (0xD800DC00 OR (push_bit 6 (uc - 0x10000) AND 0x3FF0000) OR (uc AND 0x3FF), p)
                         else (uc, p)) }
          else Some (uc, p))"

text \<open>The bytes that are stored; their number is the value of the function.\<close>

definition put_utf :: "u32 \<Rightarrow> u32 \<Rightarrow> u8 list" where
  "put_utf chr szb =
     (if chr < 0x80 then
        if szb < 1 then [] else [ucast chr]
      else if chr < 0x800 then
        if szb < 2 then []
        else [ucast (0xC0 OR (drop_bit 6 chr AND 0x1F)), ucast (0x80 OR (chr AND 0x3F))]
      else if chr < 0x10000 then
        if szb < 3 \<or> IsSurrogate chr then []
        else [ucast (0xE0 OR (drop_bit 12 chr AND 0x0F)), ucast (0x80 OR (drop_bit 6 chr AND 0x3F)),
              ucast (0x80 OR (chr AND 0x3F))]
      else if szb < 4 then []
      else
        let hc = drop_bit 6 ((chr AND 0xFFFF0000) - 0xD8000000); chr = (chr AND 0xFFFF) - 0xDC00 in
        if hc \<ge> 0x100000 \<or> chr \<ge> 0x400 then []
        else
          let chr = (hc OR chr) + 0x10000 in
          [ucast (0xF0 OR (drop_bit 18 chr AND 0x07)), ucast (0x80 OR (drop_bit 12 chr AND 0x3F)),
           ucast (0x80 OR (drop_bit 6 chr AND 0x3F)), ucast (0x80 OR (chr AND 0x3F))])"

end
