(* ===== verification/Unilaws.thy ===== *)
theory Unilaws
  imports Unicode
begin

text \<open>
  Laws of the character functions of FatFs: the code page and its inverse, the upper-case conversion, and the round
  trip between UTF-16 characters and their UTF-8 bytes.
\<close>

section \<open>Code page 437\<close>

lemma wide_inj: "ucast a = (ucast b :: u32) \<longleftrightarrow> a = b" for a b :: u16
  by (simp add: word_unat_eq_iff unsigned_ucast_eq)

lemma table_index: "distinct p \<Longrightarrow> i < length p \<Longrightarrow> table_index (ucast (p ! i)) p = i"
proof (induction p arbitrary: i)
  case (Cons x p)
  then show ?case by (cases i) (auto simp: wide_inj)
qed simp

lemma uc437_facts:
  "distinct uc437" "length uc437 = 128" "list_all (\<lambda>x. 0x80 \<le> x) uc437"
  by code_simp+

section \<open>Upper case\<close>

fun cvt_ok :: "u16 list \<Rightarrow> bool" where
  "cvt_ok [] = False"
| "cvt_ok (bc # p) = (bc = 0 \<or> (case p of [] \<Rightarrow> False | nc # p \<Rightarrow>
     if drop_bit 8 nc = 0 then unat (nc AND 0xFF) \<le> length p \<and> cvt_ok (drop (unat (nc AND 0xFF)) p) else cvt_ok p))"

lemma cvt_tables: "cvt_ok cvt1" "cvt_ok cvt2"
  by code_simp+

lemma cvt_command_returns:
  assumes "unat uc < unat bc + n" "\<not> uc < bc" "cmd = 0 \<longrightarrow> n \<le> length p"
  shows "\<exists>r. cvt_command cmd p bc uc = Some r"
  using assms by (auto simp: cvt_command_def not_less word_le_nat_alt)

lemma cvt_scan_returns: "cvt_ok p \<Longrightarrow> \<exists>r. cvt_scan p uc = Some r"
proof (induction p uc rule: cvt_scan.induct)
  case (2 bc p uc)
  show ?case
  proof (cases "bc = 0 \<or> uc < bc")
    case False
    with "2.prems" obtain nc q where p: "p = nc # q" by (cases p) auto
    show ?thesis
    proof (cases "unat uc < unat bc + unat (nc AND 0xFF)")
      case True
      have "drop_bit 8 nc = 0 \<longrightarrow> unat (nc AND 0xFF) \<le> length q" using "2.prems" False p by simp
      from cvt_command_returns [OF True _ this] False p True show ?thesis by (simp add: Let_def)
    next
      case further: False
      have ok: "cvt_ok (if drop_bit 8 nc = 0 then drop (unat (nc AND 0xFF)) q else q)"
        using "2.prems" False p by (auto split: if_splits)
      from "2.IH" [OF False p refl refl further ok] show ?thesis
        using False further p by (simp add: Let_def)
    qed
  qed auto
qed simp

text \<open>Code page 437 is invertible: every OEM character, taken to Unicode by \<^verbatim>\<open>ff_oem2uni\<close> and back by
  \<^verbatim>\<open>ff_uni2oem\<close>, is the character it was; so a short name read from the card and looked up again is the same name.\<close>

theorem oem_round_trip:
  assumes "c < 0x100"
  shows "ff_uni2oem (ucast (ff_oem2uni c CODEPAGE)) CODEPAGE = c"
proof (cases "c < 0x80")
  case True
  moreover have "(ucast c :: u32) < 0x80" using True by (simp add: word_less_nat_alt unsigned_ucast_eq)
  moreover have "(ucast (ucast c :: u32) :: u16) = c"
    by (rule bit_word_eqI) (auto simp: bit_simps dest: bit_imp_le_length)
  ultimately show ?thesis by (simp add: ff_uni2oem_def ff_oem2uni_def)
next
  case False
  define i where "i = unat (c - 0x80)"
  have i: "i < 128" "c = of_nat i + 0x80" using assms False by (auto simp: i_def word_less_nat_alt unat_sub word_le_nat_alt)
  have o: "ff_oem2uni c CODEPAGE = uc437 ! i" using assms False by (simp add: ff_oem2uni_def i_def)
  have "0x80 \<le> uc437 ! i" using uc437_facts i by (simp add: list_all_length)
  then have w: "\<not> (ucast (uc437 ! i) :: u32) < 0x80" "(ucast (uc437 ! i) :: u32) < 0x10000"
    using unsigned_less [of "uc437 ! i"] by (auto simp: word_less_nat_alt word_le_nat_alt unsigned_ucast_eq)
  have "c AND 0xFF = c"
  proof -
    have "c AND 0xFF = take_bit 8 c" by (rule bit_word_eqI) (auto simp: bit_simps bit_numeral_rec bit_1_iff split: nat.splits)
    then show ?thesis using assms by (simp add: word_unat_eq_iff unsigned_take_bit_eq take_bit_nat_eq_self word_less_nat_alt)
  qed
  then have "(of_nat i + 0x80) AND 0xFF = (of_nat i + 0x80 :: u16)" by (simp only: i(2) [symmetric])
  then have "(of_nat i + 0x80) AND 0xFF = c" by (simp only: i(2))
  with w i(1) show ?thesis
    by (simp add: o ff_uni2oem_def table_index uc437_facts)
qed

theorem oem_round_trip_witness: "ff_oem2uni 0xE1 CODEPAGE = 0xDF \<and> ff_uni2oem 0xDF CODEPAGE = 0xE1"
proof -
  have "ff_oem2uni 0xE1 CODEPAGE = 0xDF" by code_simp
  with oem_round_trip [where c = "0xE1"] show ?thesis by simp
qed

lemma ascii_upper:
  "list_all (\<lambda>n. ff_wtoupper (of_nat n) =
      Some (if 0x61 \<le> (of_nat n :: u32) \<and> (of_nat n :: u32) \<le> 0x7A then of_nat n - 0x20 else of_nat n)) [0..<128]"
  by code_simp

text \<open>C18. \<^verbatim>\<open>ff_wtoupper\<close> comes to an end for every code: the scan of its two compressed tables never runs behind them.
  On ASCII it takes exactly the small letters to the capital ones.\<close>

theorem ff_wtoupper_total:
  "\<exists>r. ff_wtoupper uni = Some r \<and> (uni < 0x80 \<longrightarrow> r = (if 0x61 \<le> uni \<and> uni \<le> 0x7A then uni - 0x20 else uni))"
proof -
  have "\<exists>r. ff_wtoupper uni = Some r"
    using cvt_scan_returns [OF cvt_tables(1)] cvt_scan_returns [OF cvt_tables(2)]
    by (simp add: ff_wtoupper_def Let_def split: if_splits)
  moreover have "ff_wtoupper uni = Some (if 0x61 \<le> uni \<and> uni \<le> 0x7A then uni - 0x20 else uni)" if "uni < 0x80"
  proof -
    have "unat uni \<in> set [0..<128]" "of_nat (unat uni) = uni" using that by (simp_all add: word_less_nat_alt)
    with ascii_upper show ?thesis unfolding list_all_iff by metis
  qed
  ultimately show ?thesis by auto
qed

theorem ff_wtoupper_total_witness: "ff_wtoupper 0x61 = Some 0x41 \<and> ff_wtoupper 0x40 = Some 0x40"
  using ff_wtoupper_total [of "0x61"] ff_wtoupper_total [of "0x40"] by auto

section \<open>UTF-8\<close>

lemma utf8_bits:
  "bit (0x80 :: int) k \<longleftrightarrow> k = 7" "bit (0xC0 :: int) k \<longleftrightarrow> k = 6 \<or> k = 7" "bit (0xE0 :: int) k \<longleftrightarrow> k \<in> {5, 6, 7}"
  "bit (0xF0 :: int) k \<longleftrightarrow> k \<in> {4, 5, 6, 7}" "bit (0xF8 :: int) k \<longleftrightarrow> k \<in> {3, 4, 5, 6, 7}"
  "bit (0x1F :: int) k \<longleftrightarrow> k < 5" "bit (0x0F :: int) k \<longleftrightarrow> k < 4" "bit (0x07 :: int) k \<longleftrightarrow> k < 3" "bit (0x3F :: int) k \<longleftrightarrow> k < 6"
  by (auto simp: bit_numeral_rec bit_1_iff split: nat.splits)

lemma less_bits: "unat x < 2 ^ n \<Longrightarrow> bit x k \<Longrightarrow> k < n" for x :: u32
proof -
  assume "unat x < 2 ^ n" "bit x k"
  then have "take_bit n x = x" by (simp add: word_unat_eq_iff unsigned_take_bit_eq take_bit_nat_eq_self)
  with \<open>bit x k\<close> show "k < n" by (metis bit_take_bit_iff)
qed

lemma low_masks: "bit (0x3F :: u32) k \<longleftrightarrow> k < 6" "bit (0x1F :: u32) k \<longleftrightarrow> k < 5" "bit (0x0F :: u32) k \<longleftrightarrow> k < 4" "bit (0x07 :: u32) k \<longleftrightarrow> k < 3"
  by (auto simp: bit_simps utf8_bits)

lemma joined_masks:
  fixes x m l :: u32
  assumes m: "\<And>k. bit m k \<longleftrightarrow> k < 6" and l: "\<And>k. bit l k \<longleftrightarrow> k < j"
  shows "unat x < 2 ^ (6 + j) \<Longrightarrow> push_bit 6 (drop_bit 6 x AND l) OR (x AND m) = x"
    "unat x < 2 ^ (12 + j) \<Longrightarrow> push_bit 6 (push_bit 6 (drop_bit 12 x AND l) OR (drop_bit 6 x AND m)) OR (x AND m) = x"
    "unat x < 2 ^ (18 + j) \<Longrightarrow> push_bit 6 (push_bit 6 (push_bit 6 (drop_bit 18 x AND l) OR (drop_bit 12 x AND m))
      OR (drop_bit 6 x AND m)) OR (x AND m) = x"
proof -
  show "push_bit 6 (drop_bit 6 x AND l) OR (x AND m) = x" if "unat x < 2 ^ (6 + j)"
    using less_bits [OF that] by (intro bit_word_eqI) (auto simp: bit_simps m l le_diff_conv add.commute not_less less_diff_conv2)
  show "push_bit 6 (push_bit 6 (drop_bit 12 x AND l) OR (drop_bit 6 x AND m)) OR (x AND m) = x" if "unat x < 2 ^ (12 + j)"
  proof (rule bit_word_eqI)
    fix n assume "n < LENGTH(32)"
    with less_bits [OF that, of n]
    show "bit (push_bit 6 (push_bit 6 (drop_bit 12 x AND l) OR (drop_bit 6 x AND m)) OR (x AND m)) n = bit x n"
      by (cases "n < 6"; cases "n < 12"; auto simp: bit_simps m l)
  qed
  show "push_bit 6 (push_bit 6 (push_bit 6 (drop_bit 18 x AND l) OR (drop_bit 12 x AND m))
      OR (drop_bit 6 x AND m)) OR (x AND m) = x" if "unat x < 2 ^ (18 + j)"
  proof (rule bit_word_eqI)
    fix n assume "n < LENGTH(32)"
    with less_bits [OF that, of n]
    show "bit (push_bit 6 (push_bit 6 (push_bit 6 (drop_bit 18 x AND l) OR (drop_bit 12 x AND m))
        OR (drop_bit 6 x AND m)) OR (x AND m)) n = bit x n"
      by (cases "n < 6"; cases "n < 12"; cases "n < 18"; auto simp: bit_simps m l)
  qed
qed

lemma trail_byte:
  "(ucast (0x80 OR (x AND 0x3F)) :: u8) AND 0xC0 = 0x80"
  "ucast ((ucast (0x80 OR (x AND 0x3F)) :: u8) AND 0x3F) = x AND 0x3F" for x :: u32
  by (rule bit_word_eqI; auto simp: bit_simps utf8_bits)+

lemma utf8_trail_byte [simp]:
  "utf8_trail (Suc n) v (ucast (0x80 OR (x AND 0x3F)) # p) = utf8_trail n (push_bit 6 v OR (x AND 0x3F)) p"
  by (simp only: utf8_trail.simps trail_byte simp_thms if_False)

lemma lead_bytes:
  fixes x :: u32
  shows "utf8_lead (ucast (ucast (0xC0 OR (x AND 0x1F)) :: u8)) = Some (x AND 0x1F, 1)"
    "utf8_lead (ucast (ucast (0xE0 OR (x AND 0x0F)) :: u8)) = Some (x AND 0x0F, 2)"
    "utf8_lead (ucast (ucast (0xF0 OR (x AND 0x07)) :: u8)) = Some (x AND 0x07, 3)"
proof -
  have "(ucast (ucast (0xC0 OR (x AND 0x1F)) :: u8) AND 0xE0) = (0xC0 :: u32)"
    "(ucast (ucast (0xC0 OR (x AND 0x1F)) :: u8) AND 0x1F) = x AND 0x1F"
    by (rule bit_word_eqI; auto simp: bit_simps utf8_bits)+
  then show "utf8_lead (ucast (ucast (0xC0 OR (x AND 0x1F)) :: u8)) = Some (x AND 0x1F, 1)" by (simp add: utf8_lead_def)
  have "(ucast (ucast (0xE0 OR (x AND 0x0F)) :: u8) AND 0xE0) = (0xE0 :: u32)"
    "(ucast (ucast (0xE0 OR (x AND 0x0F)) :: u8) AND 0xF0) = (0xE0 :: u32)"
    "(ucast (ucast (0xE0 OR (x AND 0x0F)) :: u8) AND 0x0F) = x AND 0x0F"
    by (rule bit_word_eqI; auto simp: bit_simps utf8_bits)+
  then show "utf8_lead (ucast (ucast (0xE0 OR (x AND 0x0F)) :: u8)) = Some (x AND 0x0F, 2)" by (simp add: utf8_lead_def)
  have "(ucast (ucast (0xF0 OR (x AND 0x07)) :: u8) AND 0xE0) = (0xE0 :: u32)"
    "(ucast (ucast (0xF0 OR (x AND 0x07)) :: u8) AND 0xF0) = (0xF0 :: u32)"
    "(ucast (ucast (0xF0 OR (x AND 0x07)) :: u8) AND 0xF8) = (0xF0 :: u32)"
    "(ucast (ucast (0xF0 OR (x AND 0x07)) :: u8) AND 0x07) = x AND 0x07"
    by (rule bit_word_eqI; auto simp: bit_simps utf8_bits)+
  then show "utf8_lead (ucast (ucast (0xF0 OR (x AND 0x07)) :: u8)) = Some (x AND 0x07, 3)" by (simp add: utf8_lead_def)
qed

lemma lead_high:
  "ucast (ucast (0xC0 OR (x AND 0x1F)) :: u8) AND (0x80 :: u32) \<noteq> 0"
  "ucast (ucast (0xE0 OR (x AND 0x0F)) :: u8) AND (0x80 :: u32) \<noteq> 0"
  "ucast (ucast (0xF0 OR (x AND 0x07)) :: u8) AND (0x80 :: u32) \<noteq> 0" for x :: u32
proof -
  have top: "y \<noteq> 0" if "bit y 7" for y :: u32 using that by auto
  show "ucast (ucast (0xC0 OR (x AND 0x1F)) :: u8) AND (0x80 :: u32) \<noteq> 0"
    "ucast (ucast (0xE0 OR (x AND 0x0F)) :: u8) AND (0x80 :: u32) \<noteq> 0"
    "ucast (ucast (0xF0 OR (x AND 0x07)) :: u8) AND (0x80 :: u32) \<noteq> 0"
    by (rule top; simp add: bit_simps utf8_bits)+
qed

definition code_point :: "u32 \<Rightarrow> u8 list \<Rightarrow> u8 list \<Rightarrow> (u32 \<times> u8 list)" where
  "code_point uc s p =
    (if uc < 0x80 \<or> IsSurrogate uc \<or> uc \<ge> 0x110000 then (0xFFFFFFFF, s)
     else if uc \<ge> 0x010000 then
       (0xD800DC00 OR (push_bit 6 (uc - 0x10000) AND 0x3FF0000) OR (uc AND 0x3FF), p)
     else (uc, p))"

lemma tchar2uni_lead:
  assumes "ucast b AND (0x80 :: u32) \<noteq> 0" "utf8_lead (ucast b) = Some (v, n)" "utf8_trail n v p = Some (Inr (u, rest))"
  shows "tchar2uni (b # p) = Some (code_point u (b # p) rest)"
  using assms by (simp add: tchar2uni_def code_point_def Let_def)

lemma utf8_decode:
  "x < 0x800 \<Longrightarrow>
    tchar2uni (ucast (0xC0 OR (drop_bit 6 x AND 0x1F)) # ucast (0x80 OR (x AND 0x3F)) # rest)
    = Some (code_point x (ucast (0xC0 OR (drop_bit 6 x AND 0x1F)) # ucast (0x80 OR (x AND 0x3F)) # rest) rest)"
  "x < 0x10000 \<Longrightarrow>
    tchar2uni (ucast (0xE0 OR (drop_bit 12 x AND 0x0F)) # ucast (0x80 OR (drop_bit 6 x AND 0x3F))
      # ucast (0x80 OR (x AND 0x3F)) # rest)
    = Some (code_point x (ucast (0xE0 OR (drop_bit 12 x AND 0x0F)) # ucast (0x80 OR (drop_bit 6 x AND 0x3F))
      # ucast (0x80 OR (x AND 0x3F)) # rest) rest)"
  "x < 0x200000 \<Longrightarrow>
    tchar2uni (ucast (0xF0 OR (drop_bit 18 x AND 0x07)) # ucast (0x80 OR (drop_bit 12 x AND 0x3F))
      # ucast (0x80 OR (drop_bit 6 x AND 0x3F)) # ucast (0x80 OR (x AND 0x3F)) # rest)
    = Some (code_point x (ucast (0xF0 OR (drop_bit 18 x AND 0x07)) # ucast (0x80 OR (drop_bit 12 x AND 0x3F))
      # ucast (0x80 OR (drop_bit 6 x AND 0x3F)) # ucast (0x80 OR (x AND 0x3F)) # rest) rest)"
proof -
  note trail = utf8_trail.simps(1) utf8_trail_byte option.inject sum.inject prod.inject simp_thms
  have nums: "1 = Suc 0" "2 = Suc (Suc 0)" "3 = Suc (Suc (Suc 0))" by simp_all
  show "tchar2uni (ucast (0xC0 OR (drop_bit 6 x AND 0x1F)) # ucast (0x80 OR (x AND 0x3F)) # rest)
    = Some (code_point x (ucast (0xC0 OR (drop_bit 6 x AND 0x1F)) # ucast (0x80 OR (x AND 0x3F)) # rest) rest)" if "x < 0x800"
    by (rule tchar2uni_lead [OF lead_high(1) lead_bytes(1)])
      (use joined_masks(1) [of "0x3F" "0x1F" 5 x, OF low_masks(1,2)] that in \<open>simp only: nums trail, simp add: word_less_nat_alt\<close>)
  show "tchar2uni (ucast (0xE0 OR (drop_bit 12 x AND 0x0F)) # ucast (0x80 OR (drop_bit 6 x AND 0x3F))
      # ucast (0x80 OR (x AND 0x3F)) # rest)
    = Some (code_point x (ucast (0xE0 OR (drop_bit 12 x AND 0x0F)) # ucast (0x80 OR (drop_bit 6 x AND 0x3F))
      # ucast (0x80 OR (x AND 0x3F)) # rest) rest)" if "x < 0x10000"
    by (rule tchar2uni_lead [OF lead_high(2) lead_bytes(2)])
      (use joined_masks(2) [of "0x3F" "0x0F" 4 x, OF low_masks(1,3)] that in \<open>simp only: nums trail, simp add: word_less_nat_alt\<close>)
  show "tchar2uni (ucast (0xF0 OR (drop_bit 18 x AND 0x07)) # ucast (0x80 OR (drop_bit 12 x AND 0x3F))
      # ucast (0x80 OR (drop_bit 6 x AND 0x3F)) # ucast (0x80 OR (x AND 0x3F)) # rest)
    = Some (code_point x (ucast (0xF0 OR (drop_bit 18 x AND 0x07)) # ucast (0x80 OR (drop_bit 12 x AND 0x3F))
      # ucast (0x80 OR (drop_bit 6 x AND 0x3F)) # ucast (0x80 OR (x AND 0x3F)) # rest) rest)" if "x < 0x200000"
    by (rule tchar2uni_lead [OF lead_high(3) lead_bytes(3)])
      (use joined_masks(3) [of "0x3F" "0x07" 3 x, OF low_masks(1,4)] that in \<open>simp only: nums trail, simp add: word_less_nat_alt\<close>)
qed

lemma pair_bits:
  "bit (0xFFFF0000 :: int) k \<longleftrightarrow> 16 \<le> k \<and> k < 32"
  "bit (0xD800DC00 :: int) k \<longleftrightarrow> k \<in> {10,11,12,14,15,27,28,30,31}"
  "bit (0xD8000000 :: int) k \<longleftrightarrow> k \<in> {27,28,30,31}"
  "bit (0xDC00 :: int) k \<longleftrightarrow> k \<in> {10,11,12,14,15}"
  "bit (0xFFFF :: int) k \<longleftrightarrow> k < 16"
  "bit (0x3FF0000 :: int) k \<longleftrightarrow> 16 \<le> k \<and> k < 26"
  "bit (0x3FF :: int) k \<longleftrightarrow> k < 10"
  "bit (0x36 :: int) k \<longleftrightarrow> k \<in> {1,2,4,5}"
  "bit (0x37 :: int) k \<longleftrightarrow> k \<in> {0,1,2,4,5}"
  by (auto simp: bit_numeral_rec bit_1_iff split: nat.splits)

lemma surrogate_halves:
  fixes w :: u32
  shows "IsSurrogateH w \<Longrightarrow> drop_bit 10 w = 0x36" "IsSurrogateL w \<Longrightarrow> drop_bit 10 w = 0x37"
proof -
  have "unat (drop_bit 10 w) = unat w div 1024" by (simp add: drop_bit_eq_div unat_div)
  then show "IsSurrogateH w \<Longrightarrow> drop_bit 10 w = 0x36" "IsSurrogateL w \<Longrightarrow> drop_bit 10 w = 0x37"
    by (simp_all only: IsSurrogateH_def IsSurrogateL_def word_unat_eq_iff [of "drop_bit 10 w"] word_le_nat_alt) auto
qed

lemma pair_form:
  fixes c m k b :: u32
  assumes "drop_bit 10 (drop_bit 16 c) = 0x36" "drop_bit 10 (c AND k) = 0x37"
    and m: "\<And>i. bit m i \<longleftrightarrow> i < 10" and k: "\<And>i. bit k i \<longleftrightarrow> i < 16" and b: "\<And>i. bit b i \<longleftrightarrow> i \<in> {10,11,12,14,15,27,28,30,31}"
  shows "c = b OR push_bit 16 (drop_bit 16 c AND m) OR (c AND m)"
proof (rule bit_word_eqI)
  fix n assume "n < LENGTH(32)"
  have num: "bit (0x36 :: u32) i \<longleftrightarrow> i \<in> {1,2,4,5}" "bit (0x37 :: u32) i \<longleftrightarrow> i \<in> {0,1,2,4,5}" for i
    by (auto simp: bit_simps pair_bits)
  have half: "bit (drop_bit 10 (drop_bit 16 c)) i = bit (0x36 :: u32) i" "bit (drop_bit 10 (c AND k)) i = bit (0x37 :: u32) i" for i
    by (simp_all only: assms)
  have hi: "bit c (26 + i) \<longleftrightarrow> i \<in> {1,2,4,5}" for i
    using half(1) [of i] by (simp add: bit_drop_bit_eq num add.commute del: bit_numeral_word_iff)
  have lo: "10 + i < 16 \<Longrightarrow> bit c (10 + i) \<longleftrightarrow> i \<in> {0,1,2,4,5}" for i
    using half(2) [of i] by (simp add: bit_drop_bit_eq bit_and_iff k num add.commute del: bit_numeral_word_iff)
  consider "n < 10" | i where "n = 10 + i" "i < 6" | "16 \<le> n" "n < 26" | i where "n = 26 + i" "i < 6"
  proof -
    assume a: "n < 10 \<Longrightarrow> thesis" "\<And>i. n = 10 + i \<Longrightarrow> i < 6 \<Longrightarrow> thesis" "16 \<le> n \<Longrightarrow> n < 26 \<Longrightarrow> thesis" "\<And>i. n = 26 + i \<Longrightarrow> i < 6 \<Longrightarrow> thesis"
    show thesis using \<open>n < LENGTH(32)\<close> a(1,3) a(2) [of "n - 10"] a(4) [of "n - 26"] by fastforce
  qed
  then show "bit c n = bit (b OR push_bit 16 (drop_bit 16 c AND m) OR (c AND m)) n"
  proof cases
    case 1 then show ?thesis by (auto simp: bit_simps b m)
  next
    case (2 i) with lo [of i] show ?thesis by (auto simp: bit_simps b m)
  next
    case 3 then show ?thesis by (auto simp: bit_simps b m)
  next
    case (4 i) with hi [of i] show ?thesis by (auto simp: bit_simps b m)
  qed
qed

lemma pair_parts:
  fixes g e :: u32
  assumes "unat g < 2 ^ 10" "unat e < 2 ^ 10"
  shows "(0xD800DC00 OR push_bit 16 g OR e) AND 0xFFFF0000 = 0xD8000000 OR push_bit 16 g"
    "(0xD800DC00 OR push_bit 16 g OR e) AND 0xFFFF = 0xDC00 OR e"
    "0xD8000000 OR push_bit 16 g = 0xD8000000 + push_bit 16 g"
    "0xDC00 OR e = 0xDC00 + e"
    "push_bit 10 g OR e = push_bit 10 g + e"
    "drop_bit 6 (push_bit 16 g) = push_bit 10 g"
    "push_bit 6 (push_bit 10 g OR e) AND 0x3FF0000 = push_bit 16 g"
    "(push_bit 10 g OR e) AND 0x3FF = e"
proof -
  note g = less_bits [OF assms(1)] and e = less_bits [OF assms(2)]
  show "(0xD800DC00 OR push_bit 16 g OR e) AND 0xFFFF0000 = 0xD8000000 OR push_bit 16 g"
    by (rule bit_word_eqI) (auto simp: bit_simps pair_bits dest: e)
  show "(0xD800DC00 OR push_bit 16 g OR e) AND 0xFFFF = 0xDC00 OR e"
    by (rule bit_word_eqI) (auto simp: bit_simps pair_bits dest: e)
  show "0xD8000000 OR push_bit 16 g = 0xD8000000 + push_bit 16 g"
    by (rule disjunctive_add [symmetric]) (auto simp: bit_push_bit_iff pair_bits dest: g)
  show "0xDC00 OR e = 0xDC00 + e"
    by (rule disjunctive_add [symmetric]) (auto simp: pair_bits dest: e)
  show "push_bit 10 g OR e = push_bit 10 g + e"
    by (rule disjunctive_add [symmetric]) (auto simp: bit_push_bit_iff dest: e)
  show "drop_bit 6 (push_bit 16 g) = push_bit 10 g"
    by (rule bit_word_eqI) (auto simp: bit_simps dest: g)
  show "push_bit 6 (push_bit 10 g OR e) AND 0x3FF0000 = push_bit 16 g"
    by (rule bit_word_eqI) (auto simp: bit_simps pair_bits dest: e g)
  show "(push_bit 10 g OR e) AND 0x3FF = e"
    by (rule bit_word_eqI) (auto simp: bit_simps pair_bits dest: e)
qed

definition valid_utf16 :: "u32 \<Rightarrow> bool" where
  "valid_utf16 chr \<longleftrightarrow>
    (if chr < 0x10000 then \<not> IsSurrogate chr
     else IsSurrogateH (drop_bit 16 chr) \<and> IsSurrogateL (chr AND 0xFFFF))"

lemma low_ten: "unat (x AND 0x3FF) < 2 ^ 10" for x :: u32
proof -
  have "x AND 0x3FF = take_bit 10 x" by (rule bit_word_eqI) (auto simp: bit_simps pair_bits)
  then show ?thesis using take_bit_nat_less_exp [of 10 "unat x"] by (simp add: unsigned_take_bit_eq)
qed

lemma pair_sum:
  fixes g e :: u32
  assumes g: "unat g < 2 ^ 10" and e: "unat e < 2 ^ 10"
  shows "unat (push_bit 10 g OR e) < 0x100000"
proof -
  have "unat (push_bit 10 g) = unat g * 1024"
    using g by (simp add: push_bit_eq_mult unat_mult_lem [THEN iffD1] unat_word_ariths)
  then show ?thesis
    using g e by (simp add: pair_parts(5) [OF g e] unat_word_ariths)
qed

lemma put_utf_pair:
  fixes g e :: u32
  assumes g: "unat g < 2 ^ 10" and e: "unat e < 2 ^ 10" and szb: "4 \<le> szb"
  defines "x \<equiv> (push_bit 10 g OR e) + 0x10000"
  shows "put_utf (0xD800DC00 OR push_bit 16 g OR e) szb =
    [ucast (0xF0 OR (drop_bit 18 x AND 0x07)), ucast (0x80 OR (drop_bit 12 x AND 0x3F)),
     ucast (0x80 OR (drop_bit 6 x AND 0x3F)), ucast (0x80 OR (x AND 0x3F))]"
proof -
  have big: "\<not> 0xD800DC00 OR push_bit 16 g OR e < (n :: u32)" if "n \<le> 0x10000" for n
  proof
    assume "0xD800DC00 OR push_bit 16 g OR e < n"
    with that have "unat (0xD800DC00 OR push_bit 16 g OR e) < 2 ^ 16" by (auto simp: word_less_nat_alt word_le_nat_alt)
    from less_bits [OF this, of 31] show False by (simp add: bit_simps pair_bits)
  qed
  have "unat e < 0x400" "unat (push_bit 10 g OR 0) < 0x100000" using e pair_sum [OF g, of 0] by simp_all
  then have ok: "\<not> (push_bit 10 g \<ge> 0x100000 \<or> e \<ge> 0x400)" by (simp add: word_le_nat_alt)
  show ?thesis
    unfolding put_utf_def pair_parts(1,2) [OF g e] pair_parts(3,4) [OF g e] add_diff_cancel_left' pair_parts(6) [OF g e] Let_def x_def
    using big [of "0x80"] big [of "0x800"] big [of "0x10000"] ok szb by (simp add: not_le)
qed

lemma surrogate_fields:
  fixes chr :: u32
  assumes h: "drop_bit 6 ((chr AND 0xFFFF0000) - 0xD8000000) < 0x100000" and l: "(chr AND 0xFFFF) - 0xDC00 < 0x400"
  shows "IsSurrogateH (drop_bit 16 chr)" "IsSurrogateL (chr AND 0xFFFF)"
proof -
  define y where "y = (chr AND 0xFFFF0000) - 0xD8000000"
  define z where "z = (chr AND 0xFFFF) - 0xDC00"
  have "unat (drop_bit 6 y) < 0x100000" using h by (simp add: y_def word_less_nat_alt)
  then have y: "unat y < 0x4000000" by (simp add: drop_bit_eq_div unat_div)
  have z: "unat z < 0x400" using l by (simp add: z_def word_less_nat_alt)
  have c: "chr AND 0xFFFF0000 = y + 0xD8000000" "chr AND 0xFFFF = z + 0xDC00" by (simp_all add: y_def z_def)
  have "drop_bit 16 chr = drop_bit 16 (chr AND 0xFFFF0000)"
    by (rule bit_word_eqI) (auto simp: bit_simps pair_bits dest: bit_imp_le_length)
  then have "unat (drop_bit 16 chr) = unat (y + 0xD8000000) div 65536" by (simp add: c drop_bit_eq_div unat_div)
  moreover have "unat (y + 0xD8000000) = unat y + 0xD8000000" using y by (simp add: unat_word_ariths)
  ultimately show "IsSurrogateH (drop_bit 16 chr)"
    using y div_mult_self1 [of 65536 "unat y" "0xD800"] less_mult_imp_div_less [of "unat y" 1024 65536]
    by (simp only: IsSurrogateH_def word_le_nat_alt) simp
  have "unat (z + 0xDC00) = unat z + 0xDC00" using z by (simp add: unat_word_ariths)
  then show "IsSurrogateL (chr AND 0xFFFF)"
    using z by (simp only: IsSurrogateL_def word_le_nat_alt c) simp
qed

lemma put_utf_valid: "put_utf chr szb \<noteq> [] \<Longrightarrow> valid_utf16 chr \<and> (chr < 0x10000 \<or> 4 \<le> szb)"
  using surrogate_fields [of chr]
  by (auto simp: put_utf_def valid_utf16_def Let_def not_le IsSurrogate_def word_less_nat_alt word_le_nat_alt split: if_splits)

lemma pair_decodes:
  assumes "valid_utf16 chr" "\<not> chr < 0x10000" "4 \<le> szb"
  shows "tchar2uni (put_utf chr szb @ rest) = Some (chr, rest) \<and> length (put_utf chr szb) = 4"
proof -
  define g where "g = drop_bit 16 chr AND 0x3FF"
  define e where "e = chr AND 0x3FF"
  define x where "x = (push_bit 10 g OR e) + 0x10000"
  have g: "unat g < 2 ^ 10" and e: "unat e < 2 ^ 10" by (simp_all only: g_def e_def low_ten)
  have chr: "chr = 0xD800DC00 OR push_bit 16 g OR e"
    unfolding g_def e_def
  proof (rule pair_form)
    show "drop_bit 10 (drop_bit 16 chr) = 0x36" "drop_bit 10 (chr AND 0xFFFF) = 0x37"
      using assms(1,2) by (simp_all only: valid_utf16_def if_False surrogate_halves)
  qed (auto simp: bit_simps pair_bits)
  have "unat x = unat (push_bit 10 g OR e) + 0x10000" using pair_sum [OF g e] by (simp add: x_def unat_word_ariths)
  with pair_sum [OF g e] have x: "0x10000 \<le> x" "x < 0x110000" by (simp_all add: word_le_nat_alt word_less_nat_alt)
  have low: "x AND 0x3FF = e"
  proof -
    have "x AND 0x3FF = (push_bit 10 g OR e) AND 0x3FF"
    proof -
      have m: "y AND 0x3FF = take_bit 10 y" for y :: u32 by (rule bit_word_eqI) (auto simp: bit_simps pair_bits)
      have "take_bit 10 (a + 0x10000) = take_bit 10 a" for a :: u32
      proof -
        have "unat (a + 0x10000) mod 2 ^ 10 = unat a mod 2 ^ 10"
          using mod_mult_self1 [of "unat a" 64 1024] by (simp add: unat_word_ariths mod_mod_cancel)
        then show ?thesis by (simp add: word_unat_eq_iff take_bit_eq_mod unat_mod)
      qed
      then show ?thesis by (simp only: m x_def)
    qed
    then show ?thesis by (simp only: pair_parts(8) [OF g e])
  qed
  have cp: "code_point x s rest = (chr, rest)" for s
  proof -
    have "\<not> IsSurrogate x" "\<not> x < 0x80" "\<not> 0x110000 \<le> x" using x by (auto simp: IsSurrogate_def word_le_nat_alt word_less_nat_alt)
    moreover have "x - 0x10000 = push_bit 10 g OR e" by (simp add: x_def)
    ultimately show ?thesis
      using x by (simp only: code_point_def low pair_parts(7) [OF g e]) (simp add: chr or.assoc)
  qed
  have "x < 0x200000" using x by (simp add: word_less_nat_alt)
  then show ?thesis
    unfolding chr put_utf_pair [OF g e assms(3)] x_def [symmetric]
    using utf8_decode(3) [of x rest] cp chr by simp
qed

text \<open>C17. The bytes \<^verbatim>\<open>put_utf\<close> writes fit in the buffer it is given, and \<^verbatim>\<open>tchar2uni\<close> reads the same character back
  from them, surrogate pairs included, leaving the pointer behind them.\<close>

theorem utf8_round_trip:
  assumes "put_utf chr szb \<noteq> []"
  shows "tchar2uni (put_utf chr szb @ rest) = Some (chr, rest) \<and> length (put_utf chr szb) \<le> unat szb"
proof -
  note valid = put_utf_valid [OF assms]
  show ?thesis
  proof (cases "chr < 0x10000")
    case False
    with valid pair_decodes [of chr szb rest] show ?thesis by (auto simp: word_le_nat_alt)
  next
    case True
    with valid have "\<not> IsSurrogate chr" by (simp add: valid_utf16_def)
    have cp: "0x80 \<le> chr \<Longrightarrow> code_point chr s rest = (chr, rest)" for s
      using True \<open>\<not> IsSurrogate chr\<close> by (auto simp: code_point_def word_less_nat_alt word_le_nat_alt)
    consider "chr < 0x80" | "0x80 \<le> chr" "chr < 0x800" | "0x800 \<le> chr" "\<not> chr < 0x80" by (fastforce simp: not_less word_le_nat_alt)
    then show ?thesis
    proof cases
      case 1
      have "(ucast (ucast chr :: u8) :: u32) = chr" "chr AND 0x80 = 0"
        using less_bits [of chr 7] 1 by (fastforce intro!: bit_word_eqI simp: word_less_nat_alt bit_simps utf8_bits)+
      with 1 assms show ?thesis by (auto simp: put_utf_def tchar2uni_def Suc_le_eq unat_gt_0 split: if_splits)
    next
      case 2
      with assms utf8_decode(1) [of chr rest] cp show ?thesis
        by (auto simp: put_utf_def word_le_nat_alt word_less_nat_alt split: if_splits)
    next
      case 3
      with assms True utf8_decode(2) [of chr rest] cp show ?thesis
        by (auto simp: put_utf_def word_le_nat_alt word_less_nat_alt split: if_splits)
    qed
  qed
qed

theorem utf8_round_trip_witness:
  "put_utf 0xD83DDE00 4 = [0xF0, 0x9F, 0x98, 0x80] \<and>
    tchar2uni [0xF0, 0x9F, 0x98, 0x80, 0] = Some (0xD83DDE00, [0])"
proof -
  have b: "put_utf 0xD83DDE00 4 = [0xF0, 0x9F, 0x98, 0x80]" by code_simp
  then have "put_utf 0xD83DDE00 4 \<noteq> []" by simp
  from utf8_round_trip [OF this, of "[0]"] b show ?thesis by simp
qed

text \<open>\<^verbatim>\<open>put_utf\<close> with room for four bytes writes a character exactly if it is well-formed UTF-16: a lone surrogate,
  or a pair with a wrong half, writes nothing.\<close>

theorem put_utf_accepts:
  assumes "4 \<le> szb"
  shows "put_utf chr szb \<noteq> [] \<longleftrightarrow> valid_utf16 chr"
proof
  show "valid_utf16 chr" if "put_utf chr szb \<noteq> []" using put_utf_valid [OF that] by simp
next
  assume valid: "valid_utf16 chr"
  show "put_utf chr szb \<noteq> []"
  proof (cases "chr < 0x10000")
    case True
    with valid assms show ?thesis by (auto simp: put_utf_def valid_utf16_def word_le_nat_alt word_less_nat_alt)
  next
    case False
    from pair_decodes [OF valid False assms] show ?thesis by auto
  qed
qed

theorem put_utf_accepts_witness:
  "put_utf 0xD83DD83D 4 = [] \<and> \<not> valid_utf16 0xD83DD83D"
proof -
  have "(4 :: u32) \<le> 4" by simp
  from put_utf_accepts [OF this] have "put_utf 0xD83DD83D 4 \<noteq> [] \<longleftrightarrow> valid_utf16 0xD83DD83D" .
  moreover have "put_utf 0xD83DD83D 4 = []" by code_simp
  ultimately show ?thesis by simp
qed

end
