(* ===== verification/Display.thy ===== *)
theory Display
  imports Soc
begin

text \<open>
  The driver of an OLED display, \<^verbatim>\<open>sw/i2c1ssd1315/ssd1315.c\<close>, over the first I2C unit, and the program that shows
  its characters: each function is one transaction on the bus, or a sequence of them.
\<close>

section \<open>The driver\<close>

definition SSD1315_ADDR :: u8 where "SSD1315_ADDR = push_bit 1 0x3c"

datatype ssd1315_status = SSD1315_OK | SSD1315_ERR

text \<open>The font, from the space on, six columns for a character.\<close>

definition font_rows :: "u8 list list" where
  "font_rows = [[0x00, 0x00, 0x00, 0x00, 0x00, 0x00], [0x00, 0x00, 0x00, 0x2f, 0x00, 0x00],
     [0x00, 0x00, 0x07, 0x00, 0x07, 0x00], [0x00, 0x14, 0x7f, 0x14, 0x7f, 0x14],
     [0x00, 0x24, 0x2a, 0x7f, 0x2a, 0x12], [0x00, 0x62, 0x64, 0x08, 0x13, 0x23],
     [0x00, 0x36, 0x49, 0x55, 0x22, 0x50], [0x00, 0x00, 0x05, 0x03, 0x00, 0x00],
     [0x00, 0x00, 0x1c, 0x22, 0x41, 0x00], [0x00, 0x00, 0x41, 0x22, 0x1c, 0x00],
     [0x00, 0x14, 0x08, 0x3e, 0x08, 0x14], [0x00, 0x08, 0x08, 0x3e, 0x08, 0x08],
     [0x00, 0x00, 0x00, 0xa0, 0x60, 0x00], [0x00, 0x08, 0x08, 0x08, 0x08, 0x08],
     [0x00, 0x00, 0x60, 0x60, 0x00, 0x00], [0x00, 0x20, 0x10, 0x08, 0x04, 0x02],
     [0x00, 0x3e, 0x51, 0x49, 0x45, 0x3e], [0x00, 0x00, 0x42, 0x7f, 0x40, 0x00],
     [0x00, 0x42, 0x61, 0x51, 0x49, 0x46], [0x00, 0x21, 0x41, 0x45, 0x4b, 0x31],
     [0x00, 0x18, 0x14, 0x12, 0x7f, 0x10], [0x00, 0x27, 0x45, 0x45, 0x45, 0x39],
     [0x00, 0x3c, 0x4a, 0x49, 0x49, 0x30], [0x00, 0x01, 0x71, 0x09, 0x05, 0x03],
     [0x00, 0x36, 0x49, 0x49, 0x49, 0x36], [0x00, 0x06, 0x49, 0x49, 0x29, 0x1e],
     [0x00, 0x00, 0x36, 0x36, 0x00, 0x00], [0x00, 0x00, 0x56, 0x36, 0x00, 0x00],
     [0x00, 0x08, 0x14, 0x22, 0x41, 0x00], [0x00, 0x14, 0x14, 0x14, 0x14, 0x14],
     [0x00, 0x00, 0x41, 0x22, 0x14, 0x08], [0x00, 0x02, 0x01, 0x51, 0x09, 0x06],
     [0x00, 0x32, 0x49, 0x59, 0x51, 0x3e], [0x00, 0x7c, 0x12, 0x11, 0x12, 0x7c],
     [0x00, 0x7f, 0x49, 0x49, 0x49, 0x36], [0x00, 0x3e, 0x41, 0x41, 0x41, 0x22],
     [0x00, 0x7f, 0x41, 0x41, 0x22, 0x1c], [0x00, 0x7f, 0x49, 0x49, 0x49, 0x41],
     [0x00, 0x7f, 0x09, 0x09, 0x09, 0x01], [0x00, 0x3e, 0x41, 0x49, 0x49, 0x7a],
     [0x00, 0x7f, 0x08, 0x08, 0x08, 0x7f], [0x00, 0x00, 0x41, 0x7f, 0x41, 0x00],
     [0x00, 0x20, 0x40, 0x41, 0x3f, 0x01], [0x00, 0x7f, 0x08, 0x14, 0x22, 0x41],
     [0x00, 0x7f, 0x40, 0x40, 0x40, 0x40], [0x00, 0x7f, 0x02, 0x0c, 0x02, 0x7f],
     [0x00, 0x7f, 0x04, 0x08, 0x10, 0x7f], [0x00, 0x3e, 0x41, 0x41, 0x41, 0x3e],
     [0x00, 0x7f, 0x09, 0x09, 0x09, 0x06], [0x00, 0x3e, 0x41, 0x51, 0x21, 0x5e],
     [0x00, 0x7f, 0x09, 0x19, 0x29, 0x46], [0x00, 0x46, 0x49, 0x49, 0x49, 0x31],
     [0x00, 0x01, 0x01, 0x7f, 0x01, 0x01], [0x00, 0x3f, 0x40, 0x40, 0x40, 0x3f],
     [0x00, 0x1f, 0x20, 0x40, 0x20, 0x1f], [0x00, 0x3f, 0x40, 0x38, 0x40, 0x3f],
     [0x00, 0x63, 0x14, 0x08, 0x14, 0x63], [0x00, 0x07, 0x08, 0x70, 0x08, 0x07],
     [0x00, 0x61, 0x51, 0x49, 0x45, 0x43], [0x00, 0x00, 0x7f, 0x41, 0x41, 0x00],
     [0x00, 0x55, 0x2a, 0x55, 0x2a, 0x55], [0x00, 0x00, 0x41, 0x41, 0x7f, 0x00],
     [0x00, 0x04, 0x02, 0x01, 0x02, 0x04], [0x00, 0x40, 0x40, 0x40, 0x40, 0x40],
     [0x00, 0x00, 0x01, 0x02, 0x04, 0x00], [0x00, 0x20, 0x54, 0x54, 0x54, 0x78],
     [0x00, 0x7f, 0x48, 0x44, 0x44, 0x38], [0x00, 0x38, 0x44, 0x44, 0x44, 0x20],
     [0x00, 0x38, 0x44, 0x44, 0x48, 0x7f], [0x00, 0x38, 0x54, 0x54, 0x54, 0x18],
     [0x00, 0x08, 0x7e, 0x09, 0x01, 0x02], [0x00, 0x18, 0xa4, 0xa4, 0xa4, 0x7c],
     [0x00, 0x7f, 0x08, 0x04, 0x04, 0x78], [0x00, 0x00, 0x44, 0x7d, 0x40, 0x00],
     [0x00, 0x40, 0x80, 0x84, 0x7d, 0x00], [0x00, 0x7f, 0x10, 0x28, 0x44, 0x00],
     [0x00, 0x00, 0x41, 0x7f, 0x40, 0x00], [0x00, 0x7c, 0x04, 0x18, 0x04, 0x78],
     [0x00, 0x7c, 0x08, 0x04, 0x04, 0x78], [0x00, 0x38, 0x44, 0x44, 0x44, 0x38],
     [0x00, 0xfc, 0x24, 0x24, 0x24, 0x18], [0x00, 0x18, 0x24, 0x24, 0x18, 0xfc],
     [0x00, 0x7c, 0x08, 0x04, 0x04, 0x08], [0x00, 0x48, 0x54, 0x54, 0x54, 0x20],
     [0x00, 0x04, 0x3f, 0x44, 0x40, 0x20], [0x00, 0x3c, 0x40, 0x40, 0x20, 0x7c],
     [0x00, 0x1c, 0x20, 0x40, 0x20, 0x1c], [0x00, 0x3c, 0x40, 0x30, 0x40, 0x3c],
     [0x00, 0x44, 0x28, 0x10, 0x28, 0x44], [0x00, 0x1c, 0xa0, 0xa0, 0xa0, 0x7c],
     [0x00, 0x44, 0x64, 0x54, 0x4c, 0x44], [0x00, 0x00, 0x08, 0x36, 0x41, 0x00],
     [0x00, 0x00, 0x7f, 0x00, 0x00, 0x00], [0x00, 0x41, 0x36, 0x08, 0x00, 0x00],
     [0x00, 0x10, 0x08, 0x10, 0x20, 0x10], [0xff, 0xff, 0xff, 0xff, 0xff, 0xff]]"

definition ssd1315_font6x8 :: "u8 list" where
  "ssd1315_font6x8 = concat font_rows"

definition ssd1315_init_sequence :: "u8 list" where
  "ssd1315_init_sequence = [0x00, 0xae, 0xd5, 0xf0, 0xa8, 0x3f, 0xd3, 0x00, 0x40 OR 0x00, 0x8d, 0x14, 0x20, 0x00,
     0xa0 OR 0x00, 0xc0 OR 0x00, 0xda, 0x12, 0x81, 0x80, 0xd9, 0x22, 0xdb, 0x20, 0xa4, 0xa6, 0x2e, 0xaf]"

text \<open>\<^verbatim>\<open>(i2c1_transmit(SSD1315_ADDR, buf, sizeof buf) == 0) ? SSD1315_OK : SSD1315_ERR\<close>\<close>

definition ssd1315_send :: "'d bus \<Rightarrow> u8 list \<Rightarrow> 'd \<Rightarrow> (ssd1315_status \<times> 'd) option" where
  "ssd1315_send b buf s =
     do { (r, s) \<leftarrow> i2c1_transmit b SSD1315_ADDR (Some buf) (word_of_nat (length buf)) s;
          Some (if r = 0 then SSD1315_OK else SSD1315_ERR, s) }"

definition ssd1315_setpos :: "'d bus \<Rightarrow> u8 \<Rightarrow> u8 \<Rightarrow> 'd \<Rightarrow> (ssd1315_status \<times> 'd) option" where
  "ssd1315_setpos b x y s =
     ssd1315_send b [0x00, 0xb0 OR (y AND 0x07), 0x10 OR drop_bit 4 (x AND 0xf0), x AND 0x0f] s"

text \<open>\<^verbatim>\<open>for (int i = 0; i < 8; i++)\<close>, with the turns left.\<close>

fun fill_loop :: "'d bus \<Rightarrow> u8 list \<Rightarrow> nat \<Rightarrow> u8 \<Rightarrow> 'd \<Rightarrow> (ssd1315_status \<times> 'd) option" where
  "fill_loop b buf 0 i s = Some (SSD1315_OK, s)"
| "fill_loop b buf (Suc k) i s =
     do { (_, s) \<leftarrow> ssd1315_setpos b 0 i s;
          (ret, s) \<leftarrow> i2c1_transmit b SSD1315_ADDR (Some buf) (word_of_nat (length buf)) s;
          if ret \<noteq> 0 then Some (SSD1315_ERR, s) else fill_loop b buf k (i + 1) s }"

definition ssd1315_fillscreen :: "'d bus \<Rightarrow> u8 \<Rightarrow> 'd \<Rightarrow> (ssd1315_status \<times> 'd) option" where
  "ssd1315_fillscreen b fill s = fill_loop b (0x40 # replicate 128 fill) 8 0 s"

definition font_column :: "nat \<Rightarrow> u8 option" where
  "font_column k = (if k < length ssd1315_font6x8 then Some (ssd1315_font6x8 ! k) else None)"

definition ssd1315_putchar :: "'d bus \<Rightarrow> u8 \<Rightarrow> 'd \<Rightarrow> (ssd1315_status \<times> 'd) option" where
  "ssd1315_putchar b c s =
     do { let c = (if c < 32 \<or> c > 127 then 0x7f - 32 else c - 32);
          columns \<leftarrow> those (map (\<lambda>i. font_column (unat c * 6 + i)) [0 ..< 6]);
          ssd1315_send b (0x40 # columns) s }"

fun ssd1315_puts_loop :: "'d bus \<Rightarrow> u8 list \<Rightarrow> 'd \<Rightarrow> (ssd1315_status \<times> 'd) option" where
  "ssd1315_puts_loop b [] s = None"
| "ssd1315_puts_loop b (c # cs) s =
     (if c = 0 then Some (SSD1315_OK, s)
      else
        do { (ret, s) \<leftarrow> ssd1315_putchar b c s;
             if ret \<noteq> SSD1315_OK then Some (SSD1315_ERR, s) else ssd1315_puts_loop b cs s })"

definition ssd1315_puts :: "'d bus \<Rightarrow> u8 list option \<Rightarrow> 'd \<Rightarrow> (ssd1315_status \<times> 'd) option" where
  "ssd1315_puts b t s = (case t of None \<Rightarrow> Some (SSD1315_OK, s) | Some cs \<Rightarrow> ssd1315_puts_loop b cs s)"

definition ssd1315_init :: "'d bus \<Rightarrow> 'd \<Rightarrow> (ssd1315_status \<times> 'd) option" where
  "ssd1315_init b s = ssd1315_send b ssd1315_init_sequence s"

definition ssd1315_setcontrast :: "'d bus \<Rightarrow> u8 \<Rightarrow> 'd \<Rightarrow> (ssd1315_status \<times> 'd) option" where
  "ssd1315_setcontrast b contrast s = ssd1315_send b [0x00, 0x81, contrast] s"

section \<open>The program\<close>

text \<open>\<^verbatim>\<open>main\<close> of \<^verbatim>\<open>sw/i2c1ssd1315/i2c1ssd1315.c\<close> up to its endless loop, and one turn of that loop: the characters from
  \<open>i\<close> on, with the turns left.\<close>

definition display_start :: "'d bus \<Rightarrow> 'd \<Rightarrow> (ssd1315_status \<times> 'd) option" where
  "display_start b s =
     do { let (v, s) = csr_read b 0xfc1 s;
          let s = i2c1_init b (I2C_PRESCALER_FM v OR I2C_FAST_MODE) s;
          (_, s) \<leftarrow> ssd1315_init b s;
          (_, s) \<leftarrow> ssd1315_setpos b 0 0 s;
          (_, s) \<leftarrow> ssd1315_fillscreen b 0x00 s;
          (_, s) \<leftarrow> ssd1315_setpos b 0 0 s;
          (_, s) \<leftarrow> i2c1_transmit b SSD1315_ADDR
              (Some [0x40, 0x00, 0x01, 0x03, 0x07, 0x0f, 0x1f, 0x3f, 0x7f, 0xff]) 10 s;
          (_, s) \<leftarrow> ssd1315_setpos b 16 0 s;
          ssd1315_puts b (cstr (str ''Hallo THUAS RV32!'')) s }"

fun display_turn :: "'d bus \<Rightarrow> nat \<Rightarrow> u8 \<Rightarrow> 'd \<Rightarrow> 'd option" where
  "display_turn b 0 i s = Some s"
| "display_turn b (Suc k) i s =
     do { (_, s) \<leftarrow> ssd1315_setpos b 0 2 s;
          (_, s) \<leftarrow> ssd1315_putchar b i s;
          let (_, s) = delayms b 1000 s;
          display_turn b k (i + 1) s }"

section \<open>Characters\<close>

text \<open>The transaction for some bytes after the history \<open>w\<close> of the bus, and whether all is acknowledged.\<close>

definition display_wire :: "(i2c_event list \<Rightarrow> i2c_event \<Rightarrow> u8 \<times> bool) \<Rightarrow> i2c_event list \<Rightarrow> u8 list \<Rightarrow> i2c_event list" where
  "display_wire slave w bs = w @ [Start] @ written slave (w @ [Start]) (SSD1315_ADDR # bs) @ [Stop]"

definition display_takes :: "(i2c_event list \<Rightarrow> i2c_event \<Rightarrow> u8 \<times> bool) \<Rightarrow> i2c_event list \<Rightarrow> u8 list \<Rightarrow> bool" where
  "display_takes slave w bs \<longleftrightarrow> accepted slave (w @ [Start]) (SSD1315_ADDR # bs)"

definition display_ready :: "(i2c_event list \<Rightarrow> i2c_event \<Rightarrow> u8 \<times> bool) \<Rightarrow> soc \<Rightarrow> bool" where
  "display_ready slave s \<longleftrightarrow> i2c_ready slave (i2c1 s) \<and> calm (i_ctrl (i2c1 s)) \<and> i_ctrl (i2c1 s) AND I2C_MACK = 0"

lemma send_wp:
  assumes "display_ready slave s" and "0 < length buf" "length buf < 2 ^ 32"
  shows "returns (ssd1315_send soc_bus buf s) (\<lambda>(r, t). i_wire (i2c1 t) = display_wire slave (i_wire (i2c1 s)) buf
    \<and> aside t = aside s \<and> (r = SSD1315_OK \<longleftrightarrow> display_takes slave (i_wire (i2c1 s)) buf)
    \<and> (r = SSD1315_OK \<longrightarrow> display_ready slave t))"
proof -
  have n: "unat (word_of_nat (length buf) :: u32) = length buf"
    using assms(3) by (simp add: unsigned_of_nat take_bit_nat_eq_self)
  have "returns (i2c_transmit I2C1_BASE soc_bus SSD1315_ADDR (Some buf) (word_of_nat (length buf)) s)
      (\<lambda>(r, t). i_wire (i2c1 t) = display_wire slave (i_wire (i2c1 s)) buf \<and> aside t = aside s
        \<and> (r = 0 \<longleftrightarrow> display_takes slave (i_wire (i2c1 s)) buf) \<and> (r = 0 \<longrightarrow> display_ready slave t))"
    by (rule soc_i2c1.transmit_wp [where slave = slave])
      (use assms n in \<open>auto simp: display_ready_def soc_i2c1.sends_def I2C_AF_def display_wire_def display_takes_def\<close>)
  then show ?thesis
    unfolding ssd1315_send_def i2c1_transmit_def returns_bind_iff by (rule returns_mono) auto
qed

text \<open>The bytes for a character: a row of the font, the last one for a character that is not in it.\<close>

definition glyph :: "u8 \<Rightarrow> u8 list" where
  "glyph c = 0x40 # font_rows ! (if 32 \<le> c \<and> c \<le> 127 then unat c - 32 else 95)"

lemma font_shape: "length font_rows = 96" "\<forall>r \<in> set font_rows. length r = 6"
  by (simp_all add: font_rows_def)

lemma concat_rows:
  "\<forall>r \<in> set rs. length r = 6 \<Longrightarrow> k < length rs \<Longrightarrow> i < 6 \<Longrightarrow> concat rs ! (k * 6 + i) = rs ! k ! i"
proof (induction rs arbitrary: k)
  case (Cons r rs)
  then show ?case by (cases k) (auto simp: nth_append)
qed simp

lemma length_concat_rows: "\<forall>r \<in> set rs. length r = 6 \<Longrightarrow> length (concat rs) = 6 * length rs"
  by (induction rs) auto

lemma font_column_row: "k < 96 \<Longrightarrow> i < 6 \<Longrightarrow> font_column (k * 6 + i) = Some (font_rows ! k ! i)"
  using concat_rows [of font_rows k i] length_concat_rows [of font_rows] font_shape
  by (auto simp: font_column_def ssd1315_font6x8_def)

lemma glyph_columns:
  assumes "k < 96"
  shows "those (map (\<lambda>i. font_column (k * 6 + i)) [0 ..< 6]) = Some (font_rows ! k)"
proof -
  have "length (font_rows ! k) = 6" using font_shape assms by simp
  then have "font_rows ! k = map (nth (font_rows ! k)) [0 ..< 6]" by (metis map_nth)
  moreover have "those (map (\<lambda>i. font_column (k * 6 + i)) [0 ..< 6]) = Some (map (nth (font_rows ! k)) [0 ..< 6])"
    by (rule those_map) (simp add: font_column_row [OF assms])
  ultimately show ?thesis by simp
qed

lemma printable_index:
  "unat (if c < 32 \<or> c > 127 then 0x7f - 32 else c - 32 :: u8) = (if 32 \<le> c \<and> c \<le> 127 then unat c - 32 else 95)"
  by (auto simp: word_less_nat_alt word_le_nat_alt unat_sub)

lemma putchar_glyph: "ssd1315_putchar b c s = ssd1315_send b (glyph c) s"
proof -
  let ?k = "if 32 \<le> c \<and> c \<le> 127 then unat c - 32 else 95"
  have "?k < 96" by (auto simp: word_le_nat_alt)
  from glyph_columns [OF this] show ?thesis
    unfolding ssd1315_putchar_def Let_def printable_index by (simp add: glyph_def)
qed

lemma length_glyph: "length (glyph c) = 7"
proof -
  let ?k = "if 32 \<le> c \<and> c \<le> 127 then unat c - 32 else 95"
  have "?k < length font_rows" by (auto simp: word_le_nat_alt font_shape)
  then have "length (font_rows ! ?k) = 6" using font_shape nth_mem by blast
  then show ?thesis by (simp add: glyph_def)
qed

text \<open>A string: one transaction for each character, up to the first that is not taken.\<close>

fun text_wire :: "(i2c_event list \<Rightarrow> i2c_event \<Rightarrow> u8 \<times> bool) \<Rightarrow> i2c_event list \<Rightarrow> u8 list \<Rightarrow> i2c_event list \<times> ssd1315_status" where
  "text_wire slave w [] = (w, SSD1315_OK)"
| "text_wire slave w (c # cs) =
     (if display_takes slave w (glyph c) then text_wire slave (display_wire slave w (glyph c)) cs
      else (display_wire slave w (glyph c), SSD1315_ERR))"

lemma text_puts_wp:
  assumes "display_ready slave s" and "0 \<notin> set cs"
  shows "returns (ssd1315_puts_loop soc_bus (cs @ 0 # tail) s) (\<lambda>(r, t).
    (i_wire (i2c1 t), r) = text_wire slave (i_wire (i2c1 s)) cs \<and> aside t = aside s)"
  using assms
proof (induction cs arbitrary: s)
  case Nil
  then show ?case by simp
next
  case (Cons c cs)
  obtain r t where t: "ssd1315_send soc_bus (glyph c) s = Some (r, t)"
      "i_wire (i2c1 t) = display_wire slave (i_wire (i2c1 s)) (glyph c)" "aside t = aside s"
      "r = SSD1315_OK \<longleftrightarrow> display_takes slave (i_wire (i2c1 s)) (glyph c)" "r = SSD1315_OK \<longrightarrow> display_ready slave t"
    using send_wp [OF Cons.prems(1), of "glyph c"] length_glyph [of c] by (auto simp: returns_ex)
  show ?case
  proof (cases "r = SSD1315_OK")
    case True
    with t Cons.IH [of t] Cons.prems(2) show ?thesis by (simp add: putchar_glyph)
  next
    case False
    with t Cons.prems(2) show ?thesis by (simp add: putchar_glyph)
  qed
qed

text \<open>C39.  \<^verbatim>\<open>ssd1315_puts\<close> sends a string to the display one character after the other, each in a transaction of its
  own: the control byte and the six columns of its picture, a row of the font, the last one for a character that is
  not in the font.  It stops at the end of the string with \<^verbatim>\<open>SSD1315_OK\<close>, or at the first character of which a byte
  is not acknowledged, with \<^verbatim>\<open>SSD1315_ERR\<close>; nothing but the bus of the display moves.\<close>

theorem display_text:
  assumes "i2c_ready slave (i2c1 s)" and "calm (i_ctrl (i2c1 s))" "i_ctrl (i2c1 s) AND I2C_MACK = 0"
    and "0 \<notin> set cs"
  shows "returns (ssd1315_puts soc_bus (Some (cs @ 0 # tail)) s) (\<lambda>(r, t).
    (i_wire (i2c1 t), r) = text_wire slave (i_wire (i2c1 s)) cs \<and> aside t = aside s)"
  using text_puts_wp [of slave s cs tail] assms by (simp add: ssd1315_puts_def display_ready_def)

theorem display_text_witness:
  "returns (ssd1315_puts soc_bus (Some [33, 0, 7]) (demo [])) (\<lambda>(r, t). r = SSD1315_OK
    \<and> i_wire (i2c1 t) = [Start] @ map (\<lambda>c. Byte c True) [0x78, 0x40, 0x00, 0x00, 0x00, 0x2f, 0x00, 0x00] @ [Stop])"
proof -
  have "display_takes count_slave [] (glyph 33)"
    "display_wire count_slave [] (glyph 33)
      = [Start] @ map (\<lambda>c. Byte c True) [0x78, 0x40, 0x00, 0x00, 0x00, 0x2f, 0x00, 0x00] @ [Stop]"
    by (simp_all add: display_takes_def display_wire_def glyph_def font_rows_def count_slave_def SSD1315_ADDR_def)
  then show ?thesis
    using display_text [of count_slave "demo []" "[33]" "[7]"] by (auto simp: demo_def calm_def elim!: returns_mono)
qed

end
