(* ===== verification/Probes.thy ===== *)
theory Probes
  imports Soc
begin

text \<open>
  Two test programs that use the first I2C unit and the serial port together: \<^verbatim>\<open>sw/i2c1findslaves\<close>, which looks for
  slaves on the bus, and \<^verbatim>\<open>sw/i2c1tmp102\<close>, which shows what a thermometer says. The locale \<open>probe\<close> joins the
  contracts of the two units; the format of \<^verbatim>\<open>snprintf\<close> is the one of the C library.
\<close>

section \<open>Looking for slaves\<close>

text \<open>\<^verbatim>\<open>snprintf(buffer, sizeof buffer, "0x%02lx\\r\\n", i)\<close>, for a number of two digits.\<close>

definition slave_line :: "u32 \<Rightarrow> u8 list" where
  "slave_line i = str ''0x'' @ hexstr 2 (unat i) @ crlf"

text \<open>\<^verbatim>\<open>for (uint32_t i = 0x01; i < 0x78; i++)\<close> with the turns left. The delay at the end of a turn only counts.\<close>

fun findslaves_loop :: "'d bus \<Rightarrow> nat \<Rightarrow> u32 \<Rightarrow> 'd \<Rightarrow> 'd option" where
  "findslaves_loop b 0 i s = Some s"
| "findslaves_loop b (Suc k) i s =
     do { (ret, s) \<leftarrow> i2c1_transmit b (ucast (push_bit 1 i)) None 0 s;
          s \<leftarrow> (if ret \<noteq> 0 then Some s
               else do { s \<leftarrow> uart1_puts b (cstr (str ''Slave found at address: '')) s;
                         uart1_puts b (cstr (slave_line i)) s });
          findslaves_loop b k (i + 1) s }"

definition findslaves :: "'d bus \<Rightarrow> 'd \<Rightarrow> 'd option" where
  "findslaves b s =
     do { let s = uart1_init b BAUD_RATE UART_CTRL_EN s;
          s \<leftarrow> uart1_puts b (cstr (crlf @ str ''I2C1 find slaves'' @ crlf)) s;
          let (v, s) = csr_read b 0xfc1 s;
          let s = i2c1_init b (I2C_PRESCALER_SM v) s;
          s \<leftarrow> findslaves_loop b 0x77 1 s;
          uart1_puts b (cstr (str ''Done'' @ crlf)) s }"

section \<open>The serial port and the bus together\<close>

text \<open>What the serial port leaves alone has the bus in it, and the other way round: then a program that uses both
  can be followed.\<close>

definition widened :: "'o \<Rightarrow> 'r i2c_view \<Rightarrow> ('o \<times> 'r) i2c_view" where
  "widened o' v = \<lparr> ctrl = ctrl v, wire = wire v, tc = tc v, reply = reply v, beside = (o', beside v) \<rparr>"

lemma widened_simps [simp]:
  "ctrl (widened o' v) = ctrl v" "wire (widened o' v) = wire v" "tc (widened o' v) = tc v"
  "reply (widened o' v) = reply v" "beside (widened o' v) = (o', beside v)"
  by (simp_all add: widened_def)

definition probe_events :: "u32 \<Rightarrow> i2c_event list" where
  "probe_events i = [Start, Byte (ucast (push_bit 1 i)) True, Stop]"

definition present :: "(i2c_event list \<Rightarrow> i2c_event \<Rightarrow> u8 \<times> bool) \<Rightarrow> i2c_event list \<Rightarrow> u32 \<Rightarrow> bool" where
  "present slave w i \<longleftrightarrow> \<not> snd (slave (w @ [Start]) (Byte (ucast (push_bit 1 i)) True))"

definition found_line :: "u32 \<Rightarrow> u8 list" where
  "found_line i = str ''Slave found at address: '' @ slave_line i"

fun reported :: "(i2c_event list \<Rightarrow> i2c_event \<Rightarrow> u8 \<times> bool) \<Rightarrow> i2c_event list \<Rightarrow> u32 list \<Rightarrow> u8 list" where
  "reported slave w [] = []"
| "reported slave w (i # is) =
     (if present slave w i then found_line i else []) @ reported slave (w @ probe_events i) is"

lemma reported_fixed:
  "(\<And>w c. snd (slave (w @ [Start]) (Byte c True)) \<longleftrightarrow> c \<notin> A) \<Longrightarrow>
    reported slave w is = concat (map found_line (filter (\<lambda>i. ucast (push_bit 1 i) \<in> A) is))"
  by (induction "is" arbitrary: w) (auto simp: present_def)

lemma slave_line_text: "0 \<notin> set (slave_line i)"
  using set_hexstr [of 0] by (auto simp: slave_line_def isxdigit_def isdigit_def str_def ch_def)

lemma found_text: "0 \<notin> set (str ''Slave found at address: '')"
  by (simp add: str_def ch_def)

locale probe =
  com: uart_port b ready outp inp line sending arrived rxwait +
  twi: i2c_port b I2C1_BASE ready stopping "\<lambda>s. widened (outp s, inp s) (line s)" slave shifting
  for b :: "'d bus" and ready outp inp and line :: "'d \<Rightarrow> 'r i2c_view" and sending arrived rxwait
    and stopping slave shifting
begin

lemma probe_wp:
  assumes "ready s" and "calm (ctrl (line s))"
    and "\<And>r t. (r = 0) = present slave (wire (line s)) i \<Longrightarrow> ready t \<Longrightarrow> ctrl (line t) = ctrl (line s) \<Longrightarrow>
      wire (line t) = wire (line s) @ probe_events i \<Longrightarrow> outp t = outp s \<Longrightarrow> inp t = inp s \<Longrightarrow>
      beside (line t) = beside (line s) \<Longrightarrow> Q (r, t)"
  shows "returns (i2c1_transmit b (ucast (push_bit 1 i)) None 0 s) Q"
  unfolding i2c1_transmit_def
  by (rule twi.transmit_address_only_wp)
    (use assms in \<open>auto simp: twi.sends_def present_def probe_events_def I2C_AF_def\<close>)

lemma found_wp:
  assumes "ready s" and "\<And>t. com.talks (found_line i) [] s t \<Longrightarrow> Q t"
  shows "returns (do { s \<leftarrow> uart1_puts b (cstr (str ''Slave found at address: '')) s;
                       uart1_puts b (cstr (slave_line i)) s }) Q"
proof (rule returns_bind, rule com.puts_wp [OF assms(1) found_text])
  fix t assume t: "com.talks (str ''Slave found at address: '') [] s t"
  show "returns (uart1_puts b (cstr (slave_line i)) t) Q"
    using com.puts_wp [OF com.talks_ready [OF t] slave_line_text] assms(2) com.talks_trans [OF t]
    by (simp add: found_line_def)
qed

lemma findslaves_loop_wp:
  assumes "ready s" and "calm (ctrl (line s))"
    and "\<And>t. ready t \<Longrightarrow> ctrl (line t) = ctrl (line s) \<Longrightarrow> inp t = inp s \<Longrightarrow> beside (line t) = beside (line s) \<Longrightarrow>
      wire (line t) = wire (line s) @ concat (map probe_events (map (\<lambda>j. i + word_of_nat j) [0 ..< k])) \<Longrightarrow>
      outp t = outp s @ reported slave (wire (line s)) (map (\<lambda>j. i + word_of_nat j) [0 ..< k]) \<Longrightarrow> Q t"
  shows "returns (findslaves_loop b k i s) Q"
  using assms
proof (induction k arbitrary: i s Q)
  case 0
  then show ?case by simp
next
  case (Suc k)
  have list: "map (\<lambda>j. i + word_of_nat j) [0 ..< Suc k] = i # map (\<lambda>j. (i + 1) + word_of_nat j) [0 ..< k]"
    unfolding upt_conv_Cons [OF zero_less_Suc] map_Suc_upt [symmetric]
    by (simp add: comp_def add.assoc)
  have rest: "returns (findslaves_loop b k (i + 1) u) Q"
    if "ready u" "ctrl (line u) = ctrl (line s)" "wire (line u) = wire (line s) @ probe_events i"
      "outp u = outp s @ (if present slave (wire (line s)) i then found_line i else [])"
      "inp u = inp s" "beside (line u) = beside (line s)" for u
    by (rule Suc.IH) (use that Suc.prems in \<open>simp_all add: list del: upt_Suc\<close>)
  have step: "returns (if r \<noteq> 0 then Some t
        else do { s \<leftarrow> uart1_puts b (cstr (str ''Slave found at address: '')) t;
                  uart1_puts b (cstr (slave_line i)) s }) (\<lambda>u. returns (findslaves_loop b k (i + 1) u) Q)"
    if "(r = 0) = present slave (wire (line s)) i" "ready t" "ctrl (line t) = ctrl (line s)"
      "wire (line t) = wire (line s) @ probe_events i" "outp t = outp s" "inp t = inp s"
      "beside (line t) = beside (line s)" for r t
  proof (cases "r = 0")
    case True
    then show ?thesis
      using that by (simp only: not_True_eq_False if_False) (rule found_wp, auto simp: com.talks_def intro: rest)
  next
    case False
    with that show ?thesis by (auto intro: rest)
  qed
  show ?case
    unfolding findslaves_loop.simps
    by (rule returns_bind, rule probe_wp [OF Suc.prems(1,2)], unfold case_prod_conv, rule returns_bind, rule step)
qed

end


text \<open>The machine: while the bus is idle the serial port can send, and while the serial port is idle the bus works.\<close>

definition probe_ready :: "(i2c_event list \<Rightarrow> i2c_event \<Rightarrow> u8 \<times> bool) \<Rightarrow> soc \<Rightarrow> bool" where
  "probe_ready slave s \<longleftrightarrow> uart_ready s \<and> i2c_ready slave (i2c1 s)"

definition probe_line :: "soc \<Rightarrow> (bool \<times> (u32 \<Rightarrow> u8) \<times> (u32 \<Rightarrow> u32) \<times> (u32 \<Rightarrow> u32)) i2c_view" where
  "probe_line s = i2c_view_of (uart_ready s, aside s) (i2c1 s)"

lemma probe_ready_tick: "probe_ready slave s \<Longrightarrow> i2c_tick (i2c1 s) = i2c1 s"
  by (auto simp: probe_ready_def)

definition probe_sending where
  "probe_sending slave c n s t \<longleftrightarrow> uart_sending c n s t \<and> i2c1 t = i2c1 s \<and> probe_ready slave s"

lemma probe_uart:
  "uart_port soc_bus (probe_ready slave) (\<lambda>s. u_sent (uart1 s)) (\<lambda>s. uart_inp (uart1 s)) probe_line
    (probe_sending slave) (\<lambda>s. u_rx (uart1 s) \<noteq> None) (\<lambda>s. uart_rxwait (uart1 s))"
proof unfold_locales
  fix s v assume s: "probe_ready slave s"
  from soc_uart.tx_start [of s v] s
  obtain n where "uart_sending (ucast v) n s (st32 soc_bus UART1_DATA v s)" by (auto simp: probe_ready_def)
  with s show "\<exists>n. probe_sending slave (ucast v) n s (st32 soc_bus UART1_DATA v s)"
    by (auto simp: probe_sending_def probe_ready_def)
next
  fix c n s t v t' assume t: "probe_sending slave c (Suc n) s t" "ld32 soc_bus UART1_STAT t = (v, t')"
  with soc_uart.tx_busy [of c n s t v t']
  show "v AND UART_STAT_TC = 0 \<and> probe_sending slave c n s t'"
    by (auto simp: probe_sending_def probe_ready_def uart_load_stat)
next
  fix c s t v t' assume t: "probe_sending slave c 0 s t" "ld32 soc_bus UART1_STAT t = (v, t')"
  with soc_uart.tx_done [of c s t v t']
  show "v AND UART_STAT_TC \<noteq> 0 \<and> probe_ready slave t' \<and> u_sent (uart1 t') = u_sent (uart1 s) @ [c]
      \<and> uart_inp (uart1 t') = uart_inp (uart1 s) \<and> probe_line t' = probe_line s"
    by (auto simp: probe_sending_def probe_ready_def probe_line_def uart_load_stat)
next
  fix s v s' assume s: "probe_ready slave s" "ld32 soc_bus UART1_STAT s = (v, s')"
  with soc_uart.stat_read [of s v s']
  show "probe_ready slave s' \<and> u_sent (uart1 s') = u_sent (uart1 s)
      \<and> uart_inp (uart1 s') = uart_inp (uart1 s) \<and> probe_line s' = probe_line s"
    by (auto simp: probe_ready_def probe_line_def uart_load_stat)
next
  fix s v s' assume "probe_ready slave s" "ld32 soc_bus UART1_STAT s = (v, s')" "v AND UART_STAT_RC \<noteq> 0"
  with soc_uart.rx_done [of s v s'] show "u_rx (uart1 s') \<noteq> None \<and> uart_inp (uart1 s) \<noteq> []" by (simp add: probe_ready_def)
next
  fix s v s' assume "probe_ready slave s" "ld32 soc_bus UART1_STAT s = (v, s')" "v AND UART_STAT_RC = 0"
    "uart_inp (uart1 s) \<noteq> []"
  with soc_uart.rx_wait [of s v s'] show "uart_rxwait (uart1 s') < uart_rxwait (uart1 s)" by (simp add: probe_ready_def)
next
  fix s c cs v s' assume s: "probe_ready slave s" "u_rx (uart1 s) \<noteq> None" "uart_inp (uart1 s) = c # cs"
    "ld32 soc_bus UART1_DATA s = (v, s')"
  with soc_uart.rx_data [of s c cs v s']
  show "v AND 255 = ucast c \<and> probe_ready slave s' \<and> u_sent (uart1 s') = u_sent (uart1 s)
      \<and> uart_inp (uart1 s') = cs \<and> probe_line s' = probe_line s"
    by (auto simp: probe_ready_def probe_line_def split: prod.splits)
qed

definition probe_shifting where
  "probe_shifting slave c n s t \<longleftrightarrow> i2c_shifting slave c n (i2c1 s) (i2c1 t) \<and> aside t = aside s
     \<and> uart_ready s \<and> uart_ready t \<and> u_sent (uart1 t) = u_sent (uart1 s) \<and> uart_inp (uart1 t) = uart_inp (uart1 s)"

definition probe_view where
  "probe_view s = widened (u_sent (uart1 s), uart_inp (uart1 s)) (probe_line s)"

lemma uart_ready_keeps:
  "uart_ready s \<Longrightarrow> u_ctrl (uart_tick (uart1 s)) AND UART_CTRL_EN \<noteq> 0 \<and> u_shift (uart_tick (uart1 s)) = None
     \<and> u_sent (uart_tick (uart1 s)) = u_sent (uart1 s)"
  by (simp add: uart_ready_def uart_tick_cases)

lemma probe_view_of:
  "probe_view s = i2c_view_of ((u_sent (uart1 s), uart_inp (uart1 s)), uart_ready s, aside s) (i2c1 s)"
  by (simp add: probe_view_def widened_def probe_line_def i2c_view_of_def)

lemma probe_i2c:
  "i2c_port soc_bus I2C1_BASE (probe_ready slave) (\<lambda>s. i2c_stopping (i2c1 s) \<and> uart_ready s) probe_view slave
    (probe_shifting slave)"
  apply unfold_locales
  subgoal for s v s' by (auto simp: probe_ready_def probe_view_of aside_def uart_ready_def uart_tick_cases
      dest: i2c_read_ctrl split: prod.splits)
  subgoal for s v using i2c_write_ctrl [of slave "i2c1 s" v "((u_sent (uart1 s), uart_inp (uart1 s)), uart_ready s, aside s)"]
    by (auto simp: probe_ready_def probe_view_of aside_def uart_ready_def uart_tick_cases)
  subgoal for s v using i2c_write_hardstop [of slave "i2c1 s" v] by (auto simp: probe_ready_def probe_view_of aside_def uart_ready_def uart_tick_cases)
  subgoal by (auto simp: probe_view_of aside_def uart_ready_def uart_tick_cases dest: i2c_stop_stat split: prod.splits)
  subgoal by (auto simp: probe_ready_def probe_view_of aside_def uart_ready_def uart_tick_cases dest: i2c_read_stat split: prod.splits)
  subgoal for s v s' using i2c_read_data [of slave "i2c1 s" _ _ "((u_sent (uart1 s), uart_inp (uart1 s)), uart_ready s, aside s)"]
    by (auto simp: probe_ready_def probe_view_of aside_def uart_ready_def uart_tick_cases split: prod.splits)
  subgoal for s v using i2c_start [of slave "i2c1 s" v] by (auto simp: probe_ready_def probe_shifting_def aside_def uart_ready_def uart_tick_cases)
  subgoal by (auto simp: probe_shifting_def aside_def uart_ready_def uart_tick_cases dest: i2c_busy split: prod.splits)
  subgoal for c s t v t' using i2c_done [of slave c "i2c1 s" "i2c1 t" _ _ "((u_sent (uart1 s), uart_inp (uart1 s)), uart_ready s, aside s)"]
    by (auto simp: probe_ready_def probe_shifting_def probe_view_of aside_def uart_ready_def uart_tick_cases split: prod.splits)
  subgoal by (simp add: probe_view_of probe_ready_def i2c_ready_def)
  done

interpretation soc_probe: probe soc_bus "probe_ready slave" "\<lambda>s. u_sent (uart1 s)" "\<lambda>s. uart_inp (uart1 s)" probe_line
  "probe_sending slave" "\<lambda>s. u_rx (uart1 s) \<noteq> None" "\<lambda>s. uart_rxwait (uart1 s)"
  "\<lambda>s. i2c_stopping (i2c1 s) \<and> uart_ready s" slave "probe_shifting slave"
  for slave
  using probe_uart probe_i2c [unfolded probe_view_def [abs_def]] by (rule probe.intro)


lemma probe_talks:
  "soc_probe.com.talks slave xs ys s t \<longleftrightarrow> probe_ready slave t \<and> u_sent (uart1 t) = u_sent (uart1 s) @ xs
     \<and> uart_inp (uart1 s) = ys @ uart_inp (uart1 t) \<and> probe_line t = probe_line s"
  by (simp add: soc_probe.com.talks_def)

lemma probe_start:
  assumes "u_shift (uart1 s) = None" and "i2c_ready slave (i2c1 s)"
  shows "probe_ready slave (uart1_init soc_bus BAUD_RATE UART_CTRL_EN s)"
    "u_sent (uart1 (uart1_init soc_bus BAUD_RATE UART_CTRL_EN s)) = u_sent (uart1 s)"
    "i2c1 (uart1_init soc_bus BAUD_RATE UART_CTRL_EN s) = i2c1 s"
    "mem (uart1_init soc_bus BAUD_RATE UART_CTRL_EN s) = mem s"
proof -
  have "UART_CTRL_EN AND UART_CTRL_EN \<noteq> 0" by (simp add: UART_CTRL_EN_def)
  then show "probe_ready slave (uart1_init soc_bus BAUD_RATE UART_CTRL_EN s)"
    "u_sent (uart1 (uart1_init soc_bus BAUD_RATE UART_CTRL_EN s)) = u_sent (uart1 s)"
    "i2c1 (uart1_init soc_bus BAUD_RATE UART_CTRL_EN s) = i2c1 s"
    "mem (uart1_init soc_bus BAUD_RATE UART_CTRL_EN s) = mem s"
    using assms
    by (simp_all add: uart1_init_def csr_read_def soc_speed Let_def uart_store_def
        probe_ready_def uart_ready_def uart_tick_cases uart_word_enable)
qed

lemma probe_csrr:
  assumes "probe_ready slave s" and "soc_csrr a s = (v, t)"
  shows "probe_ready slave t" "u_sent (uart1 t) = u_sent (uart1 s)" "uart_inp (uart1 t) = uart_inp (uart1 s)"
    "probe_line t = probe_line s"
  using assms
  by (auto simp: soc_csrr_def Let_def probe_ready_def uart_ready_def uart_tick_cases probe_line_def aside_def)

lemma prescaler_calm:
  "push_bit 16 x AND I2C_HARDSTOP = 0" "calm (push_bit 16 x AND I2C_CTRL_MASK)"
  "push_bit 16 x AND I2C_CTRL_MASK AND I2C_MACK = 0" for x :: u32
proof -
  have low: "push_bit 16 x AND m = 0" if "m AND NOT (mask 16) = 0" for m
  proof (rule bit_eqI)
    fix n assume "possible_bit TYPE(32 word) n"
    have "bit (m AND NOT (mask 16)) n = False" using that by simp
    then show "bit (push_bit 16 x AND m) n = bit (0 :: u32) n" by (auto simp: bit_simps)
  qed
  show "push_bit 16 x AND I2C_HARDSTOP = 0" by (rule low) (simp add: I2C_HARDSTOP_def mask_eq_exp_minus_1)
  have each: "push_bit 16 x AND m = 0" if "m = I2C_START \<or> m = I2C_STOP \<or> m = I2C_HARDSTOP \<or> m = I2C_MACK" for m
    using that by (intro low) (auto simp: I2C_HARDSTOP_def I2C_START_def I2C_STOP_def I2C_MACK_def mask_eq_exp_minus_1)
  then have "push_bit 16 x AND I2C_CTRL_MASK AND m = 0"
    if "m = I2C_START \<or> m = I2C_STOP \<or> m = I2C_HARDSTOP \<or> m = I2C_MACK" for m
  proof -
    have "push_bit 16 x AND I2C_CTRL_MASK AND m = (push_bit 16 x AND m) AND I2C_CTRL_MASK" by (simp only: ac_simps)
    with each [OF that] show ?thesis by simp
  qed
  then show "calm (push_bit 16 x AND I2C_CTRL_MASK)" "push_bit 16 x AND I2C_CTRL_MASK AND I2C_MACK = 0"
    by (auto simp: calm_def and.assoc)
qed

definition scanned :: "u8 set \<Rightarrow> u8 list" where
  "scanned A = concat (map found_line (filter (\<lambda>i. ucast (push_bit 1 i) \<in> A) (map word_of_nat [1 ..< 0x78])))"

lemma probed_addresses: "map (\<lambda>j. 1 + word_of_nat j) [0 ..< 0x77] = (map word_of_nat [1 ..< 0x78] :: u32 list)"
proof -
  have "[1 ..< 0x78] = map Suc [0 ..< 0x77]" by (simp add: map_Suc_upt)
  then show ?thesis by (simp del: upt_rec_numeral)
qed

lemma scan_texts: "0 \<notin> set (crlf @ str ''I2C1 find slaves'' @ crlf)" "0 \<notin> set (str ''Done'' @ crlf)"
  by (simp_all add: str_def ch_def)

text \<open>Setting the speed leaves the unit idle, with nothing asked for.\<close>

lemma probe_speed:
  assumes "probe_ready slave u" and t_def: "t = i2c1_init soc_bus (I2C_PRESCALER_SM v) u"
  shows "probe_ready slave t" "calm (ctrl (probe_line t))" "wire (probe_line t) = i_wire (i2c1 u)"
    "u_sent (uart1 t) = u_sent (uart1 u)" "aside t = aside u"
proof -
  have w: "probe_ready slave t" "probe_view t = (probe_view u) \<lparr> ctrl := I2C_PRESCALER_SM v AND I2C_CTRL_MASK \<rparr>"
    unfolding t_def using i2c_port.ctrl_write [OF probe_i2c assms(1), of "I2C_PRESCALER_SM v"]
    by (simp_all add: i2c1_init_def i2c_init_def I2C_PRESCALER_SM_def prescaler_calm del: soc_i2c)
  then show "probe_ready slave t" "wire (probe_line t) = i_wire (i2c1 u)"
    "u_sent (uart1 t) = u_sent (uart1 u)" "aside t = aside u"
    by (auto simp: probe_view_of i2c_view_of_def probe_line_def)
  have "ctrl (probe_line t) = I2C_PRESCALER_SM v AND I2C_CTRL_MASK"
    using w(2) by (simp add: probe_view_of i2c_view_of_def probe_line_def)
  then show "calm (ctrl (probe_line t))" by (simp add: I2C_PRESCALER_SM_def prescaler_calm)
qed

text \<open>The program after its greeting.\<close>

lemma scan_wp:
  assumes "\<And>w c. snd (slave (w @ [Start]) (Byte c True)) \<longleftrightarrow> c \<notin> A" and u: "probe_ready slave u"
  shows "returns (do { s \<leftarrow> findslaves_loop soc_bus 0x77 1 (i2c1_init soc_bus (I2C_PRESCALER_SM v) u);
       uart1_puts soc_bus (cstr (str ''Done'' @ crlf)) s }) (\<lambda>t. mem t = mem u
    \<and> i_wire (i2c1 t) = i_wire (i2c1 u) @ concat (map (\<lambda>n. probe_events (word_of_nat n)) [1 ..< 0x78])
    \<and> u_sent (uart1 t) = u_sent (uart1 u) @ scanned A @ str ''Done'' @ crlf)" (is "returns _ ?Q")
proof (rule returns_bind, rule soc_probe.findslaves_loop_wp [OF probe_speed(1,2) [OF u refl]])
  let ?u = "i2c1_init soc_bus (I2C_PRESCALER_SM v) u"
  have fixed: "reported slave w is = concat (map found_line (filter (\<lambda>i. ucast (push_bit 1 i) \<in> A) is))" for w "is"
    by (rule reported_fixed) (rule assms(1))
  fix t assume t: "probe_ready slave t" "beside (probe_line t) = beside (probe_line ?u)"
    "wire (probe_line t) = wire (probe_line ?u) @ concat (map probe_events (map (\<lambda>j. 1 + word_of_nat j) [0 ..< 0x77]))"
    "u_sent (uart1 t) = u_sent (uart1 ?u)
      @ reported slave (wire (probe_line ?u)) (map (\<lambda>j. 1 + word_of_nat j) [0 ..< 0x77])"
  show "returns (uart1_puts soc_bus (cstr (str ''Done'' @ crlf)) t) ?Q"
    by (rule soc_probe.com.puts_wp [OF t(1) scan_texts(2)])
      (use t probe_speed(3-5) [OF u refl, of v] in \<open>auto simp del: upt_rec_numeral
         simp: probed_addresses fixed scanned_def probe_talks probe_line_def i2c_view_of_eq aside_def comp_def\<close>)
qed

text \<open>C40.  \<^verbatim>\<open>i2c1findslaves\<close> probes the addresses 1 to 0x77 with a transaction of its own each, and prints a line for
  exactly those that a slave acknowledges, in ascending order. \<open>A\<close> holds the address bytes that some slave
  acknowledges after a START condition.\<close>

theorem finds_slaves:
  assumes "u_shift (uart1 s) = None" and "i2c_ready slave (i2c1 s)"
    and "\<And>w c. snd (slave (w @ [Start]) (Byte c True)) \<longleftrightarrow> c \<notin> A"
  shows "returns (findslaves soc_bus s) (\<lambda>t. mem t = mem s
    \<and> i_wire (i2c1 t) = i_wire (i2c1 s) @ concat (map (\<lambda>n. probe_events (word_of_nat n)) [1 ..< 0x78])
    \<and> u_sent (uart1 t) = u_sent (uart1 s) @ crlf @ str ''I2C1 find slaves'' @ crlf @ scanned A @ str ''Done'' @ crlf)"
    (is "returns _ ?Q")
proof -
  note init = probe_start [OF assms(1,2)]
  have greeted: "returns (case soc_csrr 0xfc1 t of (v, s) \<Rightarrow>
        do { s \<leftarrow> findslaves_loop soc_bus 0x77 1 (i2c1_init soc_bus (I2C_PRESCALER_SM v) s);
             uart1_puts soc_bus (cstr (str ''Done'' @ crlf)) s }) ?Q"
    if "soc_probe.com.talks slave (crlf @ str ''I2C1 find slaves'' @ crlf) [] (uart1_init soc_bus BAUD_RATE UART_CTRL_EN s) t" for t
  proof -
    from that have t: "probe_ready slave t" "mem t = mem s" "i_wire (i2c1 t) = i_wire (i2c1 s)"
      "u_sent (uart1 t) = u_sent (uart1 s) @ crlf @ str ''I2C1 find slaves'' @ crlf"
      by (auto simp: probe_talks init probe_line_def i2c_view_of_eq aside_def)
    obtain v u where u: "soc_csrr 0xfc1 t = (v, u)" by (cases "soc_csrr 0xfc1 t")
    from probe_csrr [OF t(1) u] t show ?thesis
      unfolding u case_prod_conv
      by (intro returns_mono [OF scan_wp [where slave = slave and A = A, OF assms(3)]]) (auto simp: probe_line_def i2c_view_of_eq aside_def)
  qed
  show ?thesis
    unfolding findslaves_def Let_def csr_read_def
    by (rule returns_bind, rule soc_probe.com.puts_wp [OF init(1) scan_texts(1)]) (simp add: greeted [simplified])
qed

theorem finds_slaves_witness:
  "returns (findslaves soc_bus (demo_soc [] echo_slave (\<lambda>h e. (0, e \<noteq> Byte 0x90 True \<and> e \<noteq> Byte 0x3a True)))) (\<lambda>t.
    u_sent (uart1 t) = crlf @ str ''I2C1 find slaves'' @ crlf
      @ str ''Slave found at address: 0x1d'' @ crlf @ str ''Slave found at address: 0x48'' @ crlf @ str ''Done'' @ crlf)"
proof -
  have hits: "filter (\<lambda>i. ucast (push_bit 1 i) \<in> {0x3a, 0x90 :: u8}) (map word_of_nat [1 ..< 0x78]) = [0x1d, 0x48 :: u32]"
    by code_simp
  have "map found_line [0x1d, 0x48] = [str ''Slave found at address: 0x1d'' @ crlf, str ''Slave found at address: 0x48'' @ crlf]"
    by (simp add: found_line_def slave_line_def str_def ch_def hexstr_digits hexdigit_def)
  with hits show ?thesis
    by (intro returns_mono [OF finds_slaves [of _ "\<lambda>h e. (0, e \<noteq> Byte 0x90 True \<and> e \<noteq> Byte 0x3a True)" "{0x3a, 0x90}"]])
      (auto simp: scanned_def demo_soc_def demo_uart_def demo_i2c_def i2c_ready_def simp del: upt_rec_numeral filter.simps push_bit_eq_mult)
qed

section \<open>A thermometer\<close>

text \<open>\<^verbatim>\<open>main\<close> of \<^verbatim>\<open>sw/i2c1tmp102/i2c1tmp102.c\<close>, in standard mode, up to its endless loop, and one turn of that loop
  with the reading in it apart.\<close>

definition TMP102_ADDR :: u8 where "TMP102_ADDR = 0x48"
definition I2C_READ :: u8 where "I2C_READ = 1"
definition I2C_WRITE :: u8 where "I2C_WRITE = 0"

text \<open>\<^verbatim>\<open>snprintf(buffer, sizeof buffer, "HI: 0x%02x, LO: 0x%02x\\r\\n", buf[0], buf[1])\<close>\<close>

definition tmp102_line :: "u8 \<Rightarrow> u8 \<Rightarrow> u8 list" where
  "tmp102_line hi lo = str ''HI: 0x'' @ hexstr 2 (unat hi) @ str '', LO: 0x'' @ hexstr 2 (unat lo) @ crlf"

definition tmp102_start :: "'d bus \<Rightarrow> 'd \<Rightarrow> 'd option" where
  "tmp102_start b s =
     do { let s = uart1_init b BAUD_RATE UART_CTRL_EN s;
          s \<leftarrow> uart1_puts b (cstr (str ''I2C1 with TMP102'' @ crlf)) s;
          let (v, s) = csr_read b 0xfc1 s;
          Some (i2c1_init b (I2C_PRESCALER_SM v) s) }"

definition tmp102_read :: "'d bus \<Rightarrow> u8 list \<Rightarrow> 'd \<Rightarrow> (u8 list \<times> 'd) option" where
  "tmp102_read b buf s =
     do { buf \<leftarrow> setb buf 0 0x00;
          (ret, s) \<leftarrow> i2c1_transmit b (push_bit 1 TMP102_ADDR OR I2C_WRITE) (Some buf) 1 s;
          if ret \<noteq> 0 then
            do { s \<leftarrow> uart1_puts b (cstr (str ''ACK failed!'' @ crlf)) s; Some (buf, s) }
          else
            do { (_, got, s) \<leftarrow> i2c1_receive b (push_bit 1 TMP102_ADDR OR I2C_READ) (Some buf) 2 s;
                 buf \<leftarrow> got;
                 s \<leftarrow> uart1_puts b (cstr (tmp102_line (buf ! 0) (buf ! 1))) s;
                 Some (buf, s) } }"

definition tmp102_turn :: "'d bus \<Rightarrow> u8 list \<Rightarrow> 'd \<Rightarrow> (u8 list \<times> 'd) option" where
  "tmp102_turn b buf s =
     do { (buf, s) \<leftarrow> tmp102_read b buf s;
          let s = gpioa_togglepin b GPIO_PIN_0 s;
          let (_, s) = delayms b 1000 s;
          Some (buf, s) }"

lemma tmp102_text: "0 \<notin> set (tmp102_line hi lo)" "0 \<notin> set (str ''ACK failed!'' @ crlf)"
  using set_hexstr [of 0] by (auto simp: tmp102_line_def isxdigit_def isdigit_def str_def ch_def)

definition tmp102_request :: "i2c_event list \<Rightarrow> i2c_event list" where
  "tmp102_request w = w @ [Start, Byte 0x90 True, Byte 0 True, Stop, Start]"

lemma probe_uart_ready: "probe_ready slave s \<Longrightarrow> uart_ready s"
  by (simp add: probe_ready_def)

text \<open>The request: writing the register number. In each case the serial port is idle afterwards.\<close>

lemma tmp102_request_wp:
  assumes s: "probe_ready slave s" and "calm (i_ctrl (i2c1 s))" "i_ctrl (i2c1 s) AND I2C_MACK = 0" and "buf \<noteq> []"
  defines "w \<equiv> i_wire (i2c1 s)"
  shows "returns (i2c_transmit I2C1_BASE soc_bus 0x90 (Some (0 # buf)) 1 s) (\<lambda>(r, t).
    (r = 0) = accepted slave (w @ [Start]) [0x90, 0]
    \<and> uart_ready t \<and> aside t = aside s \<and> u_sent (uart1 t) = u_sent (uart1 s)
    \<and> (r = 0 \<longrightarrow> probe_ready slave t \<and> i_ctrl (i2c1 t) = i_ctrl (i2c1 s)
        \<and> i_wire (i2c1 t) @ [Start] = tmp102_request w))"
  by (rule i2c_port.transmit_wp [OF probe_i2c s, where h = "w @ [Start]" and cs = "[0x90, 0]"])
    (use assms(2-4) probe_uart_ready [OF s] in
      \<open>auto simp: i2c_port.sends_def [OF probe_i2c] I2C_AF_def probe_view_of tmp102_request_def w_def\<close>)

text \<open>What the program does with the answer: the reading, which leaves the array as it is when the address is
  refused, and the line.\<close>

definition tmp102_shown ::
    "(i2c_event list \<Rightarrow> i2c_event \<Rightarrow> u8 \<times> bool) \<Rightarrow> i2c_event list \<Rightarrow> u8 \<Rightarrow> u8 list" where
  "tmp102_shown slave h old =
     (if snd (slave h (Byte 0x91 True)) then tmp102_line 0 old
      else tmp102_line (fst (slave (h @ [Byte 0x91 True]) (Byte 0xff False)))
        (fst (slave (h @ [Byte 0x91 True, Byte 0xff False]) (Byte 0xff True))))"

lemma tmp102_shown_text: "0 \<notin> set (tmp102_shown slave h old)"
  by (simp add: tmp102_shown_def tmp102_text)

lemma tmp102_answer_wp:
  assumes t: "probe_ready slave t" and "calm (i_ctrl (i2c1 t))" "i_ctrl (i2c1 t) AND I2C_MACK = 0"
    and h: "i_wire (i2c1 t) @ [Start] = h"
  shows "returns (i2c_receive I2C1_BASE soc_bus 0x91 (Some (0 # old # others)) 2 t) (\<lambda>(r, got, v).
    \<exists>b1 b2. got = Some (b1 # b2 # others) \<and> tmp102_line b1 b2 = tmp102_shown slave h old
      \<and> uart_ready v \<and> aside v = aside t \<and> u_sent (uart1 v) = u_sent (uart1 t))"
proof -
  have two: "given slave g 2 = [fst (slave g (Byte 0xff False)), fst (slave (g @ [Byte 0xff False]) (Byte 0xff True))]"
    for g by (simp add: numeral_2_eq_2)
  show ?thesis
    by (rule i2c_port.receive_wp [OF probe_i2c t, where h = h])
      (use assms(2,3) probe_uart_ready [OF t] h in
        \<open>auto simp: i2c_port.sends_def [OF probe_i2c] probe_view_of two tmp102_shown_def\<close>)
qed

lemma tmp102_read_wp:
  assumes s: "probe_ready slave s" and "calm (i_ctrl (i2c1 s))" "i_ctrl (i2c1 s) AND I2C_MACK = 0"
    and buf: "buf = b # old # others"
  defines "w \<equiv> i_wire (i2c1 s)"
  shows "returns (tmp102_read soc_bus buf s) (\<lambda>(buf', t). uart_ready t \<and> aside t = aside s
    \<and> u_sent (uart1 t) = u_sent (uart1 s) @ (if accepted slave (w @ [Start]) [0x90, 0]
        then tmp102_shown slave (tmp102_request w) old else str ''ACK failed!'' @ crlf))"
proof -
  have address: "push_bit 1 TMP102_ADDR OR I2C_WRITE = 0x90" "push_bit 1 TMP102_ADDR OR I2C_READ = 0x91"
    by (simp_all add: TMP102_ADDR_def I2C_WRITE_def I2C_READ_def)
  obtain r t where t: "i2c_transmit I2C1_BASE soc_bus 0x90 (Some (0 # old # others)) 1 s = Some (r, t)"
    "(r = 0) = accepted slave (w @ [Start]) [0x90, 0]" "uart_ready t" "aside t = aside s" "u_sent (uart1 t) = u_sent (uart1 s)"
    "r = 0 \<Longrightarrow> probe_ready slave t \<and> i_ctrl (i2c1 t) = i_ctrl (i2c1 s) \<and> i_wire (i2c1 t) @ [Start] = tmp102_request w"
    using tmp102_request_wp [OF assms(1-3), of "old # others"] by (auto simp: returns_ex w_def)
  show ?thesis
  proof (cases "r = 0")
    case False
    with t(1-5) show ?thesis
      unfolding tmp102_read_def address i2c1_transmit_def
      by (auto simp: setb_def buf returns_bind_iff soc_talks simp del: accepted.simps
          intro!: soc_uart.puts_wp [OF t(3) tmp102_text(2)])
  next
    case True
    with t(6) assms(2,3) obtain r' b1 b2 v where
      v: "i2c_receive I2C1_BASE soc_bus 0x91 (Some (0 # old # others)) 2 t = Some (r', Some (b1 # b2 # others), v)"
      "tmp102_line b1 b2 = tmp102_shown slave (tmp102_request w) old"
      "uart_ready v" "aside v = aside t" "u_sent (uart1 v) = u_sent (uart1 t)"
      using tmp102_answer_wp [of slave t "tmp102_request w" old others] by (auto simp: returns_ex)
    with True t(1,2,4,5) show ?thesis
      unfolding tmp102_read_def address i2c1_transmit_def i2c1_receive_def
      by (auto simp: setb_def buf returns_bind_iff soc_talks simp del: accepted.simps
          intro!: soc_uart.puts_wp [OF v(3) tmp102_shown_text])
  qed
qed

text \<open> One turn of the thermometer program: the register number is written and, when address and number are
  acknowledged, two bytes are read and shown in hexadecimal. A refusal is reported. When the sensor refuses the second
  address, the result of \<^verbatim>\<open>i2c1_receive\<close> is ignored: what is shown is the register number and the byte that was in the
  array before. Lamp 0 is flipped in each case.\<close>

theorem tmp102_reports:
  assumes "probe_ready slave s" and "calm (i_ctrl (i2c1 s))" "i_ctrl (i2c1 s) AND I2C_MACK = 0"
    and "buf = b # old # others" and "h = tmp102_request (i_wire (i2c1 s))"
  shows "returns (tmp102_turn soc_bus buf s) (\<lambda>(buf', t). mem t = mem s
    \<and> io t = (io s)(GPIOA_POUT := io s GPIOA_POUT XOR GPIO_PIN_0)
    \<and> u_sent (uart1 t) = u_sent (uart1 s)
      @ (if \<not> accepted slave (i_wire (i2c1 s) @ [Start]) [0x90, 0] then str ''ACK failed!'' @ crlf
         else if snd (slave h (Byte 0x91 True)) then tmp102_line 0 old
         else tmp102_line (fst (slave (h @ [Byte 0x91 True]) (Byte 0xff False)))
           (fst (slave (h @ [Byte 0x91 True, Byte 0xff False]) (Byte 0xff True)))))"
proof -
  have after: "mem v = mem t \<and> io v = (io t)(GPIOA_POUT := io t GPIOA_POUT XOR GPIO_PIN_0) \<and> u_sent (uart1 v) = u_sent (uart1 t)"
    if "uart_ready t" "(n, v) = delayms soc_bus 1000 (gpioa_togglepin soc_bus GPIO_PIN_0 t)" for t n v
    using that
    by (auto simp: delayms_def gpioa_togglepin_def rmw_def soc_gpio csr_read_def soc_speed Let_def uart_ready_def uart_tick_cases)
  show ?thesis
    unfolding tmp102_turn_def
    by (rule returns_bind, rule returns_mono [OF tmp102_read_wp [OF assms(1-4)]])
      (auto simp: assms(5) tmp102_shown_def aside_def after Let_def simp del: accepted.simps split: prod.splits if_splits)
qed

theorem tmp102_reports_witness:
  "returns (tmp102_turn soc_bus [0, 0, 0, 0] (demo [])) (\<lambda>(buf, t).
    u_sent (uart1 t) = str ''HI: 0x06, LO: 0x07'' @ crlf)"
  by (rule returns_mono [OF tmp102_reports [of count_slave "demo []" "[0, 0, 0, 0]" 0 0 "[0, 0]"]])
    (auto simp: demo_def calm_def probe_ready_def tmp102_request_def tmp102_line_def count_slave_def str_def ch_def hexstr_digits hexdigit_def)

end
