(* ===== verification/Faults.thy ===== *)
theory Faults
  imports Soc
begin

text \<open>
  The program that provokes exceptions, \<^verbatim>\<open>sw/testexceptions/testexceptions.c\<close>: its trap handler, which prints the
  cause and the addresses and returns behind the instruction, or to a label after a jump that failed. The
  instructions that provoke the exceptions are assembler and not modelled.
\<close>

text \<open>\<^verbatim>\<open>switch (mcause)\<close>\<close>

definition cause_text :: "u32 \<Rightarrow> u8 list" where
  "cause_text cause =
     str (if cause = 0 then ''Instruction address misaligned''
          else if cause = 1 then ''Instruction access fault''
          else if cause = 2 then ''Illegal instruction''
          else if cause = 3 then ''Breakpoint (ebreak)''
          else if cause = 4 then ''Load address misaligned''
          else if cause = 5 then ''Load access fault''
          else if cause = 6 then ''Store address misaligned''
          else if cause = 7 then ''Store access fault''
          else if cause = 11 then ''Environment call from M-mode (ecall)''
          else ''No description'')"

text \<open>Where the handler returns to; \<open>here\<close> and \<open>here2\<close> are labels of the program.\<close>

definition resume_at :: "u32 \<Rightarrow> u32 \<Rightarrow> u32 \<Rightarrow> u32 \<Rightarrow> u32" where
  "resume_at here here2 cause pc =
     (if cause = 1 then here else if cause = 0 then here2 else pc + 4)"

definition trap_handler_faults :: "'d bus \<Rightarrow> u32 \<Rightarrow> u32 \<Rightarrow> 'd \<Rightarrow> 'd option" where
  "trap_handler_faults b here here2 s =
     do { let (cause, s) = csr_read b mcause s;
          let (pc, s) = csr_read b mepc s;
          let (tval, s) = csr_read b mtval s;
          s \<leftarrow> uart1_puts b (cstr (str '' Exception--> mcause: '')) s;
          s \<leftarrow> printhex b cause 8 s;
          s \<leftarrow> uart1_puts b (cstr (str '', mepc: '')) s;
          s \<leftarrow> printhex b pc 8 s;
          s \<leftarrow> uart1_puts b (cstr (str '', mtval: '')) s;
          s \<leftarrow> printhex b tval 8 s;
          s \<leftarrow> uart1_puts b (cstr (str '', '')) s;
          s \<leftarrow> uart1_puts b (cstr (cause_text cause)) s;
          s \<leftarrow> uart1_puts b (cstr crlf) s;
          Some (csr_write b mepc (resume_at here here2 cause pc) s) }"

definition fault_report :: "u32 \<Rightarrow> u32 \<Rightarrow> u32 \<Rightarrow> u8 list" where
  "fault_report cause pc tval =
     str '' Exception--> mcause: '' @ hexstr 8 (unat cause) @ str '', mepc: '' @ hexstr 8 (unat pc)
     @ str '', mtval: '' @ hexstr 8 (unat tval) @ str '', '' @ cause_text cause @ crlf"

lemma fault_strings:
  "0 \<notin> set (str '' Exception--> mcause: '')" "0 \<notin> set (str '', mepc: '')" "0 \<notin> set (str '', mtval: '')"
  "0 \<notin> set (str '', '')" "0 \<notin> set (cause_text c)" "0 \<notin> set crlf"
  by (simp_all add: cause_text_def str_def ch_def)

lemma soc_trap_csr:
  "a = mcause \<or> a = mepc \<or> a = mtval \<Longrightarrow> soc_csrr a s = (csrs s a, tick s)"
  by (auto simp: soc_csrr_def addr_defs Let_def)

text \<open>A string or a number after what was sent since the beginning.\<close>

lemma puts_after:
  assumes "soc_uart.talks xs [] s t" and "0 \<notin> set cs" and "\<And>u. soc_uart.talks (xs @ cs) [] s u \<Longrightarrow> returns (f u) Q"
  shows "returns (uart1_puts soc_bus (cstr cs) t \<bind> f) Q"
  using soc_uart.talks_trans [OF assms(1)] assms(3)
  by (intro returns_bind soc_uart.puts_wp [OF soc_uart.talks_ready [OF assms(1)] assms(2)]) fastforce

lemma printhex_after:
  assumes "soc_uart.talks xs [] s t" and "\<And>u. soc_uart.talks (xs @ hexstr 8 (unat v)) [] s u \<Longrightarrow> returns (f u) Q"
  shows "returns (printhex soc_bus v 8 t \<bind> f) Q"
  using soc_uart.talks_trans [OF assms(1)] assms(2)
  by (intro returns_bind soc_uart.printhex_wp [OF soc_uart.talks_ready [OF assms(1)]]) fastforce

text \<open>The handler prints the cause in words and in numbers and moves \<^verbatim>\<open>mepc\<close> behind the instruction, or to
  the label \<open>here\<close> after an instruction access fault and to \<open>here2\<close> after a misaligned jump; nothing else of the
  machine changes.\<close>

theorem fault_reported:
  assumes "uart_ready s"
  shows "returns (trap_handler_faults soc_bus here here2 s) (\<lambda>t.
    u_sent (uart1 t) = u_sent (uart1 s) @ fault_report (csrs s mcause) (csrs s mepc) (csrs s mtval)
    \<and> csrs t = (csrs s) (mepc := resume_at here here2 (csrs s mcause) (csrs s mepc))
    \<and> mem t = mem s \<and> io t = io s \<and> uart_ready t)"
proof -
  have t: "soc_uart.talks [] [] s (tick (tick (tick s)))"
    using assms by (simp add: soc_talks uart_ready_def uart_tick_cases aside_def)
  show ?thesis
    unfolding trap_handler_faults_def csr_read_def soc_bus_simps
    by (simp only: soc_trap_csr Let_def case_prod_conv simp_thms)
      (rule puts_after [OF t fault_strings(1)], erule printhex_after, erule puts_after [OF _ fault_strings(2)],
       erule printhex_after, erule puts_after [OF _ fault_strings(3)], erule printhex_after,
       erule puts_after [OF _ fault_strings(4)], erule puts_after [OF _ fault_strings(5)],
       erule puts_after [OF _ fault_strings(6)],
       simp add: soc_talks fault_report_def aside_def csr_write_def soc_csrw_def Let_def uart_ready_def uart_tick_cases)
qed


theorem fault_reported_witness:
  "returns (trap_handler_faults soc_bus 0x100 0x200 ((demo []) \<lparr> csrs := (\<lambda>_. 0) (mcause := 5, mepc := 0x80, mtval := 0x30000000) \<rparr>))
    (\<lambda>t. csrs t mepc = 0x84 \<and> u_sent (uart1 t) =
      str '' Exception--> mcause: 00000005, mepc: 00000080, mtval: 30000000, Load access fault'' @ crlf)"
proof -
  have eight: "hexstr 8 v = hexstr 4 (v div 65536) @ hexstr 4 v" for v
    using hexstr_add [of 4 4 v] by simp
  have numbers: "hexstr 8 5 = str ''00000005''" "hexstr 8 0x80 = str ''00000080''" "hexstr 8 0x30000000 = str ''30000000''"
    by (simp_all add: eight hexstr_digits hexdigit_def str_def ch_def)
  let ?s = "(demo []) \<lparr> csrs := (\<lambda>_. 0) (mcause := 5, mepc := 0x80, mtval := 0x30000000) \<rparr>"
  have report: "fault_report (csrs ?s mcause) (csrs ?s mepc) (csrs ?s mtval)
    = str '' Exception--> mcause: 00000005, mepc: 00000080, mtval: 30000000, Load access fault'' @ crlf"
    by (simp add: fault_report_def cause_text_def addr_defs numbers str_def ch_def)
  have "uart_ready ?s" "u_sent (uart1 ?s) = []"
    by (simp_all add: demo_def demo_soc_def demo_uart_def uart_ready_def UART_CTRL_EN_def)
  from fault_reported [OF this(1), of "0x100" "0x200"] this(2) show ?thesis
    unfolding report by (elim returns_mono) (simp add: resume_at_def addr_defs)
qed

end
