(* ===== verification/Spec2Isabelle.thy ===== *)
theory Spec2Isabelle
  imports Soc Tables Card Interrupts Bounded Seriallaws Uploadlaws Mountlaws Unilaws Display Probes Faults
begin

text \<open>
  The firmware, the drivers and the host tools of the THUAS RISC-V processor: an RV32 softcore with a
  serial port, two SPI and two I2C units, timers, a CRC unit and a watchdog. The C code lives under
  \<^verbatim>\<open>sw/\<close>: a library of drivers (\<^verbatim>\<open>sw/lib\<close>), start-up code (\<^verbatim>\<open>sw/crt\<close>), a bootloader, sample programs,
  and tools for the host that turn S-record files into ROM tables or send them to the board.

  How the parts interact. Every program starts in \<^verbatim>\<open>sw/crt/startup.c\<close> and reaches the hardware through the
  register structs of \<^verbatim>\<open>sw/include\<close>; the drivers poll the status registers of their units. The bootloader
  reads commands and S-records from the serial port, stores into memory and starts the program it has
  loaded. Programs use the drivers, the printing functions and, through the C library, the system call
  stubs or the trap handler.

  THE MODEL. The machine is an argument: a record of type \<^verbatim>\<open>'d bus\<close> (theory \<^verbatim>\<open>Hw\<close>) holds loads and stores of
  8, 16 and 32 bits and reads and writes of control registers, each of which takes the state of the world
  and gives a new one. A C function is a function over that record. A function that may wait for the
  hardware or leave the defined behaviour of C returns an \<^verbatim>\<open>option\<close>: None says that there is no result, because
  the function does not return or because it reads or writes behind an array. So "returns x Q", used in most
  theorems, says that the call does return and that Q holds of the result. Integers are words of the width
  the code gives them; a \<^verbatim>\<open>char *\<close> is None for NULL or the bytes of the array from the pointer on; loops with a
  counter recurse on the turns left, loops that poll are \<^verbatim>\<open>partial_function (option)\<close>, with no fuel.

  What a driver relies on is a locale with laws on the bus: \<^verbatim>\<open>uart_port\<close> (Uart), \<^verbatim>\<open>spi_port\<close> (Spi), \<^verbatim>\<open>i2c_port\<close>
  (I2c), \<^verbatim>\<open>crc_port\<close> and \<^verbatim>\<open>counter\<close> (Periph), \<^verbatim>\<open>ram_port\<close> and \<^verbatim>\<open>board\<close> (Ram), \<^verbatim>\<open>sd_port\<close> (Sdlaws, extends \<^verbatim>\<open>spi_port\<close>),
  \<^verbatim>\<open>trap_port\<close> (Traplaws, extends \<^verbatim>\<open>ram_port\<close>), \<^verbatim>\<open>probe\<close> (Probes, joins \<^verbatim>\<open>uart_port\<close> and \<^verbatim>\<open>i2c_port\<close>). Four more state what
  is at the other end: \<^verbatim>\<open>semaphores\<close> and \<^verbatim>\<open>tasks\<close> (Bounded) the FreeRTOS kernel, \<^verbatim>\<open>loader\<close> (Uploadlaws) a device that the
  bootloader answers on, and \<^verbatim>\<open>sector_store\<close> (Diskio) a card that keeps its sectors; \<^verbatim>\<open>block_disk\<close> (Fatlaws) is what
  FatFs relies on in a disk. The laws are those of
  the units of \<^verbatim>\<open>rtl/thuas-riscv\<close>: a character is sent some time after it is written to the data register, the
  transmit-complete flag is then set, and so on; each wait has a measure that decreases on every poll. Theory
  \<^verbatim>\<open>Soc\<close> holds a machine with these units, at an arbitrary pace, and interprets the locales on it; the
  properties are stated on that machine.

  THE THEORIES.
  Prelude: words, strings, \<^verbatim>\<open>returns\<close>, polling. Hw: registers, masks and CSR macros (\<^verbatim>\<open>sw/include\<close>). Clib: the
  character functions of the C library. Records: the meaning of an S-record file, used by the bootloader, the
  table generators and the uploader alike.
  Uart, Spi, I2c, Periph, Util, Syscalls, Startup: the components of \<^verbatim>\<open>sw/lib\<close> and \<^verbatim>\<open>sw/crt\<close> of that name, each
  with its contract and its lemmas (\<^verbatim>\<open>*_wp\<close>: the call returns, with this result).
  Ram: the contract of memory, below a limit plain bytes; \<^verbatim>\<open>board\<close> joins it with the serial port.
  Boot: \<^verbatim>\<open>sw/bootloader/bootloader.c\<close>. Monitor: \<^verbatim>\<open>sw/monitor/monitor.c\<close>.
  Sdcard, Sdlaws, Card: \<^verbatim>\<open>sw/fatfs/sdcard.c\<close>, its lemmas over the contract of the card, and its properties.
  Diskio: \<^verbatim>\<open>sw/fatfs/diskio.c\<close>, over the functions of the card. Fat: the sector window, the allocation tables and the
  cluster chains of \<^verbatim>\<open>sw/fatfs/ff.c\<close>; Fatlaws, Fatchain: their lemmas over the contract \<^verbatim>\<open>block_disk\<close> of a disk of
  sectors, from the bytes of an entry up to the table as a function of the cluster number, \<^verbatim>\<open>fat_state\<close>; Fatcard: the
  contract holds for the card behind Diskio, and the properties. Fatmount, Mountlaws: finding and mounting a volume, and
  that a mounted volume object is well formed, \<^verbatim>\<open>layout_ok\<close>. Unicode, Unilaws: \<^verbatim>\<open>sw/fatfs/ffunicode.c\<close> and the
  UTF-8 functions of \<^verbatim>\<open>ff.c\<close>.
  Handlers, Traps, Traplaws, Interrupts: the trap handlers and interrupt handlers of \<^verbatim>\<open>sw/interrupt_direct\<close> and
  \<^verbatim>\<open>sw/interrupt_vectored\<close>, the lemmas on the frame that the assembler saves, and their properties. Faults: the
  handler of \<^verbatim>\<open>sw/testexceptions\<close>.
  Serial, Seriallaws: \<^verbatim>\<open>sw/uart1_interrupt\<close>, the serial port driven by interrupts: program, handler and every
  interleaving of the two as a step relation \<^verbatim>\<open>echo_step\<close>, and the invariant.
  Bounded: \<^verbatim>\<open>sw/FreeRTOSbb\<close>, two tasks with semaphores under any scheduler.
  Display: \<^verbatim>\<open>sw/i2c1ssd1315\<close>. Probes: \<^verbatim>\<open>sw/i2c1findslaves\<close> and \<^verbatim>\<open>sw/i2c1tmp102\<close>.
  Srec, Tables: the host tools \<^verbatim>\<open>sw/srec2vhdl\<close> and \<^verbatim>\<open>sw/srec2mif\<close>, and what they write for a file of S-records.
  Upload, Uploadlaws: the host tool \<^verbatim>\<open>sw/upload\<close> as on Linux, over a record of the calls of the operating system, and
  what it and the bootloader do together.
  Spec2Isabelle: the properties of the library, the bootloader, the monitor and the system call stubs.

  WHAT THE LEMMAS SHOW. The serial port: characters come out in the order they were given, \<^verbatim>\<open>uart1_gets\<close> stays in
  its array and edits as specified, numbers are printed so that they can be read back. The bootloader: the
  upload of any file of S-records leaves exactly its bytes in memory and starts the application at the
  address of the last end record; the commands of the monitor read and write exactly the addressed cell. The
  uploader sends a file so that the bootloader ends with these bytes in memory, and reports what goes wrong. The
  buses: a transaction moves the bytes of the buffers in order and ends with STOP; errors are reported; the display
  gets the rows of the font, and the search for slaves finds exactly those that answer. The
  SD card: a card that behaves is initialised, sectors are moved unchanged, what the disk functions store they read
  back, every kind of error has its theorem. FatFs: through one sector buffer \<^verbatim>\<open>put_fat\<close> and \<^verbatim>\<open>get_fat\<close> behave as update
  and lookup of one table, in all three formats; chains grow by free clusters only and are freed completely; the
  second copy of the table on the card follows; characters survive UTF-8. Traps: the interrupted program gets back its registers and memory. The
  serial port with interrupts: in every interleaving lines come in and strings go out complete and within their
  arrays. The bounded buffer: no item is lost or doubled, the tasks exclude each other and never deadlock. The table
  generators refine the meaning of the file.

  BOUNDS. Memory accesses of the model are those of a bus that needs alignment; the laws of \<^verbatim>\<open>ram_port\<close>
  speak of aligned addresses only, and the code whose address may be unaligned is given that as a
  hypothesis. The loops of the I2C and SPI drivers count with an unsigned length that the code compares as it
  is; the theorems bound it by the length of the buffers. No fuel is used: \<^verbatim>\<open>nat\<close> arguments of loops are the
  numbers of turns that the code fixes.

  NOT MODELLED. Of FatFs, which is the work of another author, the directories and
  the functions on files, and what \<^verbatim>\<open>ffconf.h\<close> turns off; CoreMark, Dhrystone, Whetstone and \<^verbatim>\<open>getopt.c\<close>, which are the work of
  others, vendored; the copies of the sources under \<^verbatim>\<open>eclipse/\<close>; the functions of the uploader for Windows; the short
  demonstration programs that only call the drivers, with floating point in some; the FreeRTOS kernel, which is not
  in the repository; the VHDL. \<^verbatim>\<open>vsnprintf\<close>, \<^verbatim>\<open>getopt\<close> and the calls of the operating system are arguments. Timing is
  modelled as order only: how long a poll or a delay loop takes is left open. In Serial a trap is taken between two
  calls of the program, not within one; in Traps it is taken between two instructions.
\<close>

section \<open>The serial port\<close>

text \<open>The relation between the states before and after a function that talks over the serial port
  and does nothing else.\<close>

definition talked :: "u8 list \<Rightarrow> u8 list \<Rightarrow> soc \<Rightarrow> soc \<Rightarrow> bool" where
  "talked sent got s t \<longleftrightarrow> uart_ready t \<and> u_sent (uart1 t) = u_sent (uart1 s) @ sent
     \<and> uart_inp (uart1 s) = got @ uart_inp (uart1 t) \<and> aside t = aside s"

lemma talked_talks: "talked sent got s t = soc_uart.talks sent got s t"
  by (simp add: talked_def soc_talks)

text \<open>C5. \<^verbatim>\<open>uart1_gets\<close> reads exactly one line, stays within the caller's array, returns the length
  of the edited line (backspace, control-U and control-C applied, printable characters kept while
  fewer than \<^verbatim>\<open>size - 1\<close> are there), stores it with its terminator, and echoes as specified.\<close>

theorem gets_line:
  assumes "uart_ready s" and "0 < sz" and "sz \<le> int (length buf)"
    and "uart_inp (uart1 s) = cs @ nl # later" and "nl = 10 \<or> nl = 13" and "10 \<notin> set cs" "13 \<notin> set cs"
  shows "returns (uart1_gets soc_bus buf sz s) (\<lambda>(n, buf', s').
    n = length (foldl (gets_text sz) [] cs) \<and> int n < sz \<and> list_all printable (take n buf')
      \<and> take n buf' = foldl (gets_text sz) [] cs \<and> buf' ! n = 0 \<and> length buf' = length buf
      \<and> talked (gets_echoes sz [] cs @ crlf) (cs @ [nl]) s s')"
  using soc_uart.gets_wp [OF assms]
  by (rule returns_mono)
    (use assms(2) in \<open>auto simp: talked_talks foldl_gets_text_length foldl_gets_text_printable\<close>)

theorem gets_line_witness:
  "returns (uart1_gets soc_bus (replicate 4 0) 4 (demo [97, 8, 104, 105, 105, 105, 13, 33])) (\<lambda>(n, buf', s').
    n = 3 \<and> int n < 4 \<and> list_all printable (take n buf') \<and> take n buf' = [104, 105, 105] \<and> buf' ! n = 0
      \<and> length buf' = 4
      \<and> talked [97, 127, 104, 105, 105, 7, 13, 10] [97, 8, 104, 105, 105, 105, 13]
          (demo [97, 8, 104, 105, 105, 105, 13, 33]) s')"
  using gets_line [of "demo [97, 8, 104, 105, 105, 105, 13, 33]" 4 "replicate 4 0" "[97, 8, 104, 105, 105, 105]"
      13 "[33]"]
  by (simp add: demo_def gets_text_def gets_echo_def printable_def numeral_3_eq_3)

text \<open>\<^verbatim>\<open>uart1_puts\<close> sends the characters of the string in order, without the terminator, and
  nothing else.\<close>

theorem puts_sends:
  assumes "uart_ready s" and "0 \<notin> set cs"
  shows "returns (uart1_puts soc_bus (Some (cs @ 0 # tail)) s) (talked cs [] s)"
  using assms by (intro soc_uart.puts_buf_wp) (auto simp: talked_talks)

theorem puts_sends_witness:
  "returns (uart1_puts soc_bus (Some [72, 105, 0, 88]) (demo [])) (talked [72, 105] [] (demo []))"
  using puts_sends [of "demo []" "[72, 105]" "[88]"] by (simp add: demo_def)

text \<open>Reading a character with nothing on the line never returns.\<close>

theorem getc_waits_forever:
  assumes "uart_ready s" and "uart_inp (uart1 s) = []"
  shows "uart1_getc soc_bus s = None"
  using assms by (rule soc_uart.getc_blocks)

theorem getc_waits_forever_witness: "uart1_getc soc_bus (demo []) = None"
  using getc_waits_forever [of "demo []"] by (simp add: demo_def)

section \<open>Numbers\<close>

text \<open>C9. \<^verbatim>\<open>printhex\<close> sends exactly the asked number of digits (8 for a width out of range), and
  \<^verbatim>\<open>parsehex\<close> applied to what it sends gives the number back, up to the digits that were cut.\<close>

theorem printhex_parsehex:
  assumes "uart_ready s"
  shows "returns (printhex soc_bus v n s) (\<lambda>s'. \<exists>ds. talked ds [] s s'
    \<and> length ds = (if n < 1 \<or> n > 8 then 8 else nat n)
    \<and> parsehex (ds @ [0]) = Some (v AND mask (4 * length ds), [0]))"
proof (rule soc_uart.printhex_wp [OF assms])
  define k where "k = (if n < 1 \<or> n > 8 then 8 else nat n)"
  have k: "1 \<le> k" "k \<le> 8" by (auto simp: k_def)
  have "list_all isxdigit (hexstr k (unat v))" by (auto simp: list_all_iff dest: set_hexstr)
  moreover have "hexstr k (unat v) \<noteq> []" using k(1) by (metis length_hexstr list.size(3) not_one_le_zero)
  ultimately have "parsehex (hexstr k (unat v) @ [0]) = Some (word_of_nat (unat v mod 16 ^ k), [0])"
    using parsehex_eq [of "[]" "hexstr k (unat v)" 0 "[]"] by (simp add: isxdigit_def isdigit_def hexnum_hexstr)
  also have "word_of_nat (unat v mod 16 ^ k) = v AND mask (4 * k)"
    by (simp add: and_mask_word power_mult)
  finally have "parsehex (hexstr k (unat v) @ [0]) = Some (v AND mask (4 * k), [0])" .
  then show "\<exists>ds. talked ds [] s s' \<and> length ds = (if n < 1 \<or> n > 8 then 8 else nat n)
      \<and> parsehex (ds @ [0]) = Some (v AND mask (4 * length ds), [0])"
    if "soc_uart.talks (hexstr (if n < 1 \<or> n > 8 then 8 else nat n) (unat v)) [] s s'" for s'
    using that by (intro exI [of _ "hexstr k (unat v)"]) (simp add: talked_talks flip: k_def)
qed

theorem printhex_parsehex_witness:
  "returns (printhex soc_bus 0xbeef 4 (demo [])) (\<lambda>s'. \<exists>ds. talked ds [] (demo []) s'
    \<and> length ds = 4 \<and> parsehex (ds @ [0]) = Some (0xbeef AND mask (4 * length ds), [0]))"
  using printhex_parsehex [of "demo []" "0xbeef" 4] by (simp add: demo_def)

text \<open>\<^verbatim>\<open>printdec\<close> sends the decimal representation of every 32-bit number, the most negative one
  included.\<close>

theorem printdec_decimal:
  assumes "uart_ready s"
  shows "returns (printdec soc_bus v s) (talked (intstr (sint v)) [] s)"
  using assms by (intro soc_uart.printdec_wp) (auto simp: talked_talks)

theorem printdec_decimal_witness:
  "returns (printdec soc_bus 0x80000000 (demo [])) (talked (intstr (- 2147483648)) [] (demo []))"
  using printdec_decimal [of "demo []" "0x80000000"] by (simp add: demo_def)

text \<open>\<^verbatim>\<open>uart1_printlonglong\<close> and \<^verbatim>\<open>uart1_printulonglong\<close> do the same for 64 bits.\<close>

theorem printlonglong_decimal:
  assumes "uart_ready s"
  shows "returns (uart1_printlonglong soc_bus v s) (talked (intstr (sint v)) [] s)
    \<and> returns (uart1_printulonglong soc_bus v s) (talked (decstr (unat v)) [] s)"
  using assms
  by (auto intro!: soc_uart.printlonglong_wp soc_uart.printulonglong_wp simp: talked_talks)

theorem printlonglong_decimal_witness:
  "returns (uart1_printlonglong soc_bus (- 42) (demo [])) (talked (intstr (sint (- 42 :: u64))) [] (demo []))
    \<and> returns (uart1_printulonglong soc_bus (- 42) (demo [])) (talked (decstr (unat (- 42 :: u64))) [] (demo []))"
  using printlonglong_decimal [of "demo []" "- 42"] by (simp add: demo_def)

text \<open>\<^verbatim>\<open>gethex(n)\<close> consumes exactly \<open>n\<close> characters and returns the number they denote.\<close>

theorem gethex_reads:
  assumes "uart_ready s" and "uart_inp (uart1 s) = cs @ later" and "length cs \<le> 8"
  shows "returns (gethex soc_bus (int (length cs)) s)
    (\<lambda>(v, s'). unat v = hexnum cs \<and> talked [] cs s s')"
proof (rule soc_uart.gethex_wp [OF assms(1,2) refl])
  have "hexnum cs < 16 ^ 8"
    using hexnum_bound [of cs] power_increasing [OF assms(3), of "16 :: nat"] by simp
  then have "unat (word_of_nat (hexnum cs) :: u32) = hexnum cs"
    by (simp add: unsigned_of_nat take_bit_nat_eq_self_iff)
  then show "case (word_of_nat (hexnum cs) :: u32, s') of (v, s') \<Rightarrow> unat v = hexnum cs \<and> talked [] cs s s'"
    if "soc_uart.talks [] cs s s'" for s' using that by (simp add: talked_talks)
qed

theorem gethex_reads_witness:
  "returns (gethex soc_bus 3 (demo [49, 97, 70, 88])) (\<lambda>(v, s'). unat v = 0x1af
    \<and> talked [] [49, 97, 70] (demo [49, 97, 70, 88]) s')"
  using gethex_reads [of "demo [49, 97, 70, 88]" "[49, 97, 70]" "[88]"]
  by (simp add: demo_def hexnum_def hexval_def isdigit_def isxdigit_def tolower_def)

text \<open>The delay loop of \<^verbatim>\<open>delayms\<close> makes as many turns as the number of milliseconds times the
  turns per millisecond, modulo \<^verbatim>\<open>2^32\<close>; when that product is 0, as for a delay of 0, it makes
  \<^verbatim>\<open>2^32\<close> turns, because the loop decrements before it tests.\<close>

theorem delayms_turns:
  "fst (delayms soc_bus delay s) =
    (let speed = unat (if csrs s 0xfc1 = 0 then F_CPU else csrs s 0xfc1);
         n = unat delay * (speed div 4000 + 1) mod 2 ^ 32
     in if n = 0 then 2 ^ 32 else n)"
proof -
  have rd: "csr_read soc_bus 0xfc1 s = (csrs s 0xfc1, tick s)"
    by (simp add: csr_read_def soc_csrr_def addr_defs Let_def)
  define speed where "speed = (if csrs s 0xfc1 = 0 then F_CPU else csrs s 0xfc1)"
  have prems: "unat (speed div 4000 + 1) = unat speed div 4000 + 1"
  proof -
    have "unat speed < 2 ^ 32" using unsigned_less [of speed] by simp
    then show ?thesis by (simp add: unat_word_ariths unat_div_distrib)
  qed
  have "unat (delay * (speed div 4000 + 1)) = unat delay * (unat speed div 4000 + 1) mod 2 ^ 32"
    by (simp add: unat_word_ariths(2) prems del: One_nat_def)
  then have "delay_turns (delay * (speed div 4000 + 1)) =
      (let n = unat delay * (unat speed div 4000 + 1) mod 2 ^ 32 in if n = 0 then 2 ^ 32 else n)"
    unfolding delay_turns_eq Let_def by (metis unat_0 word_eq_unat_iff)
  then show ?thesis
    by (simp only: delayms_def rd speed_def [symmetric] Let_def case_prod_conv fst_conv)
qed

section \<open>The bootloader\<close>

text \<open>What the answer to a line of an upload looks like, for the two ways of starting an upload.\<close>

text \<open>Patching one byte of a word that was read from memory and writing the word back stores that
  byte, for each of the four positions, and changes nothing else.\<close>

theorem patch_is_store:
  assumes "hexnum d < 256"
  shows "put_word (v AND NOT 3) (patch v (word_of_nat (hexnum d)) (mem_word m (v AND NOT 3))) m
    = m (v := byte_of d)"
  using patch_store [of "word_of_nat (hexnum d)" v m] bit_byte [OF assms] by (simp add: byte_of_def)

theorem patch_is_store_witness:
  "put_word (0x102 AND NOT 3) (patch 0x102 (word_of_nat (hexnum [97, 98]))
    (mem_word (\<lambda>a. ucast a) (0x102 AND NOT 3))) (\<lambda>a. ucast a) = (\<lambda>a. ucast a) (0x102 := 0xab)"
  using patch_is_store [of "[97, 98]" "0x102" "\<lambda>a. ucast a"]
  by (simp add: byte_of_def hexnum_def hexval_def isdigit_def isxdigit_def tolower_def)

text \<open>C1. An upload in S-records that ends with \<^verbatim>\<open>J\<close>: every line is answered (unless the upload was
  started with \<^verbatim>\<open>$\<close>), memory holds the bytes of all data records at their addresses and is
  otherwise as before, and the application is started at the address of the last end record, with
  the serial port off. The application may return or not.\<close>

theorem upload_runs_application:
  assumes "uart_ready s" and "c = 33 \<or> c = 36"
    and "\<forall>l\<in>set ls. line_ok IO_BASE l"
    and "uart_inp (uart1 s) = c # concat (map line_chars ls) @ 74 # later"
    and "\<And>u. u_shift (uart1 u) = None \<Longrightarrow> mem u = fold line_store ls (mem s) \<Longrightarrow>
      u_sent (uart1 u) = u_sent (uart1 s) @ concat (replicate (length ls + 2) (answer (c = 36))) \<Longrightarrow>
      returns (app (foldl line_start p ls) u)
        (\<lambda>v. Q (foldl line_start p ls, soc_st32 GPIOA_POUT 0xaa v))"
  shows "returns (boot_upload soc_bus app p s) Q"
  using soc_board.boot_upload_jump [OF assms(1-4), of app p Q] assms(5) by (simp add: soc_started)

text \<open>An example: one data record with two bytes, and an end record.\<close>

definition demo_lines :: "line list" where
  "demo_lines = [Data 2 [48, 53] [48, 49, 48, 48] [[52, 65], [52, 66]] [48, 48, 13],
     End 2 [48, 51] [48, 49, 48, 49] [13]]"

theorem upload_runs_application_witness:
  "returns (boot_upload soc_bus (\<lambda>p u. if p = 0x101 \<and> mem u 0x101 = 0x4b then Some u else None) 0
    (demo (33 # concat (map line_chars demo_lines) @ [74]))) (\<lambda>(q, v). q = 0x101)"
  by (rule upload_runs_application [of _ 33 demo_lines])
    (auto simp: demo_def demo_lines_def IO_BASE_def hexnum_def hexval_def isdigit_def isxdigit_def
      tolower_def addr_of_def byte_of_def less_Suc_eq)

text \<open>C2. The monitor's write commands: after \<^verbatim>\<open>wb\<close>, \<^verbatim>\<open>wh\<close> or \<^verbatim>\<open>ww\<close> with an address and data in
  hexadecimal, memory holds the byte, halfword or word at that address and is otherwise unchanged;
  the line is echoed between the prompt and the line ends.\<close>

theorem monitor_writes:
  assumes "uart_ready s" and "length buffer = BUFLEN"
    and "uart_inp (uart1 s) = write_line k A D @ 13 # later"
    and "k \<in> {98, 104, 119}" and "list_all isxdigit A" "A \<noteq> []" "list_all isxdigit D" "D \<noteq> []"
    and "length (write_line k A D) < BUFLEN" and "addr_of A < IO_BASE" and "cell_aligned k (addr_of A)"
  shows "returns (boot_turn soc_bus app p (addr, buffer, s)) (\<lambda>(a, buf, v). a = addr_of A
    \<and> length buf = BUFLEN \<and> uart_ready v
    \<and> mem v = put_cell k (addr_of A) (addr_of D) (mem s)
    \<and> u_sent (uart1 v) = u_sent (uart1 s) @ str ''> '' @ write_line k A D @ crlf @ crlf
    \<and> uart_inp (uart1 v) = later)"
  by (rule returns_mono [OF soc_board.turn_write_wp [OF assms]]) (use assms(3) in \<open>auto simp: soc_does\<close>)

theorem monitor_writes_witness:
  "returns (boot_turn soc_bus (\<lambda>p u. None) 0 (0, replicate BUFLEN 0,
      demo (write_line 98 [50, 48] [97, 98] @ [13])))
    (\<lambda>(a, buf, v). a = addr_of [50, 48] \<and> length buf = BUFLEN \<and> uart_ready v
    \<and> mem v = put_cell 98 (addr_of [50, 48]) (addr_of [97, 98]) (\<lambda>_. 0)
    \<and> u_sent (uart1 v) = str ''> '' @ write_line 98 [50, 48] [97, 98] @ crlf @ crlf
    \<and> uart_inp (uart1 v) = [])"
  using monitor_writes [of "demo (write_line 98 [50, 48] [97, 98] @ [13])" "replicate BUFLEN 0" 98
      "[50, 48]" "[97, 98]" "[]" "\<lambda>p u. None" 0 0]
  by (simp add: demo_def isxdigit_def isdigit_def BUFLEN_def write_line_def addr_of_def hexnum_def
      hexval_def tolower_def IO_BASE_def cell_aligned_def)

text \<open>The monitor's read commands print the address and the contents of memory there, in as
  many digits as the size has, and change nothing in memory.\<close>

theorem monitor_reads:
  assumes "uart_ready s" and "length buffer = BUFLEN"
    and "uart_inp (uart1 s) = read_line k A @ 13 # later"
    and "k \<in> {98, 104, 119}" and "list_all isxdigit A" "A \<noteq> []"
    and "length (read_line k A) < BUFLEN" and "addr_of A < IO_BASE" and "cell_aligned k (addr_of A)"
  shows "returns (boot_turn soc_bus app p (addr, buffer, s)) (\<lambda>(a, buf, v). a = addr_of A
    \<and> length buf = BUFLEN \<and> uart_ready v \<and> mem v = mem s
    \<and> u_sent (uart1 v) = u_sent (uart1 s) @ str ''> '' @ read_line k A @ crlf
        @ hexstr 8 (unat (addr_of A)) @ str '': '' @ get_cell k (mem s) (addr_of A) @ crlf
    \<and> uart_inp (uart1 v) = later)"
  by (rule returns_mono [OF soc_board.turn_read_wp [OF assms]]) (use assms(3) in \<open>auto simp: soc_does\<close>)

theorem monitor_reads_witness:
  "returns (boot_turn soc_bus (\<lambda>p u. None) 0 (0, replicate BUFLEN 0, demo (read_line 119 [50, 48] @ [13])))
    (\<lambda>(a, buf, v). a = addr_of [50, 48] \<and> length buf = BUFLEN \<and> uart_ready v \<and> mem v = (\<lambda>_. 0)
    \<and> u_sent (uart1 v) = str ''> '' @ read_line 119 [50, 48] @ crlf
        @ hexstr 8 (unat (addr_of [50, 48])) @ str '': '' @ get_cell 119 (\<lambda>_. 0) (addr_of [50, 48]) @ crlf
    \<and> uart_inp (uart1 v) = [])"
  using monitor_reads [of "demo (read_line 119 [50, 48] @ [13])" "replicate BUFLEN 0" 119
      "[50, 48]" "[]" "\<lambda>p u. None" 0 0]
  by (simp add: demo_def isxdigit_def isdigit_def BUFLEN_def read_line_def addr_of_def hexnum_def
      hexval_def tolower_def IO_BASE_def cell_aligned_def)

text \<open>Without a key, the wait of ten times \<^verbatim>\<open>2^20\<close> turns ends after exactly ten stars.\<close>

theorem wait_without_key:
  assumes "uart_ready s" and "uart_inp (uart1 s) = []"
  shows "returns (wait_key soc_bus s) (\<lambda>(hit, t). \<not> hit \<and> uart_ready t
      \<and> mem t = mem s \<and> u_sent (uart1 t) = u_sent (uart1 s) @ replicate 10 42)"
  using assms by (intro soc_board.wait_key_silent) (auto simp: soc_does BOOTWAIT_def)

theorem wait_without_key_witness:
  "returns (wait_key soc_bus (demo [])) (\<lambda>(hit, t). \<not> hit \<and> uart_ready t
      \<and> mem t = (\<lambda>_. 0) \<and> u_sent (uart1 t) = replicate 10 42)"
  using wait_without_key [of "demo []"] by (simp add: demo_def)

section \<open>The monitor program\<close>

text \<open>C22. The stand-alone monitor's write commands store the byte, halfword or word at an aligned address,
  whatever byte order is selected, and answer a misaligned address with a message and no store.\<close>

theorem monitor_program_writes:
  assumes "uart_ready s" and "length buffer = 40"
    and "uart_inp (uart1 s) = write_line k A D @ 13 # later"
    and "k \<in> {98, 104, 119}" and "list_all isxdigit A" "A \<noteq> []" "list_all isxdigit D" "D \<noteq> []"
    and "length (write_line k A D) < 40" and "addr_of A < IO_BASE"
  shows "returns (monitor_turn soc_bus (little, buffer, s)) (\<lambda>(little', buf, v). little' = little \<and> uart_ready v
    \<and> mem v = (if cell_aligned k (addr_of A) then put_cell k (addr_of A) (addr_of D) (mem s) else mem s)
    \<and> u_sent (uart1 v) = u_sent (uart1 s) @ str ''>> '' @ write_line k A D @ crlf
        @ (if cell_aligned k (addr_of A) then [] else misaligned k) @ crlf
    \<and> uart_inp (uart1 v) = later)"
  by (rule returns_mono [OF soc_board.monitor_write_turn_wp [OF assms]]) (use assms(3) in \<open>auto simp: soc_does\<close>)

theorem monitor_program_writes_witness:
  "returns (monitor_turn soc_bus (True, replicate 40 0, demo (write_line 104 [50, 49] [97] @ [13])))
    (\<lambda>(little', buf, v). little' \<and> uart_ready v \<and> mem v = (\<lambda>_. 0)
    \<and> u_sent (uart1 v) = str ''>> '' @ write_line 104 [50, 49] [97] @ crlf @ misaligned 104 @ crlf
    \<and> uart_inp (uart1 v) = [])"
  using monitor_program_writes [of "demo (write_line 104 [50, 49] [97] @ [13])" "replicate 40 0" 104
      "[50, 49]" "[97]" "[]" True]
  by (simp add: demo_def isxdigit_def isdigit_def write_line_def addr_of_def hexnum_def
      hexval_def tolower_def IO_BASE_def cell_aligned_def)

text \<open>Its read commands leave memory alone and print the bytes of the cell two digits each, in the order
  of memory when little endian is selected and most significant first otherwise; a misaligned address
  is answered with a message and nothing is printed.\<close>

theorem monitor_program_reads:
  assumes "uart_ready s" and "length buffer = 40"
    and "uart_inp (uart1 s) = read_line k A @ 13 # later"
    and "k \<in> {98, 104, 119}" and "list_all isxdigit A" "A \<noteq> []"
    and "length (read_line k A) < 40" and "addr_of A < IO_BASE"
  shows "returns (monitor_turn soc_bus (little, buffer, s)) (\<lambda>(little', buf, v). little' = little \<and> uart_ready v
    \<and> mem v = mem s
    \<and> u_sent (uart1 v) = u_sent (uart1 s) @ str ''>> '' @ read_line k A @ crlf
        @ (if cell_aligned k (addr_of A) then shown_cell little k (mem s) (addr_of A) else misaligned k) @ crlf
    \<and> uart_inp (uart1 v) = later)"
  by (rule returns_mono [OF soc_board.monitor_read_turn_wp [OF assms]]) (use assms(3) in \<open>auto simp: soc_does\<close>)

theorem monitor_program_reads_witness:
  "returns (monitor_turn soc_bus (False, replicate 40 0, demo (read_line 119 [50, 48] @ [13])))
    (\<lambda>(little', buf, v). \<not> little' \<and> uart_ready v \<and> mem v = (\<lambda>_. 0)
    \<and> u_sent (uart1 v) = str ''>> '' @ read_line 119 [50, 48] @ crlf
        @ shown_cell False 119 (\<lambda>_. 0) (addr_of [50, 48]) @ crlf
    \<and> uart_inp (uart1 v) = [])"
  using monitor_program_reads [of "demo (read_line 119 [50, 48] @ [13])" "replicate 40 0" 119
      "[50, 48]" "[]" False]
  by (simp add: demo_def isxdigit_def isdigit_def read_line_def addr_of_def hexnum_def
      hexval_def tolower_def IO_BASE_def cell_aligned_def)

section \<open>Start-up, heap and time\<close>



text \<open>C7. Any sequence of \<^verbatim>\<open>sbrk\<close> requests that do not wrap the address space hands out blocks that
  do not overlap and lie between the end of the program and the stack.\<close>

theorem heap_blocks_disjoint:
  assumes "linked L" and "break L h \<le> stack_limit L"
    and "\<forall>n\<in>set ns. unat n + unat (stack_limit L) < 2 ^ 32"
  shows "sorted_wrt apart (fst (sbrks L ns h)) \<and>
    (\<forall>x\<in>set (fst (sbrks L ns h)). inside (unat (break L h)) (unat (stack_limit L)) x)"
  using assms by (rule sbrks_disjoint)

theorem heap_blocks_disjoint_witness:
  "sorted_wrt apart (fst (sbrks \<lparr> l_end = 100, l_stack_pointer = 300, l_stack_size = 50 \<rparr> [60, 90, 80]
      \<lparr> heap_end = 0, errno = 0 \<rparr>)) \<and>
    list_all (inside 100 250) (fst (sbrks \<lparr> l_end = 100, l_stack_pointer = 300, l_stack_size = 50 \<rparr>
      [60, 90, 80] \<lparr> heap_end = 0, errno = 0 \<rparr>))"
  using heap_blocks_disjoint [of "\<lparr> l_end = 100, l_stack_pointer = 300, l_stack_size = 50 \<rparr>"
      "\<lparr> heap_end = 0, errno = 0 \<rparr>" "[60, 90, 80]"]
  by (simp add: linked_def break_def stack_limit_def list_all_iff)

text \<open>A request that does not fit changes nothing but \<^verbatim>\<open>errno\<close>; the heap never reaches the
  reserved stack, whatever is requested.\<close>

theorem heap_keeps_off_stack:
  assumes "linked L" and "break L h \<le> stack_limit L"
  shows "break L (snd (sbrk L incr h)) \<le> stack_limit L
    \<and> (stack_limit L < break L h + incr \<longrightarrow> fst (sbrk L incr h) = -1
        \<and> break L (snd (sbrk L incr h)) = break L h \<and> errno (snd (sbrk L incr h)) = ENOMEM)"
  using sbrk_bounded [OF assms] sbrk_full by blast

theorem heap_keeps_off_stack_witness:
  "break \<lparr> l_end = 100, l_stack_pointer = 300, l_stack_size = 50 \<rparr>
     (snd (sbrk \<lparr> l_end = 100, l_stack_pointer = 300, l_stack_size = 50 \<rparr> 151 \<lparr> heap_end = 0, errno = 0 \<rparr>)) \<le> 250
   \<and> fst (sbrk \<lparr> l_end = 100, l_stack_pointer = 300, l_stack_size = 50 \<rparr> 151 \<lparr> heap_end = 0, errno = 0 \<rparr>) = -1"
  using heap_keeps_off_stack [of "\<lparr> l_end = 100, l_stack_pointer = 300, l_stack_size = 50 \<rparr>"
      "\<lparr> heap_end = 0, errno = 0 \<rparr>" 151]
  by (simp add: linked_def break_def stack_limit_def)

text \<open>C8. The 64-bit counters are read in two halves while they run; the value returned is one the
  counter had during the call, and the loop always ends.\<close>

theorem time_consistent:
  assumes "brisk s"
  shows "returns (csr_get_time soc_bus s) (\<lambda>(v, t). aside t = aside s \<and> now s \<le> now t \<and>
      (now t < 2 ^ 64 \<longrightarrow> (\<exists>n. now s \<le> n \<and> n \<le> now t \<and> v = word_of_nat n)))
    \<and> returns (csr_get_cycle soc_bus s) (\<lambda>(v, t). aside t = aside s \<and> now s \<le> now t \<and>
      (now t < 2 ^ 64 \<longrightarrow> (\<exists>n. now s \<le> n \<and> n \<le> now t \<and> v = word_of_nat n)))"
  using soc_time.get_wp [OF assms] soc_cycle.get_wp [OF assms]
  unfolding csr_get_time_def csr_get_cycle_def soc_time.observes_def soc_cycle.observes_def
  by (auto elim!: returns_mono)

theorem time_consistent_witness:
  "returns (csr_get_time soc_bus ((demo []) \<lparr> now := 2 ^ 32 - 2 \<rparr>)) (\<lambda>(v, t). 2 ^ 32 - 2 \<le> now t \<and>
      (2 ^ 64 \<le> now t \<or> (\<exists>n. 2 ^ 32 - 2 \<le> n \<and> n \<le> now t \<and> v = word_of_nat n)))"
proof -
  have "brisk ((demo []) \<lparr> now := 2 ^ 32 - 2 \<rparr>)"
    using demo_simps(7) by (simp add: brisk_def demo_def)
  from time_consistent [OF this] show ?thesis by (auto elim!: returns_mono)
qed

text \<open>\<^verbatim>\<open>gettimeofday\<close> splits such a time into seconds and microseconds without loss.\<close>

theorem gettimeofday_exact:
  assumes "brisk s"
  shows "returns (gettimeofday soc_bus s) (\<lambda>(r, tv, t). r = 0 \<and> unat (tv_usec tv) < 1000000 \<and>
    (now t < 2 ^ 64 \<longrightarrow> now s \<le> unat (tv_sec tv) * 1000000 + unat (tv_usec tv)
      \<and> unat (tv_sec tv) * 1000000 + unat (tv_usec tv) \<le> now t))"
proof -
  have "unat (word_of_nat n :: u64) = n" if "n \<le> now t" "now t < 2 ^ 64" for n t
    using that by (simp add: unsigned_of_nat take_bit_nat_eq_self_iff)
  then show ?thesis
    using soc_time.get_wp [OF assms] time_split
    unfolding gettimeofday_def soc_time.observes_def
    by (fastforce simp: returns_bind_iff Let_def elim!: returns_mono)
qed

theorem gettimeofday_exact_witness:
  "returns (gettimeofday soc_bus (demo [])) (\<lambda>(r, tv, t). r = 0 \<and> unat (tv_usec tv) < 1000000 \<and>
    (2 ^ 64 \<le> now t \<or> unat (tv_sec tv) * 1000000 + unat (tv_usec tv) \<le> now t))"
  using gettimeofday_exact [of "demo []"] by (auto simp: demo_def elim!: returns_mono)

text \<open>\<^verbatim>\<open>_write\<close> and \<^verbatim>\<open>_read\<close> over the serial port transfer exactly the characters asked for.\<close>

theorem write_read_uart:
  assumes "uart_ready s" and "n \<le> int (length out)" and "uart_inp (uart1 s) = cs @ later"
    and "length cs \<le> length buf"
  shows "returns (sys_write (uart1_putc soc_bus) out n s)
      (\<lambda>(r, t). r = n \<and> talked (take (nat n) out) [] s t)
    \<and> returns (sys_read (uart1_getc soc_bus) buf (int (length cs)) s)
      (\<lambda>(r, buf', t). r = int (length cs) \<and> buf' = cs @ drop (length cs) buf \<and> talked [] cs s t)"
  using soc_uart.sys_write_wp [OF assms(1,2)] soc_uart.sys_read_wp [OF assms(1,3,4)]
  by (simp add: talked_talks)

theorem write_read_uart_witness:
  "returns (sys_write (uart1_putc soc_bus) [1, 2, 3] 2 (demo [7, 8, 9]))
      (\<lambda>(r, t). r = 2 \<and> talked [1, 2] [] (demo [7, 8, 9]) t)
    \<and> returns (sys_read (uart1_getc soc_bus) [0, 0, 0] 2 (demo [7, 8, 9]))
      (\<lambda>(r, buf', t). r = 2 \<and> buf' = [7, 8, 0] \<and> talked [] [7, 8] (demo [7, 8, 9]) t)"
  using write_read_uart [of "demo [7, 8, 9]" 2 "[1, 2, 3]" "[7, 8]" "[9]" "[0, 0, 0]"]
  by (simp add: demo_def numeral_2_eq_2)


section \<open>SPI, I2C, CRC and GPIO\<close>

text \<open>A transfer of \<open>len\<close> bytes over SPI: the bytes of the first buffer go out in order, what the
  slave answers to each of them is stored at the same position of the second, and the rest of that
  buffer and of the machine is unchanged.\<close>

theorem spi_exchange:
  assumes "spi_ready slave (spi1 s)" and "unat len \<le> length buft" and "unat len \<le> length bufr"
  shows "returns (spi1_transmit_receive soc_bus buft bufr len s) (\<lambda>(buf, t).
    buf = answers slave (s_sent (spi1 s)) (map (Pair (io s GPIOA_POUT)) (take (unat len) buft))
      @ drop (unat len) bufr
    \<and> s_sent (spi1 t) = s_sent (spi1 s) @ map (Pair (io s GPIOA_POUT)) (take (unat len) buft)
    \<and> spi_ready slave (spi1 t) \<and> aside t = aside s)"
  unfolding spi1_transmit_receive_def
  by (rule soc_spi1.transmit_receive_loop_wp [OF assms(1,2)])
    (use assms(3) in \<open>auto simp: soc_spi1.swaps_def\<close>)

theorem spi_exchange_witness:
  "returns (spi1_transmit_receive soc_bus [5, 6, 7] [0, 0, 0] 2 (demo [])) (\<lambda>(buf, t).
    buf = [5, 6, 0] \<and> s_sent (spi1 t) = [(0, 5), (0, 6)] \<and> spi_ready echo_slave (spi1 t)
    \<and> aside t = aside (demo []))"
  using spi_exchange [of echo_slave "demo []" 2 "[5, 6, 7]" "[0, 0, 0]"]
  by (simp add: demo_def echo_slave_def take_Cons' drop_Cons')

text \<open>Receiving sends the dummy byte once per byte received, on both units.\<close>

theorem spi_receives:
  assumes "spi_ready slave (spi2 s)" and "unat len \<le> length buf"
  shows "returns (spi2_receive soc_bus buf len dummy s) (\<lambda>(buf', t).
    buf' = answers slave (s_sent (spi2 s)) (replicate (unat len) (io s GPIOA_POUT, ucast dummy))
      @ drop (unat len) buf
    \<and> s_sent (spi2 t) = s_sent (spi2 s) @ replicate (unat len) (io s GPIOA_POUT, ucast dummy)
    \<and> spi_ready slave (spi2 t) \<and> aside t = aside s)"
  unfolding spi2_receive_def
  by (rule soc_spi2.receive_loop_wp [OF assms(1)])
    (use assms(2) in \<open>auto simp: soc_spi2.swaps_def map_replicate_const\<close>)

theorem spi_receives_witness:
  "returns (spi2_receive soc_bus [0, 0, 0] 2 0xff (demo [])) (\<lambda>(buf, t). buf = [0xff, 0xff, 0]
    \<and> s_sent (spi2 t) = [(0, 0xff), (0, 0xff)] \<and> spi_ready echo_slave (spi2 t) \<and> aside t = aside (demo []))"
  using spi_receives [of echo_slave "demo []" 2 "[0, 0, 0]" "0xff"]
  by (simp add: demo_def echo_slave_def take_Cons' drop_Cons')

text \<open>C3. A write over I2C is exactly one transaction: a START condition, the address and the bytes up
  to the first one that is not acknowledged, and one STOP condition. The result is 0 when and only
  when everything was acknowledged, and then the unit is idle again.\<close>

theorem i2c_write_transaction:
  assumes "i2c_ready slave (i2c1 s)" and "calm (i_ctrl (i2c1 s))" and "i_ctrl (i2c1 s) AND I2C_MACK = 0"
    and "0 < unat len" "unat len \<le> length buf"
    and h: "h = i_wire (i2c1 s) @ [Start]" and cs: "cs = address # take (unat len) buf"
  shows "returns (i2c1_transmit soc_bus address (Some buf) len s) (\<lambda>(r, t).
    i_wire (i2c1 t) = i_wire (i2c1 s) @ [Start] @ written slave h cs @ [Stop]
    \<and> (r = 0 \<longleftrightarrow> accepted slave h cs) \<and> (r = 0 \<longrightarrow> i2c_ready slave (i2c1 t)) \<and> aside t = aside s)"
  unfolding i2c1_transmit_def
  by (rule soc_i2c1.transmit_wp [where slave = slave, OF _ _ _ assms(4,5)])
    (use assms in \<open>auto simp: soc_i2c1.sends_def I2C_AF_def\<close>)

theorem i2c_write_transaction_witness:
  "returns (i2c1_transmit soc_bus 0x20 (Some [1, 2, 3]) 2 (demo [])) (\<lambda>(r, t). r = 0
    \<and> i_wire (i2c1 t) = [Start, Byte 0x20 True, Byte 1 True, Byte 2 True, Stop])"
proof -
  have "returns (i2c1_transmit soc_bus 0x20 (Some [1, 2, 3]) 2 (demo [])) (\<lambda>(r, t).
      i_wire (i2c1 t) = i_wire (i2c1 (demo [])) @ [Start] @ written count_slave [Start] [0x20, 1, 2] @ [Stop]
      \<and> (r = 0 \<longleftrightarrow> accepted count_slave [Start] [0x20, 1, 2])
      \<and> (r = 0 \<longrightarrow> i2c_ready count_slave (i2c1 t)) \<and> aside t = aside (demo []))"
    by (rule i2c_write_transaction) (simp_all add: demo_def calm_def take_Cons')
  then show ?thesis
    by (rule returns_mono) (auto simp: demo_def count_slave_def)
qed

text \<open>C4. A read over I2C: when the slave answers its address, one transaction in which every byte
  but the last is acknowledged, and the bytes of the slave in the caller's array. When it does not,
  the array is unchanged and no STOP condition is sent: the bus stays occupied.\<close>

theorem i2c_read_transaction:
  assumes "i2c_ready slave (i2c1 s)" and "calm (i_ctrl (i2c1 s))" and "i_ctrl (i2c1 s) AND I2C_MACK = 0"
    and "0 < unat len" "unat len \<le> length buf" and h: "h = i_wire (i2c1 s) @ [Start]"
  shows "returns (i2c1_receive soc_bus address (Some buf) len s) (\<lambda>(r, buf', t).
    i2c_ready slave (i2c1 t) \<and> aside t = aside s \<and>
    (if snd (slave h (Byte address True)) then
       r \<noteq> 0 \<and> buf' = Some buf \<and> i_wire (i2c1 t) = h @ [Byte address True]
     else r = 0 \<and> buf' = Some (given slave (h @ [Byte address True]) (unat len) @ drop (unat len) buf)
       \<and> i_wire (i2c1 t) = h @ [Byte address True] @ wanted (unat len) @ [Stop]))"
  unfolding i2c1_receive_def
  by (rule soc_i2c1.receive_wp [where slave = slave, OF _ _ _ assms(4,5)])
    (use assms in \<open>auto simp: soc_i2c1.sends_def I2C_AF_def\<close>)

theorem i2c_read_transaction_witness:
  "returns (i2c1_receive soc_bus 0x21 (Some [0, 0]) 1 (demo_soc [] echo_slave absent_slave))
    (\<lambda>(r, buf', t). r \<noteq> 0 \<and> buf' = Some [0, 0] \<and> i_wire (i2c1 t) = [Start, Byte 0x21 True])"
  using i2c_read_transaction [of absent_slave "demo_soc [] echo_slave absent_slave" 1 "[0, 0]" _ "0x21"]
  by (simp add: calm_def absent_slave_def) (auto elim!: returns_mono)

text \<open>\<^verbatim>\<open>crc_block\<close> shifts the bytes of a block into the register one after the other.\<close>

theorem crc_block_folds:
  assumes "crc_ready f (crc1 s)" and "unat len \<le> length block"
  shows "returns (crc_block soc_bus block len s) (\<lambda>t. crc_ready f (crc1 t)
    \<and> c_sreg (crc1 t) = fold f (take (unat len) block) (c_sreg (crc1 s)) \<and> aside t = aside s)"
  using soc_crc.block_wp [OF assms] unfolding soc_crc.sums_def by simp

theorem crc_block_folds_witness:
  "returns (crc_block soc_bus [1, 2, 3] 2 (demo [])) (\<lambda>t. c_sreg (crc1 t) = 17)"
proof -
  have "crc_ready (\<lambda>d r. (r XOR ucast d) + 7) (crc1 (demo []))"
    by (simp add: crc_ready_def demo_def demo_soc_def)
  from crc_block_folds [OF this, of 2 "[1, 2, 3]"] show ?thesis
    by (simp add: demo_def demo_soc_def take_Cons') (auto elim!: returns_mono)
qed

text \<open>The pin functions change the chosen pins of the output register and no others.\<close>

theorem gpio_pins:
  "io (gpioa_writepin soc_bus pin value s) =
     (io s)(GPIOA_POUT := if value = 0 then io s GPIOA_POUT AND NOT pin else io s GPIOA_POUT OR pin)
   \<and> io (gpioa_togglepin soc_bus pin s) = (io s)(GPIOA_POUT := io s GPIOA_POUT XOR pin)
   \<and> io (gpioa_togglepin soc_bus pin (gpioa_togglepin soc_bus pin s)) = io s"
  by (simp add: gpioa_writepin_def gpioa_togglepin_def rmw_def soc_gpio GPIO_PIN_RESET_def xor.assoc)

end
